(* ===== verification/Prelude.thy ===== *)
theory Prelude
  imports Main "HOL-Library.Word" "HOL-Library.Signed_Division" "HOL-Library.Monad_Syntax"
begin

text \<open>
  The vocabulary shared by the component theories: the C integer types of the driver as
  machine words, the readings of a word as an unsigned (\<open>unat\<close>) and as a signed
  (\<open>sint\<close>) number, and the generic lemmas that move shifts, masks, sums and products of
  words to natural numbers.

  A C value of type \<open>int64_t\<close> and one of type \<open>uint64_t\<close> are both a
  \<open>64 word\<close>: casts between them keep the bits. The kernel is compiled with wrapping
  signed arithmetic, so \<open>+\<close>, \<open>-\<close> and \<open>*\<close> of words are those of the code
  at either signedness. Comparisons, divisions and right shifts depend on the signedness and
  are written with \<open>sint\<close>, \<open>c_sdiv\<close> and \<open>signed_drop_bit\<close> where the C type
  is signed. Behaviour that C leaves undefined or that traps (a shift by at least the width, a
  division by zero) is \<open>None\<close>.

  The \<open>ASSERT\<close> of \<open>dal/dc/dm_services.h\<close> only prints a warning: it never
  changes what a function returns, so it is no branch of the model.
\<close>

unbundle bit_operations_syntax

type_synonym u8 = "8 word"
type_synonym u16 = "16 word"
type_synonym u32 = "32 word"
type_synonym u64 = "64 word"
type_synonym i32 = "32 word"
type_synonym i64 = "64 word"

text \<open>
  Collections: \<open>word_nat\<close> holds the rules that turn word operations into operations on
  natural numbers, \<open>c_defs\<close> the definitions of C operations to unfold in evaluation.
\<close>

named_theorems word_nat
named_theorems c_defs

section \<open>Words as natural numbers\<close>

lemma unat_lt_len: "unat (w :: 'a::len word) < 2 ^ LENGTH('a)"
  by (rule unsigned_less)

lemma unat_shiftr [word_nat]: "unat (drop_bit n (w :: 'a::len word)) = unat w div 2 ^ n"
  by (simp only: unat_drop_bit_eq) (simp add: drop_bit_eq_div)

lemma unat_shiftl_mod: "unat (push_bit n (w :: 'a::len word)) = unat w * 2 ^ n mod 2 ^ LENGTH('a)"
proof -
  have "uint (push_bit n w) = uint w * 2 ^ n mod 2 ^ LENGTH('a)"
    by (transfer fixing: n) (simp add: push_bit_eq_mult take_bit_eq_mod mod_mult_left_eq)
  then have "int (unat (push_bit n w)) = int (unat w * 2 ^ n mod 2 ^ LENGTH('a))"
    by (simp add: zmod_int)
  then show ?thesis by (simp only: of_nat_eq_iff)
qed

lemma unat_shiftl [word_nat]:
  "unat (w :: 'a::len word) * 2 ^ n < 2 ^ LENGTH('a) \<Longrightarrow> unat (push_bit n w) = unat w * 2 ^ n"
  by (simp add: unat_shiftl_mod)

lemma unat_take_bit [word_nat]: "unat (take_bit n (w :: 'a::len word)) = unat w mod 2 ^ n"
proof -
  have "uint (take_bit n w) = take_bit n (uint w)"
    by (transfer fixing: n) (simp add: ac_simps)
  then have "int (unat (take_bit n w)) = int (unat w mod 2 ^ n)"
    by (simp add: zmod_int take_bit_eq_mod)
  then show ?thesis by (simp only: of_nat_eq_iff)
qed

lemma unat_and_mask [word_nat]: "unat (w AND mask n) = unat (w :: 'a::len word) mod 2 ^ n"
  by (simp only: take_bit_eq_mask [symmetric] unat_take_bit)

lemma unat_add_small [word_nat]:
  "unat (a :: 'a::len word) + unat b < 2 ^ LENGTH('a) \<Longrightarrow> unat (a + b) = unat a + unat b"
  by (simp add: unat_add_lem)

lemma unat_mult_small [word_nat]:
  "unat (a :: 'a::len word) * unat b < 2 ^ LENGTH('a) \<Longrightarrow> unat (a * b) = unat a * unat b"
  by (simp add: unat_mult_lem)

lemma unat_uminus_word:
  assumes "(w :: 'a::len word) \<noteq> 0"
  shows "unat (- w) = 2 ^ LENGTH('a) - unat w"
  using assms unat_sub_if' [of 0 w] by (simp add: unat_gt_0)

lemma unat_ucast: "unat (ucast (w :: 'a::len word) :: 'b::len word) = unat w mod 2 ^ LENGTH('b)"
  by (simp add: unsigned_ucast_eq take_bit_eq_mod)

lemma unat_of_bool [simp]: "unat (of_bool b :: 'a::len word) = of_bool b"
  by (cases b) simp_all

lemma or_1_even: "even (w :: 'a::len word) \<Longrightarrow> w OR 1 = w + 1"
  by (simp add: or_one_eq)

section \<open>Words as signed numbers\<close>

lemma pow_len_half: "(2::'b::semiring_1) ^ LENGTH('a::len) = 2 * 2 ^ (LENGTH('a) - 1)"
  by (metis One_nat_def Suc_pred len_gt_0 power_Suc)

lemma sint_if_unat:
  "sint (w :: 'a::len word) = (if unat w < 2 ^ (LENGTH('a) - 1) then int (unat w)
     else int (unat w) - 2 ^ LENGTH('a))"
proof -
  obtain n where n: "LENGTH('a) = Suc n"
    using len_gt_0 [where ?'a = 'a] by (metis gr0_implies_Suc)
  define h where "h = (2::int) ^ n"
  have p: "(2::int) ^ LENGTH('a) = 2 * h" by (simp add: n h_def)
  have s: "sint w = (uint w + h) mod (2 * h) - h"
    unfolding h_def power_Suc [symmetric] take_bit_eq_mod [symmetric]
      signed_take_bit_eq_take_bit_shift [symmetric]
    by (simp only: sint_uint n diff_Suc_Suc diff_zero)
  have b: "uint w < 2 * h" "0 \<le> uint w" using p uint_lt2p [of w] by simp_all
  have u: "(unat w < 2 ^ (LENGTH('a) - 1)) = (uint w < h)"
    unfolding n h_def of_nat_less_iff [where ?'a = int, symmetric] by simp
  have i: "int (unat w) = uint w" by simp
  show ?thesis
  proof (cases "uint w < h")
    case True
    then have "(uint w + h) mod (2 * h) = uint w + h" using b
      by (intro mod_pos_pos_trivial) linarith+
    then show ?thesis unfolding s u i using True by simp
  next
    case False
    then have "(uint w + h) mod (2 * h) = uint w + h - 2 * h" using b
      by (simp add: mod_pos_geq)
    then show ?thesis unfolding s u i p using False by simp
  qed
qed

lemma sint_lt0: "(sint (w :: 'a::len word) < 0) = (2 ^ (LENGTH('a) - 1) \<le> unat w)"
proof -
  have "int (unat w) < int (2 ^ LENGTH('a))" using unat_lt_len [of w] by (simp only: of_nat_less_iff)
  then show ?thesis by (auto simp: sint_if_unat)
qed

lemma sint_of_small: "unat (w :: 'a::len word) < 2 ^ (LENGTH('a) - 1) \<Longrightarrow> sint w = int (unat w)"
  by (simp add: sint_if_unat)

lemma sint_uminus_small:
  assumes "unat (w :: 'a::len word) \<le> 2 ^ (LENGTH('a) - 1)"
  shows "sint (- w) = - int (unat w)"
proof (cases "w = 0")
  case False
  have n: "unat (- w) = 2 ^ LENGTH('a) - unat w" using False by (rule unat_uminus_word)
  have l: "unat w < 2 ^ LENGTH('a)" by (rule unat_lt_len)
  have h: "(2::nat) ^ LENGTH('a) = 2 * 2 ^ (LENGTH('a) - 1)" by (rule pow_len_half)
  have "2 ^ (LENGTH('a) - 1) \<le> unat (- w)" using assms n h by linarith
  then have "sint (- w) = int (2 ^ LENGTH('a) - unat w) - 2 ^ LENGTH('a)"
    by (simp only: sint_if_unat n) simp
  then show ?thesis using l by (simp add: less_imp_le)
qed simp

text \<open>The magnitude of a signed value, as an unsigned value: \<open>x < 0 ? -x : x\<close>.\<close>

definition c_abs :: "'a::len word \<Rightarrow> 'a word" where
  "c_abs w = (if sint w < 0 then - w else w)"

lemma unat_c_abs: "unat (c_abs w) = nat \<bar>sint (w :: 'a::len word)\<bar>"
proof (cases "sint w < 0")
  case True
  then have "w \<noteq> 0" by auto
  then have "unat (c_abs w) = 2 ^ LENGTH('a) - unat w" using True
    by (simp add: c_abs_def unat_uminus_word)
  moreover have "int (2 ^ LENGTH('a) - unat w) = - sint w"
    using True sint_lt0 [of w] sint_if_unat [of w] less_imp_le [OF unat_lt_len [of w]] by simp
  ultimately show ?thesis using True by linarith
next
  case False
  then have "sint w = int (unat w)" using sint_lt0 [of w] by (simp add: sint_if_unat)
  then show ?thesis using False by (simp add: c_abs_def)
qed

lemma unat_of_sint:
  "0 \<le> sint (w :: 'a::len word) \<Longrightarrow> unat w = nat (sint w)"
  "sint (w :: 'a::len word) \<le> 0 \<Longrightarrow> unat (- w) = nat (- sint w)"
  using unat_c_abs [of w] signed_eq_0_iff [of w, where ?'a = int]
  by (auto simp: c_abs_def split: if_splits)

lemma unat_c_abs_le: "unat (c_abs (w :: 'a::len word)) \<le> 2 ^ (LENGTH('a) - 1)"
proof -
  have "2 ^ LENGTH('a) - unat w \<le> 2 ^ (LENGTH('a) - 1)" if "2 ^ (LENGTH('a) - 1) \<le> unat w"
    using that pow_len_half [where ?'a = 'a and ?'b = nat] by linarith
  moreover have "w \<noteq> 0" if "sint w < 0" using that by auto
  ultimately show ?thesis
    using sint_lt0 [of w] by (auto simp: c_abs_def unat_uminus_word)
qed

text \<open>Putting a sign on a magnitude, as the fixed-point routines do at their end.\<close>

definition c_sign :: "bool \<Rightarrow> 'a::len word \<Rightarrow> 'a word" where
  "c_sign neg w = (if neg then - w else w)"

lemma sint_c_sign:
  "unat (w :: 'a::len word) < 2 ^ (LENGTH('a) - 1) \<Longrightarrow>
   sint (c_sign neg w) = (if neg then - int (unat w) else int (unat w))"
  by (simp add: c_sign_def sint_of_small sint_uminus_small)

text \<open>The sign put on the truncation of a 64-bit magnitude to 32 bits.\<close>

lemma sint_c_sign_ucast:
  fixes w :: u64
  assumes "unat w \<le> 2 ^ 31" and "neg \<or> unat w < 2 ^ 31"
  shows "sint (c_sign neg (ucast w :: i32)) = (if neg then - int (unat w) else int (unat w))"
proof -
  have "unat (ucast w :: i32) = unat w" using assms(1) by (simp add: unat_ucast)
  then show ?thesis
    using assms sint_uminus_small [of "ucast w :: i32"] sint_of_small [of "ucast w :: i32"]
    by (auto simp: c_sign_def)
qed

text \<open>Signed division truncates towards zero (\<open>div64_s64\<close>).\<close>

definition c_sdiv :: "'a::len word \<Rightarrow> 'a word \<Rightarrow> 'a word option" where
  "c_sdiv a b = (if b = 0 then None else Some (word_of_int (sint a sdiv sint b)))"

text \<open>Unsigned division with remainder (\<open>div64_u64_rem\<close>); a zero divisor traps.\<close>

definition div64_u64_rem :: "u64 \<Rightarrow> u64 \<Rightarrow> (u64 \<times> u64) option" where
  "div64_u64_rem n d = (if d = 0 then None else Some (n div d, n mod d))"

text \<open>Left shift: undefined when the count is at least the width.\<close>

definition c_shl :: "'a::len word \<Rightarrow> nat \<Rightarrow> 'a word option" where
  "c_shl w n = (if n < LENGTH('a) then Some (push_bit n w) else None)"

definition c_sar :: "'a::len word \<Rightarrow> nat \<Rightarrow> 'a word option" where
  "c_sar w n = (if n < LENGTH('a) then Some (signed_drop_bit n w) else None)"

definition c_shr :: "'a::len word \<Rightarrow> nat \<Rightarrow> 'a word option" where
  "c_shr w n = (if n < LENGTH('a) then Some (drop_bit n w) else None)"

text \<open>The halves of a 64-bit value.\<close>

definition lower_32_bits :: "u64 \<Rightarrow> u32" where
  "lower_32_bits n = ucast n"

definition upper_32_bits :: "u64 \<Rightarrow> u32" where
  "upper_32_bits n = ucast (drop_bit 32 n)"

text \<open>Array access: outside the bounds there is no result.\<close>

definition nth_opt :: "'a list \<Rightarrow> nat \<Rightarrow> 'a option" where
  "nth_opt xs i = (if i < length xs then Some (xs ! i) else None)"

definition update_opt :: "'a list \<Rightarrow> nat \<Rightarrow> 'a \<Rightarrow> 'a list option" where
  "update_opt xs i v = (if i < length xs then Some (xs[i := v]) else None)"

lemma nth_opt_Some_iff: "nth_opt xs i = Some v \<longleftrightarrow> i < length xs \<and> xs ! i = v"
  by (auto simp: nth_opt_def)

lemma update_opt_Some_iff: "update_opt xs i v = Some ys \<longleftrightarrow> i < length xs \<and> ys = xs[i := v]"
  by (auto simp: update_opt_def)

lemma nth_opt_update: "update_opt xs i v = Some ys \<Longrightarrow> nth_opt ys j = (if i = j then Some v else nth_opt xs j)"
  by (auto simp: nth_opt_def update_opt_def split: if_splits)

lemma sint_word_of_int_small:
  "- (2 ^ 63) \<le> k \<Longrightarrow> k < 2 ^ 63 \<Longrightarrow> sint (word_of_int k :: i64) = k"
  using signed_take_bit_int_eq_self [of 63 k] by (simp add: sint_sbintrunc')

lemma unat_of_nat_small: "n < 2 ^ LENGTH('a) \<Longrightarrow> unat (of_nat n :: 'a::len word) = n"
  by (simp add: unat_of_nat take_bit_nat_eq_self)

text \<open>
  The outcome of a computation with fuel: a result, the undefined behaviour of the C code, or the end
  of the fuel. Outcomes are ordered by how far the computation got.
\<close>

datatype 'a outcome = Returned 'a | Fault | Timeout

definition outcome_of :: "'a option \<Rightarrow> 'a outcome" where
  "outcome_of r = (case r of None \<Rightarrow> Fault | Some x \<Rightarrow> Returned x)"

definition outcome_le :: "'a outcome \<Rightarrow> 'a outcome \<Rightarrow> bool" where
  "outcome_le a b = (a = Timeout \<or> a = b)"

lemma outcome_le_refl [simp, intro]: "outcome_le a a" by (simp add: outcome_le_def)

lemma outcome_le_case:
  "outcome_le a b \<Longrightarrow> (\<And>x. outcome_le (f x) (g x)) \<Longrightarrow>
   outcome_le (case a of Returned x \<Rightarrow> f x | Fault \<Rightarrow> Fault | Timeout \<Rightarrow> Timeout)
     (case b of Returned x \<Rightarrow> g x | Fault \<Rightarrow> Fault | Timeout \<Rightarrow> Timeout)"
  by (auto simp: outcome_le_def split: outcome.splits)

text \<open>Elimination of a bind in a hypothesis.\<close>

lemma bind_eq_SomeE: "Option.bind x f = Some y \<Longrightarrow> (\<And>z. x = Some z \<Longrightarrow> f z = Some y \<Longrightarrow> P) \<Longrightarrow> P"
  by (cases x) auto

end
