(* ===== verification/Fixed_Arith.thy ===== *)
theory Fixed_Arith
  imports Prelude
begin

text \<open>
  The contract of the bit-by-bit division shared by the fixed-point libraries of the display
  core (\<open>dal/dc/basics/fixpt31_32.c\<close>, \<open>dal/dc/basics/fixpt32_32.c\<close> and
  \<open>dal/dc/calcs/bw_fixed.c\<close>). Each of them starts from the quotient and remainder of an
  integer division and then shifts one more bit of the quotient in per iteration. The locale
  \<open>long_division\<close> takes one iteration as its operation and assumes what it promises while
  nothing overflows; the lemmas inside it give the quotient after any number of iterations and
  the value after the final rounding. Each library interprets it with its own loop body.

  The locale \<open>fixed_parts\<close> is the contract of the functions that split a value into its
  integer and fractional part; inside it the schoolbook product of two split values is shown to
  be the shifted full product.
\<close>

lemma div_mod_double:
  fixes N d :: nat
  assumes "0 < d"
  shows "2 * N div d = 2 * (N div d) + 2 * (N mod d) div d"
    and "2 * N mod d = 2 * (N mod d) mod d"
proof -
  have N: "2 * N = 2 * (N div d) * d + 2 * (N mod d)"
    by (subst div_mult_mod_eq [of N d, symmetric]) (simp only: distrib_left mult.assoc)
  show "2 * N div d = 2 * (N div d) + 2 * (N mod d) div d"
    using assms by (subst N) simp
  show "2 * N mod d = 2 * (N mod d) mod d"
    by (simp add: mod_mult_right_eq)
qed

text \<open>Rounding a quotient half up, from its floor and its remainder.\<close>

lemma round_half_up:
  fixes M d :: nat
  assumes "0 < d"
  shows "(2 * M + d) div (2 * d) = M div d + (if d \<le> 2 * (M mod d) then 1 else 0)"
proof -
  have M: "2 * M + d = (2 * d) * (M div d) + (2 * (M mod d) + d)"
    by (subst mult_div_mod_eq [of d M, symmetric]) (simp only: distrib_left mult.assoc add.assoc)
  have r: "M mod d < d" using assms by simp
  have "(2 * (M mod d) + d) div (2 * d) = (if d \<le> 2 * (M mod d) then 1 else 0)"
  proof (cases "d \<le> 2 * (M mod d)")
    case True
    then show ?thesis using r by (simp add: div_nat_eqI)
  next
    case False
    then show ?thesis by simp
  qed
  then show ?thesis using assms unfolding M by simp
qed

text \<open>Rounding a quotient up.\<close>

lemma div_round_up:
  fixes n k :: nat
  assumes "0 < k"
  shows "(n + (k - 1)) div k = n div k + of_bool (n mod k \<noteq> 0)"
proof -
  have "n + (k - 1) = k * (n div k) + (n mod k + (k - 1))" by simp
  then have "(n + (k - 1)) div k = n div k + (n mod k + (k - 1)) div k"
    using assms by (simp only: div_mult_self4)
  moreover have "(n mod k + (k - 1)) div k = of_bool (n mod k \<noteq> 0)"
    using assms mod_less_divisor [OF assms, of n] by (auto simp: of_bool_def intro: div_nat_eqI)
  ultimately show ?thesis by simp
qed

text \<open>One shift-and-subtract iteration on 64-bit values that do not overflow.\<close>

lemma double_div_mod:
  fixes r d :: nat
  assumes "r < d"
  shows "2 * r div d = (if d \<le> 2 * r then 1 else 0)"
    and "2 * r mod d = (if d \<le> 2 * r then 2 * r - d else 2 * r)"
  using assms by (auto simp: div_nat_eqI le_mod_geq)

lemma unat_push_bit_1: "unat (w :: u64) < 2 ^ 63 \<Longrightarrow> unat (push_bit 1 w) = 2 * unat w"
  using unat_shiftl [of w 1] by simp

lemma shift_subtract_step:
  fixes d q r :: u64
  assumes d: "unat d \<le> 2 ^ 63" and r: "unat r < unat d" and q: "unat q < 2 ^ 63"
  shows "unat (if d \<le> push_bit 1 r then push_bit 1 q OR 1 else push_bit 1 q) =
      2 * unat q + 2 * unat r div unat d"
    and "unat (if d \<le> push_bit 1 r then push_bit 1 r - d else push_bit 1 r) = 2 * unat r mod unat d"
proof -
  have r2: "unat (push_bit 1 r) = 2 * unat r" using r d by (intro unat_push_bit_1) simp
  have q2: "unat (push_bit 1 q) = 2 * unat q" using q by (rule unat_push_bit_1)
  have le: "(d \<le> push_bit 1 r) = (unat d \<le> 2 * unat r)" unfolding word_le_nat_alt r2 ..
  have "even (push_bit 1 q)" by (simp add: push_bit_eq_mult)
  then have "push_bit 1 q OR 1 = push_bit 1 q + 1" by (rule or_1_even)
  moreover have "unat (push_bit 1 q + 1) = unat (push_bit 1 q) + unat (1 :: u64)"
    by (rule unat_add_small) (unfold q2, use q in simp)
  ultimately show "unat (if d \<le> push_bit 1 r then push_bit 1 q OR 1 else push_bit 1 q) =
      2 * unat q + 2 * unat r div unat d"
    unfolding le double_div_mod [OF r] by (simp only: q2 unat_1 split: if_split) simp
  have "unat (push_bit 1 r - d) = 2 * unat r - unat d" if "unat d \<le> 2 * unat r"
    using that le r2 unat_sub by metis
  then show "unat (if d \<le> push_bit 1 r then push_bit 1 r - d else push_bit 1 r) = 2 * unat r mod unat d"
    unfolding le double_div_mod [OF r] by (simp only: r2 split: if_split) simp
qed

locale long_division =
  fixes step :: "u64 \<Rightarrow> u64 \<times> u64 \<Rightarrow> u64 \<times> u64"
  assumes step_spec:
    "unat d \<le> 2 ^ 63 \<Longrightarrow> unat r < unat d \<Longrightarrow> unat q < 2 ^ 63 \<Longrightarrow> step d (q, r) = (q', r') \<Longrightarrow>
     unat q' = 2 * unat q + 2 * unat r div unat d \<and> unat r' = 2 * unat r mod unat d"
begin

lemma step_run:
  assumes d: "unat d \<le> 2 ^ 63" and r0: "unat r0 < unat d"
    and q0: "unat q0 < 2 ^ (64 - n)" and n: "n \<le> 64"
    and run: "(step d ^^ n) (q0, r0) = (q, r)"
  shows "unat q = 2 ^ n * (unat q0 * unat d + unat r0) div unat d
    \<and> unat r = 2 ^ n * (unat q0 * unat d + unat r0) mod unat d"
  using q0 n run
proof (induction n arbitrary: q r)
  case 0
  then show ?case using r0 by auto
next
  case (Suc n)
  let ?N = "unat q0 * unat d + unat r0"
  obtain q1 r1 where mid: "(step d ^^ n) (q0, r0) = (q1, r1)" by fastforce
  have small: "unat q0 < 2 ^ (64 - n)"
  proof -
    have "(2::nat) ^ (64 - Suc n) \<le> 2 ^ (64 - n)" by (rule power_increasing) simp_all
    then show ?thesis using Suc.prems(1) by linarith
  qed
  have IH: "unat q1 = 2 ^ n * ?N div unat d" "unat r1 = 2 ^ n * ?N mod unat d"
    using Suc.IH [OF small _ mid] Suc.prems(2) by simp_all
  have dpos: "0 < unat d" using r0 by simp
  have "2 ^ n * ?N < 2 ^ n * (2 ^ (64 - Suc n) * unat d)"
  proof -
    have "?N < (unat q0 + 1) * unat d" using r0 by simp
    also have "\<dots> \<le> 2 ^ (64 - Suc n) * unat d" using Suc.prems(1) by (intro mult_right_mono) simp_all
    finally show ?thesis by simp
  qed
  also have "\<dots> = 2 ^ 63 * unat d"
    using Suc.prems(2) by (simp add: mult.assoc [symmetric] power_add [symmetric])
  finally have "unat q1 < 2 ^ 63"
    unfolding IH(1) using dpos by (simp add: less_mult_imp_div_less)
  moreover have "unat r1 < unat d" unfolding IH(2) using dpos by simp
  moreover have "step d (q1, r1) = (q, r)" using Suc.prems(3) mid by simp
  ultimately have "unat q = 2 * unat q1 + 2 * unat r1 div unat d"
    and "unat r = 2 * unat r1 mod unat d"
    using step_spec [OF d] by blast+
  moreover have "2 ^ Suc n * ?N = 2 * (2 ^ n * ?N)" by simp
  ultimately show ?case
    unfolding IH using div_mod_double [OF dpos, of "2 ^ n * ?N"] by (simp only: simp_thms)
qed

text \<open>
  After the iterations each library adds one when twice the remainder reaches the divisor. The
  result is the quotient rounded half up.
\<close>

lemma step_run_rounded:
  assumes d: "unat d \<le> 2 ^ 63" "d \<noteq> 0" and n: "n \<le> 64" and N: "unat (N div d) < 2 ^ (64 - n)"
    and run: "(step d ^^ n) (N div d, N mod d) = (q, r)"
  shows "(unat q + of_bool (d \<le> push_bit 1 r)) = (2 ^ Suc n * unat N + unat d) div (2 * unat d)"
proof -
  have dpos: "0 < unat d" using d(2) by (simp add: unat_gt_0)
  have N': "unat (N div d) * unat d + unat (N mod d) = unat N"
    by (simp add: unat_div_distrib unat_mod_distrib)
  have r0: "unat (N mod d) < unat d" using dpos by (simp add: unat_mod_distrib)
  have q: "unat q = 2 ^ n * unat N div unat d" and r: "unat r = 2 ^ n * unat N mod unat d"
    using step_run [OF d(1) r0 N n run] unfolding N' by simp_all
  have "unat r * 2 ^ 1 < 2 ^ 64" using r d(1) dpos mod_less_divisor [OF dpos, of "2 ^ n * unat N"] by simp
  then have "unat (push_bit 1 r) = unat r * 2 ^ 1" by (intro unat_shiftl) simp
  then have "(d \<le> push_bit 1 r) = (unat d \<le> 2 * unat r)"
    unfolding word_le_nat_alt by (simp only: power_one_right mult.commute)
  then show ?thesis
    unfolding power_Suc mult.assoc round_half_up [OF dpos] q r by (simp only: of_bool_def)
qed

lemma magnitude_rounded:
  fixes n d :: u64
  assumes d: "d \<noteq> 0" "unat d \<le> 2 ^ 63" and k: "k \<le> 63"
    and fit: "2 ^ Suc k * unat n + unat d < 2 ^ 64 * unat d"
    and run: "(step d ^^ k) (n div d, n mod d) = (q, r)"
  shows "unat (q + of_bool (d \<le> push_bit 1 r)) = (2 ^ Suc k * unat n + unat d) div (2 * unat d)"
    and "(2 ^ Suc k * unat n + unat d) div (2 * unat d) < 2 ^ 63"
proof -
  have "2 ^ Suc k * (2 ^ (63 - k) * unat d) = 2 ^ 64 * unat d"
    using k unfolding mult.assoc [symmetric] power_add [symmetric] by simp
  then have "2 ^ Suc k * unat n < 2 ^ Suc k * (2 ^ (63 - k) * unat d)" using fit by linarith
  then have "unat n < 2 ^ (63 - k) * unat d" by simp
  then have "unat (n div d) < 2 ^ (63 - k)" by (simp add: unat_div_distrib less_mult_imp_div_less)
  also have "(2::nat) ^ (63 - k) \<le> 2 ^ (64 - k)" by (rule power_increasing) simp_all
  finally have "unat (n div d) < 2 ^ (64 - k)" .
  then have e: "unat q + of_bool (d \<le> push_bit 1 r) = (2 ^ Suc k * unat n + unat d) div (2 * unat d)"
    using step_run_rounded [OF d(2,1) _ _ run] k by simp
  show b: "(2 ^ Suc k * unat n + unat d) div (2 * unat d) < 2 ^ 63"
    using fit by (intro less_mult_imp_div_less) simp
  have "unat (q + of_bool (d \<le> push_bit 1 r)) = unat q + of_bool (d \<le> push_bit 1 r)"
    using b unfolding e [symmetric] by (cases "d \<le> push_bit 1 r") (simp_all add: unat_add_small)
  then show "unat (q + of_bool (d \<le> push_bit 1 r)) = (2 ^ Suc k * unat n + unat d) div (2 * unat d)"
    using e by simp
qed

text \<open>
  The signed libraries divide the magnitudes and put the sign on the rounded quotient.
\<close>

lemma signed_quotient:
  fixes n d :: i64
  assumes "d \<noteq> 0" and k: "k \<le> 63" and fit: "2 ^ Suc k * \<bar>sint n\<bar> + \<bar>sint d\<bar> < 2 ^ 64 * \<bar>sint d\<bar>"
    and run: "(step (c_abs d) ^^ k) (c_abs n div c_abs d, c_abs n mod c_abs d) = (q, r)"
  shows "sint (c_sign ((sint n < 0) \<noteq> (sint d < 0)) (q + of_bool (c_abs d \<le> push_bit 1 r))) =
    (if (sint n < 0) = (sint d < 0) then 1 else - 1) *
      ((2 ^ Suc k * \<bar>sint n\<bar> + \<bar>sint d\<bar>) div (2 * \<bar>sint d\<bar>))"
proof -
  let ?n = "c_abs n" and ?d = "c_abs d" and ?v = "q + of_bool (c_abs d \<le> push_bit 1 r)"
  have an: "int (unat ?n) = \<bar>sint n\<bar>" and ad: "int (unat ?d) = \<bar>sint d\<bar>"
    by (simp_all add: unat_c_abs)
  have d0: "?d \<noteq> 0" using assms(1) by (auto simp: c_abs_def)
  have dle: "unat ?d \<le> 2 ^ 63" using unat_c_abs_le [of d] by simp
  have "int (2 ^ Suc k * unat ?n + unat ?d) < int (2 ^ 64 * unat ?d)" using fit an ad by simp
  then have fit': "2 ^ Suc k * unat ?n + unat ?d < 2 ^ 64 * unat ?d" by (simp only: of_nat_less_iff)
  note v = magnitude_rounded [OF d0 dle k fit' run]
  have "int (unat ?v) = (2 ^ Suc k * \<bar>sint n\<bar> + \<bar>sint d\<bar>) div (2 * \<bar>sint d\<bar>)"
    unfolding v(1) zdiv_int using an ad by simp
  moreover have "unat ?v < 2 ^ (LENGTH(64) - 1)" using v by simp
  note sint_c_sign [OF this]
  ultimately show ?thesis by simp
qed

end

text \<open>The rounded quotient is at most half a unit in the last place from the exact one.\<close>

lemma signed_quotient_error:
  fixes x y k K :: int
  assumes y: "y \<noteq> 0" and k: "0 \<le> k" and K: "K = 2 * k"
  defines "z \<equiv> (K * \<bar>x\<bar> + \<bar>y\<bar>) div (2 * \<bar>y\<bar>)"
    and "s \<equiv> (if (x < 0) = (y < 0) then 1 else - 1)"
  shows "\<bar>s * z\<bar> = z" and "2 * \<bar>s * z * y - x * k\<bar> \<le> \<bar>y\<bar>"
proof -
  have "2 * \<bar>y\<bar> * z + (2 * k * \<bar>x\<bar> + \<bar>y\<bar>) mod (2 * \<bar>y\<bar>) = 2 * k * \<bar>x\<bar> + \<bar>y\<bar>"
    unfolding z_def K by (rule mult_div_mod_eq)
  moreover have "0 \<le> (2 * k * \<bar>x\<bar> + \<bar>y\<bar>) mod (2 * \<bar>y\<bar>)" "(2 * k * \<bar>x\<bar> + \<bar>y\<bar>) mod (2 * \<bar>y\<bar>) < 2 * \<bar>y\<bar>"
    using y by simp_all
  ultimately have "2 * (\<bar>y\<bar> * z) \<le> 2 * (k * \<bar>x\<bar>) + \<bar>y\<bar>" "2 * (k * \<bar>x\<bar>) < 2 * (\<bar>y\<bar> * z) + \<bar>y\<bar>"
    by linarith+
  then have "2 * \<bar>\<bar>y\<bar> * z - k * \<bar>x\<bar>\<bar> \<le> \<bar>y\<bar>"
    using abs_if [of "\<bar>y\<bar> * z - k * \<bar>x\<bar>"] by (simp split: if_splits)
  moreover have "s * z * y - x * k = (if x < 0 then - 1 else 1) * (\<bar>y\<bar> * z - k * \<bar>x\<bar>)"
    by (auto simp: s_def abs_if algebra_simps)
  then have "\<bar>s * z * y - x * k\<bar> = \<bar>\<bar>y\<bar> * z - k * \<bar>x\<bar>\<bar>" 
    by (simp only: abs_mult) simp
  ultimately show "2 * \<bar>s * z * y - x * k\<bar> \<le> \<bar>y\<bar>" by simp
  have "0 \<le> z" using y k unfolding z_def K by (simp add: pos_imp_zdiv_nonneg_iff)
  then show "\<bar>s * z\<bar> = z" by (simp add: s_def)
qed

section \<open>Multiplication by parts\<close>

lemma split_product_div:
  fixes A B k :: nat
  assumes k: "0 < k"
  shows "(A div k) * (B div k) * k + (A div k) * (B mod k) + (B div k) * (A mod k)
      + (A mod k) * (B mod k) div k = A * B div k"
proof -
  let ?a = "A div k" and ?b = "B div k" and ?c = "A mod k" and ?d = "B mod k"
  have "A * B = (?a * k + ?c) * (?b * k + ?d)" by simp
  also have "\<dots> = (?a * ?b * k + ?a * ?d + ?b * ?c) * k + ?c * ?d"
    by (simp only: algebra_simps)
  finally show ?thesis using k by simp
qed

locale fixed_parts =
  fixes bits :: nat
    and int_part :: "u64 \<Rightarrow> u64"
    and frac_part :: "u64 \<Rightarrow> u64"
  assumes bits_le: "bits \<le> 32"
    and unat_int_part: "unat (int_part x) = unat x div 2 ^ bits"
    and unat_frac_part: "unat (frac_part x) = unat x mod 2 ^ bits"
begin

text \<open>The sum of the first three partial products, and the last one, without overflow.\<close>

lemma partial_products:
  fixes A B :: u64
  assumes fit: "unat A * unat B div 2 ^ bits < 2 ^ 64"
  shows "unat (push_bit bits (int_part A * int_part B) + int_part A * frac_part B
      + int_part B * frac_part A) + unat A mod 2 ^ bits * (unat B mod 2 ^ bits) div 2 ^ bits =
    unat A * unat B div 2 ^ bits" (is "unat ?s + _ = _")
    and "unat (frac_part A * frac_part B) = unat A mod 2 ^ bits * (unat B mod 2 ^ bits)"
proof -
  define k :: nat where "k = 2 ^ bits"
  let ?a = "unat A div k" and ?b = "unat B div k" and ?c = "unat A mod k" and ?d = "unat B mod k"
  have k: "0 < k" by (simp add: k_def)
  have parts: "unat (int_part A) = ?a" "unat (int_part B) = ?b"
    "unat (frac_part A) = ?c" "unat (frac_part B) = ?d"
    by (simp_all only: unat_int_part unat_frac_part k_def)
  note tot = split_product_div [OF k, of "unat A" "unat B"]
  have bnd: "?a * ?b * k + ?a * ?d + ?b * ?c < 2 ^ 64"
    using fit [folded k_def] unfolding tot [symmetric] by linarith
  have "?a * ?b * 1 \<le> ?a * ?b * k" using k by (intro mult_le_mono2) simp
  then have "?a * ?b < 2 ^ 64" using bnd by linarith
  then have p1: "unat (int_part A * int_part B) = ?a * ?b"
    unfolding parts [symmetric] by (intro unat_mult_small) (unfold parts, simp)
  have p2: "unat (int_part A * frac_part B) = ?a * ?d"
    unfolding parts [symmetric] by (rule unat_mult_small) (use bnd parts in simp)
  have p3: "unat (int_part B * frac_part A) = ?b * ?c"
    unfolding parts [symmetric] by (rule unat_mult_small) (use bnd parts in simp)
  have s1: "unat (push_bit bits (int_part A * int_part B)) = ?a * ?b * k"
    using unat_shiftl [of "int_part A * int_part B" bits, folded k_def, unfolded p1] bnd by simp
  have s2: "unat (push_bit bits (int_part A * int_part B) + int_part A * frac_part B) = ?a * ?b * k + ?a * ?d"
    unfolding s1 [symmetric] p2 [symmetric] by (rule unat_add_small) (unfold s1 p2, use bnd in simp)
  have "unat ?s = ?a * ?b * k + ?a * ?d + ?b * ?c"
    unfolding s2 [symmetric] p3 [symmetric] by (rule unat_add_small) (unfold s2 p3, use bnd in simp)
  then show "unat ?s + unat A mod 2 ^ bits * (unat B mod 2 ^ bits) div 2 ^ bits = unat A * unat B div 2 ^ bits"
    unfolding k_def [symmetric] using tot by simp
  have "?c * ?d < k * k" using k by (intro mult_strict_mono) simp_all
  also have "k * k \<le> 2 ^ 64"
    unfolding k_def power_add [symmetric] using bits_le by (intro power_increasing) simp_all
  finally show "unat (frac_part A * frac_part B) = unat A mod 2 ^ bits * (unat B mod 2 ^ bits)"
    unfolding parts [symmetric] k_def [symmetric] by (intro unat_mult_small) (unfold parts, simp)
qed

text \<open>
  The product as the signed libraries compute it: one is added when the product of the fractional
  parts, taken as a whole, reaches one half.
\<close>

lemma product_half_up:
  fixes A B h :: u64
  assumes fit: "unat A * unat B < 2 ^ (63 + bits) - 2 ^ bits"
  defines "t \<equiv> frac_part A * frac_part B"
  shows "unat (push_bit bits (int_part A * int_part B) + int_part A * frac_part B
      + int_part B * frac_part A + (drop_bit bits t + of_bool (h \<le> t))) =
    unat A * unat B div 2 ^ bits + of_bool (unat h \<le> unat A mod 2 ^ bits * (unat B mod 2 ^ bits))"
    (is "unat (?s + _) = ?q + _")
    and "unat A * unat B div 2 ^ bits < 2 ^ 63 - 1"
proof -
  have e: "(2::nat) ^ (63 + bits) - 2 ^ bits = (2 ^ 63 - 1) * 2 ^ bits"
    by (simp only: power_add diff_mult_distrib mult_1)
  show lt: "unat A * unat B div 2 ^ bits < 2 ^ 63 - 1"
    using fit unfolding e by (rule less_mult_imp_div_less)
  then have fit': "unat A * unat B div 2 ^ bits < 2 ^ 64" by simp
  note p = partial_products [OF fit']
  have t1: "unat (drop_bit bits t) = unat A mod 2 ^ bits * (unat B mod 2 ^ bits) div 2 ^ bits"
    by (simp only: unat_shiftr t_def p(2))
  have c: "(h \<le> t) = (unat h \<le> unat A mod 2 ^ bits * (unat B mod 2 ^ bits))"
    by (simp only: word_le_nat_alt t_def p(2))
  have t2: "unat (drop_bit bits t + of_bool (h \<le> t)) = unat (drop_bit bits t) + of_bool (h \<le> t)"
    unfolding unat_of_bool [symmetric, where ?'a = 64]
    by (rule unat_add_small) (unfold t1 unat_of_bool, use p(1) lt in simp)
  have "unat (?s + (drop_bit bits t + of_bool (h \<le> t))) = unat ?s + unat (drop_bit bits t + of_bool (h \<le> t))"
    by (rule unat_add_small) (unfold t2 t1, use p(1) lt in simp)
  also have "\<dots> = ?q + of_bool (h \<le> t)" using p(1) t1 t2 by linarith
  finally show "unat (?s + (drop_bit bits t + of_bool (h \<le> t))) =
      ?q + of_bool (unat h \<le> unat A mod 2 ^ bits * (unat B mod 2 ^ bits))"
    by (simp only: c)
qed

lemma signed_product:
  fixes a b :: i64
  defines "A \<equiv> c_abs a" and "B \<equiv> c_abs b"
  defines "t \<equiv> frac_part A * frac_part B"
  assumes fit: "\<bar>sint a\<bar> * \<bar>sint b\<bar> < 2 ^ (63 + bits) - 2 ^ bits"
  shows "sint (c_sign ((sint a < 0) \<noteq> (sint b < 0))
      (push_bit bits (int_part A * int_part B) + int_part A * frac_part B + int_part B * frac_part A
        + (drop_bit bits t + of_bool (h \<le> t)))) =
    (if (sint a < 0) = (sint b < 0) then 1 else - 1) *
      (\<bar>sint a\<bar> * \<bar>sint b\<bar> div 2 ^ bits +
       of_bool (int (unat h) \<le> \<bar>sint a\<bar> mod 2 ^ bits * (\<bar>sint b\<bar> mod 2 ^ bits)))"
    (is "sint (c_sign _ ?v) = _")
proof -
  have ab: "\<bar>sint a\<bar> = int (unat A)" "\<bar>sint b\<bar> = int (unat B)"
    by (simp_all add: unat_c_abs A_def B_def)
  have "(2::nat) ^ bits \<le> 2 ^ (63 + bits)" by (rule power_increasing) simp_all
  then have "int (unat A * unat B) < int (2 ^ (63 + bits) - 2 ^ bits)"
    using fit unfolding ab by simp
  then have fit': "unat A * unat B < 2 ^ (63 + bits) - 2 ^ bits" by (simp only: of_nat_less_iff)
  note v = product_half_up(1) [OF fit', of h, folded t_def] product_half_up(2) [OF fit']
  have "unat ?v < 2 ^ (LENGTH(64) - 1)" unfolding v(1) using v(2) by (simp add: of_bool_def)
  note s = sint_c_sign [OF this]
  have "int (unat ?v) = int (unat A) * int (unat B) div 2 ^ bits +
      of_bool (int (unat h) \<le> int (unat A) mod 2 ^ bits * (int (unat B) mod 2 ^ bits))"
    unfolding v(1) by (simp only: of_nat_add of_nat_of_bool zdiv_int of_nat_mult of_nat_power of_nat_numeral
      of_nat_le_iff [where ?'a = int, symmetric] zmod_int)
  then show ?thesis unfolding ab s by simp
qed

text \<open>The product as the unsigned library computes it: truncated.\<close>

lemma product_truncated:
  fixes A B :: u64
  assumes fit: "unat A * unat B div 2 ^ bits < 2 ^ 64"
  shows "unat (push_bit bits (int_part A * int_part B) + int_part A * frac_part B
      + int_part B * frac_part A + drop_bit bits (frac_part A * frac_part B)) = unat A * unat B div 2 ^ bits"
proof -
  note p = partial_products [OF fit]
  have t: "unat (drop_bit bits (frac_part A * frac_part B)) =
      unat A mod 2 ^ bits * (unat B mod 2 ^ bits) div 2 ^ bits"
    by (simp only: unat_shiftr p(2))
  show ?thesis
    unfolding p(1) [symmetric] t [symmetric] by (rule unat_add_small) (unfold t, use p(1) fit in simp)
qed

end

text \<open>
  A sign put on a magnitude that is the truncated product plus at most one: the signed result is
  within one unit in the last place of the exact product.
\<close>

lemma signed_product_error:
  fixes x y k p :: int
  assumes k: "k = 0 \<or> k = 1" and m: "0 < m"
  defines "s \<equiv> (if (x < 0) = (y < 0) then 1 else - 1)"
  shows "\<bar>s * (\<bar>x\<bar> * \<bar>y\<bar> div m + k) * m - x * y\<bar> \<le> m"
proof -
  define p where "p = \<bar>x\<bar> * \<bar>y\<bar>"
  have "x * y = s * p" by (auto simp: s_def p_def abs_if)
  then have "s * (p div m + k) * m - x * y = s * ((p div m + k) * m - p)"
    by (simp add: algebra_simps)
  then have "\<bar>s * (p div m + k) * m - x * y\<bar> = \<bar>(p div m + k) * m - p\<bar>"
    by (simp add: abs_mult s_def)
  moreover have "(p div m + k) * m - p = k * m - p mod m"
    using minus_mod_eq_div_mult [of p m] by (simp add: distrib_right)
  moreover have "0 \<le> p mod m" "p mod m < m" using m by simp_all
  ultimately have "\<bar>s * (p div m + k) * m - x * y\<bar> \<le> m" using k by (elim disjE) simp_all
  then show ?thesis unfolding p_def .
qed

end
