(* ===== verification/Fixed_Order.thy ===== *)
theory Fixed_Order
  imports Prelude
begin

text \<open>
  The contract of the comparison operations of a fixed-point library: its numbers are ordered by
  an integer key (the raw value, read at the signedness of the library), \<open>le\<close> and
  \<open>lt\<close> compare keys, \<open>fmin\<close> and \<open>fmax\<close> select by it. The lemmas are what
  the callers in the bandwidth, scaler and gamma code use of these operations. The three
  libraries interpret the locale with their own functions.
\<close>

locale fixed_order =
  fixes key :: "'f \<Rightarrow> int"
    and le :: "'f \<Rightarrow> 'f \<Rightarrow> bool"
    and lt :: "'f \<Rightarrow> 'f \<Rightarrow> bool"
    and fmin :: "'f \<Rightarrow> 'f \<Rightarrow> 'f"
    and fmax :: "'f \<Rightarrow> 'f \<Rightarrow> 'f"
  assumes key_inject: "key a = key b \<Longrightarrow> a = b"
    and le_key: "le a b \<longleftrightarrow> key a \<le> key b"
    and lt_key: "lt a b \<longleftrightarrow> key a < key b"
    and fmin_select: "fmin a b = a \<or> fmin a b = b"
    and fmin_key: "key (fmin a b) = min (key a) (key b)"
    and fmax_select: "fmax a b = a \<or> fmax a b = b"
    and fmax_key: "key (fmax a b) = max (key a) (key b)"
begin

lemma le_antisym: "le a b \<Longrightarrow> le b a \<Longrightarrow> a = b"
  using key_inject by (auto simp: le_key)

lemma le_fmin_iff: "le c (fmin a b) \<longleftrightarrow> le c a \<and> le c b"
  by (simp add: le_key fmin_key)

lemma fmax_le_iff: "le (fmax a b) c \<longleftrightarrow> le a c \<and> le b c"
  by (simp add: le_key fmax_key)

lemma fmin_comm: "fmin a b = fmin b a"
  by (rule key_inject) (simp add: fmin_key min.commute)

lemma fmax_comm: "fmax a b = fmax b a"
  by (rule key_inject) (simp add: fmax_key max.commute)

lemma fmin_assoc: "fmin (fmin a b) c = fmin a (fmin b c)"
  by (rule key_inject) (simp add: fmin_key min.assoc)

lemma fmax_assoc: "fmax (fmax a b) c = fmax a (fmax b c)"
  by (rule key_inject) (simp add: fmax_key max.assoc)

lemma fmin_plus_fmax: "key (fmin a b) + key (fmax a b) = key a + key b"
  by (simp add: fmin_key fmax_key)

text \<open>Clamping with two comparisons, the lower bound first.\<close>

lemma clamp_bounds:
  assumes "le lo hi"
  shows "le lo (if le a lo then lo else if le hi a then hi else a)"
    and "le (if le a lo then lo else if le hi a then hi else a) hi"
    and "le lo a \<Longrightarrow> le a hi \<Longrightarrow> (if le a lo then lo else if le hi a then hi else a) = a"
  using assms le_antisym by (auto simp: le_key)

end

end
