(* ===== verification/Fixpt31_32.thy ===== *)
theory Fixpt31_32
  imports Fixed_Arith Fixed_Order
begin

text \<open>
  The signed fixed-point library \<open>dal/dc/basics/fixpt31_32.c\<close>: one sign bit, 31
  integer bits and 32 fractional bits in an \<open>int64_t\<close>. Every function of the file is
  modelled. A division by zero or an oversized shift is \<open>None\<close>; the Newton iteration of
  \<open>dal_fixed31_32_log\<close> has no bound in the code and is a partial function.

  Shown here: the division rounds half up, the multiplication is exact up to one unit in the
  last place (and not correctly rounded), squaring is multiplication by itself, the sine and
  cosine series always return, the exponential returns on its range, the integer conversions
  and the hardware formats extract the right bits.
\<close>

section \<open>Data and operations\<close>

record fixed31_32 =
  fx31_value :: i64

abbreviation fx31 :: "i64 \<Rightarrow> fixed31_32" where
  "fx31 v \<equiv> \<lparr>fx31_value = v\<rparr>"

definition dal_fixed31_32_zero :: fixed31_32 where "dal_fixed31_32_zero = fx31 0"
definition dal_fixed31_32_epsilon :: fixed31_32 where "dal_fixed31_32_epsilon = fx31 1"
definition dal_fixed31_32_half :: fixed31_32 where "dal_fixed31_32_half = fx31 0x80000000"
definition dal_fixed31_32_one :: fixed31_32 where "dal_fixed31_32_one = fx31 0x100000000"
definition dal_fixed31_32_two_pi :: fixed31_32 where "dal_fixed31_32_two_pi = fx31 26986075409"
definition dal_fixed31_32_ln2 :: fixed31_32 where "dal_fixed31_32_ln2 = fx31 2977044471"
definition dal_fixed31_32_ln2_div_2 :: fixed31_32 where
  "dal_fixed31_32_ln2_div_2 = fx31 1488522236"

lemmas fx31_consts = dal_fixed31_32_zero_def dal_fixed31_32_epsilon_def dal_fixed31_32_half_def
  dal_fixed31_32_one_def dal_fixed31_32_two_pi_def dal_fixed31_32_ln2_def
  dal_fixed31_32_ln2_div_2_def

definition abs_i64 :: "i64 \<Rightarrow> u64" where
  "abs_i64 arg = (if 0 < sint arg then arg else - arg)"

definition complete_integer_division_u64 :: "u64 \<Rightarrow> u64 \<Rightarrow> (u64 \<times> u64) option" where
  "complete_integer_division_u64 dividend divisor = div64_u64_rem dividend divisor"

definition get_integer_part :: "u64 \<Rightarrow> u64" where
  "get_integer_part x = drop_bit 32 x"

definition get_fractional_part :: "u64 \<Rightarrow> u64" where
  "get_fractional_part x = mask 32 AND x"

text \<open>One iteration of the loop that determines the fractional part.\<close>

definition from_fraction_step :: "u64 \<Rightarrow> u64 \<times> u64 \<Rightarrow> u64 \<times> u64" where
  "from_fraction_step arg2_value qr =
     (let remainder = push_bit 1 (snd qr);
          res_value = push_bit 1 (fst qr)
      in if arg2_value \<le> remainder then (res_value OR 1, remainder - arg2_value)
         else (res_value, remainder))"

definition dal_fixed31_32_from_fraction :: "i64 \<Rightarrow> i64 \<Rightarrow> fixed31_32 option" where
  "dal_fixed31_32_from_fraction numerator denominator =
     (let arg1_negative = sint numerator < 0;
          arg2_negative = sint denominator < 0;
          arg1_value = (if arg1_negative then - numerator else numerator);
          arg2_value = (if arg2_negative then - denominator else denominator)
      in do {
        qr \<leftarrow> complete_integer_division_u64 arg1_value arg2_value;
        let qr = (from_fraction_step arg2_value ^^ 32) qr;
        let summand = of_bool (arg2_value \<le> push_bit 1 (snd qr));
        let res_value = fst qr + summand;
        Some (fx31 (if arg1_negative \<noteq> arg2_negative then - res_value else res_value))
      })"

definition dal_fixed31_32_from_int :: "i64 \<Rightarrow> fixed31_32" where
  "dal_fixed31_32_from_int arg = fx31 (push_bit 32 arg)"

definition dal_fixed31_32_neg :: "fixed31_32 \<Rightarrow> fixed31_32" where
  "dal_fixed31_32_neg arg = fx31 (- fx31_value arg)"

definition dal_fixed31_32_abs :: "fixed31_32 \<Rightarrow> fixed31_32" where
  "dal_fixed31_32_abs arg = (if sint (fx31_value arg) < 0 then dal_fixed31_32_neg arg else arg)"

definition dal_fixed31_32_lt :: "fixed31_32 \<Rightarrow> fixed31_32 \<Rightarrow> bool" where
  "dal_fixed31_32_lt arg1 arg2 = (sint (fx31_value arg1) < sint (fx31_value arg2))"

definition dal_fixed31_32_le :: "fixed31_32 \<Rightarrow> fixed31_32 \<Rightarrow> bool" where
  "dal_fixed31_32_le arg1 arg2 = (sint (fx31_value arg1) \<le> sint (fx31_value arg2))"

definition dal_fixed31_32_eq :: "fixed31_32 \<Rightarrow> fixed31_32 \<Rightarrow> bool" where
  "dal_fixed31_32_eq arg1 arg2 = (fx31_value arg1 = fx31_value arg2)"

definition dal_fixed31_32_min :: "fixed31_32 \<Rightarrow> fixed31_32 \<Rightarrow> fixed31_32" where
  "dal_fixed31_32_min arg1 arg2 =
     (if sint (fx31_value arg1) \<le> sint (fx31_value arg2) then arg1 else arg2)"

definition dal_fixed31_32_max :: "fixed31_32 \<Rightarrow> fixed31_32 \<Rightarrow> fixed31_32" where
  "dal_fixed31_32_max arg1 arg2 =
     (if sint (fx31_value arg1) \<le> sint (fx31_value arg2) then arg2 else arg1)"

definition dal_fixed31_32_clamp :: "fixed31_32 \<Rightarrow> fixed31_32 \<Rightarrow> fixed31_32 \<Rightarrow> fixed31_32" where
  "dal_fixed31_32_clamp arg min_value max_value =
     (if dal_fixed31_32_le arg min_value then min_value
      else if dal_fixed31_32_le max_value arg then max_value
      else arg)"

definition dal_fixed31_32_shl :: "fixed31_32 \<Rightarrow> u8 \<Rightarrow> fixed31_32 option" where
  "dal_fixed31_32_shl arg shift = map_option fx31 (c_shl (fx31_value arg) (unat shift))"

definition dal_fixed31_32_shr :: "fixed31_32 \<Rightarrow> u8 \<Rightarrow> fixed31_32 option" where
  "dal_fixed31_32_shr arg shift = map_option fx31 (c_sar (fx31_value arg) (unat shift))"

definition dal_fixed31_32_add :: "fixed31_32 \<Rightarrow> fixed31_32 \<Rightarrow> fixed31_32" where
  "dal_fixed31_32_add arg1 arg2 = fx31 (fx31_value arg1 + fx31_value arg2)"

definition dal_fixed31_32_sub :: "fixed31_32 \<Rightarrow> fixed31_32 \<Rightarrow> fixed31_32" where
  "dal_fixed31_32_sub arg1 arg2 = fx31 (fx31_value arg1 - fx31_value arg2)"

definition dal_fixed31_32_sub_int :: "fixed31_32 \<Rightarrow> i32 \<Rightarrow> fixed31_32" where
  "dal_fixed31_32_sub_int arg1 arg2 = dal_fixed31_32_sub arg1 (dal_fixed31_32_from_int (scast arg2))"

definition dal_fixed31_32_mul :: "fixed31_32 \<Rightarrow> fixed31_32 \<Rightarrow> fixed31_32" where
  "dal_fixed31_32_mul arg1 arg2 =
     (let arg1_negative = sint (fx31_value arg1) < 0;
          arg2_negative = sint (fx31_value arg2) < 0;
          arg1_value = (if arg1_negative then - fx31_value arg1 else fx31_value arg1);
          arg2_value = (if arg2_negative then - fx31_value arg2 else fx31_value arg2);
          arg1_int = get_integer_part arg1_value;
          arg2_int = get_integer_part arg2_value;
          arg1_fra = get_fractional_part arg1_value;
          arg2_fra = get_fractional_part arg2_value;
          res = arg1_int * arg2_int;
          res = push_bit 32 res;
          tmp = arg1_int * arg2_fra;
          res = res + tmp;
          tmp = arg2_int * arg1_fra;
          res = res + tmp;
          tmp = arg1_fra * arg2_fra;
          tmp = drop_bit 32 tmp + of_bool (fx31_value dal_fixed31_32_half \<le> tmp);
          res = res + tmp
      in fx31 (if arg1_negative \<noteq> arg2_negative then - res else res))"

definition dal_fixed31_32_mul_int :: "fixed31_32 \<Rightarrow> i32 \<Rightarrow> fixed31_32" where
  "dal_fixed31_32_mul_int arg1 arg2 = dal_fixed31_32_mul arg1 (dal_fixed31_32_from_int (scast arg2))"

definition dal_fixed31_32_sqr :: "fixed31_32 \<Rightarrow> fixed31_32" where
  "dal_fixed31_32_sqr arg =
     (let arg_value = abs_i64 (fx31_value arg);
          arg_int = get_integer_part arg_value;
          arg_fra = get_fractional_part arg_value;
          res = arg_int * arg_int;
          res = push_bit 32 res;
          tmp = arg_int * arg_fra;
          res = res + tmp;
          res = res + tmp;
          tmp = arg_fra * arg_fra;
          tmp = drop_bit 32 tmp + of_bool (fx31_value dal_fixed31_32_half \<le> tmp);
          res = res + tmp
      in fx31 res)"

definition dal_fixed31_32_div_int :: "fixed31_32 \<Rightarrow> i64 \<Rightarrow> fixed31_32 option" where
  "dal_fixed31_32_div_int arg1 arg2 =
     dal_fixed31_32_from_fraction (fx31_value arg1) (fx31_value (dal_fixed31_32_from_int arg2))"

definition dal_fixed31_32_div :: "fixed31_32 \<Rightarrow> fixed31_32 \<Rightarrow> fixed31_32 option" where
  "dal_fixed31_32_div arg1 arg2 = dal_fixed31_32_from_fraction (fx31_value arg1) (fx31_value arg2)"

definition dal_fixed31_32_recip :: "fixed31_32 \<Rightarrow> fixed31_32 option" where
  "dal_fixed31_32_recip arg =
     dal_fixed31_32_from_fraction (fx31_value dal_fixed31_32_one) (fx31_value arg)"

text \<open>
  The body of the series loops of \<open>sinc\<close> and \<open>cos\<close>, and the loops themselves:
  \<open>n\<close> goes down by two while it is above two (\<open>sinc\<close>) or until it is zero
  (\<open>cos\<close>).
\<close>

definition series_step :: "fixed31_32 \<Rightarrow> nat \<Rightarrow> fixed31_32 \<Rightarrow> fixed31_32 option" where
  "series_step square n res = do {
     q \<leftarrow> dal_fixed31_32_div_int (dal_fixed31_32_mul square res) (of_nat (n * (n - 1)));
     Some (dal_fixed31_32_sub dal_fixed31_32_one q)
   }"

fun sinc_loop :: "fixed31_32 \<Rightarrow> nat \<Rightarrow> fixed31_32 \<Rightarrow> fixed31_32 option" where
  "sinc_loop square n res = do {
     res \<leftarrow> series_step square n res;
     (if n - 2 > 2 then sinc_loop square (n - 2) res else Some res)
   }"

fun cos_loop :: "fixed31_32 \<Rightarrow> nat \<Rightarrow> fixed31_32 \<Rightarrow> fixed31_32 option" where
  "cos_loop square n res = do {
     res \<leftarrow> series_step square n res;
     (if n - 2 \<noteq> 0 then cos_loop square (n - 2) res else Some res)
   }"

declare sinc_loop.simps [simp del] cos_loop.simps [simp del]

definition dal_fixed31_32_sinc :: "fixed31_32 \<Rightarrow> fixed31_32 option" where
  "dal_fixed31_32_sinc arg = do {
     arg_norm \<leftarrow>
       (if dal_fixed31_32_le dal_fixed31_32_two_pi (dal_fixed31_32_abs arg)
        then do {
          q \<leftarrow> c_sdiv (fx31_value arg) (fx31_value dal_fixed31_32_two_pi);
          Some (dal_fixed31_32_sub arg
            (dal_fixed31_32_mul_int dal_fixed31_32_two_pi (ucast q)))
        }
        else Some arg);
     let square = dal_fixed31_32_sqr arg_norm;
     res \<leftarrow> sinc_loop square 27 dal_fixed31_32_one;
     (if fx31_value arg \<noteq> fx31_value arg_norm
      then dal_fixed31_32_div (dal_fixed31_32_mul res arg_norm) arg
      else Some res)
   }"

definition dal_fixed31_32_sin :: "fixed31_32 \<Rightarrow> fixed31_32 option" where
  "dal_fixed31_32_sin arg = do {
     s \<leftarrow> dal_fixed31_32_sinc arg;
     Some (dal_fixed31_32_mul arg s)
   }"

definition dal_fixed31_32_cos :: "fixed31_32 \<Rightarrow> fixed31_32 option" where
  "dal_fixed31_32_cos arg = cos_loop (dal_fixed31_32_sqr arg) 26 dal_fixed31_32_one"

fun taylor_loop :: "fixed31_32 \<Rightarrow> nat \<Rightarrow> fixed31_32 \<Rightarrow> fixed31_32 option" where
  "taylor_loop arg n res = do {
     q \<leftarrow> dal_fixed31_32_div_int (dal_fixed31_32_mul arg res) (of_nat n);
     let res = dal_fixed31_32_add dal_fixed31_32_one q;
     (if n - 1 > 1 then taylor_loop arg (n - 1) res else Some res)
   }"

declare taylor_loop.simps [simp del]

definition fixed31_32_exp_from_taylor_series :: "fixed31_32 \<Rightarrow> fixed31_32 option" where
  "fixed31_32_exp_from_taylor_series arg = do {
     res \<leftarrow> dal_fixed31_32_from_fraction (9 + 2) (9 + 1);
     res \<leftarrow> taylor_loop arg 9 res;
     Some (dal_fixed31_32_add dal_fixed31_32_one (dal_fixed31_32_mul arg res))
   }"

definition dal_fixed31_32_floor :: "fixed31_32 \<Rightarrow> i32" where
  "dal_fixed31_32_floor arg =
     (let arg_value = abs_i64 (fx31_value arg)
      in if 0 \<le> sint (fx31_value arg) then ucast (get_integer_part arg_value)
         else - ucast (get_integer_part arg_value))"

definition dal_fixed31_32_round :: "fixed31_32 \<Rightarrow> i32" where
  "dal_fixed31_32_round arg =
     (let arg_value = abs_i64 (fx31_value arg);
          summand = fx31_value dal_fixed31_32_half;
          arg_value = arg_value + summand
      in if 0 \<le> sint (fx31_value arg) then ucast (get_integer_part arg_value)
         else - ucast (get_integer_part arg_value))"

definition dal_fixed31_32_ceil :: "fixed31_32 \<Rightarrow> i32" where
  "dal_fixed31_32_ceil arg =
     (let arg_value = abs_i64 (fx31_value arg);
          summand = fx31_value dal_fixed31_32_one - fx31_value dal_fixed31_32_epsilon;
          arg_value = arg_value + summand
      in if 0 \<le> sint (fx31_value arg) then ucast (get_integer_part arg_value)
         else - ucast (get_integer_part arg_value))"

definition dal_fixed31_32_exp :: "fixed31_32 \<Rightarrow> fixed31_32 option" where
  "dal_fixed31_32_exp arg =
     (if dal_fixed31_32_le dal_fixed31_32_ln2_div_2 (dal_fixed31_32_abs arg)
      then do {
        q \<leftarrow> dal_fixed31_32_div arg dal_fixed31_32_ln2;
        let m = dal_fixed31_32_round q;
        let r = dal_fixed31_32_sub arg (dal_fixed31_32_mul_int dal_fixed31_32_ln2 m);
        t \<leftarrow> fixed31_32_exp_from_taylor_series r;
        (if 0 < sint m then dal_fixed31_32_shl t (ucast m)
         else do {
           s \<leftarrow> c_shl (1 :: i64) (unat (- m));
           dal_fixed31_32_div_int t s
         })
      }
      else if fx31_value arg \<noteq> 0 then fixed31_32_exp_from_taylor_series arg
      else Some dal_fixed31_32_one)"

partial_function (option) log_loop :: "fixed31_32 \<Rightarrow> fixed31_32 \<Rightarrow> fixed31_32 option" where
  "log_loop arg res = do {
     e \<leftarrow> dal_fixed31_32_exp res;
     q \<leftarrow> dal_fixed31_32_div arg e;
     let res1 = dal_fixed31_32_add (dal_fixed31_32_sub res dal_fixed31_32_one) q;
     let error = dal_fixed31_32_sub res res1;
     (if 100 < abs_i64 (fx31_value error) then log_loop arg res1 else Some res1)
   }"

definition dal_fixed31_32_log :: "fixed31_32 \<Rightarrow> fixed31_32 option" where
  "dal_fixed31_32_log arg = log_loop arg (dal_fixed31_32_neg dal_fixed31_32_one)"

definition dal_fixed31_32_pow :: "fixed31_32 \<Rightarrow> fixed31_32 \<Rightarrow> fixed31_32 option" where
  "dal_fixed31_32_pow arg1 arg2 = do {
     l \<leftarrow> dal_fixed31_32_log arg1;
     dal_fixed31_32_exp (dal_fixed31_32_mul l arg2)
   }"

definition ux_dy :: "i64 \<Rightarrow> nat \<Rightarrow> nat \<Rightarrow> u32 option" where
  "ux_dy value integer_bits fractional_bits = do {
     one \<leftarrow> c_shl (1 :: u32) integer_bits;
     let result = one - 1;
     let fractional_part = (ucast (mask 32 AND value) :: u32);
     let result = result AND ucast (signed_drop_bit 32 value);
     result \<leftarrow> c_shl result fractional_bits;
     fractional_part \<leftarrow> c_shr fractional_part (32 - fractional_bits);
     Some (result OR fractional_part)
   }"

definition dal_fixed31_32_u2d19 :: "fixed31_32 \<Rightarrow> u32 option" where
  "dal_fixed31_32_u2d19 arg = ux_dy (fx31_value arg) 2 19"

definition dal_fixed31_32_u0d19 :: "fixed31_32 \<Rightarrow> u32 option" where
  "dal_fixed31_32_u0d19 arg = ux_dy (fx31_value arg) 0 19"

section \<open>The division\<close>

interpretation f31: long_division from_fraction_step
proof
  fix d r q q' r' :: u64
  assume d: "unat d \<le> 2 ^ 63" and r: "unat r < unat d" and q: "unat q < 2 ^ 63"
    and s: "from_fraction_step d (q, r) = (q', r')"
  show "unat q' = 2 * unat q + 2 * unat r div unat d \<and> unat r' = 2 * unat r mod unat d"
    using shift_subtract_step [OF d r q] s
    by (simp only: from_fraction_step_def Let_def fst_conv snd_conv) (auto split: if_splits)
qed

lemma fx31_value_inject: "sint (fx31_value a) = sint (fx31_value b) \<Longrightarrow> a = (b :: fixed31_32)"
  by (intro fixed31_32.equality) (auto dest: signed_word_eqI)

interpretation f31o: fixed_order "\<lambda>a. sint (fx31_value a)" dal_fixed31_32_le dal_fixed31_32_lt
  dal_fixed31_32_min dal_fixed31_32_max
  by unfold_locales
    (auto simp: fx31_value_inject dal_fixed31_32_le_def dal_fixed31_32_lt_def dal_fixed31_32_min_def dal_fixed31_32_max_def)

lemma from_fraction_unfold:
  "dal_fixed31_32_from_fraction n d =
     (if c_abs d = 0 then None
      else let qr = (from_fraction_step (c_abs d) ^^ 32) (c_abs n div c_abs d, c_abs n mod c_abs d)
        in Some (fx31 (c_sign ((sint n < 0) \<noteq> (sint d < 0))
             (fst qr + of_bool (c_abs d \<le> push_bit 1 (snd qr))))))"
  unfolding dal_fixed31_32_from_fraction_def complete_integer_division_u64_def
    div64_u64_rem_def c_abs_def c_sign_def Let_def by (auto simp del: push_bit_Suc)

lemma from_fraction_zero: "dal_fixed31_32_from_fraction n 0 = None"
  by (simp add: dal_fixed31_32_from_fraction_def complete_integer_division_u64_def div64_u64_rem_def)

lemma from_fraction_rounds:
  assumes "d \<noteq> 0" and fit: "2 ^ 33 * \<bar>sint n\<bar> + \<bar>sint d\<bar> < 2 ^ 64 * \<bar>sint d\<bar>"
  shows "\<exists>v. dal_fixed31_32_from_fraction n d = Some v \<and>
    sint (fx31_value v) = (if (sint n < 0) = (sint d < 0) then 1 else - 1) *
      ((2 ^ 33 * \<bar>sint n\<bar> + \<bar>sint d\<bar>) div (2 * \<bar>sint d\<bar>))"
proof -
  obtain q r where run: "(from_fraction_step (c_abs d) ^^ 32) (c_abs n div c_abs d, c_abs n mod c_abs d) = (q, r)"
    by fastforce
  have "c_abs d \<noteq> 0" using assms(1) by (auto simp: c_abs_def)
  then have "dal_fixed31_32_from_fraction n d =
      Some (fx31 (c_sign ((sint n < 0) \<noteq> (sint d < 0)) (q + of_bool (c_abs d \<le> push_bit 1 r))))"
    by (simp only: from_fraction_unfold run Let_def fst_conv snd_conv if_False)
  then show ?thesis using f31.signed_quotient [OF assms(1) _ _ run] fit by simp
qed

section \<open>The multiplication\<close>

interpretation f31p: fixed_parts 32 get_integer_part get_fractional_part
  by unfold_locales
    (simp_all only: get_integer_part_def get_fractional_part_def and.commute [of "mask 32"] word_nat)

lemma abs_i64_eq: "abs_i64 w = c_abs w"
  using signed_eq_0_iff [of w] by (auto simp: abs_i64_def c_abs_def)

lemma mul_unfold:
  "dal_fixed31_32_mul a b =
     (let A = c_abs (fx31_value a); B = c_abs (fx31_value b);
          t = get_fractional_part A * get_fractional_part B
      in fx31 (c_sign ((sint (fx31_value a) < 0) \<noteq> (sint (fx31_value b) < 0))
        (push_bit 32 (get_integer_part A * get_integer_part B)
          + get_integer_part A * get_fractional_part B + get_integer_part B * get_fractional_part A
          + (drop_bit 32 t + of_bool (0x80000000 \<le> t)))))"
  unfolding dal_fixed31_32_mul_def c_abs_def c_sign_def Let_def dal_fixed31_32_half_def by simp

lemma mul_exact:
  assumes fit: "\<bar>sint (fx31_value a)\<bar> * \<bar>sint (fx31_value b)\<bar> < 2 ^ 95 - 2 ^ 32"
  shows "sint (fx31_value (dal_fixed31_32_mul a b)) =
    (if (sint (fx31_value a) < 0) = (sint (fx31_value b) < 0) then 1 else - 1) *
      (\<bar>sint (fx31_value a)\<bar> * \<bar>sint (fx31_value b)\<bar> div 2 ^ 32 +
       of_bool (2 ^ 31 \<le> \<bar>sint (fx31_value a)\<bar> mod 2 ^ 32 * (\<bar>sint (fx31_value b)\<bar> mod 2 ^ 32)))"
  using f31p.signed_product [of "fx31_value a" "fx31_value b" "0x80000000"] fit
  by (simp add: mul_unfold Let_def)

lemma mul_half_half:
  "dal_fixed31_32_mul dal_fixed31_32_half dal_fixed31_32_half = fx31 (0x40000000 + 1)"
  by code_simp

text \<open>Conversion to integers: all three routines work on the magnitude.\<close>

lemma int_conv:
  fixes a :: fixed31_32
  assumes "\<bar>sint (fx31_value a)\<bar> + int (unat k) < 2 ^ 63 \<or> k = 0"
  shows "sint (if 0 \<le> sint (fx31_value a)
      then ucast (get_integer_part (abs_i64 (fx31_value a) + k)) :: i32
      else - ucast (get_integer_part (abs_i64 (fx31_value a) + k))) =
    (if sint (fx31_value a) < 0 then - 1 else 1) *
      ((\<bar>sint (fx31_value a)\<bar> + int (unat k)) div 2 ^ 32)"
proof -
  let ?A = "c_abs (fx31_value a)" and ?neg = "sint (fx31_value a) < 0"
  have A: "\<bar>sint (fx31_value a)\<bar> = int (unat ?A)" by (simp add: unat_c_abs)
  have le: "unat ?A \<le> 2 ^ 63" using unat_c_abs_le [of "fx31_value a"] by simp
  have "int (unat ?A + unat k) < int (2 ^ 63) \<or> k = 0" using assms unfolding A by simp
  then have bnd: "unat ?A + unat k < 2 ^ 63 \<or> k = 0" by (simp only: of_nat_less_iff)
  then have sum: "unat (?A + k) = unat ?A + unat k"
    using le by (intro unat_add_small) auto
  have ge: "?neg \<or> unat ?A < 2 ^ 63"
    using sint_lt0 [of "fx31_value a"] by (simp add: c_abs_def)
  have i: "unat (get_integer_part (?A + k)) = (unat ?A + unat k) div 2 ^ 32"
    unfolding get_integer_part_def by (simp only: word_nat sum)
  have "sint (c_sign ?neg (ucast (get_integer_part (?A + k)) :: i32)) =
      (if ?neg then - int ((unat ?A + unat k) div 2 ^ 32) else int ((unat ?A + unat k) div 2 ^ 32))"
    unfolding i [symmetric]
    by (rule sint_c_sign_ucast) (unfold i, use bnd le ge in \<open>auto simp: less_mult_imp_div_less\<close>)
  moreover have "int ((unat ?A + unat k) div 2 ^ 32) = (\<bar>sint (fx31_value a)\<bar> + int (unat k)) div 2 ^ 32"
    unfolding A zdiv_int by simp
  ultimately show ?thesis
    unfolding abs_i64_eq c_sign_def by (auto split: if_splits)
qed

lemma floor_truncates:
  "sint (dal_fixed31_32_floor a) =
     (if sint (fx31_value a) < 0 then - 1 else 1) * (\<bar>sint (fx31_value a)\<bar> div 2 ^ 32)"
  using int_conv [of a 0] unfolding dal_fixed31_32_floor_def Let_def
  by (cases "sint (fx31_value a) < 0") simp_all

lemma round_nearest:
  assumes "\<bar>sint (fx31_value a)\<bar> < 2 ^ 63 - 2 ^ 31"
  shows "sint (dal_fixed31_32_round a) =
     (if sint (fx31_value a) < 0 then - 1 else 1) * ((\<bar>sint (fx31_value a)\<bar> + 2 ^ 31) div 2 ^ 32)"
  using int_conv [of a "0x80000000"] assms
  unfolding dal_fixed31_32_round_def dal_fixed31_32_half_def Let_def
  by (cases "sint (fx31_value a) < 0") simp_all

lemma ceil_away:
  assumes "\<bar>sint (fx31_value a)\<bar> < 2 ^ 63 - 2 ^ 32"
  shows "sint (dal_fixed31_32_ceil a) =
     (if sint (fx31_value a) < 0 then - 1 else 1) *
       ((\<bar>sint (fx31_value a)\<bar> + (2 ^ 32 - 1)) div 2 ^ 32)"
  using int_conv [of a "0xFFFFFFFF"] assms
  unfolding dal_fixed31_32_ceil_def dal_fixed31_32_one_def dal_fixed31_32_epsilon_def Let_def
  by (cases "sint (fx31_value a) < 0") simp_all


lemma from_fraction_None_iff: "(dal_fixed31_32_from_fraction n d = None) = (d = 0)"
proof -
  have "(c_abs d = 0) = (d = 0)" by (auto simp: c_abs_def)
  then show ?thesis by (simp add: from_fraction_unfold Let_def)
qed

lemma div_int_small:
  assumes "0 < n" "n < 2 ^ 32"
  shows "\<exists>r. dal_fixed31_32_div_int a (of_nat n) = Some r"
proof -
  have u: "unat (of_nat n :: i64) = n" using assms by (simp add: unat_of_nat)
  have "unat (push_bit 32 (of_nat n :: i64)) = n * 2 ^ 32"
    using assms by (subst unat_shiftl) (simp_all add: u)
  then have "push_bit 32 (of_nat n :: i64) \<noteq> 0" using assms by auto
  then show ?thesis
    unfolding dal_fixed31_32_div_int_def dal_fixed31_32_from_int_def fixed31_32.select_convs
    using from_fraction_None_iff by auto
qed

lemma series_step_total:
  assumes "2 \<le> n" "n \<le> 27"
  shows "\<exists>r. series_step square n res = Some r"
proof -
  have "n * (n - 1) \<le> 27 * 27" using assms by (intro mult_le_mono) simp_all
  then have "\<exists>q. dal_fixed31_32_div_int (dal_fixed31_32_mul square res) (of_nat (n * (n - 1))) = Some q"
    using assms by (intro div_int_small) simp_all
  then show ?thesis by (auto simp: series_step_def)
qed

lemma sinc_loop_total: "2 \<le> n \<Longrightarrow> n \<le> 27 \<Longrightarrow> \<exists>r. sinc_loop square n res = Some r"
proof (induction square n res rule: sinc_loop.induct)
  case (1 square n res)
  obtain r where r: "series_step square n res = Some r" using series_step_total 1(2,3) by blast
  show ?case using 1(1) [of r] 1(3) by (subst sinc_loop.simps) (auto simp: r)
qed

lemma cos_loop_total: "2 \<le> n \<Longrightarrow> n \<le> 27 \<Longrightarrow> even n \<Longrightarrow> \<exists>r. cos_loop square n res = Some r"
proof (induction square n res rule: cos_loop.induct)
  case (1 square n res)
  obtain r where r: "series_step square n res = Some r" using series_step_total 1(2,3) by blast
  have "2 \<le> n - 2 \<or> n - 2 = 0" using 1(4) by presburger
  then show ?case using 1(1) [of r] 1(3,4) by (subst cos_loop.simps) (auto simp: r)
qed

lemma taylor_loop_total: "2 \<le> n \<Longrightarrow> n \<le> 9 \<Longrightarrow> \<exists>r. taylor_loop arg n res = Some r"
proof (induction arg n res rule: taylor_loop.induct)
  case (1 arg n res)
  obtain q where q: "dal_fixed31_32_div_int (dal_fixed31_32_mul arg res) (of_nat n) = Some q"
    using div_int_small [of n] 1(2,3) by auto
  show ?case using 1(1) [of q] 1(3) by (subst taylor_loop.simps) (auto simp: q Let_def)
qed

lemma taylor_total: "\<exists>r. fixed31_32_exp_from_taylor_series a = Some r"
proof -
  obtain c where c: "dal_fixed31_32_from_fraction (9 + 2) (9 + 1) = Some c"
    using from_fraction_None_iff [of "9 + 2" "9 + 1"] by auto
  obtain r where "taylor_loop a 9 c = Some r" using taylor_loop_total [of 9] by auto
  then show ?thesis using c by (auto simp: fixed31_32_exp_from_taylor_series_def)
qed
text \<open>The exponent chosen by \<open>exp\<close>: the argument over \<open>ln 2\<close>, rounded.\<close>

lemma exp_exponent:
  assumes "\<bar>sint (fx31_value a)\<bar> \<le> 43 * 2 ^ 32"
  shows "\<exists>q. dal_fixed31_32_div a dal_fixed31_32_ln2 = Some q \<and>
    sint (dal_fixed31_32_round q) = (if sint (fx31_value a) < 0 then - 1 else 1) *
      (((2 ^ 33 * \<bar>sint (fx31_value a)\<bar> + 2977044471) div 5954088942 + 2 ^ 31) div 2 ^ 32)"
proof -
  define x where "x = sint (fx31_value a)"
  define y where "y = (2 ^ 33 * \<bar>x\<bar> + 2977044471) div 5954088942"
  have "\<bar>x\<bar> \<le> 43 * 2 ^ 32" using assms by (simp add: x_def)
  then have y: "0 \<le> y" "y < 2 ^ 62" by (simp_all add: y_def)
  obtain q where q: "dal_fixed31_32_div a dal_fixed31_32_ln2 = Some q"
    and v: "sint (fx31_value q) = (if x < 0 then - 1 else 1) * y"
    using from_fraction_rounds [of 2977044471 "fx31_value a"] assms
    by (auto simp: dal_fixed31_32_div_def dal_fixed31_32_ln2_def x_def y_def)
  have "\<bar>sint (fx31_value q)\<bar> = y" using y v by simp
  moreover have "sint (fx31_value q) < 0 \<longleftrightarrow> x < 0 \<and> y \<noteq> 0" using v y by auto
  ultimately have "sint (dal_fixed31_32_round q) = (if x < 0 then - 1 else 1) * ((y + 2 ^ 31) div 2 ^ 32)"
    using round_nearest [of q] y by auto
  then show ?thesis using q unfolding x_def y_def by auto
qed

lemma sint_abs:
  assumes "\<bar>sint (fx31_value a)\<bar> < 2 ^ 63"
  shows "sint (fx31_value (dal_fixed31_32_abs a)) = \<bar>sint (fx31_value a)\<bar>"
proof -
  have "fx31_value (dal_fixed31_32_abs a) = c_abs (fx31_value a)"
    by (simp add: dal_fixed31_32_abs_def dal_fixed31_32_neg_def c_abs_def)
  then show ?thesis
    using assms sint_of_small [of "c_abs (fx31_value a)"] by (simp add: unat_c_abs nat_less_iff)
qed

lemma exp_big_unfold:
  assumes q: "dal_fixed31_32_div a dal_fixed31_32_ln2 = Some q"
    and big: "1488522236 \<le> \<bar>sint (fx31_value a)\<bar>" "\<bar>sint (fx31_value a)\<bar> < 2 ^ 63"
  shows "\<exists>t. dal_fixed31_32_exp a =
    (if 0 < sint (dal_fixed31_32_round q) then dal_fixed31_32_shl t (ucast (dal_fixed31_32_round q))
     else c_shl (1 :: i64) (unat (- dal_fixed31_32_round q)) \<bind> dal_fixed31_32_div_int t)"
proof -
  have "dal_fixed31_32_le dal_fixed31_32_ln2_div_2 (dal_fixed31_32_abs a)"
    using big by (simp add: dal_fixed31_32_le_def dal_fixed31_32_ln2_div_2_def sint_abs)
  moreover obtain t where "fixed31_32_exp_from_taylor_series
      (dal_fixed31_32_sub a (dal_fixed31_32_mul_int dal_fixed31_32_ln2 (dal_fixed31_32_round q))) = Some t"
    using taylor_total by blast
  ultimately show ?thesis using q
    by (auto simp: dal_fixed31_32_exp_def Let_def intro!: exI [of _ t])
qed

lemma exp_small_unfold:
  assumes "\<bar>sint (fx31_value a)\<bar> < 1488522236"
  shows "dal_fixed31_32_exp a = (if fx31_value a \<noteq> 0 then fixed31_32_exp_from_taylor_series a
    else Some dal_fixed31_32_one)"
proof -
  have "\<not> dal_fixed31_32_le dal_fixed31_32_ln2_div_2 (dal_fixed31_32_abs a)"
    using assms by (simp add: dal_fixed31_32_le_def dal_fixed31_32_ln2_div_2_def sint_abs)
  then show ?thesis by (simp add: dal_fixed31_32_exp_def)
qed

lemma div_int_pow2:
  assumes "k < 32"
  shows "\<exists>r. dal_fixed31_32_div_int t (2 ^ k) = Some r"
proof -
  have "(2::nat) ^ k < 2 ^ 32" using assms by (intro power_strict_increasing) simp_all
  then show ?thesis using div_int_small [of "2 ^ k" t] by simp
qed

lemma div_int_pow2_traps:
  assumes "32 \<le> k"
  shows "dal_fixed31_32_div_int t (2 ^ k) = None"
proof -
  have "push_bit 32 (2 ^ k) = (2 ^ (k + 32) :: i64)" by (simp only: push_bit_eq_mult power_add)
  also have "\<dots> = 0" using assms by (simp only: exp_eq_zero_iff) simp
  finally show ?thesis
    by (simp only: dal_fixed31_32_div_int_def dal_fixed31_32_from_int_def fixed31_32.select_convs
      from_fraction_None_iff)
qed

lemma div_int_flips_sign:
  assumes "2 ^ 31 \<le> sint (fx31_value t)"
  shows "\<exists>r. dal_fixed31_32_div_int t (2 ^ 31) = Some r \<and> sint (fx31_value r) < 0"
proof -
  have d: "fx31_value (dal_fixed31_32_from_int (2 ^ 31)) = 0x8000000000000000"
    by (simp add: dal_fixed31_32_from_int_def)
  have "sint (0x8000000000000000 :: i64) = - (2 ^ 63)" by simp
  moreover have "sint (fx31_value t) < 2 ^ 63" using sint_lt [of "fx31_value t"] by simp
  ultimately show ?thesis
    using from_fraction_rounds [of "0x8000000000000000" "fx31_value t"] assms
    unfolding dal_fixed31_32_div_int_def d by auto
qed

lemma log_loop_residual:
  assumes "log_loop a res0 = Some r"
  shows "\<exists>res e q. dal_fixed31_32_exp res = Some e \<and> dal_fixed31_32_div a e = Some q \<and>
    r = dal_fixed31_32_add (dal_fixed31_32_sub res dal_fixed31_32_one) q \<and>
    abs_i64 (fx31_value (dal_fixed31_32_sub res r)) \<le> 100"
proof (rule log_loop.raw_induct [where P = "\<lambda>a res0 r. \<exists>res e q.
    dal_fixed31_32_exp res = Some e \<and> dal_fixed31_32_div a e = Some q \<and>
    r = dal_fixed31_32_add (dal_fixed31_32_sub res dal_fixed31_32_one) q \<and>
    abs_i64 (fx31_value (dal_fixed31_32_sub res r)) \<le> 100", OF _ assms])
  fix f :: "fixed31_32 \<Rightarrow> fixed31_32 \<Rightarrow> fixed31_32 option" and a res0 r
  assume IH: "\<And>a res0 r. f a res0 = Some r \<Longrightarrow> \<exists>res e q.
    dal_fixed31_32_exp res = Some e \<and> dal_fixed31_32_div a e = Some q \<and>
    r = dal_fixed31_32_add (dal_fixed31_32_sub res dal_fixed31_32_one) q \<and>
    abs_i64 (fx31_value (dal_fixed31_32_sub res r)) \<le> 100"
  assume "dal_fixed31_32_exp res0 \<bind> (\<lambda>e. dal_fixed31_32_div a e \<bind> (\<lambda>q.
      let res1 = dal_fixed31_32_add (dal_fixed31_32_sub res0 dal_fixed31_32_one) q;
          error = dal_fixed31_32_sub res0 res1
      in if 100 < abs_i64 (fx31_value error) then f a res1 else Some res1)) = Some r"
  then show "\<exists>res e q. dal_fixed31_32_exp res = Some e \<and> dal_fixed31_32_div a e = Some q \<and>
    r = dal_fixed31_32_add (dal_fixed31_32_sub res dal_fixed31_32_one) q \<and>
    abs_i64 (fx31_value (dal_fixed31_32_sub res r)) \<le> 100"
    using IH by (fastforce simp: bind_eq_Some_conv Let_def not_less split: if_splits)
qed

lemma cos_total: "\<exists>r. dal_fixed31_32_cos a = Some r"
  unfolding dal_fixed31_32_cos_def by (rule cos_loop_total) simp_all

lemma sinc_total: "\<exists>r. dal_fixed31_32_sinc a = Some r"
proof -
  obtain q where q: "c_sdiv (fx31_value a) (fx31_value dal_fixed31_32_two_pi) = Some q"
    by (simp add: c_sdiv_def dal_fixed31_32_two_pi_def)
  have s: "\<exists>r. sinc_loop sq 27 dal_fixed31_32_one = Some r" for sq by (rule sinc_loop_total) simp_all
  have nz: "fx31_value a \<noteq> 0" if "dal_fixed31_32_le dal_fixed31_32_two_pi (dal_fixed31_32_abs a)"
    using that by (auto simp: dal_fixed31_32_le_def dal_fixed31_32_abs_def dal_fixed31_32_two_pi_def)
  show ?thesis
  proof (cases "dal_fixed31_32_le dal_fixed31_32_two_pi (dal_fixed31_32_abs a)")
    case True
    define n where "n = dal_fixed31_32_sub a (dal_fixed31_32_mul_int dal_fixed31_32_two_pi (ucast q))"
    obtain r where "sinc_loop (dal_fixed31_32_sqr n) 27 dal_fixed31_32_one = Some r" using s by blast
    moreover have "\<exists>d. dal_fixed31_32_div x a = Some d" for x
      using from_fraction_None_iff nz [OF True] by (auto simp: dal_fixed31_32_div_def)
    ultimately show ?thesis using True q
      by (auto simp: dal_fixed31_32_sinc_def n_def Let_def)
  next
    case False
    then show ?thesis using s by (simp add: dal_fixed31_32_sinc_def Let_def)
  qed
qed

section \<open>Properties\<close>

text \<open>
  (C38) \<open>dal_fixed31_32_from_fraction\<close>, on which every division of the library rests,
  returns the fixed-point number nearest to the exact quotient: whenever the quotient is
  representable, the result differs from it by at most half a unit in the last place, and its
  magnitude is the exact quotient rounded half up.
\<close>

theorem fixed31_32_from_fraction_nearest:
  assumes "d \<noteq> 0" and "2 ^ 33 * \<bar>sint n\<bar> + \<bar>sint d\<bar> < 2 ^ 64 * \<bar>sint d\<bar>"
  shows "\<exists>v. dal_fixed31_32_from_fraction n d = Some v \<and>
    \<bar>sint (fx31_value v)\<bar> = (2 ^ 33 * \<bar>sint n\<bar> + \<bar>sint d\<bar>) div (2 * \<bar>sint d\<bar>) \<and>
    2 * \<bar>sint (fx31_value v) * sint d - sint n * 2 ^ 32\<bar> \<le> \<bar>sint d\<bar>"
proof -
  obtain v where v: "dal_fixed31_32_from_fraction n d = Some v"
    and e: "sint (fx31_value v) = (if (sint n < 0) = (sint d < 0) then 1 else - 1) *
      ((2 ^ 33 * \<bar>sint n\<bar> + \<bar>sint d\<bar>) div (2 * \<bar>sint d\<bar>))"
    using from_fraction_rounds [OF assms] by blast
  have "sint d \<noteq> 0" "(0::int) \<le> 2 ^ 32" "(2::int) ^ 33 = 2 * 2 ^ 32"
    using assms(1) by (simp_all add: signed_eq_0_iff)
  note err = signed_quotient_error [OF this, of "sint n"]
  show ?thesis
    by (intro exI [of _ v] conjI) (use v err in \<open>simp_all only: e\<close>)
qed

theorem fixed31_32_from_fraction_nearest_witness:
  "\<exists>v. dal_fixed31_32_from_fraction (- 7) 3 = Some v \<and>
    \<bar>sint (fx31_value v)\<bar> = 10021590357 \<and>
    2 * \<bar>sint (fx31_value v) * 3 - (- 7) * 2 ^ 32\<bar> \<le> 3"
  using fixed31_32_from_fraction_nearest [of 3 "- 7"] by simp

text \<open>
  \<open>dal_fixed31_32_mul\<close> is exact up to one unit in the last place for every pair of
  operands whose product is representable.
\<close>

theorem fixed31_32_mul_within_one_ulp:
  assumes "\<bar>sint (fx31_value a)\<bar> * \<bar>sint (fx31_value b)\<bar> < 2 ^ 95 - 2 ^ 32"
  shows "\<bar>sint (fx31_value (dal_fixed31_32_mul a b)) * 2 ^ 32
    - sint (fx31_value a) * sint (fx31_value b)\<bar> \<le> 2 ^ 32"
  unfolding mul_exact [OF assms] by (rule signed_product_error) simp_all

theorem fixed31_32_mul_within_one_ulp_witness:
  "\<bar>sint (fx31_value (dal_fixed31_32_mul (fx31 0x180000000) (fx31 (- 0x280000000)))) * 2 ^ 32
    - 0x180000000 * (- 0x280000000)\<bar> \<le> 2 ^ 32"
  using fixed31_32_mul_within_one_ulp [of "fx31 0x180000000" "fx31 (- 0x280000000)"] by simp

text \<open>
  The specialised squaring routine computes what the multiplication computes, for every
  operand, overflowing ones included.
\<close>

theorem fixed31_32_sqr_is_mul: "dal_fixed31_32_sqr a = dal_fixed31_32_mul a a"
  unfolding dal_fixed31_32_sqr_def mul_unfold Let_def abs_i64_eq dal_fixed31_32_half_def
  by (simp add: c_sign_def)

text \<open>
  The trigonometric routines return a value for every argument: no iteration of their
  series divides by zero, and neither does the final division of \<open>sinc\<close>.
\<close>

theorem fixed31_32_trig_total:
  "(\<exists>r. dal_fixed31_32_sinc a = Some r) \<and> (\<exists>r. dal_fixed31_32_sin a = Some r) \<and>
   (\<exists>r. dal_fixed31_32_cos a = Some r)"
  using sinc_total [of a] cos_total [of a] by (auto simp: dal_fixed31_32_sin_def)

text \<open>
  The exponential returns a value for every argument from \<open>-21\<close> to \<open>43\<close>:
  the exponent it computes stays within the shift range, and the divisor \<open>1 << -m\<close> within
  the integers that can be converted.
\<close>

theorem fixed31_32_exp_total:
  assumes "- 21 * 2 ^ 32 \<le> sint (fx31_value a)" "sint (fx31_value a) \<le> 43 * 2 ^ 32"
  shows "\<exists>r. dal_fixed31_32_exp a = Some r"
proof (cases "1488522236 \<le> \<bar>sint (fx31_value a)\<bar>")
  case True
  have r: "\<bar>sint (fx31_value a)\<bar> \<le> 43 * 2 ^ 32" using assms by linarith
  obtain q where q: "dal_fixed31_32_div a dal_fixed31_32_ln2 = Some q"
    and m: "sint (dal_fixed31_32_round q) = (if sint (fx31_value a) < 0 then - 1 else 1) *
      (((2 ^ 33 * \<bar>sint (fx31_value a)\<bar> + 2977044471) div 5954088942 + 2 ^ 31) div 2 ^ 32)"
    using exp_exponent [OF r] by blast
  have b: "sint (dal_fixed31_32_round q) \<le> 63" "- 30 \<le> sint (dal_fixed31_32_round q)"
    unfolding m using assms by auto
  obtain t where e: "dal_fixed31_32_exp a =
    (if 0 < sint (dal_fixed31_32_round q) then dal_fixed31_32_shl t (ucast (dal_fixed31_32_round q))
     else c_shl (1 :: i64) (unat (- dal_fixed31_32_round q)) \<bind> dal_fixed31_32_div_int t)"
    using exp_big_unfold [OF q True] r by auto
  show ?thesis
    using b unat_of_sint [of "dal_fixed31_32_round q"] div_int_pow2
    by (auto simp: e dal_fixed31_32_shl_def c_shl_def unat_ucast)
next
  case False
  then show ?thesis using taylor_total by (simp add: exp_small_unfold)
qed

theorem fixed31_32_exp_total_witness: "\<exists>r. dal_fixed31_32_exp (fx31 (- 4294967296)) = Some r"
  using fixed31_32_exp_total [of "fx31 (- 4294967296)"] by simp

text \<open>
  (C39) Below that range the exponential traps: for every argument from \<open>-43\<close> to
  \<open>-23\<close> the divisor \<open>1 << -m\<close> loses all its bits when it is converted to fixed
  point, and the division that follows divides by zero.
\<close>

theorem fixed31_32_exp_underflow_traps:
  assumes "- 43 * 2 ^ 32 \<le> sint (fx31_value a)" "sint (fx31_value a) \<le> - 23 * 2 ^ 32"
  shows "dal_fixed31_32_exp a = None"
proof -
  have r: "\<bar>sint (fx31_value a)\<bar> \<le> 43 * 2 ^ 32" "1488522236 \<le> \<bar>sint (fx31_value a)\<bar>"
    using assms by simp_all
  obtain q where q: "dal_fixed31_32_div a dal_fixed31_32_ln2 = Some q"
    and m: "sint (dal_fixed31_32_round q) = (if sint (fx31_value a) < 0 then - 1 else 1) *
      (((2 ^ 33 * \<bar>sint (fx31_value a)\<bar> + 2977044471) div 5954088942 + 2 ^ 31) div 2 ^ 32)"
    using exp_exponent [OF r(1)] by blast
  have b: "sint (dal_fixed31_32_round q) \<le> - 33" "- 63 \<le> sint (dal_fixed31_32_round q)"
    unfolding m using assms by auto
  obtain t where e: "dal_fixed31_32_exp a =
    (if 0 < sint (dal_fixed31_32_round q) then dal_fixed31_32_shl t (ucast (dal_fixed31_32_round q))
     else c_shl (1 :: i64) (unat (- dal_fixed31_32_round q)) \<bind> dal_fixed31_32_div_int t)"
    using exp_big_unfold [OF q r(2)] r by auto
  show ?thesis
    using b unat_of_sint [of "dal_fixed31_32_round q"]
    by (auto simp: e c_shl_def div_int_pow2_traps)
qed

theorem fixed31_32_exp_underflow_traps_witness: "dal_fixed31_32_exp (fx31 (- 128849018880)) = None"
  using fixed31_32_exp_underflow_traps [of "fx31 (- 128849018880)"] by simp

text \<open>
  The conversions to integers work on the magnitude and put the sign back:
  \<open>floor\<close> drops the fraction of the magnitude, \<open>round\<close> rounds the magnitude half
  up, \<open>ceil\<close> rounds the magnitude up. For negative numbers \<open>floor\<close> therefore
  rounds up and \<open>ceil\<close> down.
\<close>

theorem fixed31_32_int_conversions:
  assumes "\<bar>sint (fx31_value a)\<bar> < 2 ^ 63 - 2 ^ 32"
  shows "sint (dal_fixed31_32_floor a) =
      (if sint (fx31_value a) < 0 then - 1 else 1) * (\<bar>sint (fx31_value a)\<bar> div 2 ^ 32) \<and>
    sint (dal_fixed31_32_round a) =
      (if sint (fx31_value a) < 0 then - 1 else 1) * ((\<bar>sint (fx31_value a)\<bar> + 2 ^ 31) div 2 ^ 32) \<and>
    sint (dal_fixed31_32_ceil a) =
      (if sint (fx31_value a) < 0 then - 1 else 1) *
        ((\<bar>sint (fx31_value a)\<bar> + (2 ^ 32 - 1)) div 2 ^ 32)"
proof -
  have "\<bar>sint (fx31_value a)\<bar> < 2 ^ 63 - 2 ^ 31" using assms by simp
  then show ?thesis using floor_truncates [of a] round_nearest [of a] ceil_away [OF assms] by blast
qed

theorem fixed31_32_int_conversions_witness:
  "sint (dal_fixed31_32_floor (fx31 (- 0x80000000))) = 0 \<and>
   sint (dal_fixed31_32_round (fx31 (- 0x80000000))) = - 1 \<and>
   sint (dal_fixed31_32_ceil (fx31 (- 0x80000000))) = - 1"
  using fixed31_32_int_conversions [of "fx31 (- 0x80000000)"] by simp

text \<open>
  The hardware formats select the right bits: \<open>u2d19\<close> is the 21 bits above bit 13
  of the value, \<open>u0d19\<close> the 19 bits above it.
\<close>

theorem fixed31_32_hw_formats:
  "dal_fixed31_32_u2d19 a = Some (ucast (take_bit 21 (drop_bit 13 (fx31_value a)))) \<and>
   dal_fixed31_32_u0d19 a = Some (ucast (take_bit 19 (drop_bit 13 (fx31_value a))))"
proof -
  have m: "push_bit 2 1 - 1 = (mask 2 :: u32)" by (simp add: mask_eq_exp_minus_1)
  have "push_bit 19 (mask 2 AND ucast (signed_drop_bit 32 v) :: u32) OR drop_bit 13 (ucast (mask 32 AND v))
      = ucast (take_bit 21 (drop_bit 13 v))"
    and "drop_bit 13 (ucast (mask 32 AND v)) = (ucast (take_bit 19 (drop_bit 13 v)) :: u32)" for v :: i64
    by (rule bit_eqI; auto simp add: bit_simps)+
  then show ?thesis
    by (simp add: dal_fixed31_32_u2d19_def dal_fixed31_32_u0d19_def ux_dy_def c_shl_def c_shr_def
        m [symmetric])
qed

text \<open>
  Clamping to a non-empty range lands in the range and leaves the numbers of the range alone.
\<close>

theorem fixed31_32_clamp_in_range:
  assumes "dal_fixed31_32_le lo hi"
  shows "dal_fixed31_32_le lo (dal_fixed31_32_clamp a lo hi) \<and>
    dal_fixed31_32_le (dal_fixed31_32_clamp a lo hi) hi \<and>
    (dal_fixed31_32_le lo a \<and> dal_fixed31_32_le a hi \<longrightarrow> dal_fixed31_32_clamp a lo hi = a)"
  using f31o.clamp_bounds [OF assms] unfolding dal_fixed31_32_clamp_def by blast

theorem fixed31_32_clamp_in_range_witness:
  "dal_fixed31_32_clamp (fx31 7) dal_fixed31_32_zero dal_fixed31_32_one = fx31 7"
  using fixed31_32_clamp_in_range [of dal_fixed31_32_zero dal_fixed31_32_one "fx31 7"]
  by (simp add: dal_fixed31_32_le_def dal_fixed31_32_zero_def dal_fixed31_32_one_def)

end
