(* ===== verification/Fixpt32_32.thy ===== *)
theory Fixpt32_32
  imports Fixed_Arith Fixed_Order
begin

text \<open>
  The unsigned fixed-point library \<open>dal/dc/basics/fixpt32_32.c\<close>: 32 integer and 32
  fractional bits in a \<open>uint64_t\<close>. Every function of the file is modelled.

  Shown here: division rounds half up for divisors up to \<open>2^63\<close>, and how it fails above;
  multiplication truncates; the integer conversions are floor, ceiling and round half up.
\<close>

section \<open>Data and operations\<close>

record fixed32_32 =
  fx32_value :: u64

abbreviation fx32 :: "u64 \<Rightarrow> fixed32_32" where
  "fx32 v \<equiv> \<lparr>fx32_value = v\<rparr>"

text \<open>
  One iteration of the loop of \<open>u64_div\<close>; the top bit of the quotient is carried into
  the remainder.
\<close>

definition u64_div_step :: "u64 \<Rightarrow> u64 \<times> u64 \<Rightarrow> u64 \<times> u64" where
  "u64_div_step d qr =
     (let q = fst qr; r = snd qr;
          sbit = q AND push_bit 63 1;
          r = push_bit 1 r;
          r = r OR (if sbit \<noteq> 0 then 1 else 0);
          q = push_bit 1 q
      in if d \<le> r then (q OR 1, r - d) else (q, r))"

definition u64_div :: "u64 \<Rightarrow> u64 \<Rightarrow> u64 option" where
  "u64_div n d = do {
     qr \<leftarrow> div64_u64_rem n d;
     let qr = (u64_div_step d ^^ 32) qr;
     Some (if d \<le> 2 * snd qr then fst qr + 1 else fst qr)
   }"

definition dal_fixed32_32_from_fraction :: "u32 \<Rightarrow> u32 \<Rightarrow> fixed32_32 option" where
  "dal_fixed32_32_from_fraction n d =
     map_option fx32 (u64_div (push_bit 32 (ucast n)) (push_bit 32 (ucast d)))"

definition dal_fixed32_32_from_int :: "u32 \<Rightarrow> fixed32_32" where
  "dal_fixed32_32_from_int value = fx32 (push_bit 32 (ucast value))"

definition dal_fixed32_32_add :: "fixed32_32 \<Rightarrow> fixed32_32 \<Rightarrow> fixed32_32" where
  "dal_fixed32_32_add lhs rhs = fx32 (fx32_value lhs + fx32_value rhs)"

definition dal_fixed32_32_add_int :: "fixed32_32 \<Rightarrow> u32 \<Rightarrow> fixed32_32" where
  "dal_fixed32_32_add_int lhs rhs = fx32 (fx32_value lhs + push_bit 32 (ucast rhs))"

definition dal_fixed32_32_sub :: "fixed32_32 \<Rightarrow> fixed32_32 \<Rightarrow> fixed32_32" where
  "dal_fixed32_32_sub lhs rhs = fx32 (fx32_value lhs - fx32_value rhs)"

definition dal_fixed32_32_sub_int :: "fixed32_32 \<Rightarrow> u32 \<Rightarrow> fixed32_32" where
  "dal_fixed32_32_sub_int lhs rhs = fx32 (fx32_value lhs - push_bit 32 (ucast rhs))"

definition fx32_int :: "u64 \<Rightarrow> u64" where
  "fx32_int v = drop_bit 32 v"

definition fx32_frac :: "u64 \<Rightarrow> u64" where
  "fx32_frac v = ucast (ucast v :: u32)"

definition dal_fixed32_32_mul :: "fixed32_32 \<Rightarrow> fixed32_32 \<Rightarrow> fixed32_32" where
  "dal_fixed32_32_mul lhs rhs =
     (let lhs_int = fx32_int (fx32_value lhs);
          lhs_frac = fx32_frac (fx32_value lhs);
          rhs_int = fx32_int (fx32_value rhs);
          rhs_frac = fx32_frac (fx32_value rhs);
          ahbh = lhs_int * rhs_int;
          ahbl = lhs_int * rhs_frac;
          albh = lhs_frac * rhs_int;
          albl = lhs_frac * rhs_frac
      in fx32 (push_bit 32 ahbh + ahbl + albh + drop_bit 32 albl))"

definition dal_fixed32_32_mul_int :: "fixed32_32 \<Rightarrow> u32 \<Rightarrow> fixed32_32" where
  "dal_fixed32_32_mul_int lhs rhs =
     (let lhsi = fx32_int (fx32_value lhs) * ucast rhs;
          lhsf = fx32_frac (fx32_value lhs) * ucast rhs
      in fx32 (push_bit 32 lhsi + lhsf))"

definition dal_fixed32_32_div :: "fixed32_32 \<Rightarrow> fixed32_32 \<Rightarrow> fixed32_32 option" where
  "dal_fixed32_32_div lhs rhs = map_option fx32 (u64_div (fx32_value lhs) (fx32_value rhs))"

definition dal_fixed32_32_div_int :: "fixed32_32 \<Rightarrow> u32 \<Rightarrow> fixed32_32 option" where
  "dal_fixed32_32_div_int lhs rhs =
     map_option fx32 (u64_div (fx32_value lhs) (push_bit 32 (ucast rhs)))"

definition dal_fixed32_32_min :: "fixed32_32 \<Rightarrow> fixed32_32 \<Rightarrow> fixed32_32" where
  "dal_fixed32_32_min lhs rhs = (if fx32_value lhs < fx32_value rhs then lhs else rhs)"

definition dal_fixed32_32_max :: "fixed32_32 \<Rightarrow> fixed32_32 \<Rightarrow> fixed32_32" where
  "dal_fixed32_32_max lhs rhs = (if fx32_value lhs > fx32_value rhs then lhs else rhs)"

definition dal_fixed32_32_gt :: "fixed32_32 \<Rightarrow> fixed32_32 \<Rightarrow> bool" where
  "dal_fixed32_32_gt lhs rhs = (fx32_value lhs > fx32_value rhs)"

definition dal_fixed32_32_gt_int :: "fixed32_32 \<Rightarrow> u32 \<Rightarrow> bool" where
  "dal_fixed32_32_gt_int lhs rhs = (fx32_value lhs > push_bit 32 (ucast rhs))"

definition dal_fixed32_32_lt :: "fixed32_32 \<Rightarrow> fixed32_32 \<Rightarrow> bool" where
  "dal_fixed32_32_lt lhs rhs = (fx32_value lhs < fx32_value rhs)"

definition dal_fixed32_32_le :: "fixed32_32 \<Rightarrow> fixed32_32 \<Rightarrow> bool" where
  "dal_fixed32_32_le lhs rhs = (fx32_value lhs \<le> fx32_value rhs)"

definition dal_fixed32_32_lt_int :: "fixed32_32 \<Rightarrow> u32 \<Rightarrow> bool" where
  "dal_fixed32_32_lt_int lhs rhs = (fx32_value lhs < push_bit 32 (ucast rhs))"

definition dal_fixed32_32_le_int :: "fixed32_32 \<Rightarrow> u32 \<Rightarrow> bool" where
  "dal_fixed32_32_le_int lhs rhs = (fx32_value lhs \<le> push_bit 32 (ucast rhs))"

definition dal_fixed32_32_ceil :: "fixed32_32 \<Rightarrow> u32" where
  "dal_fixed32_32_ceil v =
     ucast (drop_bit 32 (fx32_value v) + (if (ucast (fx32_value v) :: u32) \<noteq> 0 then 1 else 0))"

definition dal_fixed32_32_floor :: "fixed32_32 \<Rightarrow> u32" where
  "dal_fixed32_32_floor v = ucast (drop_bit 32 (fx32_value v))"

definition dal_fixed32_32_round :: "fixed32_32 \<Rightarrow> u32" where
  "dal_fixed32_32_round v = ucast (drop_bit 32 (fx32_value v + push_bit 31 1))"

definition dal_fixed32_32_eq :: "fixed32_32 \<Rightarrow> fixed32_32 \<Rightarrow> bool" where
  "dal_fixed32_32_eq lhs rhs = (fx32_value lhs = fx32_value rhs)"

section \<open>Interfaces\<close>

interpretation f32: long_division u64_div_step
proof
  fix d r q q' r' :: u64
  assume d: "unat d \<le> 2 ^ 63" and r: "unat r < unat d" and q: "unat q < 2 ^ 63"
    and s: "u64_div_step d (q, r) = (q', r')"
  have "\<not> bit (unat q) 63" using q by (simp add: bit_iff_odd)
  then have "\<not> bit q 63" by (simp add: bit_simps)
  then have "q AND push_bit 63 1 = 0"
    by (intro bit_eqI) (auto simp only: push_bit_of_1 bit_and_iff bit_exp_iff bit_0_eq bot_apply bot_bool_def)
  then show "unat q' = 2 * unat q + 2 * unat r div unat d \<and> unat r' = 2 * unat r mod unat d"
    using shift_subtract_step [OF d r q] s
    by (simp only: u64_div_step_def Let_def fst_conv snd_conv) (auto split: if_splits)
qed

interpretation f32p: fixed_parts 32 fx32_int fx32_frac
  by unfold_locales (simp_all add: fx32_int_def fx32_frac_def unat_shiftr unat_ucast)

lemma fx32_value_inject: "fx32_value a = fx32_value b \<Longrightarrow> a = (b :: fixed32_32)"
  by (intro fixed32_32.equality) simp_all

interpretation f32o: fixed_order "\<lambda>a. uint (fx32_value a)" dal_fixed32_32_le dal_fixed32_32_lt
  dal_fixed32_32_min dal_fixed32_32_max
  by unfold_locales
    (auto simp: fx32_value_inject word_uint_eqI dal_fixed32_32_le_def dal_fixed32_32_lt_def
      dal_fixed32_32_min_def dal_fixed32_32_max_def word_le_def word_less_def)

lemma u64_div_rounds:
  assumes d: "d \<noteq> 0" "unat d \<le> 2 ^ 63" and fit: "2 ^ 33 * unat n + unat d < 2 ^ 65 * unat d"
  shows "\<exists>q. u64_div n d = Some q \<and> unat q = (2 ^ 33 * unat n + unat d) div (2 * unat d)"
proof -
  obtain q r where run: "(u64_div_step d ^^ 32) (n div d, n mod d) = (q, r)" by fastforce
  have "unat n < 2 ^ 32 * unat d" using fit by simp
  then have "unat (n div d) < 2 ^ (64 - 32)" by (simp add: unat_div_distrib less_mult_imp_div_less)
  then have e: "unat q + of_bool (d \<le> push_bit 1 r) = (2 ^ 33 * unat n + unat d) div (2 * unat d)"
    using f32.step_run_rounded [OF d(2,1) _ _ run] by simp
  have "(2 ^ 33 * unat n + unat d) div (2 * unat d) < 2 ^ 64"
    using fit by (intro less_mult_imp_div_less) simp
  then have "unat (q + of_bool (d \<le> push_bit 1 r)) = unat q + of_bool (d \<le> push_bit 1 r)"
    unfolding e [symmetric] by (cases "d \<le> push_bit 1 r") (simp_all add: unat_add_small)
  moreover have two: "2 * r = push_bit 1 r" by (simp add: push_bit_eq_mult)
  have "u64_div n d = Some (if d \<le> push_bit 1 r then q + 1 else q)"
    using d(1) by (simp only: u64_div_def div64_u64_rem_def if_False Option.bind_lunit Let_def run
      fst_conv snd_conv two)
  then have "u64_div n d = Some (q + of_bool (d \<le> push_bit 1 r))" by (simp only: of_bool_def) simp
  ultimately show ?thesis using e by simp
qed

text \<open>
  A run that overflows: with the divisor \<open>2^64 - 2^32\<close> and the remainder
  \<open>2^64 - 2^33\<close> every shift drops the top bit and no iteration ever subtracts.
\<close>

lemma u64_div_step_overflow:
  assumes "32 < k"
  shows "u64_div_step (- (2 ^ 32)) (0, - (2 ^ k)) = (0, - (2 ^ Suc k))"
proof -
  have s: "push_bit 1 (- (2 ^ k) :: u64) = - (2 ^ Suc k)" by (simp add: push_bit_eq_mult)
  have "\<not> - (2 ^ 32) \<le> (- (2 ^ Suc k) :: u64)"
  proof (cases "Suc k < 64")
    case True
    have p: "unat (2 ^ j :: u64) = 2 ^ j" if "j < 64" for j
      using that unat_shiftl [of "1 :: u64" j] power_strict_increasing [OF that, of "2 :: nat"]
      by (simp add: push_bit_eq_mult)
    have "unat (- (2 ^ j) :: u64) = 2 ^ 64 - 2 ^ j" if "j < 64" for j
      using that p [OF that] by (subst unat_uminus_word) auto
    note n = this [OF True]
    have "(2::nat) ^ 32 < 2 ^ Suc k" using assms by (intro power_strict_increasing) simp_all
    moreover have "(2::nat) ^ Suc k < 2 ^ 64" using True by (intro power_strict_increasing) simp_all
    ultimately show ?thesis unfolding word_le_nat_alt n by simp
  next
    case False
    then have "(2 ^ Suc k :: u64) = 0" by (simp only: exp_eq_zero_iff) simp
    then show ?thesis by (simp only: minus_zero) simp
  qed
  then show ?thesis by (simp only: u64_div_step_def Let_def fst_conv snd_conv s) simp
qed

lemma u64_div_run_overflow:
  "(u64_div_step (- (2 ^ 32)) ^^ i) (0, - (2 ^ 33)) = (0, - (2 ^ (33 + i)))"
proof (induction i)
  case (Suc i)
  then show ?case by (simp only: funpow.simps comp_apply u64_div_step_overflow add_Suc_right)
qed simp

section \<open>Properties\<close>

text \<open>
  Division of unsigned fixed-point numbers: for every non-zero divisor up to \<open>2^63\<close>
  and every representable quotient the result is the exact quotient rounded half up.
\<close>

theorem fixed32_32_div_rounds:
  assumes "fx32_value b \<noteq> 0" and "unat (fx32_value b) \<le> 2 ^ 63"
    and "2 ^ 33 * unat (fx32_value a) + unat (fx32_value b) < 2 ^ 65 * unat (fx32_value b)"
  shows "\<exists>v. dal_fixed32_32_div a b = Some v \<and>
    unat (fx32_value v) =
      (2 ^ 33 * unat (fx32_value a) + unat (fx32_value b)) div (2 * unat (fx32_value b))"
  using u64_div_rounds [OF assms] by (auto simp: dal_fixed32_32_div_def)

theorem fixed32_32_div_rounds_witness:
  "\<exists>v. dal_fixed32_32_div (fx32 0x100000000) (fx32 0x300000000) = Some v \<and>
    unat (fx32_value v) = 0x55555555"
  using fixed32_32_div_rounds [of "fx32 0x300000000" "fx32 0x100000000"] by simp

text \<open>
  Above \<open>2^63\<close> the shifted remainder overflows and bits of the quotient are lost: the
  fraction \<open>0xFFFFFFFE / 0xFFFFFFFF\<close>, which is one up to \<open>2^-32\<close>, becomes zero.
\<close>

theorem fixed32_32_from_fraction_large_denominator:
  "dal_fixed32_32_from_fraction 0xFFFFFFFE 0xFFFFFFFF = Some (fx32 0)"
proof -
  have n: "push_bit 32 (ucast (0xFFFFFFFE :: u32)) = (- (2 ^ 33) :: u64)"
    and d: "push_bit 32 (ucast (0xFFFFFFFF :: u32)) = (- (2 ^ 32) :: u64)" by simp_all
  have q: "(- (2 ^ 33) :: u64) div - (2 ^ 32) = 0" "(- (2 ^ 33) :: u64) mod - (2 ^ 32) = - (2 ^ 33)"
    by simp_all
  have z: "(2 :: u64) ^ 65 = 0" by simp
  show ?thesis
    unfolding dal_fixed32_32_from_fraction_def u64_div_def div64_u64_rem_def n d q
    by (simp add: u64_div_run_overflow z del: power_numeral)
qed

text \<open>
  Multiplication of unsigned fixed-point numbers truncates the exact product, whenever the
  product is representable.
\<close>

theorem fixed32_32_mul_truncates:
  assumes "unat (fx32_value a) * unat (fx32_value b) div 2 ^ 32 < 2 ^ 64"
  shows "unat (fx32_value (dal_fixed32_32_mul a b)) =
    unat (fx32_value a) * unat (fx32_value b) div 2 ^ 32"
  using f32p.product_truncated [OF assms]
  by (simp add: dal_fixed32_32_mul_def Let_def mult.commute [of "fx32_frac (fx32_value a)"])

theorem fixed32_32_mul_truncates_witness:
  "unat (fx32_value (dal_fixed32_32_mul (fx32 0x180000000) (fx32 0x280000000))) = 0x3C0000000"
  using fixed32_32_mul_truncates [of "fx32 0x180000000" "fx32 0x280000000"] by simp

text \<open>
  The integer conversions of the unsigned library are the floor, the ceiling and the value
  rounded half up, for every value whose ceiling fits 32 bits.
\<close>

theorem fixed32_32_int_conversions:
  assumes "unat (fx32_value a) \<le> 0xFFFFFFFF * 2 ^ 32"
  shows "unat (dal_fixed32_32_floor a) = unat (fx32_value a) div 2 ^ 32 \<and>
    unat (dal_fixed32_32_ceil a) = (unat (fx32_value a) + (2 ^ 32 - 1)) div 2 ^ 32 \<and>
    unat (dal_fixed32_32_round a) = (unat (fx32_value a) + 2 ^ 31) div 2 ^ 32"
proof -
  define v where "v = fx32_value a"
  have v: "unat v \<le> 0xFFFFFFFF * 2 ^ 32" using assms by (simp add: v_def)
  have i: "unat (drop_bit 32 v) = unat v div 2 ^ 32" by (rule unat_shiftr)
  have c: "unat (drop_bit 32 v + of_bool ((ucast v :: u32) \<noteq> 0)) =
      unat v div 2 ^ 32 + of_bool (unat v mod 2 ^ 32 \<noteq> 0)"
  proof -
    have "((ucast v :: u32) \<noteq> 0) = (unat v mod 2 ^ 32 \<noteq> 0)"
      unfolding unat_eq_0 [symmetric] by (simp add: unat_ucast)
    moreover have "unat (drop_bit 32 v) + of_bool b < 2 ^ 64" for b
      unfolding i using v by (cases b) simp_all
    ultimately show ?thesis
      unfolding i [symmetric] unat_of_bool [symmetric, where ?'a = 64] by (subst unat_add_small) simp_all
  qed
  have up: "(n + (2 ^ 32 - 1)) div 2 ^ 32 = n div 2 ^ 32 + of_bool (n mod 2 ^ 32 \<noteq> 0)" for n :: nat
    by (rule div_round_up) simp
  have r: "unat (v + push_bit 31 1) = unat v + 2 ^ 31" using v by (subst unat_add_small) simp_all
  have "unat (dal_fixed32_32_floor a) = unat v div 2 ^ 32"
    unfolding dal_fixed32_32_floor_def v_def [symmetric] unat_ucast i using v by simp
  moreover have "(unat v + (2 ^ 32 - 1)) div 2 ^ 32 < 2 ^ 32" using v by simp
  then have "unat (dal_fixed32_32_ceil a) = (unat v + (2 ^ 32 - 1)) div 2 ^ 32"
    unfolding dal_fixed32_32_ceil_def v_def [symmetric] unat_ucast of_bool_def [symmetric] c
      up [symmetric] by simp
  moreover have "unat (dal_fixed32_32_round a) = (unat v + 2 ^ 31) div 2 ^ 32"
    unfolding dal_fixed32_32_round_def v_def [symmetric] unat_ucast unat_shiftr r using v by simp
  ultimately show ?thesis unfolding v_def by blast
qed

theorem fixed32_32_int_conversions_witness:
  "unat (dal_fixed32_32_floor (fx32 0x180000000)) = 1 \<and>
   unat (dal_fixed32_32_ceil (fx32 0x180000000)) = 2 \<and>
   unat (dal_fixed32_32_round (fx32 0x180000000)) = 2"
  using fixed32_32_int_conversions [of "fx32 0x180000000"] by simp

end
