(* ===== verification/Bw_Fixed.thy ===== *)
theory Bw_Fixed
  imports Fixed_Arith Fixed_Order
begin

text \<open>
  The fixed-point numbers of the bandwidth calculations, \<open>dal/dc/calcs/bw_fixed.c\<close>: 40
  integer and 24 fractional bits in an \<open>int64_t\<close>. Every function of the file is modelled.

  Shown here: conversion of fractions rounds half up, multiplication is exact up to one unit in
  the last place, \<open>bw_floor2\<close> and \<open>bw_ceil2\<close> return the multiples of the
  significance next to their argument (towards zero, away from zero), the three-way minimum and
  maximum are bounds, integers survive the round trip.
\<close>

section \<open>Data and operations\<close>

record bw_fixed =
  bw_value :: i64

abbreviation bwf :: "i64 \<Rightarrow> bw_fixed" where
  "bwf v \<equiv> \<lparr>bw_value = v\<rparr>"

definition bw_integer_part :: "u64 \<Rightarrow> u64" where
  "bw_integer_part x = drop_bit 24 x"

definition bw_fractional_part :: "u64 \<Rightarrow> u64" where
  "bw_fractional_part x = mask 24 AND x"

definition bw_abs_i64 :: "i64 \<Rightarrow> u64" where
  "bw_abs_i64 arg = (if 0 \<le> sint arg then arg else - arg)"

definition bw_min2 :: "bw_fixed \<Rightarrow> bw_fixed \<Rightarrow> bw_fixed" where
  "bw_min2 arg1 arg2 = (if sint (bw_value arg1) \<le> sint (bw_value arg2) then arg1 else arg2)"

definition bw_max2 :: "bw_fixed \<Rightarrow> bw_fixed \<Rightarrow> bw_fixed" where
  "bw_max2 arg1 arg2 = (if sint (bw_value arg2) \<le> sint (bw_value arg1) then arg1 else arg2)"

definition bw_min3 :: "bw_fixed \<Rightarrow> bw_fixed \<Rightarrow> bw_fixed \<Rightarrow> bw_fixed" where
  "bw_min3 v1 v2 v3 = bw_min2 (bw_min2 v1 v2) v3"

definition bw_max3 :: "bw_fixed \<Rightarrow> bw_fixed \<Rightarrow> bw_fixed \<Rightarrow> bw_fixed" where
  "bw_max3 v1 v2 v3 = bw_max2 (bw_max2 v1 v2) v3"

definition bw_int_to_fixed :: "i64 \<Rightarrow> bw_fixed" where
  "bw_int_to_fixed value = bwf (push_bit 24 value)"

definition bw_fixed_to_int :: "bw_fixed \<Rightarrow> i32" where
  "bw_fixed_to_int value = ucast (signed_drop_bit 24 (bw_value value))"

definition bw_frc_step :: "u64 \<Rightarrow> u64 \<times> u64 \<Rightarrow> u64 \<times> u64" where
  "bw_frc_step arg2_value qr =
     (let remainder = push_bit 1 (snd qr);
          res_value = push_bit 1 (fst qr)
      in if arg2_value \<le> remainder then (res_value OR 1, remainder - arg2_value)
         else (res_value, remainder))"

definition bw_frc_to_fixed :: "i64 \<Rightarrow> i64 \<Rightarrow> bw_fixed option" where
  "bw_frc_to_fixed numerator denominator =
     (let arg1_negative = sint numerator < 0;
          arg2_negative = sint denominator < 0;
          arg1_value = bw_abs_i64 numerator;
          arg2_value = bw_abs_i64 denominator
      in do {
        qr \<leftarrow> div64_u64_rem arg1_value arg2_value;
        let qr = (bw_frc_step arg2_value ^^ 24) qr;
        let summand = of_bool (arg2_value \<le> push_bit 1 (snd qr));
        let res_value = fst qr + summand;
        Some (bwf (if arg1_negative \<noteq> arg2_negative then - res_value else res_value))
      })"

definition bw_floor2 :: "bw_fixed \<Rightarrow> bw_fixed \<Rightarrow> bw_fixed option" where
  "bw_floor2 arg significance = do {
     multiplicand \<leftarrow> c_sdiv (bw_value arg) (bw_abs_i64 (bw_value significance));
     Some (bwf (bw_abs_i64 (bw_value significance) * multiplicand))
   }"

definition bw_ceil2 :: "bw_fixed \<Rightarrow> bw_fixed \<Rightarrow> bw_fixed option" where
  "bw_ceil2 arg significance = do {
     multiplicand \<leftarrow> c_sdiv (bw_value arg) (bw_abs_i64 (bw_value significance));
     let result = bw_abs_i64 (bw_value significance) * multiplicand;
     Some (bwf (if bw_abs_i64 result < bw_abs_i64 (bw_value arg)
       then (if sint (bw_value arg) < 0 then result - bw_abs_i64 (bw_value significance)
         else result + bw_abs_i64 (bw_value significance))
       else result))
   }"

definition bw_add :: "bw_fixed \<Rightarrow> bw_fixed \<Rightarrow> bw_fixed" where
  "bw_add arg1 arg2 = bwf (bw_value arg1 + bw_value arg2)"

definition bw_sub :: "bw_fixed \<Rightarrow> bw_fixed \<Rightarrow> bw_fixed" where
  "bw_sub arg1 arg2 = bwf (bw_value arg1 - bw_value arg2)"

definition bw_mul :: "bw_fixed \<Rightarrow> bw_fixed \<Rightarrow> bw_fixed" where
  "bw_mul arg1 arg2 =
     (let arg1_negative = sint (bw_value arg1) < 0;
          arg2_negative = sint (bw_value arg2) < 0;
          arg1_value = bw_abs_i64 (bw_value arg1);
          arg2_value = bw_abs_i64 (bw_value arg2);
          arg1_int = bw_integer_part arg1_value;
          arg2_int = bw_integer_part arg2_value;
          arg1_fra = bw_fractional_part arg1_value;
          arg2_fra = bw_fractional_part arg2_value;
          res = arg1_int * arg2_int;
          res = push_bit 24 res;
          tmp = arg1_int * arg2_fra;
          res = res + tmp;
          tmp = arg2_int * arg1_fra;
          res = res + tmp;
          tmp = arg1_fra * arg2_fra;
          tmp = drop_bit 24 tmp + of_bool (bw_value (the (bw_frc_to_fixed 1 2)) \<le> tmp);
          res = res + tmp
      in bwf (if arg1_negative \<noteq> arg2_negative then - res else res))"

definition bw_div :: "bw_fixed \<Rightarrow> bw_fixed \<Rightarrow> bw_fixed option" where
  "bw_div arg1 arg2 = bw_frc_to_fixed (bw_value arg1) (bw_value arg2)"

definition bw_mod :: "bw_fixed \<Rightarrow> bw_fixed \<Rightarrow> bw_fixed option" where
  "bw_mod arg1 arg2 = do {
     qr \<leftarrow> div64_u64_rem (bw_value arg1) (bw_value arg2);
     Some (bwf (snd qr))
   }"

definition fixed31_32_to_bw_fixed :: "i64 \<Rightarrow> bw_fixed" where
  "fixed31_32_to_bw_fixed raw =
     (if sint raw < 0 then (let raw = - raw in bwf (- signed_drop_bit (32 - 24) raw))
      else bwf (signed_drop_bit (32 - 24) raw))"

definition bw_equ :: "bw_fixed \<Rightarrow> bw_fixed \<Rightarrow> bool" where
  "bw_equ arg1 arg2 = (bw_value arg1 = bw_value arg2)"

definition bw_neq :: "bw_fixed \<Rightarrow> bw_fixed \<Rightarrow> bool" where
  "bw_neq arg1 arg2 = (bw_value arg1 \<noteq> bw_value arg2)"

definition bw_leq :: "bw_fixed \<Rightarrow> bw_fixed \<Rightarrow> bool" where
  "bw_leq arg1 arg2 = (sint (bw_value arg1) \<le> sint (bw_value arg2))"

definition bw_meq :: "bw_fixed \<Rightarrow> bw_fixed \<Rightarrow> bool" where
  "bw_meq arg1 arg2 = (sint (bw_value arg1) \<ge> sint (bw_value arg2))"

definition bw_ltn :: "bw_fixed \<Rightarrow> bw_fixed \<Rightarrow> bool" where
  "bw_ltn arg1 arg2 = (sint (bw_value arg1) < sint (bw_value arg2))"

definition bw_mtn :: "bw_fixed \<Rightarrow> bw_fixed \<Rightarrow> bool" where
  "bw_mtn arg1 arg2 = (sint (bw_value arg1) > sint (bw_value arg2))"

section \<open>Interfaces\<close>

interpretation bw: long_division bw_frc_step
proof
  fix d r q q' r' :: u64
  assume d: "unat d \<le> 2 ^ 63" and r: "unat r < unat d" and q: "unat q < 2 ^ 63"
    and s: "bw_frc_step d (q, r) = (q', r')"
  show "unat q' = 2 * unat q + 2 * unat r div unat d \<and> unat r' = 2 * unat r mod unat d"
    using shift_subtract_step [OF d r q] s
    by (simp only: bw_frc_step_def Let_def fst_conv snd_conv) (auto split: if_splits)
qed

interpretation bwp: fixed_parts 24 bw_integer_part bw_fractional_part
  by unfold_locales
    (simp_all only: bw_integer_part_def bw_fractional_part_def and.commute [of "mask 24"] word_nat
      num.distinct semiring_norm)

lemma bw_value_inject: "sint (bw_value a) = sint (bw_value b) \<Longrightarrow> a = (b :: bw_fixed)"
  by (intro bw_fixed.equality) (auto dest: signed_word_eqI)

interpretation bwo: fixed_order "\<lambda>a. sint (bw_value a)" bw_leq bw_ltn bw_min2 bw_max2
  by unfold_locales (auto simp: bw_value_inject bw_leq_def bw_ltn_def bw_min2_def bw_max2_def)

lemma bw_abs_i64_eq: "bw_abs_i64 w = c_abs w"
  by (auto simp: bw_abs_i64_def c_abs_def)

section \<open>Division and multiplication\<close>

lemma bw_frc_unfold:
  "bw_frc_to_fixed n d =
     (if c_abs d = 0 then None
      else let qr = (bw_frc_step (c_abs d) ^^ 24) (c_abs n div c_abs d, c_abs n mod c_abs d)
        in Some (bwf (c_sign ((sint n < 0) \<noteq> (sint d < 0))
             (fst qr + of_bool (c_abs d \<le> push_bit 1 (snd qr))))))"
  unfolding bw_frc_to_fixed_def bw_abs_i64_eq div64_u64_rem_def c_sign_def Let_def by auto

lemma bw_frc_rounds:
  assumes "d \<noteq> 0" and fit: "2 ^ 25 * \<bar>sint n\<bar> + \<bar>sint d\<bar> < 2 ^ 64 * \<bar>sint d\<bar>"
  shows "\<exists>v. bw_frc_to_fixed n d = Some v \<and>
    sint (bw_value v) = (if (sint n < 0) = (sint d < 0) then 1 else - 1) *
      ((2 ^ 25 * \<bar>sint n\<bar> + \<bar>sint d\<bar>) div (2 * \<bar>sint d\<bar>))"
proof -
  obtain q r where run: "(bw_frc_step (c_abs d) ^^ 24) (c_abs n div c_abs d, c_abs n mod c_abs d) = (q, r)"
    by fastforce
  have "c_abs d \<noteq> 0" using assms(1) by (auto simp: c_abs_def)
  then have "bw_frc_to_fixed n d =
      Some (bwf (c_sign ((sint n < 0) \<noteq> (sint d < 0)) (q + of_bool (c_abs d \<le> push_bit 1 r))))"
    by (simp only: bw_frc_unfold run Let_def fst_conv snd_conv if_False)
  then show ?thesis using bw.signed_quotient [OF assms(1) _ _ run] fit by simp
qed

lemma bw_half: "bw_frc_to_fixed 1 2 = Some (bwf 0x800000)"
  using bw_frc_rounds [of 2 1] bw_value_inject [of _ "bwf 0x800000"] by auto

lemma bw_mul_unfold:
  "bw_mul a b =
     (let A = c_abs (bw_value a); B = c_abs (bw_value b);
          t = bw_fractional_part A * bw_fractional_part B
      in bwf (c_sign ((sint (bw_value a) < 0) \<noteq> (sint (bw_value b) < 0))
        (push_bit 24 (bw_integer_part A * bw_integer_part B)
          + bw_integer_part A * bw_fractional_part B + bw_integer_part B * bw_fractional_part A
          + (drop_bit 24 t + of_bool (0x800000 \<le> t)))))"
  unfolding bw_mul_def bw_abs_i64_eq c_sign_def Let_def bw_half by simp

lemma bw_mul_exact:
  assumes fit: "\<bar>sint (bw_value a)\<bar> * \<bar>sint (bw_value b)\<bar> < 2 ^ 87 - 2 ^ 24"
  shows "sint (bw_value (bw_mul a b)) =
    (if (sint (bw_value a) < 0) = (sint (bw_value b) < 0) then 1 else - 1) *
      (\<bar>sint (bw_value a)\<bar> * \<bar>sint (bw_value b)\<bar> div 2 ^ 24 +
       of_bool (2 ^ 23 \<le> \<bar>sint (bw_value a)\<bar> mod 2 ^ 24 * (\<bar>sint (bw_value b)\<bar> mod 2 ^ 24)))"
  using bwp.signed_product [of "bw_value a" "bw_value b" "0x800000"] fit
  by (simp add: bw_mul_unfold Let_def)

section \<open>Multiples of a significance\<close>

lemma sint_bw_abs: "- (2 ^ 63) < sint w \<Longrightarrow> sint (bw_abs_i64 w) = \<bar>sint w\<bar>"
  using sint_of_small [of "c_abs w"] unat_c_abs [of w] sint_lt [of w] by (simp add: bw_abs_i64_eq)

text \<open>The quotient rounded towards zero, times the divisor.\<close>

lemma sdiv_mult:
  fixes a n :: int
  assumes n: "0 < n"
  shows "n * (a sdiv n) = sgn a * (\<bar>a\<bar> - \<bar>a\<bar> mod n)"
  using n by (simp add: signed_divide_int_def minus_mod_eq_mult_div)

lemma bw_multiple:
  fixes a n :: i64
  assumes n: "0 < sint n"
  shows "\<exists>m. c_sdiv a n = Some m \<and> sint (n * m) = sgn (sint a) * (\<bar>sint a\<bar> - \<bar>sint a\<bar> mod sint n)"
proof -
  let ?k = "sint n * (sint a sdiv sint n)"
  have "n * word_of_int (sint a sdiv sint n) = word_of_int ?k"
    by (simp add: wi_hom_mult [symmetric])
  moreover have "0 \<le> \<bar>sint a\<bar> mod sint n" "\<bar>sint a\<bar> mod sint n \<le> \<bar>sint a\<bar>"
    using n by (simp_all add: zmod_le_nonneg_dividend)
  then have "- (2 ^ 63) \<le> ?k" "?k < 2 ^ 63"
    unfolding sdiv_mult [OF n] using sint_ge [of a] sint_lt [of a] by (auto simp: sgn_if)
  ultimately show ?thesis
    using n sint_word_of_int_small [of ?k] by (auto simp: c_sdiv_def sdiv_mult)
qed

lemma bw_floor2_value:
  assumes "bw_value s \<noteq> 0" "- (2 ^ 63) < sint (bw_value s)"
  shows "\<exists>f. bw_floor2 a s = Some f \<and> sint (bw_value f) =
    sgn (sint (bw_value a)) * (\<bar>sint (bw_value a)\<bar> - \<bar>sint (bw_value a)\<bar> mod \<bar>sint (bw_value s)\<bar>)"
  using bw_multiple [of "bw_abs_i64 (bw_value s)" "bw_value a"] assms
  by (auto simp: bw_floor2_def sint_bw_abs signed_eq_0_iff)

lemma bw_ceil2_floor2:
  "bw_ceil2 a s = map_option (\<lambda>f. if bw_abs_i64 (bw_value f) < bw_abs_i64 (bw_value a)
     then bwf (c_sign (sint (bw_value a) < 0) (c_sign (sint (bw_value a) < 0) (bw_value f) + bw_abs_i64 (bw_value s)))
     else f) (bw_floor2 a s)"
  by (auto simp: bw_ceil2_def bw_floor2_def c_sign_def Let_def map_option_case split: bind_splits option.splits)

lemma bw_abs_less: "(bw_abs_i64 v < bw_abs_i64 w) = (\<bar>sint v\<bar> < \<bar>sint w\<bar>)"
  by (simp add: bw_abs_i64_eq word_less_nat_alt unat_c_abs) auto

lemma bw_ceil2_value:
  assumes "bw_value s \<noteq> 0" and fit: "\<bar>sint (bw_value a)\<bar> + \<bar>sint (bw_value s)\<bar> < 2 ^ 63"
  shows "\<exists>c. bw_ceil2 a s = Some c \<and> sint (bw_value c) = sgn (sint (bw_value a)) *
    (if \<bar>sint (bw_value a)\<bar> mod \<bar>sint (bw_value s)\<bar> = 0 then \<bar>sint (bw_value a)\<bar>
     else \<bar>sint (bw_value a)\<bar> - \<bar>sint (bw_value a)\<bar> mod \<bar>sint (bw_value s)\<bar> + \<bar>sint (bw_value s)\<bar>)"
proof -
  define x y where "x = \<bar>sint (bw_value a)\<bar>" and "y = \<bar>sint (bw_value s)\<bar>"
  obtain f where f: "bw_floor2 a s = Some f" "sint (bw_value f) = sgn (sint (bw_value a)) * (x - x mod y)"
    using bw_floor2_value [OF assms(1), of a] fit unfolding x_def y_def by fastforce
  have y: "0 < y" using assms(1) by (simp add: y_def signed_eq_0_iff)
  have r: "0 \<le> x mod y" "x mod y \<le> x" "x mod y < y"
    using y by (simp_all add: zmod_le_nonneg_dividend x_def)
  have l: "(bw_abs_i64 (bw_value f) < bw_abs_i64 (bw_value a)) = (x mod y \<noteq> 0)"
    unfolding bw_abs_less f(2) using r by (auto simp: abs_mult x_def sgn_if)
  have ys: "sint (bw_abs_i64 (bw_value s)) = y" using fit unfolding y_def by (intro sint_bw_abs) linarith
  show ?thesis
  proof (cases "x mod y = 0")
    case True
    then show ?thesis using f l by (simp add: bw_ceil2_floor2 x_def y_def)
  next
    case False
    then have x: "sint (bw_value a) \<noteq> 0" using x_def by auto
    let ?k = "sgn (sint (bw_value a)) * (x - x mod y + y)"
    have "c_sign (sint (bw_value a) < 0) (c_sign (sint (bw_value a) < 0) (bw_value f) + bw_abs_i64 (bw_value s)) =
        word_of_int (sint (bw_value f) + sgn (sint (bw_value a)) * sint (bw_abs_i64 (bw_value s)))"
      using x by (auto simp: c_sign_def sgn_if)
    also have "\<dots> = word_of_int ?k" unfolding f(2) ys by (simp add: algebra_simps)
    finally have "bw_ceil2 a s = Some (bwf (word_of_int ?k))"
      using f(1) l False by (simp add: bw_ceil2_floor2)
    moreover have "0 < x - x mod y + y" "x - x mod y + y < 2 ^ 63"
      using fit r y unfolding x_def [symmetric] y_def [symmetric] by linarith+
    then have "- (2 ^ 63) \<le> ?k" "?k < 2 ^ 63" by (auto simp: sgn_if)
    ultimately show ?thesis
      using sint_word_of_int_small [of ?k] False by (simp add: x_def y_def)
  qed
qed

lemma ucast_i64_i32: "(ucast (w :: i64) :: i32) = scast w"
  by (rule bit_word_eqI) (simp add: bit_simps)

lemma dvd_sub_mod: "y dvd x - x mod (y :: int)"
  by (simp add: minus_mod_eq_mult_div)

section \<open>Properties\<close>

text \<open>
  \<open>bw_frc_to_fixed\<close> returns the fixed-point number nearest to the fraction, halves away
  from zero, whenever the quotient is representable.
\<close>

theorem bw_frc_nearest:
  assumes "d \<noteq> 0" and "2 ^ 25 * \<bar>sint n\<bar> + \<bar>sint d\<bar> < 2 ^ 64 * \<bar>sint d\<bar>"
  shows "\<exists>v. bw_frc_to_fixed n d = Some v \<and>
    \<bar>sint (bw_value v)\<bar> = (2 ^ 25 * \<bar>sint n\<bar> + \<bar>sint d\<bar>) div (2 * \<bar>sint d\<bar>) \<and>
    2 * \<bar>sint (bw_value v) * sint d - sint n * 2 ^ 24\<bar> \<le> \<bar>sint d\<bar>"
proof -
  obtain v where v: "bw_frc_to_fixed n d = Some v"
    and e: "sint (bw_value v) = (if (sint n < 0) = (sint d < 0) then 1 else - 1) *
      ((2 ^ 25 * \<bar>sint n\<bar> + \<bar>sint d\<bar>) div (2 * \<bar>sint d\<bar>))"
    using bw_frc_rounds [OF assms] by blast
  have "sint d \<noteq> 0" "(0::int) \<le> 2 ^ 24" "(2::int) ^ 25 = 2 * 2 ^ 24"
    using assms(1) by (simp_all add: signed_eq_0_iff)
  note err = signed_quotient_error [OF this, of "sint n"]
  show ?thesis
    by (intro exI [of _ v] conjI) (use v err in \<open>simp_all only: e\<close>)
qed

theorem bw_frc_nearest_witness:
  "\<exists>v. bw_frc_to_fixed (- 7) 3 = Some v \<and> \<bar>sint (bw_value v)\<bar> = 39146837 \<and>
    2 * \<bar>sint (bw_value v) * 3 - (- 7) * 2 ^ 24\<bar> \<le> 3"
  using bw_frc_nearest [of 3 "- 7"] by simp

text \<open>
  \<open>bw_mul\<close> is exact up to one unit in the last place for every pair of operands whose
  product is representable.
\<close>

theorem bw_mul_within_one_ulp:
  assumes "\<bar>sint (bw_value a)\<bar> * \<bar>sint (bw_value b)\<bar> < 2 ^ 87 - 2 ^ 24"
  shows "\<bar>sint (bw_value (bw_mul a b)) * 2 ^ 24 - sint (bw_value a) * sint (bw_value b)\<bar> \<le> 2 ^ 24"
  unfolding bw_mul_exact [OF assms] by (rule signed_product_error) simp_all

theorem bw_mul_within_one_ulp_witness:
  "\<bar>sint (bw_value (bw_mul (bwf 0x1800000) (bwf (- 0x2800000)))) * 2 ^ 24
    - 0x1800000 * (- 0x2800000)\<bar> \<le> 2 ^ 24"
  using bw_mul_within_one_ulp [of "bwf 0x1800000" "bwf (- 0x2800000)"] by simp

text \<open>
  (C40) \<open>bw_floor2\<close> and \<open>bw_ceil2\<close> return the two multiples of the significance that
  enclose the magnitude of the argument, with its sign; the assertion of \<open>bw_floor2\<close> holds.
\<close>

theorem bw_floor2_ceil2_enclose:
  fixes a s :: bw_fixed
  defines "x \<equiv> sint (bw_value a)" and "y \<equiv> \<bar>sint (bw_value s)\<bar>"
  assumes "bw_value s \<noteq> 0" and "\<bar>x\<bar> + y < 2 ^ 63"
  shows "\<exists>f c. bw_floor2 a s = Some f \<and> bw_ceil2 a s = Some c \<and>
    y dvd sint (bw_value f) \<and> y dvd sint (bw_value c) \<and>
    0 \<le> sint (bw_value f) * x \<and> 0 \<le> sint (bw_value c) * x \<and>
    \<bar>sint (bw_value f)\<bar> \<le> \<bar>x\<bar> \<and> \<bar>x\<bar> < \<bar>sint (bw_value f)\<bar> + y \<and>
    \<bar>x\<bar> \<le> \<bar>sint (bw_value c)\<bar> \<and> \<bar>sint (bw_value c)\<bar> < \<bar>x\<bar> + y"
proof -
  obtain f c where f: "bw_floor2 a s = Some f" "sint (bw_value f) = sgn x * (\<bar>x\<bar> - \<bar>x\<bar> mod y)"
    and c: "bw_ceil2 a s = Some c" "sint (bw_value c) = sgn x *
      (if \<bar>x\<bar> mod y = 0 then \<bar>x\<bar> else \<bar>x\<bar> - \<bar>x\<bar> mod y + y)"
    using bw_floor2_value [OF assms(3), of a] bw_ceil2_value [OF assms(3), of a] assms(4)
    unfolding x_def y_def by fastforce
  have y: "0 < y" using assms(3) by (simp add: y_def signed_eq_0_iff)
  have r: "0 \<le> \<bar>x\<bar> mod y" "\<bar>x\<bar> mod y \<le> \<bar>x\<bar>" "\<bar>x\<bar> mod y < y"
    using y by (simp_all add: zmod_le_nonneg_dividend)
  define F C where "F = \<bar>x\<bar> - \<bar>x\<bar> mod y" and "C = (if \<bar>x\<bar> mod y = 0 then \<bar>x\<bar> else F + y)"
  have dvd: "y dvd F" "y dvd C"
    using dvd_sub_mod [of y "\<bar>x\<bar>"] by (auto simp: F_def C_def mod_eq_0_iff_dvd)
  have b: "0 \<le> F" "F \<le> \<bar>x\<bar>" "\<bar>x\<bar> < F + y" "\<bar>x\<bar> \<le> C" "C < \<bar>x\<bar> + y"
    using r y unfolding F_def C_def by (simp_all only: split: if_split) linarith+
  have "\<bar>sgn x * F\<bar> = F" "\<bar>sgn x * C\<bar> = C" using b by (auto simp: sgn_if F_def C_def)
  moreover have "0 \<le> C" using b by linarith
  then have "0 \<le> sgn x * F * x" "0 \<le> sgn x * C * x"
    using b(1) by (simp_all add: sgn_if mult_nonneg_nonpos)
  ultimately show ?thesis
    using f c b dvd unfolding F_def [symmetric] C_def [symmetric] by simp
qed

theorem bw_floor2_ceil2_enclose_witness:
  "\<exists>f c. bw_floor2 (bwf (- 7)) (bwf 3) = Some f \<and> bw_ceil2 (bwf (- 7)) (bwf 3) = Some c \<and>
    3 dvd sint (bw_value f) \<and> 3 dvd sint (bw_value c) \<and>
    \<bar>sint (bw_value f)\<bar> \<le> 7 \<and> 7 < \<bar>sint (bw_value f)\<bar> + 3 \<and>
    7 \<le> \<bar>sint (bw_value c)\<bar> \<and> \<bar>sint (bw_value c)\<bar> < 10"
  using bw_floor2_ceil2_enclose [of "bwf 3" "bwf (- 7)"] by auto

text \<open>
  The conversions keep values: the low 32 bits of an integer are recovered from its
  fixed-point image, a fixed-point number that fits is converted to its floor, and a 31.32 number
  loses its low eight bits towards zero.
\<close>

theorem bw_conversions:
  assumes "- (2 ^ 55) \<le> sint (bw_value a)" "sint (bw_value a) < 2 ^ 55" "- (2 ^ 63) < sint w"
  shows "bw_fixed_to_int (bw_int_to_fixed v) = ucast v \<and>
    sint (bw_fixed_to_int a) = sint (bw_value a) div 2 ^ 24 \<and>
    sint (bw_value (fixed31_32_to_bw_fixed w)) = sgn (sint w) * (\<bar>sint w\<bar> div 2 ^ 8)"
proof (intro conjI)
  show "bw_fixed_to_int (bw_int_to_fixed v) = ucast v"
    unfolding bw_fixed_to_int_def bw_int_to_fixed_def by (rule bit_word_eqI) (simp add: bit_simps)
  have "- (2 ^ 31) \<le> sint (bw_value a) div 2 ^ 24" "sint (bw_value a) div 2 ^ 24 < 2 ^ 31"
    using assms(1,2) by simp_all
  then show "sint (bw_fixed_to_int a) = sint (bw_value a) div 2 ^ 24"
    unfolding bw_fixed_to_int_def ucast_i64_i32
    using signed_take_bit_int_eq_self [of 31 "sint (bw_value a) div 2 ^ 24"]
    by (simp add: sint_signed_drop_bit_eq drop_bit_eq_div signed_scast_eq)
  show "sint (bw_value (fixed31_32_to_bw_fixed w)) = sgn (sint w) * (\<bar>sint w\<bar> div 2 ^ 8)"
  proof (cases "sint w < 0")
    case True
    let ?v = "signed_drop_bit 8 (- w)"
    have "sint (- w) = - sint w" using True assms(3) sint_bw_abs [of w] by (simp add: bw_abs_i64_def)
    then have v: "sint ?v = - sint w div 2 ^ 8" by (simp add: sint_signed_drop_bit_eq drop_bit_eq_div)
    have "0 \<le> - sint w div 2 ^ 8" using True by (simp add: pos_imp_zdiv_nonneg_iff)
    then have "sint (- ?v) = - sint ?v"
      using sint_uminus_small [of ?v] unat_of_sint(1) [of ?v] sint_lt [of ?v] v by simp
    then show ?thesis using True v by (simp add: fixed31_32_to_bw_fixed_def Let_def)
  next
    case False
    then show ?thesis
      by (cases "sint w = 0") (simp_all add: fixed31_32_to_bw_fixed_def sint_signed_drop_bit_eq drop_bit_eq_div)
  qed
qed

theorem bw_conversions_witness:
  "bw_fixed_to_int (bw_int_to_fixed (- 3)) = - 3 \<and> sint (bw_fixed_to_int (bwf (- 0x800000))) = - 1 \<and>
   sint (bw_value (fixed31_32_to_bw_fixed (- 0x80000080))) = - 0x800000"
  using bw_conversions [of "bwf (- 0x800000)" "- 0x80000080" "- 3"] by simp

text \<open>
  The three-way minimum and maximum are one of their arguments and bound all of them.
\<close>

theorem bw_min3_max3:
  "bw_min3 a b c \<in> {a, b, c} \<and> bw_max3 a b c \<in> {a, b, c} \<and>
   bw_leq (bw_min3 a b c) a \<and> bw_leq (bw_min3 a b c) b \<and> bw_leq (bw_min3 a b c) c \<and>
   bw_leq a (bw_max3 a b c) \<and> bw_leq b (bw_max3 a b c) \<and> bw_leq c (bw_max3 a b c)"
  by (auto simp: bw_min3_def bw_max3_def bw_min2_def bw_max2_def bw_leq_def)

end
