(* ===== verification/Atom_Operands.thy ===== *)
theory Atom_Operands
  imports Prelude
begin

text \<open>
  The operand layer of the AtomBIOS interpreter: \<open>include/atom-bits.h\<close>, the context types of
  \<open>amdgpu/atom.h\<close> and the first half of \<open>amdgpu/atom.c\<close>: the indirect-IO programs
  and the routines that read, skip and write instruction operands.

  The BIOS image is a list of bytes, and a read outside it has no result: the C code does not check
  its pointers, so \<open>None\<close> stands for every access that the C code would make outside an
  object, for a shift count outside the width, and for the use of an indeterminate value. The
  pointers into the image are natural numbers. The callbacks of \<open>struct card_info\<close>, filled in
  by the driver, and the kernel services (the clock, delays, the allocator) are functions on a world
  state \<open>'w\<close> that the model does not constrain.

  Shown here: an operand read moves the instruction pointer exactly as the routine that skips the
  operand, and changes nothing but the world; a field written to a parameter, workspace or scratch
  cell is read back and its neighbours are kept; a field moved by an indirect-IO program is inserted
  exactly; the bounds check of the scratch region lets an access one word past its end through.
\<close>

section \<open>Data\<close>

record 'w card_info =
  reg_write :: "'w \<Rightarrow> u32 \<Rightarrow> u32 \<Rightarrow> 'w"
  reg_read :: "'w \<Rightarrow> u32 \<Rightarrow> u32 \<times> 'w"
  ioreg_write :: "'w \<Rightarrow> u32 \<Rightarrow> u32 \<Rightarrow> 'w"
  ioreg_read :: "'w \<Rightarrow> u32 \<Rightarrow> u32 \<times> 'w"
  mc_write :: "'w \<Rightarrow> u32 \<Rightarrow> u32 \<Rightarrow> 'w"
  mc_read :: "'w \<Rightarrow> u32 \<Rightarrow> u32 \<times> 'w"
  pll_write :: "'w \<Rightarrow> u32 \<Rightarrow> u32 \<Rightarrow> 'w"
  pll_read :: "'w \<Rightarrow> u32 \<Rightarrow> u32 \<times> 'w"

text \<open>The kernel services the interpreter calls.\<close>

record 'w kernel =
  jiffies :: "'w \<Rightarrow> u64 \<times> 'w"
  jiffies_to_msecs :: "u64 \<Rightarrow> u32"
  drm_can_sleep :: "'w \<Rightarrow> bool"
  udelay :: "'w \<Rightarrow> u32 \<Rightarrow> 'w"
  mdelay :: "'w \<Rightarrow> u32 \<Rightarrow> 'w"
  msleep :: "'w \<Rightarrow> u32 \<Rightarrow> 'w"
  kzalloc_ok :: "'w \<Rightarrow> nat \<Rightarrow> bool \<times> 'w"

text \<open>
  \<open>struct atom_context\<close>, with the world behind its \<open>card\<close> and the file's static
  \<open>debug_depth\<close>. A pointer field that may be NULL is an option.
\<close>

record 'w atom_context =
  ac_card :: "'w card_info"
  ac_bios :: "u8 list"
  ac_cmd_table :: u32
  ac_data_table :: u32
  ac_iio :: "u16 list"
  ac_data_block :: u16
  ac_fb_base :: u32
  ac_divmul0 :: u32
  ac_divmul1 :: u32
  ac_io_attr :: u16
  ac_reg_block :: u16
  ac_shift :: u8
  ac_cs_equal :: bool
  ac_cs_above :: bool
  ac_io_mode :: i32
  ac_scratch :: "u32 list option"
  ac_scratch_size_bytes :: i32
  ac_debug_depth :: i32
  ac_world :: 'w

text \<open>
  \<open>atom_exec_context\<close>. The pointer \<open>ps\<close> points into the caller's parameter array,
  which nested tables share: the array and the offset. \<open>last_jump_jiffies\<close> is not
  initialised at first.
\<close>

record 'w atom_exec_context =
  ec_ctx :: "'w atom_context"
  ec_params :: "u32 list"
  ec_ps :: nat
  ec_ws :: "u32 list option"
  ec_ps_shift :: nat
  ec_start :: u16
  ec_last_jump :: u32
  ec_last_jump_jiffies :: "u64 option"
  ec_abort :: bool

definition set_world :: "'w atom_exec_context \<Rightarrow> 'w \<Rightarrow> 'w atom_exec_context" where
  "set_world ec w = ec\<lparr>ec_ctx := (ec_ctx ec)\<lparr>ac_world := w\<rparr>\<rparr>"

section \<open>Reading the image\<close>

definition get_u8 :: "u8 list \<Rightarrow> nat \<Rightarrow> u8 option" where
  "get_u8 bios ptr = (if ptr < length bios then Some (bios ! ptr) else None)"

definition get_u16 :: "u8 list \<Rightarrow> nat \<Rightarrow> u16 option" where
  "get_u16 bios ptr = do {
     lo \<leftarrow> get_u8 bios ptr;
     hi \<leftarrow> get_u8 bios (ptr + 1);
     Some (ucast lo OR push_bit 8 (ucast hi))
   }"

definition get_u32 :: "u8 list \<Rightarrow> nat \<Rightarrow> u32 option" where
  "get_u32 bios ptr = do {
     lo \<leftarrow> get_u16 bios ptr;
     hi \<leftarrow> get_u16 bios (ptr + 2);
     Some (ucast lo OR push_bit 16 (ucast hi))
   }"

section \<open>Indirect IO\<close>

text \<open>\<open>(0xFFFFFFFF >> (32 - size)) << pos\<close>\<close>

definition iio_mask :: "u8 \<Rightarrow> u8 \<Rightarrow> u32 option" where
  "iio_mask sz pos =
     (if unat sz \<le> 32 then do { m \<leftarrow> c_shr 0xFFFFFFFF (32 - unat sz); c_shl m (unat pos) }
      else None)"

text \<open>The body of the three move operations: \<open>value\<close> is the index, the data or the attributes.\<close>

definition iio_move :: "u8 list \<Rightarrow> nat \<Rightarrow> u32 \<Rightarrow> u32 \<Rightarrow> u32 option" where
  "iio_move bios base value temp = do {
     sz \<leftarrow> get_u8 bios (base + 1);
     from \<leftarrow> get_u8 bios (base + 2);
     to \<leftarrow> get_u8 bios (base + 3);
     m \<leftarrow> iio_mask sz to;
     let temp = temp AND NOT m;
     v \<leftarrow> c_shr value (unat from);
     field \<leftarrow> iio_mask sz 0;
     bits \<leftarrow> c_shl (v AND field) (unat to);
     Some (temp OR bits)
   }"

function atom_iio_loop ::
  "'w atom_context \<Rightarrow> u32 \<Rightarrow> u32 \<Rightarrow> nat \<Rightarrow> u32 \<Rightarrow> 'w \<Rightarrow> (u32 \<times> 'w) option" where
  "atom_iio_loop ctx index data base temp w = do {
     op \<leftarrow> get_u8 (ac_bios ctx) base;
     if op = 0 then atom_iio_loop ctx index data (base + 1) temp w
     else if op = 2 then do {
       reg \<leftarrow> get_u16 (ac_bios ctx) (base + 1);
       let (temp, w) = ioreg_read (ac_card ctx) w (ucast reg);
       atom_iio_loop ctx index data (base + 3) temp w
     }
     else if op = 3 then do {
       reg \<leftarrow> get_u16 (ac_bios ctx) (base + 1);
       let w = ioreg_write (ac_card ctx) w (ucast reg) temp;
       atom_iio_loop ctx index data (base + 3) temp w
     }
     else if op = 4 then do {
       sz \<leftarrow> get_u8 (ac_bios ctx) (base + 1);
       pos \<leftarrow> get_u8 (ac_bios ctx) (base + 2);
       m \<leftarrow> iio_mask sz pos;
       atom_iio_loop ctx index data (base + 3) (temp AND NOT m) w
     }
     else if op = 5 then do {
       sz \<leftarrow> get_u8 (ac_bios ctx) (base + 1);
       pos \<leftarrow> get_u8 (ac_bios ctx) (base + 2);
       m \<leftarrow> iio_mask sz pos;
       atom_iio_loop ctx index data (base + 3) (temp OR m) w
     }
     else if op = 6 then do {
       temp \<leftarrow> iio_move (ac_bios ctx) base index temp;
       atom_iio_loop ctx index data (base + 4) temp w
     }
     else if op = 8 then do {
       temp \<leftarrow> iio_move (ac_bios ctx) base data temp;
       atom_iio_loop ctx index data (base + 4) temp w
     }
     else if op = 7 then do {
       temp \<leftarrow> iio_move (ac_bios ctx) base (ucast (ac_io_attr ctx)) temp;
       atom_iio_loop ctx index data (base + 4) temp w
     }
     else if op = 9 then Some (temp, w)
     else Some (0, w)
   }"
  by pat_completeness auto
termination
  by (relation "measure (\<lambda>(ctx, index, data, base, temp, w). length (ac_bios ctx) - base)")
    (auto simp: get_u8_def split: if_splits)

declare atom_iio_loop.simps [simp del]

definition atom_iio_execute ::
  "'w atom_context \<Rightarrow> nat \<Rightarrow> u32 \<Rightarrow> u32 \<Rightarrow> (u32 \<times> 'w) option" where
  "atom_iio_execute ctx base index data = atom_iio_loop ctx index data base 0xCDCDCDCD (ac_world ctx)"

section \<open>Operands\<close>

definition atom_arg_mask :: "u32 list" where
  "atom_arg_mask = [0xFFFFFFFF, 0xFFFF, 0xFFFF00, 0xFFFF0000, 0xFF, 0xFF00, 0xFF0000, 0xFF000000]"

definition atom_arg_shift :: "nat list" where
  "atom_arg_shift = [0, 0, 8, 16, 0, 8, 16, 24]"

definition atom_dst_to_src :: "u8 list list" where
  "atom_dst_to_src =
     [[0, 0, 0, 0],
      [1, 2, 3, 0],
      [1, 2, 3, 0],
      [1, 2, 3, 0],
      [4, 5, 6, 7],
      [4, 5, 6, 7],
      [4, 5, 6, 7],
      [4, 5, 6, 7]]"

definition atom_def_dst :: "u8 list" where
  "atom_def_dst = [0, 0, 1, 2, 0, 1, 2, 3]"

definition src_align :: "u8 \<Rightarrow> nat" where
  "src_align attr = unat (drop_bit 3 attr AND 7)"

text \<open>\<open>atom_dst_to_src[(attr >> 3) & 7][(attr >> 6) & 3]\<close>\<close>

definition dst_align :: "u8 \<Rightarrow> u8" where
  "dst_align attr = atom_dst_to_src ! unat (drop_bit 3 attr AND 7) ! unat (drop_bit 6 attr AND 3)"

text \<open>
  A register read: by the IO mode memory mapped, not implemented, or through an indirect-IO program.
  The flag tells whether the value reaches \<open>*saved\<close>; the early returns do not set it.
\<close>

definition get_src_reg :: "'w atom_exec_context \<Rightarrow> u32 \<Rightarrow> (u32 \<times> bool \<times> 'w) option" where
  "get_src_reg ec idx =
     (let gctx = ec_ctx ec; w = ac_world gctx
      in if ac_io_mode gctx = 0 then
           (let (val, w) = reg_read (ac_card gctx) w idx in Some (val, True, w))
         else if ac_io_mode gctx = 1 then Some (0, False, w)
         else if ac_io_mode gctx = 2 then Some (0, False, w)
         else if ac_io_mode gctx AND 0x80 = 0 then Some (0, False, w)
         else do {
           prog \<leftarrow> nth_opt (ac_iio gctx) (unat (ac_io_mode gctx AND 0x7F));
           if prog = 0 then Some (0, False, w)
           else do {
             (val, w) \<leftarrow> atom_iio_execute gctx (unat prog) idx 0;
             Some (val, True, w)
           }
         })"

definition get_src_ws :: "'w atom_exec_context \<Rightarrow> u8 \<Rightarrow> u32 option" where
  "get_src_ws ec idx =
     (let gctx = ec_ctx ec
      in if idx = 0x40 then Some (ac_divmul0 gctx)
         else if idx = 0x41 then Some (ac_divmul1 gctx)
         else if idx = 0x42 then Some (ucast (ac_data_block gctx))
         else if idx = 0x43 then Some (ucast (ac_shift gctx))
         else if idx = 0x44 then c_shl 1 (unat (ac_shift gctx))
         else if idx = 0x45 then map_option NOT (c_shl 1 (unat (ac_shift gctx)))
         else if idx = 0x46 then Some (ac_fb_base gctx)
         else if idx = 0x47 then Some (ucast (ac_io_attr gctx))
         else if idx = 0x48 then Some (ucast (ac_reg_block gctx))
         else do { ws \<leftarrow> ec_ws ec; nth_opt ws (unat idx) })"

text \<open>The scratch word selected by the framebuffer window, and the check of the C code.\<close>

definition fb_check :: "'w atom_context \<Rightarrow> u8 \<Rightarrow> bool" where
  "fb_check gctx idx = (ac_fb_base gctx + ucast idx * 4 > ac_scratch_size_bytes gctx)"

definition fb_index :: "'w atom_context \<Rightarrow> u8 \<Rightarrow> nat" where
  "fb_index gctx idx = unat (ac_fb_base gctx div 4 + ucast idx)"

definition get_src_fb :: "'w atom_exec_context \<Rightarrow> u8 \<Rightarrow> u32 option" where
  "get_src_fb ec idx =
     (let gctx = ec_ctx ec
      in if fb_check gctx idx then Some 0
         else do { scratch \<leftarrow> ac_scratch gctx; nth_opt scratch (fb_index gctx idx) })"

text \<open>An immediate operand by its alignment; also the body of \<open>atom_get_src_direct\<close>.\<close>

definition atom_get_src_direct :: "'w atom_exec_context \<Rightarrow> nat \<Rightarrow> nat \<Rightarrow> (u32 \<times> nat) option" where
  "atom_get_src_direct ec align ptr =
     (let bios = ac_bios (ec_ctx ec)
      in if align = 0 then do { val \<leftarrow> get_u32 bios ptr; Some (val, ptr + 4) }
         else if align \<in> {1, 2, 3} then do { val \<leftarrow> get_u16 bios ptr; Some (ucast val, ptr + 2) }
         else if align \<in> {4, 5, 6, 7} then do { val \<leftarrow> get_u8 bios ptr; Some (ucast val, ptr + 1) }
         else Some (0xCDCDCDCD, ptr))"

text \<open>
  The result: the value, what was stored through \<open>saved\<close>, the moved pointer, the context.
\<close>

definition atom_get_src_int ::
  "'w atom_exec_context \<Rightarrow> u8 \<Rightarrow> nat \<Rightarrow> (u32 \<times> u32 option \<times> nat \<times> 'w atom_exec_context) option" where
  "atom_get_src_int ec attr ptr =
     (let gctx = ec_ctx ec; bios = ac_bios gctx; arg = attr AND 7; align = src_align attr;
          finish = (\<lambda>val ptr ec.
            Some (drop_bit (atom_arg_shift ! align) (val AND atom_arg_mask ! align), Some val, ptr, ec))
      in if arg = 0 then do {
           idx \<leftarrow> get_u16 bios ptr;
           (val, set, w) \<leftarrow> get_src_reg ec (ucast idx + ucast (ac_reg_block gctx));
           if set then finish val (ptr + 2) (set_world ec w)
           else Some (0, None, ptr + 2, set_world ec w)
         }
         else if arg = 1 then do {
           idx \<leftarrow> get_u8 bios ptr;
           val \<leftarrow> nth_opt (ec_params ec) (ec_ps ec + unat idx);
           finish val (ptr + 1) ec
         }
         else if arg = 2 then do {
           idx \<leftarrow> get_u8 bios ptr;
           val \<leftarrow> get_src_ws ec idx;
           finish val (ptr + 1) ec
         }
         else if arg = 4 then do {
           idx \<leftarrow> get_u16 bios ptr;
           val \<leftarrow> get_u32 bios (unat idx + unat (ac_data_block gctx));
           finish val (ptr + 2) ec
         }
         else if arg = 3 then do {
           idx \<leftarrow> get_u8 bios ptr;
           val \<leftarrow> get_src_fb ec idx;
           finish val (ptr + 1) ec
         }
         else if arg = 5 then do {
           (val, ptr) \<leftarrow> atom_get_src_direct ec align ptr;
           Some (val, None, ptr, ec)
         }
         else if arg = 6 then do {
           idx \<leftarrow> get_u8 bios ptr;
           let (val, w) = pll_read (ac_card gctx) (ac_world gctx) (ucast idx);
           finish val (ptr + 1) (set_world ec w)
         }
         else do {
           idx \<leftarrow> get_u8 bios ptr;
           let (val, w) = mc_read (ac_card gctx) (ac_world gctx) (ucast idx);
           finish val (ptr + 1) (set_world ec w)
         })"

definition atom_skip_src_int :: "u8 \<Rightarrow> nat \<Rightarrow> nat" where
  "atom_skip_src_int attr ptr =
     (let align = src_align attr; arg = attr AND 7
      in if arg \<in> {0, 4} then ptr + 2
         else if arg \<in> {6, 7, 1, 2, 3} then ptr + 1
         else if align = 0 then ptr + 4
         else if align \<in> {1, 2, 3} then ptr + 2
         else ptr + 1)"

definition atom_get_src :: "'w atom_exec_context \<Rightarrow> u8 \<Rightarrow> nat \<Rightarrow> (u32 \<times> nat \<times> 'w atom_exec_context) option" where
  "atom_get_src ec attr ptr = do {
     (val, saved, ptr, ec) \<leftarrow> atom_get_src_int ec attr ptr;
     Some (val, ptr, ec)
   }"

text \<open>\<open>arg | atom_dst_to_src[(attr >> 3) & 7][(attr >> 6) & 3] << 3\<close>\<close>

definition dst_attr :: "u8 \<Rightarrow> u8 \<Rightarrow> u8" where
  "dst_attr arg attr = arg OR push_bit 3 (dst_align attr)"

definition atom_get_dst ::
  "'w atom_exec_context \<Rightarrow> u8 \<Rightarrow> u8 \<Rightarrow> nat \<Rightarrow> (u32 \<times> u32 option \<times> nat \<times> 'w atom_exec_context) option" where
  "atom_get_dst ec arg attr ptr = atom_get_src_int ec (dst_attr arg attr) ptr"

definition atom_skip_dst :: "u8 \<Rightarrow> u8 \<Rightarrow> nat \<Rightarrow> nat" where
  "atom_skip_dst arg attr ptr = atom_skip_src_int (dst_attr arg attr) ptr"

text \<open>
  The value written: the field shifted into its place over the old contents. The old contents may be
  indeterminate; they do not matter when the field is the whole word.
\<close>

definition merge_field :: "nat \<Rightarrow> u32 \<Rightarrow> u32 \<Rightarrow> u32" where
  "merge_field align val saved =
     (push_bit (atom_arg_shift ! align) val AND atom_arg_mask ! align) OR (saved AND NOT (atom_arg_mask ! align))"

definition merge_saved :: "nat \<Rightarrow> u32 option \<Rightarrow> u32 option \<Rightarrow> u32 option" where
  "merge_saved align val saved = do {
     v \<leftarrow> val;
     if atom_arg_mask ! align = 0xFFFFFFFF then Some (merge_field align v 0)
     else do { s \<leftarrow> saved; Some (merge_field align v s) }
   }"

definition put_dst_reg :: "'w atom_context \<Rightarrow> u32 \<Rightarrow> u32 option \<Rightarrow> 'w option" where
  "put_dst_reg gctx idx val =
     (let w = ac_world gctx
      in if ac_io_mode gctx = 0 then do {
           v \<leftarrow> val;
           Some (if idx = 0 then reg_write (ac_card gctx) w idx (push_bit 2 v)
             else reg_write (ac_card gctx) w idx v)
         }
         else if ac_io_mode gctx = 1 then Some w
         else if ac_io_mode gctx = 2 then Some w
         else if ac_io_mode gctx AND 0x80 = 0 then Some w
         else do {
           prog \<leftarrow> nth_opt (ac_iio gctx) (unat (ac_io_mode gctx AND 0xFF));
           if prog = 0 then Some w
           else do {
             v \<leftarrow> val;
             (temp, w) \<leftarrow> atom_iio_execute gctx (unat prog) idx v;
             Some w
           }
         })"

definition put_dst_ws :: "'w atom_exec_context \<Rightarrow> u8 \<Rightarrow> u32 option \<Rightarrow> 'w atom_exec_context option" where
  "put_dst_ws ec idx val =
     (let gctx = ec_ctx ec
      in if idx = 0x44 \<or> idx = 0x45 then Some ec
         else do {
           v \<leftarrow> val;
           if idx = 0x40 then Some (ec\<lparr>ec_ctx := gctx\<lparr>ac_divmul0 := v\<rparr>\<rparr>)
           else if idx = 0x41 then Some (ec\<lparr>ec_ctx := gctx\<lparr>ac_divmul1 := v\<rparr>\<rparr>)
           else if idx = 0x42 then Some (ec\<lparr>ec_ctx := gctx\<lparr>ac_data_block := ucast v\<rparr>\<rparr>)
           else if idx = 0x43 then Some (ec\<lparr>ec_ctx := gctx\<lparr>ac_shift := ucast v\<rparr>\<rparr>)
           else if idx = 0x46 then Some (ec\<lparr>ec_ctx := gctx\<lparr>ac_fb_base := v\<rparr>\<rparr>)
           else if idx = 0x47 then Some (ec\<lparr>ec_ctx := gctx\<lparr>ac_io_attr := ucast v\<rparr>\<rparr>)
           else if idx = 0x48 then Some (ec\<lparr>ec_ctx := gctx\<lparr>ac_reg_block := ucast v\<rparr>\<rparr>)
           else do {
             ws \<leftarrow> ec_ws ec;
             ws \<leftarrow> update_opt ws (unat idx) v;
             Some (ec\<lparr>ec_ws := Some ws\<rparr>)
           }
         })"

definition put_dst_fb :: "'w atom_context \<Rightarrow> u8 \<Rightarrow> u32 option \<Rightarrow> 'w atom_context option" where
  "put_dst_fb gctx idx val =
     (if fb_check gctx idx then Some gctx
      else do {
        v \<leftarrow> val;
        scratch \<leftarrow> ac_scratch gctx;
        scratch \<leftarrow> update_opt scratch (fb_index gctx idx) v;
        Some (gctx\<lparr>ac_scratch := Some scratch\<rparr>)
      })"

definition atom_put_dst ::
  "'w atom_exec_context \<Rightarrow> u8 \<Rightarrow> u8 \<Rightarrow> nat \<Rightarrow> u32 option \<Rightarrow> u32 option \<Rightarrow> 'w atom_exec_context option" where
  "atom_put_dst ec arg attr ptr val saved =
     (let gctx = ec_ctx ec; bios = ac_bios gctx; val = merge_saved (unat (dst_align attr)) val saved
      in if arg = 0 then do {
           idx \<leftarrow> get_u16 bios ptr;
           w \<leftarrow> put_dst_reg gctx (ucast idx + ucast (ac_reg_block gctx)) val;
           Some (set_world ec w)
         }
         else if arg = 1 then do {
           idx \<leftarrow> get_u8 bios ptr;
           v \<leftarrow> val;
           params \<leftarrow> update_opt (ec_params ec) (ec_ps ec + unat idx) v;
           Some (ec\<lparr>ec_params := params\<rparr>)
         }
         else if arg = 2 then do {
           idx \<leftarrow> get_u8 bios ptr;
           put_dst_ws ec idx val
         }
         else if arg = 3 then do {
           idx \<leftarrow> get_u8 bios ptr;
           gctx \<leftarrow> put_dst_fb gctx idx val;
           Some (ec\<lparr>ec_ctx := gctx\<rparr>)
         }
         else if arg = 6 then do {
           idx \<leftarrow> get_u8 bios ptr;
           v \<leftarrow> val;
           Some (set_world ec (pll_write (ac_card gctx) (ac_world gctx) (ucast idx) v))
         }
         else if arg = 7 then do {
           idx \<leftarrow> get_u8 bios ptr;
           v \<leftarrow> val;
           Some (set_world ec (mc_write (ac_card gctx) (ac_world gctx) (ucast idx) v))
         }
         else Some ec)"

section \<open>Fields\<close>

abbreviation src_field :: "nat \<Rightarrow> u32 \<Rightarrow> u32" where
  "src_field align val \<equiv> drop_bit (atom_arg_shift ! align) (val AND atom_arg_mask ! align)"

text \<open>The width of a field: 32 bits, 16 bits or 8 bits.\<close>

definition field_width :: "nat \<Rightarrow> nat" where
  "field_width align = (if align = 0 then 32 else if align \<le> 3 then 16 else 8)"

lemma align_cases:
  fixes align :: nat
  assumes "align < 8"
  obtains "align = 0" | "align = 1" | "align = 2" | "align = 3" | "align = 4" | "align = 5" | "align = 6" | "align = 7"
  using assms by linarith

lemma arg_mask_eq:
  assumes "align < 8"
  shows "atom_arg_mask ! align = push_bit (atom_arg_shift ! align) (mask (field_width align))"
    and "atom_arg_shift ! align + field_width align \<le> 32"
  using assms
  by (auto elim!: align_cases simp: atom_arg_mask_def atom_arg_shift_def field_width_def mask_eq_exp_minus_1)

lemma src_field_eq:
  assumes "align < 8"
  shows "src_field align v = take_bit (field_width align) (drop_bit (atom_arg_shift ! align) v)"
  using arg_mask_eq [OF assms] by (intro bit_word_eqI) (auto simp: bit_simps)

lemma merge_field_eq:
  assumes "align < 8"
  shows "src_field align (merge_field align v saved) = take_bit (field_width align) v"
    and "merge_field align v saved AND NOT (atom_arg_mask ! align) = saved AND NOT (atom_arg_mask ! align)"
  unfolding merge_field_def using arg_mask_eq [OF assms] by (intro bit_word_eqI; auto simp: bit_simps)+

lemma merge_whole: "merge_field 0 v saved = v"
  using arg_mask_eq [of 0]
  by (intro bit_word_eqI) (auto simp: merge_field_def bit_simps field_width_def atom_arg_shift_def)

section \<open>Reading an operand moves the pointer as skipping it does\<close>

lemma src_align_lt: "src_align attr < 8"
proof -
  have "drop_bit 3 attr AND 7 = drop_bit 3 attr AND mask 3" by (simp add: mask_eq_exp_minus_1)
  then have "unat (drop_bit 3 attr AND 7) = unat (drop_bit 3 attr) mod 2 ^ 3" by (simp only: unat_and_mask)
  then show ?thesis by (simp add: src_align_def)
qed

lemma arg_cases:
  fixes attr :: u8
  obtains "attr AND 7 = 0" | "attr AND 7 = 1" | "attr AND 7 = 2" | "attr AND 7 = 3"
    | "attr AND 7 = 4" | "attr AND 7 = 5" | "attr AND 7 = 6" | "attr AND 7 = 7"
proof -
  have "attr AND 7 = attr AND mask 3" by (simp add: mask_eq_exp_minus_1)
  then have "unat (attr AND 7) = unat attr mod 2 ^ 3" by (simp only: unat_and_mask)
  then have "unat (attr AND 7) < 8" by simp
  then have "unat (attr AND 7) = unat (0::u8) \<or> unat (attr AND 7) = unat (1::u8) \<or> unat (attr AND 7) = unat (2::u8) \<or>
    unat (attr AND 7) = unat (3::u8) \<or> unat (attr AND 7) = unat (4::u8) \<or> unat (attr AND 7) = unat (5::u8) \<or>
    unat (attr AND 7) = unat (6::u8) \<or> unat (attr AND 7) = unat (7::u8)"
    by simp linarith
  then show ?thesis using that unfolding word_unat_eq_iff [symmetric] by blast
qed

lemma set_world_simps [simp]:
  "ec_ctx (set_world ec w) = (ec_ctx ec)\<lparr>ac_world := w\<rparr>"
  "ec_params (set_world ec w) = ec_params ec" "ec_ps (set_world ec w) = ec_ps ec"
  "ec_ws (set_world ec w) = ec_ws ec" "ec_ps_shift (set_world ec w) = ec_ps_shift ec"
  "ec_start (set_world ec w) = ec_start ec" "ec_last_jump (set_world ec w) = ec_last_jump ec"
  "ec_last_jump_jiffies (set_world ec w) = ec_last_jump_jiffies ec" "ec_abort (set_world ec w) = ec_abort ec"
  by (simp_all add: set_world_def)

lemma set_world_refl: "\<exists>w. (ec :: 'w atom_exec_context) = set_world ec w"
  by (rule exI [of _ "ac_world (ec_ctx ec)"]) (simp add: set_world_def)

lemma get_src_direct_ptr:
  "atom_get_src_direct ec (src_align attr) ptr = Some (v, p) \<Longrightarrow> attr AND 7 = 5 \<Longrightarrow>
   p = atom_skip_src_int attr ptr"
  using src_align_lt [of attr]
  by (auto simp: atom_get_src_direct_def atom_skip_src_int_def Let_def split: if_splits bind_splits)

lemma get_src_int_ptr:
  assumes "atom_get_src_int ec attr ptr = Some (v, s, p, ec')"
  shows "p = atom_skip_src_int attr ptr \<and> (\<exists>w. ec' = set_world ec w)"
proof (cases rule: arg_cases [of attr])
  case 6
  then show ?thesis
    using assms get_src_direct_ptr [of ec attr ptr]
    by (auto simp: atom_get_src_int_def Let_def set_world_refl split: bind_splits prod.splits)
qed (use assms in
  \<open>auto simp: atom_get_src_int_def atom_skip_src_int_def Let_def set_world_refl split: bind_splits prod.splits if_splits\<close>)

section \<open>Writing and reading back\<close>

lemma dst_align_lt: "unat (dst_align attr) < 8"
proof -
  have "drop_bit 6 attr AND 3 = drop_bit 6 attr AND mask 2" by (simp add: mask_eq_exp_minus_1)
  then have "unat (drop_bit 6 attr AND 3) = unat (drop_bit 6 attr) mod 2 ^ 2" by (simp only: unat_and_mask)
  then have "unat (drop_bit 6 attr AND 3) < 4" by simp
  then have "\<forall>row \<in> set atom_dst_to_src. unat (row ! unat (drop_bit 6 attr AND 3)) < 8"
    by (auto simp: atom_dst_to_src_def nth_Cons' )
  moreover have "atom_dst_to_src ! unat (drop_bit 3 attr AND 7) \<in> set atom_dst_to_src"
    using src_align_lt [of attr] by (intro nth_mem) (simp add: src_align_def atom_dst_to_src_def)
  ultimately show ?thesis unfolding dst_align_def by blast
qed

lemma dst_attr_parts:
  assumes "unat arg < 8"
  shows "dst_attr arg attr AND 7 = arg" and "src_align (dst_attr arg attr) = unat (dst_align attr)"
proof -
  have 7: "(7 :: u8) = mask 3" by (simp add: mask_eq_exp_minus_1)
  have small: "take_bit 3 w = w" if "unat w < 8" for w :: u8
    using that by (intro word_unat_eq_iff [THEN iffD2]) (simp add: unat_take_bit)
  have a: "take_bit 3 arg = arg" and d: "take_bit 3 (dst_align attr) = dst_align attr"
    using small assms dst_align_lt by blast+
  have "take_bit 3 (arg OR push_bit 3 w) = take_bit 3 arg" for w :: u8
    by (intro bit_word_eqI) (auto simp: bit_simps)
  then show "dst_attr arg attr AND 7 = arg"
    unfolding dst_attr_def 7 take_bit_eq_mask [symmetric] using a by simp
  have "take_bit 3 (drop_bit 3 (take_bit 3 arg OR push_bit 3 (take_bit 3 w))) = take_bit 3 w" for w :: u8
    by (intro bit_word_eqI) (auto simp: bit_simps)
  then have "take_bit 3 (drop_bit 3 (arg OR push_bit 3 (dst_align attr))) = dst_align attr"
    using a d by metis
  then show "src_align (dst_attr arg attr) = unat (dst_align attr)"
    unfolding src_align_def dst_attr_def 7 take_bit_eq_mask [symmetric] by simp
qed

text \<open>The workspace indices that name registers of the interpreter instead of workspace words.\<close>

abbreviation ws_special :: "u8 \<Rightarrow> bool" where
  "ws_special idx \<equiv> 0x40 \<le> idx \<and> idx \<le> 0x48"

lemma ws_special_iff:
  "\<not> ws_special idx \<Longrightarrow>
    idx \<noteq> 0x40 \<and> idx \<noteq> 0x41 \<and> idx \<noteq> 0x42 \<and> idx \<noteq> 0x43 \<and> idx \<noteq> 0x44 \<and> idx \<noteq> 0x45 \<and> idx \<noteq> 0x46 \<and> idx \<noteq> 0x47 \<and> idx \<noteq> 0x48"
  by auto

lemma ws_plain:
  assumes "\<not> ws_special idx"
  shows "get_src_ws ec idx = Option.bind (ec_ws ec) (\<lambda>ws. nth_opt ws (unat idx))"
    and "put_dst_ws ec idx (Some v) = Option.bind (ec_ws ec) (\<lambda>ws. Option.bind (update_opt ws (unat idx) v)
      (\<lambda>ws. Some (ec\<lparr>ec_ws := Some ws\<rparr>)))"
  using ws_special_iff [OF assms] by (simp_all add: get_src_ws_def put_dst_ws_def Let_def)

lemma merge_saved_Some:
  "merge_saved align (Some v) (Some s) = Some (merge_field align v s)" if "align < 8"
  using that by (auto elim!: align_cases simp: merge_saved_def atom_arg_mask_def merge_whole)

lemma put_get_dst:
  assumes put: "atom_put_dst ec arg attr ptr (Some v) (Some saved) = Some ec'"
    and idx: "get_u8 (ac_bios (ec_ctx ec)) ptr = Some idx"
    and arg: "arg = 1 \<or> arg = 2 \<and> \<not> ws_special idx \<or> arg = 3 \<and> \<not> fb_check (ec_ctx ec) idx"
  shows "\<exists>cell. atom_get_dst ec' arg attr ptr = Some (take_bit (field_width (unat (dst_align attr))) v, Some cell, ptr + 1, ec') \<and>
    cell AND NOT (atom_arg_mask ! unat (dst_align attr)) = saved AND NOT (atom_arg_mask ! unat (dst_align attr))"
proof -
  let ?a = "unat (dst_align attr)"
  let ?m = "merge_field ?a v saved"
  have m: "merge_saved ?a (Some v) (Some saved) = Some ?m" by (rule merge_saved_Some [OF dst_align_lt])
  have f: "src_field ?a ?m = take_bit (field_width ?a) v"
    by (rule merge_field_eq(1) [OF dst_align_lt])
  have n: "?m AND NOT (atom_arg_mask ! ?a) = saved AND NOT (atom_arg_mask ! ?a)"
    by (rule merge_field_eq(2) [OF dst_align_lt])
  note simps = dst_attr_parts [of 1 attr, simplified] dst_attr_parts [of 2 attr, simplified]
    dst_attr_parts [of 3 attr, simplified] m f [unfolded drop_bit_and]
    atom_put_dst_def atom_get_dst_def atom_get_src_int_def Let_def update_opt_def nth_opt_def
  have "atom_get_dst ec' arg attr ptr = Some (take_bit (field_width ?a) v, Some ?m, ptr + 1, ec')"
    using arg
  proof (elim disjE conjE)
    assume "arg = 1"
    then show ?thesis
      using put idx by (auto simp: simps split: if_splits)
  next
    assume a: "arg = 2" and ns: "\<not> ws_special idx"
    obtain ws where "ec_ws ec = Some ws" "unat idx < length ws" "ec' = ec\<lparr>ec_ws := Some (ws[unat idx := ?m])\<rparr>"
      using put unfolding a by (auto simp: simps(7-) idx ws_plain(2) [OF ns] split: bind_splits if_splits)
    then show ?thesis unfolding a using idx by (simp add: simps ws_plain(1) [OF ns])
  next
    assume a: "arg = 3" and ns: "\<not> fb_check (ec_ctx ec) idx"
    obtain xs where "ac_scratch (ec_ctx ec) = Some xs" "fb_index (ec_ctx ec) idx < length xs"
      "ec' = ec\<lparr>ec_ctx := (ec_ctx ec)\<lparr>ac_scratch := Some (xs[fb_index (ec_ctx ec) idx := ?m])\<rparr>\<rparr>"
      using put ns unfolding a by (auto simp: simps(7-) idx put_dst_fb_def split: bind_splits if_splits)
    then show ?thesis
      unfolding a using idx ns by (simp add: simps get_src_fb_def fb_check_def fb_index_def)
  qed
  then show ?thesis using n by blast
qed

section \<open>The scratch region\<close>

lemma fb_check_nat:
  assumes "unat (ac_fb_base gctx) + 4 * unat idx < 2 ^ 32"
  shows "fb_check gctx idx = (unat (ac_scratch_size_bytes gctx) < unat (ac_fb_base gctx) + 4 * unat idx)"
    and "fb_index gctx idx = (unat (ac_fb_base gctx) + 4 * unat idx) div 4"
proof -
  have i: "unat (ucast idx :: u32) = unat idx" using unat_lt_len [of idx] by (simp add: unat_ucast)
  have "unat (ucast idx * 4 :: u32) = unat idx * 4"
    using unat_mult_small [of "ucast idx :: u32" 4] unat_lt_len [of idx] i by simp
  then show "fb_check gctx idx = (unat (ac_scratch_size_bytes gctx) < unat (ac_fb_base gctx) + 4 * unat idx)"
    using assms unat_add_small [of "ac_fb_base gctx" "ucast idx * 4"]
    by (simp add: fb_check_def word_less_nat_alt mult.commute)
  have "unat (ac_fb_base gctx div 4) + unat idx < 2 ^ 32" using assms by (simp add: unat_div_distrib)
  then show "fb_index gctx idx = (unat (ac_fb_base gctx) + 4 * unat idx) div 4"
    using unat_add_small [of "ac_fb_base gctx div 4" "ucast idx"] i
    by (simp add: fb_index_def unat_div_distrib)
qed

section \<open>Indirect IO moves\<close>

lemma iio_mask_eq:
  "iio_mask sz pos = (if 1 \<le> unat sz \<and> unat sz \<le> 32 \<and> unat pos < 32 then Some (push_bit (unat pos) (mask (unat sz))) else None)"
proof -
  have "drop_bit (32 - n) 0xFFFFFFFF = (mask n :: u32)" if "n \<le> 32" for n
  proof -
    have f: "0xFFFFFFFF = (mask 32 :: u32)" by (simp add: mask_eq_exp_minus_1)
    show ?thesis unfolding f using that by (intro bit_word_eqI) (auto simp: bit_simps)
  qed
  then show ?thesis by (auto simp: iio_mask_def c_shr_def c_shl_def)
qed

lemma iio_move_eq:
  assumes "get_u8 bios (base + 1) = Some sz" "get_u8 bios (base + 2) = Some src" "get_u8 bios (base + 3) = Some dst"
    and "1 \<le> unat sz" "unat sz \<le> 32" "unat src < 32" "unat dst < 32"
  shows "iio_move bios base value temp = Some ((temp AND NOT (push_bit (unat dst) (mask (unat sz)))) OR
    push_bit (unat dst) (take_bit (unat sz) (drop_bit (unat src) value)))"
  using assms by (simp add: iio_move_def iio_mask_eq c_shr_def c_shl_def take_bit_eq_mask)

section \<open>A concrete context\<close>

text \<open>A card whose registers are memory, and a context over it for the examples.\<close>

definition mem_card :: "(u32 \<Rightarrow> u32) card_info" where
  "mem_card =
     (let write = (\<lambda>w r v. w(r := v)); read = (\<lambda>w r. (w r, w))
      in \<lparr>reg_write = write, reg_read = read, ioreg_write = write, ioreg_read = read,
          mc_write = write, mc_read = read, pll_write = write, pll_read = read\<rparr>)"

definition blank_context :: "'w card_info \<Rightarrow> 'w \<Rightarrow> u8 list \<Rightarrow> 'w atom_context" where
  "blank_context crd w bios =
     \<lparr>ac_card = crd, ac_bios = bios, ac_cmd_table = 0, ac_data_table = 0, ac_iio = replicate 256 0,
      ac_data_block = 0, ac_fb_base = 0, ac_divmul0 = 0, ac_divmul1 = 0, ac_io_attr = 0, ac_reg_block = 0,
      ac_shift = 0, ac_cs_equal = False, ac_cs_above = False, ac_io_mode = 0, ac_scratch = Some [0, 0],
      ac_scratch_size_bytes = 8, ac_debug_depth = 0, ac_world = w\<rparr>"

definition mem_context :: "u8 list \<Rightarrow> (u32 \<Rightarrow> u32) atom_context" where
  "mem_context = blank_context mem_card (\<lambda>_. 0)"

definition mem_exec :: "u8 list \<Rightarrow> u32 list \<Rightarrow> (u32 \<Rightarrow> u32) atom_exec_context" where
  "mem_exec bios params =
     \<lparr>ec_ctx = mem_context bios, ec_params = params, ec_ps = 0, ec_ws = Some [0, 0, 0, 0], ec_ps_shift = 0,
      ec_start = 1, ec_last_jump = 0, ec_last_jump_jiffies = None, ec_abort = False\<rparr>"

section \<open>Properties\<close>

text \<open>
  (C35) Reading an operand moves the instruction pointer exactly as \<open>atom_skip_src_int\<close> does,
  whatever the addressing mode, alignment and IO mode, and changes nothing but the state of the
  hardware.
\<close>

theorem atom_get_src_skip:
  assumes "atom_get_src_int ec attr ptr = Some (v, s, p, ec')"
  shows "p = atom_skip_src_int attr ptr \<and> (\<exists>w. ec' = set_world ec w)"
  using get_src_int_ptr [OF assms] .

theorem atom_get_src_skip_witness:
  "atom_get_src_int (mem_exec [7, 9] [5]) 0 0 = Some (0, Some 0, 2, mem_exec [7, 9] [5]) \<and>
   2 = atom_skip_src_int 0 0 \<and> (\<exists>w. mem_exec [7, 9] [5] = set_world (mem_exec [7, 9] [5]) w)"
proof -
  have g: "atom_get_src_int (mem_exec [7, 9] [5]) 0 0 = Some (0, Some 0, 2, mem_exec [7, 9] [5])"
    by (simp add: atom_get_src_int_def mem_exec_def mem_context_def blank_context_def mem_card_def get_u16_def get_u8_def
        get_src_reg_def src_align_def atom_arg_shift_def atom_arg_mask_def set_world_def Let_def)
  then show ?thesis using atom_get_src_skip [OF g] by blast
qed

text \<open>
  (C33) A field written by \<open>atom_put_dst\<close> to a parameter, a workspace word or a scratch word is
  read back by \<open>atom_get_dst\<close>, cut to the width of the field, and the bits of the word outside
  the field keep the contents passed as \<open>saved\<close>.
\<close>

theorem atom_put_get_dst:
  assumes "atom_put_dst ec arg attr ptr (Some v) (Some saved) = Some ec'"
    and "get_u8 (ac_bios (ec_ctx ec)) ptr = Some idx"
    and "arg = 1 \<or> arg = 2 \<and> \<not> ws_special idx \<or> arg = 3 \<and> \<not> fb_check (ec_ctx ec) idx"
  shows "\<exists>cell. atom_get_dst ec' arg attr ptr =
      Some (take_bit (field_width (unat (dst_align attr))) v, Some cell, ptr + 1, ec') \<and>
    cell AND NOT (atom_arg_mask ! unat (dst_align attr)) = saved AND NOT (atom_arg_mask ! unat (dst_align attr))"
  using put_get_dst [OF assms] .

theorem atom_put_get_dst_witness:
  "\<exists>ec' cell. atom_put_dst (mem_exec [0] [0xAABBCCDD]) 1 0x60 0 (Some 0x12) (Some 0xAABBCCDD) = Some ec' \<and>
    ec_params ec' = [0xAABB12DD] \<and> atom_get_dst ec' 1 0x60 0 = Some (0x12, Some cell, 1, ec')"
proof -
  have a: "dst_align 0x60 = 5" by (simp add: dst_align_def atom_dst_to_src_def)
  have p: "atom_put_dst (mem_exec [0] [0xAABBCCDD]) 1 0x60 0 (Some 0x12) (Some 0xAABBCCDD) =
      Some ((mem_exec [0] [0xAABBCCDD])\<lparr>ec_params := [0xAABB12DD]\<rparr>)"
    by (simp add: atom_put_dst_def mem_exec_def mem_context_def blank_context_def get_u8_def a merge_saved_def merge_field_def
        atom_arg_mask_def atom_arg_shift_def update_opt_def Let_def)
  then show ?thesis
    using atom_put_get_dst [OF p, of 0]
    by (auto simp: a field_width_def mem_exec_def mem_context_def blank_context_def get_u8_def)
qed

text \<open>
  (C36) The bounds check of the scratch region is off by one word. With a scratch buffer of as many
  words as its size says, a read below the size returns the word, a read above the size is refused
  with zero, and a read at exactly the size passes the check and is outside the buffer.
\<close>

theorem atom_fb_bound:
  fixes ec :: "'w atom_exec_context" and idx :: u8
  defines "gctx \<equiv> ec_ctx ec"
  defines "addr \<equiv> unat (ac_fb_base gctx) + 4 * unat idx"
  assumes "ac_scratch gctx = Some xs" and "unat (ac_scratch_size_bytes gctx) = 4 * length xs" and "addr < 2 ^ 32"
  shows "get_src_fb ec idx =
    (if addr < 4 * length xs then Some (xs ! (addr div 4)) else if addr = 4 * length xs then None else Some 0)"
proof -
  note c = fb_check_nat [of gctx idx, folded addr_def, OF assms(5)]
  have "(addr div 4 < length xs) = (addr < 4 * length xs)" by linarith
  then show ?thesis using assms(3,4) c by (auto simp: get_src_fb_def gctx_def [symmetric] nth_opt_def)
qed

theorem atom_fb_bound_witness:
  "get_src_fb (mem_exec [] []) 1 = Some 0 \<and> get_src_fb (mem_exec [] []) 2 = None \<and>
   get_src_fb (mem_exec [] []) 3 = Some 0"
  using atom_fb_bound [of "mem_exec [] []" "[0, 0]" 1] atom_fb_bound [of "mem_exec [] []" "[0, 0]" 2]
    atom_fb_bound [of "mem_exec [] []" "[0, 0]" 3]
  by (simp add: mem_exec_def mem_context_def blank_context_def)

text \<open>
  The move operations of the indirect-IO programs insert a bit field: the \<open>size\<close> bits of
  the value from bit \<open>src\<close> replace those of the accumulator from bit \<open>dst\<close>, and all
  other bits of the accumulator are kept.
\<close>

theorem atom_iio_move_inserts:
  assumes "get_u8 bios (base + 1) = Some sz" "get_u8 bios (base + 2) = Some src" "get_u8 bios (base + 3) = Some dst"
    and "1 \<le> unat sz" "unat sz \<le> 32" "unat src < 32" "unat dst < 32"
  shows "\<exists>r. iio_move bios base value temp = Some r \<and>
    (\<forall>n < 32. bit r n = (if unat dst \<le> n \<and> n < unat dst + unat sz then bit value (n - unat dst + unat src) else bit temp n))"
  by (simp add: iio_move_eq [OF assms], simp add: bit_simps) (auto simp: bit_simps add.commute)

theorem atom_iio_move_inserts_witness:
  "\<exists>r. iio_move [6, 8, 0, 16] 0 0xAB 0xFFFFFFFF = Some r \<and> bit r 16 \<and> \<not> bit r 18 \<and> bit r 31"
proof -
  obtain r where "iio_move [6, 8, 0, 16] 0 0xAB 0xFFFFFFFF = Some r"
    and b: "\<And>n. n < 32 \<Longrightarrow> bit r n = (if 16 \<le> n \<and> n < 16 + 8 then bit (0xAB :: u32) (n - 16 + 0)
      else bit (0xFFFFFFFF :: u32) n)"
    using atom_iio_move_inserts [of "[6, 8, 0, 16]" 0 8 0 16 "0xAB" "0xFFFFFFFF"] by (auto simp: get_u8_def)
  then show ?thesis using b [of 16] b [of 18] b [of 31] by (simp add: bit_numeral_rec)
qed

end
