(* ===== verification/Atom_Exec.thy ===== *)
theory Atom_Exec
  imports Atom_Operands
begin

text \<open>
  The second half of \<open>amdgpu/atom.c\<close>: one definition per opcode handler, the opcode table,
  the interpreter loop with its watchdog and its nested tables, and the entry points that parse an
  image and run its tables.

  A handler returns the moved instruction pointer and the changed execution context; \<open>None\<close>
  is the undefined behaviour described in \<open>Atom_Operands\<close>. The interpreter loop of the C code
  need not end, so the model gives it fuel, one unit for an instruction: \<open>Timeout\<close> is the
  outcome of a run that has used it up and is different from \<open>Fault\<close>.
\<close>

section \<open>Opcode handlers\<close>

text \<open>The handlers that read destination and source, combine them and write the destination.\<close>

definition atom_op_binary ::
  "(u32 \<Rightarrow> u32 \<Rightarrow> u32) \<Rightarrow> 'w atom_exec_context \<Rightarrow> nat \<Rightarrow> u8 \<Rightarrow> (nat \<times> 'w atom_exec_context) option" where
  "atom_op_binary f ec ptr arg = do {
     attr \<leftarrow> get_u8 (ac_bios (ec_ctx ec)) ptr;
     let ptr = ptr + 1;
     let dptr = ptr;
     (dst, saved, ptr, ec) \<leftarrow> atom_get_dst ec arg attr ptr;
     (src, ptr, ec) \<leftarrow> atom_get_src ec attr ptr;
     ec \<leftarrow> atom_put_dst ec arg attr dptr (Some (f dst src)) saved;
     Some (ptr, ec)
   }"

definition atom_op_add :: "'w atom_exec_context \<Rightarrow> nat \<Rightarrow> u8 \<Rightarrow> (nat \<times> 'w atom_exec_context) option" where
  "atom_op_add = atom_op_binary (\<lambda>dst src. dst + src)"

definition atom_op_and :: "'w atom_exec_context \<Rightarrow> nat \<Rightarrow> u8 \<Rightarrow> (nat \<times> 'w atom_exec_context) option" where
  "atom_op_and = atom_op_binary (\<lambda>dst src. dst AND src)"

definition atom_op_or :: "'w atom_exec_context \<Rightarrow> nat \<Rightarrow> u8 \<Rightarrow> (nat \<times> 'w atom_exec_context) option" where
  "atom_op_or = atom_op_binary (\<lambda>dst src. dst OR src)"

definition atom_op_sub :: "'w atom_exec_context \<Rightarrow> nat \<Rightarrow> u8 \<Rightarrow> (nat \<times> 'w atom_exec_context) option" where
  "atom_op_sub = atom_op_binary (\<lambda>dst src. dst - src)"

definition atom_op_xor :: "'w atom_exec_context \<Rightarrow> nat \<Rightarrow> u8 \<Rightarrow> (nat \<times> 'w atom_exec_context) option" where
  "atom_op_xor = atom_op_binary (\<lambda>dst src. dst XOR src)"

definition atom_op_beep :: "'w atom_exec_context \<Rightarrow> nat \<Rightarrow> u8 \<Rightarrow> (nat \<times> 'w atom_exec_context) option" where
  "atom_op_beep ec ptr arg = Some (ptr, ec)"

text \<open>\<open>attr &= 0x38; attr |= atom_def_dst[attr >> 3] << 6\<close>\<close>

definition def_dst_attr :: "u8 \<Rightarrow> u8" where
  "def_dst_attr attr =
     (let attr = attr AND 0x38 in attr OR push_bit 6 (atom_def_dst ! unat (drop_bit 3 attr)))"

definition atom_op_clear :: "'w atom_exec_context \<Rightarrow> nat \<Rightarrow> u8 \<Rightarrow> (nat \<times> 'w atom_exec_context) option" where
  "atom_op_clear ec ptr arg = do {
     attr \<leftarrow> get_u8 (ac_bios (ec_ctx ec)) ptr;
     let ptr = ptr + 1;
     let dptr = ptr;
     let attr = def_dst_attr attr;
     (dst, saved, ptr, ec) \<leftarrow> atom_get_dst ec arg attr ptr;
     ec \<leftarrow> atom_put_dst ec arg attr dptr (Some 0) saved;
     Some (ptr, ec)
   }"

text \<open>The handlers that read two operands and only set registers of the interpreter.\<close>

definition atom_op_operands ::
  "(u32 \<Rightarrow> u32 \<Rightarrow> 'w atom_context \<Rightarrow> 'w atom_context) \<Rightarrow>
   'w atom_exec_context \<Rightarrow> nat \<Rightarrow> u8 \<Rightarrow> (nat \<times> 'w atom_exec_context) option" where
  "atom_op_operands f ec ptr arg = do {
     attr \<leftarrow> get_u8 (ac_bios (ec_ctx ec)) ptr;
     let ptr = ptr + 1;
     (dst, saved, ptr, ec) \<leftarrow> atom_get_dst ec arg attr ptr;
     (src, ptr, ec) \<leftarrow> atom_get_src ec attr ptr;
     Some (ptr, ec\<lparr>ec_ctx := f dst src (ec_ctx ec)\<rparr>)
   }"

definition atom_op_compare :: "'w atom_exec_context \<Rightarrow> nat \<Rightarrow> u8 \<Rightarrow> (nat \<times> 'w atom_exec_context) option" where
  "atom_op_compare = atom_op_operands (\<lambda>dst src ctx. ctx\<lparr>ac_cs_equal := (dst = src), ac_cs_above := (dst > src)\<rparr>)"

definition atom_op_test :: "'w atom_exec_context \<Rightarrow> nat \<Rightarrow> u8 \<Rightarrow> (nat \<times> 'w atom_exec_context) option" where
  "atom_op_test = atom_op_operands (\<lambda>dst src ctx. ctx\<lparr>ac_cs_equal := (dst AND src = 0)\<rparr>)"

definition atom_op_div :: "'w atom_exec_context \<Rightarrow> nat \<Rightarrow> u8 \<Rightarrow> (nat \<times> 'w atom_exec_context) option" where
  "atom_op_div = atom_op_operands (\<lambda>dst src ctx.
     if src \<noteq> 0 then ctx\<lparr>ac_divmul0 := dst div src, ac_divmul1 := dst mod src\<rparr>
     else ctx\<lparr>ac_divmul0 := 0, ac_divmul1 := 0\<rparr>)"

definition atom_op_div32 :: "'w atom_exec_context \<Rightarrow> nat \<Rightarrow> u8 \<Rightarrow> (nat \<times> 'w atom_exec_context) option" where
  "atom_op_div32 = atom_op_operands (\<lambda>dst src ctx.
     if src \<noteq> 0 then
       (let val64 = ucast dst OR push_bit 32 (ucast (ac_divmul1 ctx)) :: u64;
            val64 = val64 div ucast src
        in ctx\<lparr>ac_divmul0 := lower_32_bits val64, ac_divmul1 := upper_32_bits val64\<rparr>)
     else ctx\<lparr>ac_divmul0 := 0, ac_divmul1 := 0\<rparr>)"

definition atom_op_mul :: "'w atom_exec_context \<Rightarrow> nat \<Rightarrow> u8 \<Rightarrow> (nat \<times> 'w atom_exec_context) option" where
  "atom_op_mul = atom_op_operands (\<lambda>dst src ctx. ctx\<lparr>ac_divmul0 := dst * src\<rparr>)"

definition atom_op_mul32 :: "'w atom_exec_context \<Rightarrow> nat \<Rightarrow> u8 \<Rightarrow> (nat \<times> 'w atom_exec_context) option" where
  "atom_op_mul32 = atom_op_operands (\<lambda>dst src ctx.
     let val64 = ucast dst * ucast src :: u64
     in ctx\<lparr>ac_divmul0 := lower_32_bits val64, ac_divmul1 := upper_32_bits val64\<rparr>)"

definition atom_op_delay ::
  "'w kernel \<Rightarrow> 'w atom_exec_context \<Rightarrow> nat \<Rightarrow> u8 \<Rightarrow> (nat \<times> 'w atom_exec_context) option" where
  "atom_op_delay K ec ptr arg = do {
     count \<leftarrow> get_u8 (ac_bios (ec_ctx ec)) ptr;
     let w = ac_world (ec_ctx ec);
     let w = (if arg = 0 then udelay K w (ucast count)
       else if \<not> drm_can_sleep K w then mdelay K w (ucast count)
       else msleep K w (ucast count));
     Some (ptr + 1, set_world ec w)
   }"

definition atom_op_eot :: "'w atom_exec_context \<Rightarrow> nat \<Rightarrow> u8 \<Rightarrow> (nat \<times> 'w atom_exec_context) option" where
  "atom_op_eot ec ptr arg = Some (ptr, ec)"

text \<open>The condition of a jump by its number; \<open>ATOM_COND_ALWAYS\<close> is 2.\<close>

definition jump_cond :: "'w atom_context \<Rightarrow> u8 \<Rightarrow> bool" where
  "jump_cond ctx arg =
     (if arg = 0 then ac_cs_above ctx
      else if arg = 1 then ac_cs_above ctx \<or> ac_cs_equal ctx
      else if arg = 2 then True
      else if arg = 3 then \<not> (ac_cs_above ctx \<or> ac_cs_equal ctx)
      else if arg = 4 then \<not> ac_cs_above ctx
      else if arg = 5 then ac_cs_equal ctx
      else if arg = 6 then \<not> ac_cs_equal ctx
      else False)"

definition time_after :: "u64 \<Rightarrow> u64 \<Rightarrow> bool" where
  "time_after a b = (sint (b - a) < 0)"

text \<open>The watchdog of a taken jump.\<close>

definition jump_watchdog :: "'w kernel \<Rightarrow> 'w atom_exec_context \<Rightarrow> u32 \<Rightarrow> 'w atom_exec_context option" where
  "jump_watchdog K ec dest =
     (if ec_last_jump ec = dest then
        (let (cjiffies, w) = jiffies K (ac_world (ec_ctx ec)); ec = set_world ec w
         in do {
           since \<leftarrow> ec_last_jump_jiffies ec;
           if time_after cjiffies since then
             (if jiffies_to_msecs K (cjiffies - since) > 5000 then Some (ec\<lparr>ec_abort := True\<rparr>) else Some ec)
           else
             (let (now, w) = jiffies K (ac_world (ec_ctx ec))
              in Some ((set_world ec w)\<lparr>ec_last_jump_jiffies := Some now\<rparr>))
         })
      else
        (let (now, w) = jiffies K (ac_world (ec_ctx ec))
         in Some ((set_world ec w)\<lparr>ec_last_jump := dest, ec_last_jump_jiffies := Some now\<rparr>)))"

definition atom_op_jump ::
  "'w kernel \<Rightarrow> 'w atom_exec_context \<Rightarrow> nat \<Rightarrow> u8 \<Rightarrow> (nat \<times> 'w atom_exec_context) option" where
  "atom_op_jump K ec ptr arg = do {
     target \<leftarrow> get_u16 (ac_bios (ec_ctx ec)) ptr;
     let ptr = ptr + 2;
     if jump_cond (ec_ctx ec) arg then do {
       ec \<leftarrow> jump_watchdog K ec (ucast (ec_start ec) + ucast target);
       Some (unat (ec_start ec) + unat target, ec)
     }
     else Some (ptr, ec)
   }"

definition atom_op_mask :: "'w atom_exec_context \<Rightarrow> nat \<Rightarrow> u8 \<Rightarrow> (nat \<times> 'w atom_exec_context) option" where
  "atom_op_mask ec ptr arg = do {
     attr \<leftarrow> get_u8 (ac_bios (ec_ctx ec)) ptr;
     let ptr = ptr + 1;
     let dptr = ptr;
     (dst, saved, ptr, ec) \<leftarrow> atom_get_dst ec arg attr ptr;
     (msk, ptr) \<leftarrow> atom_get_src_direct ec (src_align attr) ptr;
     (src, ptr, ec) \<leftarrow> atom_get_src ec attr ptr;
     ec \<leftarrow> atom_put_dst ec arg attr dptr (Some (dst AND msk OR src)) saved;
     Some (ptr, ec)
   }"

definition atom_op_move :: "'w atom_exec_context \<Rightarrow> nat \<Rightarrow> u8 \<Rightarrow> (nat \<times> 'w atom_exec_context) option" where
  "atom_op_move ec ptr arg = do {
     attr \<leftarrow> get_u8 (ac_bios (ec_ctx ec)) ptr;
     let ptr = ptr + 1;
     let dptr = ptr;
     (saved, ptr, ec) \<leftarrow>
       (if src_align attr \<noteq> 0 then do {
          (dst, saved, ptr, ec) \<leftarrow> atom_get_dst ec arg attr ptr;
          Some (saved, ptr, ec)
        }
        else Some (Some 0xCDCDCDCD, atom_skip_dst arg attr ptr, ec));
     (src, ptr, ec) \<leftarrow> atom_get_src ec attr ptr;
     ec \<leftarrow> atom_put_dst ec arg attr dptr (Some src) saved;
     Some (ptr, ec)
   }"

definition atom_op_nop :: "'w atom_exec_context \<Rightarrow> nat \<Rightarrow> u8 \<Rightarrow> (nat \<times> 'w atom_exec_context) option" where
  "atom_op_nop ec ptr arg = Some (ptr, ec)"

definition atom_op_postcard :: "'w atom_exec_context \<Rightarrow> nat \<Rightarrow> u8 \<Rightarrow> (nat \<times> 'w atom_exec_context) option" where
  "atom_op_postcard ec ptr arg = do {
     val \<leftarrow> get_u8 (ac_bios (ec_ctx ec)) ptr;
     Some (ptr + 1, ec)
   }"

definition atom_op_repeat :: "'w atom_exec_context \<Rightarrow> nat \<Rightarrow> u8 \<Rightarrow> (nat \<times> 'w atom_exec_context) option" where
  "atom_op_repeat ec ptr arg = Some (ptr, ec)"

definition atom_op_restorereg :: "'w atom_exec_context \<Rightarrow> nat \<Rightarrow> u8 \<Rightarrow> (nat \<times> 'w atom_exec_context) option" where
  "atom_op_restorereg ec ptr arg = Some (ptr, ec)"

definition atom_op_savereg :: "'w atom_exec_context \<Rightarrow> nat \<Rightarrow> u8 \<Rightarrow> (nat \<times> 'w atom_exec_context) option" where
  "atom_op_savereg ec ptr arg = Some (ptr, ec)"

definition atom_op_setdatablock :: "'w atom_exec_context \<Rightarrow> nat \<Rightarrow> u8 \<Rightarrow> (nat \<times> 'w atom_exec_context) option" where
  "atom_op_setdatablock ec ptr arg = do {
     let ctx = ec_ctx ec;
     idx \<leftarrow> get_u8 (ac_bios ctx) ptr;
     block \<leftarrow> (if idx = 0 then Some 0
       else if idx = 255 then Some (ec_start ec)
       else get_u16 (ac_bios ctx) (unat (ac_data_table ctx) + 4 + 2 * unat idx));
     Some (ptr + 1, ec\<lparr>ec_ctx := ctx\<lparr>ac_data_block := block\<rparr>\<rparr>)
   }"

definition atom_op_setfbbase :: "'w atom_exec_context \<Rightarrow> nat \<Rightarrow> u8 \<Rightarrow> (nat \<times> 'w atom_exec_context) option" where
  "atom_op_setfbbase ec ptr arg = do {
     attr \<leftarrow> get_u8 (ac_bios (ec_ctx ec)) ptr;
     (src, ptr, ec) \<leftarrow> atom_get_src ec attr (ptr + 1);
     Some (ptr, ec\<lparr>ec_ctx := (ec_ctx ec)\<lparr>ac_fb_base := src\<rparr>\<rparr>)
   }"

definition atom_op_setport :: "'w atom_exec_context \<Rightarrow> nat \<Rightarrow> u8 \<Rightarrow> (nat \<times> 'w atom_exec_context) option" where
  "atom_op_setport ec ptr arg =
     (let ctx = ec_ctx ec
      in if arg = 0 then do {
           port \<leftarrow> get_u16 (ac_bios ctx) ptr;
           Some (ptr + 2, ec\<lparr>ec_ctx := ctx\<lparr>ac_io_mode := (if port = 0 then 0 else 0x80 OR ucast port)\<rparr>\<rparr>)
         }
         else if arg = 1 then Some (ptr + 1, ec\<lparr>ec_ctx := ctx\<lparr>ac_io_mode := 1\<rparr>\<rparr>)
         else if arg = 2 then Some (ptr + 1, ec\<lparr>ec_ctx := ctx\<lparr>ac_io_mode := 2\<rparr>\<rparr>)
         else Some (ptr, ec))"

definition atom_op_setregblock :: "'w atom_exec_context \<Rightarrow> nat \<Rightarrow> u8 \<Rightarrow> (nat \<times> 'w atom_exec_context) option" where
  "atom_op_setregblock ec ptr arg = do {
     block \<leftarrow> get_u16 (ac_bios (ec_ctx ec)) ptr;
     Some (ptr + 2, ec\<lparr>ec_ctx := (ec_ctx ec)\<lparr>ac_reg_block := block\<rparr>\<rparr>)
   }"

text \<open>Shifts by an immediate byte, on the default destination alignment.\<close>

definition atom_op_shift_imm ::
  "(u32 \<Rightarrow> nat \<Rightarrow> u32 option) \<Rightarrow> 'w atom_exec_context \<Rightarrow> nat \<Rightarrow> u8 \<Rightarrow> (nat \<times> 'w atom_exec_context) option" where
  "atom_op_shift_imm f ec ptr arg = do {
     attr \<leftarrow> get_u8 (ac_bios (ec_ctx ec)) ptr;
     let ptr = ptr + 1;
     let dptr = ptr;
     let attr = def_dst_attr attr;
     (dst, saved, ptr, ec) \<leftarrow> atom_get_dst ec arg attr ptr;
     (shift, ptr) \<leftarrow> atom_get_src_direct ec 4 ptr;
     dst \<leftarrow> f dst (unat (ucast shift :: u8));
     ec \<leftarrow> atom_put_dst ec arg attr dptr (Some dst) saved;
     Some (ptr, ec)
   }"

definition atom_op_shift_left :: "'w atom_exec_context \<Rightarrow> nat \<Rightarrow> u8 \<Rightarrow> (nat \<times> 'w atom_exec_context) option" where
  "atom_op_shift_left = atom_op_shift_imm c_shl"

definition atom_op_shift_right :: "'w atom_exec_context \<Rightarrow> nat \<Rightarrow> u8 \<Rightarrow> (nat \<times> 'w atom_exec_context) option" where
  "atom_op_shift_right = atom_op_shift_imm c_shr"

text \<open>Shifts of the full destination word, of which the field is then cut out.\<close>

definition atom_op_shift_full ::
  "(u32 \<Rightarrow> nat \<Rightarrow> u32 option) \<Rightarrow> 'w atom_exec_context \<Rightarrow> nat \<Rightarrow> u8 \<Rightarrow> (nat \<times> 'w atom_exec_context) option" where
  "atom_op_shift_full f ec ptr arg = do {
     attr \<leftarrow> get_u8 (ac_bios (ec_ctx ec)) ptr;
     let ptr = ptr + 1;
     let dptr = ptr;
     let align = unat (dst_align attr);
     (dst, saved, ptr, ec) \<leftarrow> atom_get_dst ec arg attr ptr;
     (shift, ptr, ec) \<leftarrow> atom_get_src ec attr ptr;
     let shift = unat (ucast shift :: u8);
     val \<leftarrow> (case saved of
         None \<Rightarrow> if shift < 32 then Some None else None
       | Some dst \<Rightarrow> map_option Some (f dst shift));
     let val = map_option (\<lambda>dst. drop_bit (atom_arg_shift ! align) (dst AND atom_arg_mask ! align)) val;
     ec \<leftarrow> atom_put_dst ec arg attr dptr val saved;
     Some (ptr, ec)
   }"

definition atom_op_shl :: "'w atom_exec_context \<Rightarrow> nat \<Rightarrow> u8 \<Rightarrow> (nat \<times> 'w atom_exec_context) option" where
  "atom_op_shl = atom_op_shift_full c_shl"

definition atom_op_shr :: "'w atom_exec_context \<Rightarrow> nat \<Rightarrow> u8 \<Rightarrow> (nat \<times> 'w atom_exec_context) option" where
  "atom_op_shr = atom_op_shift_full c_shr"

lemma skip_ge: "ptr \<le> atom_skip_src_int attr ptr"
  by (simp add: atom_skip_src_int_def Let_def)

lemma get_src_ptr:
  "atom_get_src ec attr ptr = Some (v, p, ec') \<Longrightarrow> p = atom_skip_src_int attr ptr \<and> (\<exists>w. ec' = set_world ec w)"
  by (auto simp: atom_get_src_def split: bind_splits dest: get_src_int_ptr)

text \<open>The cases of a switch; the loop reads at least four bytes per case.\<close>

function atom_switch_loop ::
  "'w atom_exec_context \<Rightarrow> u8 \<Rightarrow> u32 \<Rightarrow> nat \<Rightarrow> (nat \<times> 'w atom_exec_context) option" where
  "atom_switch_loop ec attr src ptr = do {
     tag \<leftarrow> get_u16 (ac_bios (ec_ctx ec)) ptr;
     if tag \<noteq> 0x5A5A then do {
       magic \<leftarrow> get_u8 (ac_bios (ec_ctx ec)) ptr;
       if magic = 0x63 then do {
         (val, ptr, ec) \<leftarrow> atom_get_src ec (attr AND 0x38 OR 5) (ptr + 1);
         target \<leftarrow> get_u16 (ac_bios (ec_ctx ec)) ptr;
         if val = src then Some (unat (ec_start ec) + unat target, ec)
         else atom_switch_loop ec attr src (ptr + 2)
       }
       else Some (ptr, ec)
     }
     else Some (ptr + 2, ec)
   }"
  by pat_completeness auto

termination
proof (relation "measure (\<lambda>(ec, attr, src, ptr). length (ac_bios (ec_ctx ec)) - ptr)", goal_cases)
  case (2 ec attr src ptr tag magic x val y ptr' ec' target)
  then have "atom_get_src ec (attr AND 0x38 OR 5) (ptr + 1) = Some (val, ptr', ec')" by simp
  from get_src_ptr [OF this] have "ac_bios (ec_ctx ec') = ac_bios (ec_ctx ec)" "ptr < ptr'"
    using skip_ge [of "ptr + 1" "attr AND 0x38 OR 5"] by auto
  moreover have "ptr < length (ac_bios (ec_ctx ec))"
    using 2(3) by (auto simp: get_u8_def split: if_splits)
  ultimately show ?case by simp
qed simp

declare atom_switch_loop.simps [simp del]

definition atom_op_switch :: "'w atom_exec_context \<Rightarrow> nat \<Rightarrow> u8 \<Rightarrow> (nat \<times> 'w atom_exec_context) option" where
  "atom_op_switch ec ptr arg = do {
     attr \<leftarrow> get_u8 (ac_bios (ec_ctx ec)) ptr;
     (src, ptr, ec) \<leftarrow> atom_get_src ec attr (ptr + 1);
     atom_switch_loop ec attr src ptr
   }"

definition atom_op_debug :: "'w atom_exec_context \<Rightarrow> nat \<Rightarrow> u8 \<Rightarrow> (nat \<times> 'w atom_exec_context) option" where
  "atom_op_debug ec ptr arg = do {
     val \<leftarrow> get_u8 (ac_bios (ec_ctx ec)) ptr;
     Some (ptr + 1, ec)
   }"

definition atom_op_processds :: "'w atom_exec_context \<Rightarrow> nat \<Rightarrow> u8 \<Rightarrow> (nat \<times> 'w atom_exec_context) option" where
  "atom_op_processds ec ptr arg = do {
     val \<leftarrow> get_u16 (ac_bios (ec_ctx ec)) ptr;
     Some (ptr + unat val + 2, ec)
   }"

section \<open>The opcode table\<close>

text \<open>The handlers a table entry can point to.\<close>

datatype atom_op =
    Op_move | Op_and | Op_or | Op_shift_left | Op_shift_right | Op_mul | Op_div | Op_add | Op_sub
  | Op_setport | Op_setregblock | Op_setfbbase | Op_compare | Op_switch | Op_jump | Op_test
  | Op_delay | Op_calltable | Op_repeat | Op_clear | Op_nop | Op_eot | Op_mask | Op_postcard
  | Op_beep | Op_savereg | Op_restorereg | Op_setdatablock | Op_xor | Op_shl | Op_shr | Op_debug
  | Op_processds | Op_mul32 | Op_div32

text \<open>The entries of \<open>opcode_table\<close>: the handler, \<open>NULL\<close> in the first, and its argument.\<close>

definition opcode_table :: "(atom_op option \<times> u8) list" where
  "opcode_table =
    [(None, 0), (Some Op_move, 0), (Some Op_move, 1), (Some Op_move, 2), (Some Op_move, 3),
     (Some Op_move, 6), (Some Op_move, 7), (Some Op_and, 0), (Some Op_and, 1), (Some Op_and, 2),
     (Some Op_and, 3), (Some Op_and, 6), (Some Op_and, 7), (Some Op_or, 0), (Some Op_or, 1),
     (Some Op_or, 2), (Some Op_or, 3), (Some Op_or, 6), (Some Op_or, 7), (Some Op_shift_left, 0),
     (Some Op_shift_left, 1), (Some Op_shift_left, 2), (Some Op_shift_left, 3),
     (Some Op_shift_left, 6), (Some Op_shift_left, 7), (Some Op_shift_right, 0),
     (Some Op_shift_right, 1), (Some Op_shift_right, 2), (Some Op_shift_right, 3),
     (Some Op_shift_right, 6), (Some Op_shift_right, 7), (Some Op_mul, 0), (Some Op_mul, 1),
     (Some Op_mul, 2), (Some Op_mul, 3), (Some Op_mul, 6), (Some Op_mul, 7), (Some Op_div, 0),
     (Some Op_div, 1), (Some Op_div, 2), (Some Op_div, 3), (Some Op_div, 6), (Some Op_div, 7),
     (Some Op_add, 0), (Some Op_add, 1), (Some Op_add, 2), (Some Op_add, 3), (Some Op_add, 6),
     (Some Op_add, 7), (Some Op_sub, 0), (Some Op_sub, 1), (Some Op_sub, 2), (Some Op_sub, 3),
     (Some Op_sub, 6), (Some Op_sub, 7), (Some Op_setport, 0), (Some Op_setport, 1),
     (Some Op_setport, 2), (Some Op_setregblock, 0), (Some Op_setfbbase, 0), (Some Op_compare, 0),
     (Some Op_compare, 1), (Some Op_compare, 2), (Some Op_compare, 3), (Some Op_compare, 6),
     (Some Op_compare, 7), (Some Op_switch, 0), (Some Op_jump, 2), (Some Op_jump, 5),
     (Some Op_jump, 3), (Some Op_jump, 0), (Some Op_jump, 4), (Some Op_jump, 1), (Some Op_jump, 6),
     (Some Op_test, 0), (Some Op_test, 1), (Some Op_test, 2), (Some Op_test, 3), (Some Op_test, 6),
     (Some Op_test, 7), (Some Op_delay, 1), (Some Op_delay, 0), (Some Op_calltable, 0),
     (Some Op_repeat, 0), (Some Op_clear, 0), (Some Op_clear, 1), (Some Op_clear, 2),
     (Some Op_clear, 3), (Some Op_clear, 6), (Some Op_clear, 7), (Some Op_nop, 0), (Some Op_eot, 0),
     (Some Op_mask, 0), (Some Op_mask, 1), (Some Op_mask, 2), (Some Op_mask, 3), (Some Op_mask, 6),
     (Some Op_mask, 7), (Some Op_postcard, 0), (Some Op_beep, 0), (Some Op_savereg, 0),
     (Some Op_restorereg, 0), (Some Op_setdatablock, 0), (Some Op_xor, 0), (Some Op_xor, 1),
     (Some Op_xor, 2), (Some Op_xor, 3), (Some Op_xor, 6), (Some Op_xor, 7), (Some Op_shl, 0),
     (Some Op_shl, 1), (Some Op_shl, 2), (Some Op_shl, 3), (Some Op_shl, 6), (Some Op_shl, 7),
     (Some Op_shr, 0), (Some Op_shr, 1), (Some Op_shr, 2), (Some Op_shr, 3), (Some Op_shr, 6),
     (Some Op_shr, 7), (Some Op_debug, 0), (Some Op_processds, 0), (Some Op_mul32, 1),
     (Some Op_mul32, 2), (Some Op_div32, 1), (Some Op_div32, 2)]"

text \<open>
  The call through the function pointer. \<open>atom_op_calltable\<close> is the only handler that runs other
  instructions; the interpreter loop calls it itself.
\<close>

fun atom_func ::
  "'w kernel \<Rightarrow> atom_op \<Rightarrow> 'w atom_exec_context \<Rightarrow> nat \<Rightarrow> u8 \<Rightarrow> (nat \<times> 'w atom_exec_context) option" where
  "atom_func K Op_move = atom_op_move"
| "atom_func K Op_and = atom_op_and"
| "atom_func K Op_or = atom_op_or"
| "atom_func K Op_shift_left = atom_op_shift_left"
| "atom_func K Op_shift_right = atom_op_shift_right"
| "atom_func K Op_mul = atom_op_mul"
| "atom_func K Op_div = atom_op_div"
| "atom_func K Op_add = atom_op_add"
| "atom_func K Op_sub = atom_op_sub"
| "atom_func K Op_setport = atom_op_setport"
| "atom_func K Op_setregblock = atom_op_setregblock"
| "atom_func K Op_setfbbase = atom_op_setfbbase"
| "atom_func K Op_compare = atom_op_compare"
| "atom_func K Op_switch = atom_op_switch"
| "atom_func K Op_jump = atom_op_jump K"
| "atom_func K Op_test = atom_op_test"
| "atom_func K Op_delay = atom_op_delay K"
| "atom_func K Op_repeat = atom_op_repeat"
| "atom_func K Op_clear = atom_op_clear"
| "atom_func K Op_nop = atom_op_nop"
| "atom_func K Op_eot = atom_op_eot"
| "atom_func K Op_mask = atom_op_mask"
| "atom_func K Op_postcard = atom_op_postcard"
| "atom_func K Op_beep = atom_op_beep"
| "atom_func K Op_savereg = atom_op_savereg"
| "atom_func K Op_restorereg = atom_op_restorereg"
| "atom_func K Op_setdatablock = atom_op_setdatablock"
| "atom_func K Op_xor = atom_op_xor"
| "atom_func K Op_shl = atom_op_shl"
| "atom_func K Op_shr = atom_op_shr"
| "atom_func K Op_debug = atom_op_debug"
| "atom_func K Op_processds = atom_op_processds"
| "atom_func K Op_mul32 = atom_op_mul32"
| "atom_func K Op_div32 = atom_op_div32"
| "atom_func K Op_calltable = (\<lambda>ec ptr arg. None)"

section \<open>Executing a table\<close>

type_synonym 'w loop = "'w atom_exec_context \<Rightarrow> nat \<Rightarrow> (i32 \<times> 'w atom_exec_context) outcome"

text \<open>The header of a command table: its workspace and parameter sizes.\<close>

definition table_header :: "u8 list \<Rightarrow> nat \<Rightarrow> (nat \<times> nat) option" where
  "table_header bios base = do {
     len \<leftarrow> get_u16 bios base;
     ws \<leftarrow> get_u8 bios (base + 4);
     ps \<leftarrow> get_u8 bios (base + 5);
     Some (unat ws, unat (ps AND 0x7F))
   }"

text \<open>The workspace of a table: NULL when it asks for none or when the allocation fails.\<close>

definition alloc_ws :: "'w kernel \<Rightarrow> nat \<Rightarrow> 'w \<Rightarrow> u32 list option \<times> 'w" where
  "alloc_ws K ws w =
     (if ws = 0 then (None, w)
      else (let (ok, w) = kzalloc_ok K w (4 * ws) in (if ok then Some (replicate ws 0) else None, w)))"

text \<open>The execution context a table starts with; the depth counter is raised.\<close>

definition enter_table ::
  "'w kernel \<Rightarrow> 'w atom_context \<Rightarrow> u32 list \<Rightarrow> nat \<Rightarrow> u16 \<Rightarrow> nat \<Rightarrow> nat \<Rightarrow> 'w atom_exec_context" where
  "enter_table K ctx params ps base ws pssz =
     (let (mem, w) = alloc_ws K ws (ac_world ctx)
      in \<lparr>ec_ctx = ctx\<lparr>ac_world := w, ac_debug_depth := ac_debug_depth ctx + 1\<rparr>, ec_params = params, ec_ps = ps,
          ec_ws = mem, ec_ps_shift = pssz div 4, ec_start = base, ec_last_jump = 0,
          ec_last_jump_jiffies = None, ec_abort = False\<rparr>)"

text \<open>
  \<open>amdgpu_atom_execute_table_locked\<close> around its loop. The error number \<open>-EINVAL\<close> is
  \<open>-22\<close>.
\<close>

definition execute_table_with ::
  "'w loop \<Rightarrow> 'w kernel \<Rightarrow> 'w atom_context \<Rightarrow> nat \<Rightarrow> u32 list \<Rightarrow> nat \<Rightarrow>
   (i32 \<times> 'w atom_context \<times> u32 list) outcome" where
  "execute_table_with loop K ctx index params ps =
     (case get_u16 (ac_bios ctx) (unat (ac_cmd_table ctx) + 4 + 2 * index) of
        None \<Rightarrow> Fault
      | Some base \<Rightarrow>
          if base = 0 then Returned (- 22, ctx, params)
          else
            (case table_header (ac_bios ctx) (unat base) of
               None \<Rightarrow> Fault
             | Some (ws, pssz) \<Rightarrow>
                 (case loop (enter_table K ctx params ps base ws pssz) (unat base + 6) of
                    Returned (ret, ec) \<Rightarrow> Returned (ret, ec_ctx ec, ec_params ec)
                  | Fault \<Rightarrow> Fault
                  | Timeout \<Rightarrow> Timeout)))"

definition atom_op_calltable ::
  "'w loop \<Rightarrow> 'w kernel \<Rightarrow> 'w atom_exec_context \<Rightarrow> nat \<Rightarrow> (nat \<times> 'w atom_exec_context) outcome" where
  "atom_op_calltable loop K ec ptr =
     (let ctx = ec_ctx ec
      in case get_u8 (ac_bios ctx) ptr of
           None \<Rightarrow> Fault
         | Some idx \<Rightarrow>
             (case get_u16 (ac_bios ctx) (unat (ac_cmd_table ctx) + 4 + 2 * unat idx) of
                None \<Rightarrow> Fault
              | Some base \<Rightarrow>
                  if base = 0 then Returned (ptr + 1, ec)
                  else
                    (case execute_table_with loop K ctx (unat idx) (ec_params ec) (ec_ps ec + ec_ps_shift ec) of
                       Returned (r, ctx, params) \<Rightarrow>
                         Returned (ptr + 1, ec\<lparr>ec_ctx := ctx, ec_params := params,
                           ec_abort := (if r \<noteq> 0 then True else ec_abort ec)\<rparr>)
                     | Fault \<Rightarrow> Fault
                     | Timeout \<Rightarrow> Timeout)))"

text \<open>One instruction: the handler of its table entry.\<close>

definition atom_dispatch ::
  "'w loop \<Rightarrow> 'w kernel \<Rightarrow> u8 \<Rightarrow> 'w atom_exec_context \<Rightarrow> nat \<Rightarrow> (nat \<times> 'w atom_exec_context) outcome" where
  "atom_dispatch loop K op ec ptr =
     (case opcode_table ! unat op of
        (None, arg) \<Rightarrow> Fault
      | (Some f, arg) \<Rightarrow>
          if f = Op_calltable then atom_op_calltable loop K ec ptr
          else outcome_of (atom_func K f ec ptr arg))"

text \<open>Leaving the loop with \<open>break\<close> lowers the depth counter, \<open>goto free\<close> does not.\<close>

definition leave_table :: "'w atom_exec_context \<Rightarrow> (i32 \<times> 'w atom_exec_context) outcome" where
  "leave_table ec = Returned (0, ec\<lparr>ec_ctx := (ec_ctx ec)\<lparr>ac_debug_depth := ac_debug_depth (ec_ctx ec) - 1\<rparr>\<rparr>)"

text \<open>One iteration of the loop, which continues with \<open>loop\<close>; the loop itself.\<close>

definition atom_exec_body :: "'w loop \<Rightarrow> 'w kernel \<Rightarrow> 'w loop" where
  "atom_exec_body loop K ec ptr =
     (case get_u8 (ac_bios (ec_ctx ec)) ptr of
        None \<Rightarrow> Fault
      | Some op \<Rightarrow>
          if ec_abort ec then Returned (- 22, ec)
          else if op < 127 \<and> op > 0 then
            (case atom_dispatch loop K op ec (ptr + 1) of
               Returned (ptr, ec) \<Rightarrow> if op = 91 then leave_table ec else loop ec ptr
             | Fault \<Rightarrow> Fault
             | Timeout \<Rightarrow> Timeout)
          else leave_table ec)"

primrec atom_exec_loop :: "nat \<Rightarrow> 'w kernel \<Rightarrow> 'w loop" where
  "atom_exec_loop 0 K = (\<lambda>ec ptr. Timeout)"
| "atom_exec_loop (Suc fuel) K = atom_exec_body (atom_exec_loop fuel K) K"

definition amdgpu_atom_execute_table_locked ::
  "nat \<Rightarrow> 'w kernel \<Rightarrow> 'w atom_context \<Rightarrow> nat \<Rightarrow> u32 list \<Rightarrow> nat \<Rightarrow>
   (i32 \<times> 'w atom_context \<times> u32 list) outcome" where
  "amdgpu_atom_execute_table_locked fuel K = execute_table_with (atom_exec_loop fuel K) K"

definition amdgpu_atom_execute_table ::
  "nat \<Rightarrow> 'w kernel \<Rightarrow> 'w atom_context \<Rightarrow> nat \<Rightarrow> u32 list \<Rightarrow> (i32 \<times> 'w atom_context \<times> u32 list) outcome" where
  "amdgpu_atom_execute_table fuel K ctx index params =
     amdgpu_atom_execute_table_locked fuel K
       (ctx\<lparr>ac_data_block := 0, ac_reg_block := 0, ac_fb_base := 0, ac_io_mode := 0,
            ac_divmul0 := 0, ac_divmul1 := 0\<rparr>) index params 0"

section \<open>More fuel does not change an outcome\<close>

lemma execute_table_with_mono:
  assumes "\<And>ec ptr. outcome_le (loop ec ptr) (loop' ec ptr)"
  shows "outcome_le (execute_table_with loop K ctx index params ps) (execute_table_with loop' K ctx index params ps)"
  unfolding execute_table_with_def
  by (auto split: option.splits prod.splits intro!: outcome_le_case assms)

lemma calltable_mono:
  assumes "\<And>ec ptr. outcome_le (loop ec ptr) (loop' ec ptr)"
  shows "outcome_le (atom_op_calltable loop K ec ptr) (atom_op_calltable loop' K ec ptr)"
  unfolding atom_op_calltable_def Let_def
  by (auto split: option.splits prod.splits intro!: outcome_le_case execute_table_with_mono assms)

lemma dispatch_mono:
  assumes "\<And>ec ptr. outcome_le (loop ec ptr) (loop' ec ptr)"
  shows "outcome_le (atom_dispatch loop K op ec ptr) (atom_dispatch loop' K op ec ptr)"
  unfolding atom_dispatch_def by (auto split: option.splits prod.splits intro: calltable_mono assms)

lemma exec_body_mono:
  assumes "\<And>ec ptr. outcome_le (loop ec ptr) (loop' ec ptr)"
  shows "outcome_le (atom_exec_body loop K ec ptr) (atom_exec_body loop' K ec ptr)"
  unfolding atom_exec_body_def
  by (auto split: option.splits prod.splits intro!: outcome_le_case dispatch_mono assms)

lemma exec_loop_Suc: "outcome_le (atom_exec_loop n K ec ptr) (atom_exec_loop (Suc n) K ec ptr)"
proof (induction n arbitrary: ec ptr)
  case (Suc n)
  then show ?case unfolding atom_exec_loop.simps(2) [of "Suc n"] atom_exec_loop.simps(2) [of n]
    by (intro exec_body_mono) simp
qed (simp add: outcome_le_def)

lemma exec_loop_more:
  assumes "atom_exec_loop n K ec ptr \<noteq> Timeout" "n \<le> m"
  shows "atom_exec_loop m K ec ptr = atom_exec_loop n K ec ptr"
  using assms(2)
proof (induction m rule: dec_induct)
  case (step m)
  then show ?case using exec_loop_Suc [of m K ec ptr] assms(1) by (auto simp: outcome_le_def)
qed simp

end
