(* ===== verification/Atom_Inv.thy ===== *)
theory Atom_Inv
  imports Atom_Exec
begin

text \<open>
  What the AtomBIOS interpreter keeps. Every instruction leaves the image, the tables, the
  indirect-IO index and the sizes of all arrays alone, keeps the IO mode in its range and the state of
  the watchdog initialised; a table run returns 0 or \<open>-EINVAL\<close>. The watchdog aborts a table
  that jumps to the same place for more than five seconds, and never a loop of two jumps.
\<close>

section \<open>What an instruction keeps\<close>

text \<open>
  The IO mode is memory mapped, PCI, system IO or an indirect-IO port with bit 7 set; the time of the
  last jump is known once there was a jump; a table does not start at offset 0.
\<close>

definition io_mode_ok :: "'w atom_context \<Rightarrow> bool" where
  "io_mode_ok ctx = (ac_io_mode ctx \<in> {0, 1, 2} \<or> bit (ac_io_mode ctx) 7 \<and> ac_io_mode ctx < 0x10000)"

definition exec_inv :: "'w atom_exec_context \<Rightarrow> bool" where
  "exec_inv ec = (io_mode_ok (ec_ctx ec) \<and> ec_start ec \<noteq> 0 \<and>
     (ec_last_jump ec \<noteq> 0 \<longrightarrow> ec_last_jump_jiffies ec \<noteq> None))"

text \<open>The parts of the contexts that no instruction changes, array sizes included.\<close>

definition ctx_shape where
  "ctx_shape ctx = (ac_card ctx, ac_bios ctx, ac_cmd_table ctx, ac_data_table ctx, ac_iio ctx,
     map_option length (ac_scratch ctx), ac_scratch_size_bytes ctx)"

definition exec_shape where
  "exec_shape ec = (ctx_shape (ec_ctx ec), length (ec_params ec), ec_ps ec,
     map_option length (ec_ws ec), ec_ps_shift ec, ec_start ec)"

definition keeps :: "'w atom_exec_context \<Rightarrow> 'w atom_exec_context \<Rightarrow> bool" where
  "keeps ec ec' = (exec_shape ec' = exec_shape ec \<and> ac_debug_depth (ec_ctx ec') = ac_debug_depth (ec_ctx ec) \<and>
     (exec_inv ec \<longrightarrow> exec_inv ec') \<and> (ec_abort ec \<longrightarrow> ec_abort ec'))"

lemmas keeps_defs = keeps_def exec_shape_def ctx_shape_def exec_inv_def io_mode_ok_def

lemma keeps_refl [simp, intro]: "keeps ec ec" by (simp add: keeps_def)

lemma keeps_trans [trans]: "keeps a b \<Longrightarrow> keeps b c \<Longrightarrow> keeps a c" by (simp add: keeps_def)

lemma keeps_world [simp]: "keeps ec (set_world ec' w) = keeps ec ec'"
  by (simp add: keeps_defs)

lemma keeps_bios: "keeps ec ec' \<Longrightarrow> ac_bios (ec_ctx ec') = ac_bios (ec_ctx ec)"
  by (simp add: keeps_defs)

lemma get_src_int_keeps: "atom_get_src_int ec attr ptr = Some (v, s, p, ec') \<Longrightarrow> keeps ec ec'"
  using get_src_int_ptr [of ec attr ptr v s p ec'] by auto

lemma get_dst_keeps: "atom_get_dst ec arg attr ptr = Some (v, s, p, ec') \<Longrightarrow> keeps ec ec'"
  unfolding atom_get_dst_def by (rule get_src_int_keeps)

lemma get_src_keeps: "atom_get_src ec attr ptr = Some (v, p, ec') \<Longrightarrow> keeps ec ec'"
  using get_src_ptr [of ec attr ptr v p ec'] by auto

lemma put_dst_ws_keeps: "put_dst_ws ec idx val = Some ec' \<Longrightarrow> keeps ec ec'"
  unfolding put_dst_ws_def Let_def
  by (cases val; simp split: if_split_asm; (elim bind_eq_SomeE)?; auto simp: keeps_defs update_opt_def split: if_splits)

lemma put_dst_fb_keeps: "put_dst_fb (ec_ctx ec) idx val = Some ctx \<Longrightarrow> keeps ec (ec\<lparr>ec_ctx := ctx\<rparr>)"
  unfolding put_dst_fb_def
  by (simp split: if_split_asm; (elim bind_eq_SomeE)?; auto simp: keeps_defs update_opt_def split: if_splits)

lemma keeps_params: "length ps = length (ec_params ec) \<Longrightarrow> keeps ec (ec\<lparr>ec_params := ps\<rparr>)"
  by (simp add: keeps_defs)

lemma put_dst_keeps: "atom_put_dst ec arg attr ptr val saved = Some ec' \<Longrightarrow> keeps ec ec'"
  unfolding atom_put_dst_def Let_def
  by (simp split: if_split_asm; (elim bind_eq_SomeE)?;
      auto dest: put_dst_ws_keeps put_dst_fb_keeps simp: update_opt_def keeps_params split: if_splits)

lemma keeps_set_ctx:
  "keeps ec ec' \<Longrightarrow> ctx_shape ctx = ctx_shape (ec_ctx ec') \<Longrightarrow>
   ac_debug_depth ctx = ac_debug_depth (ec_ctx ec') \<Longrightarrow> ac_io_mode ctx = ac_io_mode (ec_ctx ec') \<Longrightarrow>
   keeps ec (ec'\<lparr>ec_ctx := ctx\<rparr>)"
  by (simp add: keeps_defs)

text \<open>The shapes of handlers: each chain of operand accesses keeps the context.\<close>

lemma op_binary_keeps: "atom_op_binary f ec ptr arg = Some (p, ec') \<Longrightarrow> keeps ec ec'"
  unfolding atom_op_binary_def Let_def
  by (auto elim!: bind_eq_SomeE dest!: get_dst_keeps get_src_keeps put_dst_keeps intro: keeps_trans)

lemma op_clear_keeps: "atom_op_clear ec ptr arg = Some (p, ec') \<Longrightarrow> keeps ec ec'"
  unfolding atom_op_clear_def Let_def
  by (auto elim!: bind_eq_SomeE dest!: get_dst_keeps get_src_keeps put_dst_keeps intro: keeps_trans)

lemma op_operands_keeps:
  assumes "\<And>dst src ctx. ctx_shape (f dst src ctx) = ctx_shape ctx \<and> ac_debug_depth (f dst src ctx) = ac_debug_depth ctx \<and>
    ac_io_mode (f dst src ctx) = ac_io_mode ctx"
  shows "atom_op_operands f ec ptr arg = Some (p, ec') \<Longrightarrow> keeps ec ec'"
  unfolding atom_op_operands_def Let_def using assms
  by (auto elim!: bind_eq_SomeE dest!: get_dst_keeps get_src_keeps intro!: keeps_set_ctx intro: keeps_trans)

lemma op_mask_keeps: "atom_op_mask ec ptr arg = Some (p, ec') \<Longrightarrow> keeps ec ec'"
  unfolding atom_op_mask_def Let_def
  by (auto elim!: bind_eq_SomeE dest!: get_dst_keeps get_src_keeps put_dst_keeps intro: keeps_trans)

lemma op_move_keeps: "atom_op_move ec ptr arg = Some (p, ec') \<Longrightarrow> keeps ec ec'"
  unfolding atom_op_move_def Let_def
  by (auto elim!: bind_eq_SomeE dest!: get_dst_keeps get_src_keeps put_dst_keeps split: if_splits)
    (blast intro: keeps_trans)+

lemma op_shift_imm_keeps: "atom_op_shift_imm f ec ptr arg = Some (p, ec') \<Longrightarrow> keeps ec ec'"
  unfolding atom_op_shift_imm_def Let_def
  by (auto elim!: bind_eq_SomeE dest!: get_dst_keeps get_src_keeps put_dst_keeps intro: keeps_trans)

lemma op_shift_full_keeps: "atom_op_shift_full f ec ptr arg = Some (p, ec') \<Longrightarrow> keeps ec ec'"
  unfolding atom_op_shift_full_def Let_def
  by (auto elim!: bind_eq_SomeE dest!: get_dst_keeps get_src_keeps put_dst_keeps intro: keeps_trans)

lemma switch_loop_keeps: "atom_switch_loop ec attr src ptr = Some (p, ec') \<Longrightarrow> keeps ec ec'"
proof (induction ec attr src ptr rule: atom_switch_loop.induct)
  case (1 ec attr src ptr)
  show ?case
    using 1(2)
  proof (subst (asm) atom_switch_loop.simps, elim bind_eq_SomeE)
    fix tag
    assume t: "get_u16 (ac_bios (ec_ctx ec)) ptr = Some tag"
      and r: "(if tag \<noteq> 0x5A5A then do {
         magic \<leftarrow> get_u8 (ac_bios (ec_ctx ec)) ptr;
         if magic = 0x63 then do {
           (val, ptr, ec) \<leftarrow> atom_get_src ec (attr AND 0x38 OR 5) (ptr + 1);
           target \<leftarrow> get_u16 (ac_bios (ec_ctx ec)) ptr;
           if val = src then Some (unat (ec_start ec) + unat target, ec)
           else atom_switch_loop ec attr src (ptr + 2)
         }
         else Some (ptr, ec)
       }
       else Some (ptr + 2, ec)) = Some (p, ec')"
    note IH = 1(1) [OF t _ _ _ _ refl refl]
    show ?thesis
      using r by (simp only: split: if_split_asm, elim bind_eq_SomeE)
        (auto simp only: split: if_split_asm elim!: bind_eq_SomeE intro: get_src_keeps keeps_trans [OF get_src_keeps IH])
  qed
qed

lemma op_switch_keeps: "atom_op_switch ec ptr arg = Some (p, ec') \<Longrightarrow> keeps ec ec'"
  unfolding atom_op_switch_def
  by (auto elim!: bind_eq_SomeE dest!: get_src_keeps switch_loop_keeps intro: keeps_trans)

lemma io_port: "bit (0x80 OR ucast (port :: u16) :: i32) 7" "(0x80 OR ucast port :: i32) < 0x10000"
proof -
  have b: "bit (0x80 :: int) n = (n = 7)" for n
    using bit_exp_iff [of 7 n, where ?'a = int] by auto
  have e: "(0x80 OR ucast port :: i32) = ucast (0x80 OR port)"
    by (intro bit_word_eqI) (auto simp: bit_simps b)
  have "unat (ucast (0x80 OR port) :: i32) = unat (0x80 OR port)"
    using unat_lt_len [of "0x80 OR port"] by (simp add: unat_ucast)
  then show "(0x80 OR ucast port :: i32) < 0x10000"
    unfolding e word_less_nat_alt using unat_lt_len [of "0x80 OR port"] by simp
  show "bit (0x80 OR ucast port :: i32) 7" by (simp add: bit_simps b)
qed

lemma op_setport_keeps: "atom_op_setport ec ptr arg = Some (p, ec') \<Longrightarrow> keeps ec ec'"
  unfolding atom_op_setport_def Let_def
  by (simp split: if_split_asm; (elim bind_eq_SomeE)?; auto simp: keeps_defs io_port)

lemma op_setdatablock_keeps: "atom_op_setdatablock ec ptr arg = Some (p, ec') \<Longrightarrow> keeps ec ec'"
  unfolding atom_op_setdatablock_def Let_def
  by (elim bind_eq_SomeE) (auto intro!: keeps_set_ctx simp: ctx_shape_def)

lemma op_setfbbase_keeps: "atom_op_setfbbase ec ptr arg = Some (p, ec') \<Longrightarrow> keeps ec ec'"
  unfolding atom_op_setfbbase_def
  by (auto elim!: bind_eq_SomeE intro!: keeps_set_ctx simp: ctx_shape_def dest: get_src_keeps)

lemma op_setregblock_keeps: "atom_op_setregblock ec ptr arg = Some (p, ec') \<Longrightarrow> keeps ec ec'"
  unfolding atom_op_setregblock_def
  by (auto elim!: bind_eq_SomeE intro!: keeps_set_ctx simp: ctx_shape_def)

lemma op_delay_keeps: "atom_op_delay K ec ptr arg = Some (p, ec') \<Longrightarrow> keeps ec ec'"
  unfolding atom_op_delay_def Let_def by (auto elim!: bind_eq_SomeE)

lemma keeps_jump:
  "keeps ec ec' \<Longrightarrow> keeps ec (ec'\<lparr>ec_last_jump_jiffies := Some t\<rparr>)"
  "keeps ec ec' \<Longrightarrow> keeps ec (ec'\<lparr>ec_last_jump := d, ec_last_jump_jiffies := Some t\<rparr>)"
  "keeps ec ec' \<Longrightarrow> keeps ec (ec'\<lparr>ec_abort := True\<rparr>)"
  by (simp_all add: keeps_defs)

lemma watchdog_keeps: "jump_watchdog K ec dest = Some ec' \<Longrightarrow> keeps ec ec'"
  unfolding jump_watchdog_def Let_def
  by (auto elim!: bind_eq_SomeE split: if_split_asm prod.split_asm intro!: keeps_jump)

lemma op_jump_keeps: "atom_op_jump K ec ptr arg = Some (p, ec') \<Longrightarrow> keeps ec ec'"
  unfolding atom_op_jump_def Let_def
  by (auto elim!: bind_eq_SomeE split: if_split_asm dest: watchdog_keeps)

lemmas handler_keeps = op_binary_keeps op_clear_keeps op_operands_keeps op_mask_keeps op_move_keeps
  op_shift_imm_keeps op_shift_full_keeps op_switch_keeps op_setport_keeps op_setdatablock_keeps
  op_setfbbase_keeps op_setregblock_keeps op_delay_keeps op_jump_keeps

lemma func_keeps: "atom_func K f ec ptr arg = Some (p, ec') \<Longrightarrow> keeps ec ec'"
  by (cases f)
    (auto simp: atom_op_add_def atom_op_and_def atom_op_or_def atom_op_sub_def atom_op_xor_def
      atom_op_beep_def atom_op_nop_def atom_op_eot_def atom_op_repeat_def atom_op_savereg_def
      atom_op_restorereg_def atom_op_shl_def atom_op_shr_def atom_op_shift_left_def atom_op_shift_right_def
      atom_op_compare_def atom_op_test_def atom_op_div_def atom_op_div32_def atom_op_mul_def atom_op_mul32_def
      atom_op_postcard_def atom_op_debug_def atom_op_processds_def ctx_shape_def Let_def
      elim!: bind_eq_SomeE intro: handler_keeps op_operands_keeps [rotated])

section \<open>What a table keeps\<close>

text \<open>
  An instruction, nested tables included: the depth counter may be left raised only when the run is
  to be aborted.
\<close>

definition steps :: "'w atom_exec_context \<Rightarrow> 'w atom_exec_context \<Rightarrow> bool" where
  "steps ec ec' = (exec_shape ec' = exec_shape ec \<and> (exec_inv ec \<longrightarrow> exec_inv ec') \<and> (ec_abort ec \<longrightarrow> ec_abort ec') \<and>
     (ec_abort ec' \<or> ac_debug_depth (ec_ctx ec') = ac_debug_depth (ec_ctx ec)))"

lemma keeps_steps: "keeps ec ec' \<Longrightarrow> steps ec ec'" by (simp add: keeps_def steps_def)

text \<open>The contract of a loop started in a context: what it returns.\<close>

definition loop_ok :: "'w atom_exec_context \<Rightarrow> i32 \<Rightarrow> 'w atom_exec_context \<Rightarrow> bool" where
  "loop_ok ec r ec' = (exec_shape ec' = exec_shape ec \<and> (exec_inv ec \<longrightarrow> exec_inv ec') \<and>
     (r = 0 \<and> \<not> ec_abort ec \<and> ac_debug_depth (ec_ctx ec') = ac_debug_depth (ec_ctx ec) - 1 \<or> r = - 22))"

definition table_ok :: "'w atom_context \<Rightarrow> u32 list \<Rightarrow> i32 \<Rightarrow> 'w atom_context \<Rightarrow> u32 list \<Rightarrow> bool" where
  "table_ok ctx params r ctx' params' = (ctx_shape ctx' = ctx_shape ctx \<and> length params' = length params \<and>
     (io_mode_ok ctx \<longrightarrow> io_mode_ok ctx') \<and>
     (r = 0 \<and> ac_debug_depth ctx' = ac_debug_depth ctx \<or> r = - 22))"

lemma execute_table_with_ok:
  assumes loop: "\<And>ec ptr r ec'. loop ec ptr = Returned (r, ec') \<Longrightarrow> loop_ok ec r ec'"
    and run: "execute_table_with loop K ctx index params ps = Returned (r, ctx', params')"
  shows "table_ok ctx params r ctx' params'"
proof -
  from run obtain base where base: "get_u16 (ac_bios ctx) (unat (ac_cmd_table ctx) + 4 + 2 * index) = Some base"
    by (auto simp: execute_table_with_def split: option.splits)
  show ?thesis
  proof (cases "base = 0")
    case True
    then show ?thesis using run base by (simp add: execute_table_with_def table_ok_def)
  next
    case False
    from run base False obtain ws pssz ec where
      l: "loop (enter_table K ctx params ps base ws pssz) (unat base + 6) = Returned (r, ec)"
      and "ctx' = ec_ctx ec" "params' = ec_params ec"
      by (auto simp: execute_table_with_def split: option.splits prod.splits outcome.splits)
    then show ?thesis
      using loop [OF l] False
      by (auto simp: loop_ok_def table_ok_def enter_table_def exec_shape_def ctx_shape_def exec_inv_def io_mode_ok_def
          split: prod.splits)
  qed
qed

lemma calltable_steps:
  assumes loop: "\<And>ec ptr r ec'. loop ec ptr = Returned (r, ec') \<Longrightarrow> loop_ok ec r ec'"
    and run: "atom_op_calltable loop K ec ptr = Returned (p, ec')"
  shows "steps ec ec'"
proof -
  let ?base = "\<lambda>idx. get_u16 (ac_bios (ec_ctx ec)) (unat (ac_cmd_table (ec_ctx ec)) + 4 + 2 * unat idx)"
  from run obtain idx base where idx: "get_u8 (ac_bios (ec_ctx ec)) ptr = Some idx" "?base idx = Some base"
    by (auto simp: atom_op_calltable_def Let_def split: option.splits)
  show ?thesis
  proof (cases "base = 0")
    case True
    then show ?thesis using run idx by (simp add: atom_op_calltable_def keeps_steps)
  next
    case False
    obtain r ctx params where
      e: "execute_table_with loop K (ec_ctx ec) (unat idx) (ec_params ec) (ec_ps ec + ec_ps_shift ec) = Returned (r, ctx, params)"
      and ec': "ec' = ec\<lparr>ec_ctx := ctx, ec_params := params, ec_abort := (if r \<noteq> 0 then True else ec_abort ec)\<rparr>"
      using run idx False by (simp add: atom_op_calltable_def Let_def split: outcome.splits prod.splits)
    have "table_ok (ec_ctx ec) (ec_params ec) r ctx params"
      by (rule execute_table_with_ok [OF _ e]) (rule loop)
    then show ?thesis
      unfolding ec'
      by (auto simp: table_ok_def steps_def exec_shape_def exec_inv_def)
  qed
qed

lemma dispatch_steps:
  assumes "\<And>ec ptr r ec'. loop ec ptr = Returned (r, ec') \<Longrightarrow> loop_ok ec r ec'"
    and "atom_dispatch loop K op ec ptr = Returned (p, ec')"
  shows "steps ec ec'"
proof (cases "opcode_table ! unat op")
  case (Pair f arg)
  consider "f = Some Op_calltable" | g where "f = Some g" "g \<noteq> Op_calltable" | "f = None" by blast
  then show ?thesis
  proof cases
    case 1
    then have "atom_op_calltable loop K ec ptr = Returned (p, ec')" using assms(2) Pair by (simp add: atom_dispatch_def)
    then show ?thesis by (rule calltable_steps [rotated]) (rule assms(1))
  next
    case 2
    then have "atom_func K g ec ptr arg = Some (p, ec')"
      using assms(2) Pair by (simp add: atom_dispatch_def outcome_of_def split: option.splits)
    then show ?thesis by (intro keeps_steps func_keeps)
  next
    case 3
    then show ?thesis using assms(2) Pair by (simp add: atom_dispatch_def)
  qed
qed

lemma dispatch_eot: "atom_dispatch loop K 91 ec ptr = Returned (ptr, ec)"
  by (simp add: atom_dispatch_def opcode_table_def outcome_of_def atom_op_eot_def)

lemma leave_table_ok: "\<not> ec_abort ec \<Longrightarrow> leave_table ec = Returned (r, ec') \<Longrightarrow> loop_ok ec r ec'"
  by (auto simp: leave_table_def loop_ok_def exec_shape_def ctx_shape_def exec_inv_def io_mode_ok_def)

lemma steps_loop_ok: "steps ec ec1 \<Longrightarrow> loop_ok ec1 r ec' \<Longrightarrow> \<not> ec_abort ec \<Longrightarrow> loop_ok ec r ec'"
  by (auto simp: steps_def loop_ok_def)

lemma exec_loop_ok: "atom_exec_loop n K ec ptr = Returned (r, ec') \<Longrightarrow> loop_ok ec r ec'"
proof (induction n arbitrary: ec ptr r ec')
  case (Suc n)
  from Suc.prems obtain op where op: "get_u8 (ac_bios (ec_ctx ec)) ptr = Some op"
    by (auto simp: atom_exec_body_def split: option.splits)
  consider (abort) "ec_abort ec" | (op) "\<not> ec_abort ec" "op < 127" "op > 0" "op \<noteq> 91"
    | (leave) "\<not> ec_abort ec" "\<not> (op < 127 \<and> op > 0) \<or> op = 91" by blast
  then show ?case
  proof cases
    case abort
    then show ?thesis using Suc.prems op by (auto simp: atom_exec_body_def loop_ok_def)
  next
    case op': op
    obtain p ec1 where d: "atom_dispatch (atom_exec_loop n K) K op ec (ptr + 1) = Returned (p, ec1)"
      and l: "atom_exec_loop n K ec1 p = Returned (r, ec')"
      using Suc.prems op op' by (auto simp: atom_exec_body_def split: outcome.splits)
    have "steps ec ec1" by (rule dispatch_steps [OF _ d]) (rule Suc.IH)
    then show ?thesis using steps_loop_ok Suc.IH [OF l] op'(1) by blast
  next
    case leave
    have "leave_table ec = Returned (r, ec')"
      using Suc.prems op leave by (auto simp: atom_exec_body_def dispatch_eot split: if_splits)
    then show ?thesis using leave_table_ok leave by blast
  qed
qed simp

section \<open>The watchdog\<close>

text \<open>Opcode 67 is the unconditional jump.\<close>

lemma exec_jump:
  assumes "get_u8 (ac_bios (ec_ctx ec)) ptr = Some 67" "get_u16 (ac_bios (ec_ctx ec)) (ptr + 1) = Some target" "\<not> ec_abort ec"
  shows "atom_exec_loop (Suc n) K ec ptr =
    (case jump_watchdog K ec (ucast (ec_start ec) + ucast target) of
       None \<Rightarrow> Fault | Some ec' \<Rightarrow> atom_exec_loop n K ec' (unat (ec_start ec) + unat target))"
  using assms watchdog_keeps [of K ec "ucast (ec_start ec) + ucast target"]
  by (auto simp: atom_exec_body_def atom_dispatch_def opcode_table_def outcome_of_def atom_op_jump_def jump_cond_def
      keeps_def exec_shape_def split: option.splits)

lemma exec_abort:
  assumes "get_u8 (ac_bios (ec_ctx ec)) ptr = Some op" "ec_abort ec"
  shows "atom_exec_loop (Suc n) K ec ptr = Returned (- 22, ec)"
  using assms by (simp add: atom_exec_body_def)

lemma of_nat_start: "(ucast (s :: u16) + ucast (t :: u16) :: u32) = of_nat (unat s + unat t)"
  by simp

lemma dest_neq:
  fixes s t1 t2 :: u16
  assumes "unat s + unat t1 \<noteq> unat s + unat t2"
  shows "(ucast s + ucast t1 :: u32) \<noteq> ucast s + ucast t2"
proof -
  have "unat (of_nat (unat s + unat t) :: u32) = unat s + unat t" for t :: u16
    using unat_lt_len [of s] unat_lt_len [of t] by (intro unat_of_nat_small) simp
  then show ?thesis using assms unfolding of_nat_start by metis
qed

lemma time_after_of_nat:
  assumes "t < c" "c < t + 2 ^ 63"
  shows "time_after (of_nat c) (of_nat t)" and "of_nat c - of_nat t = (of_nat (c - t) :: u64)"
proof -
  define e :: u64 where "e = of_nat (c - t)"
  show d: "of_nat c - of_nat t = (of_nat (c - t) :: u64)" using assms(1) by simp
  have u: "unat e = c - t" unfolding e_def using assms by (intro unat_of_nat_small) simp
  have "of_nat t - of_nat c = - e" unfolding e_def d [symmetric] by simp
  moreover have "unat e \<le> 2 ^ (LENGTH(64) - 1)" using u assms by simp
  from sint_uminus_small [OF this] have "sint (- e) = - int (c - t)" unfolding u .
  ultimately show "time_after (of_nat c) (of_nat t)" using assms(1) by (simp add: time_after_def)
qed

text \<open>
  A clock that runs: each reading is later than the one before it, by at most \<open>step\<close> ticks,
  and \<open>limit\<close> ticks or more are converted to more than five seconds.
\<close>

definition clock_runs :: "'w kernel \<Rightarrow> ('w \<Rightarrow> nat) \<Rightarrow> ('w \<Rightarrow> 'w) \<Rightarrow> nat \<Rightarrow> nat \<Rightarrow> bool" where
  "clock_runs K time tick step limit =
     ((\<forall>w. jiffies K w = (of_nat (time w), tick w) \<and> time w < time (tick w) \<and> time (tick w) \<le> time w + step) \<and>
      (\<forall>d. limit \<le> d \<and> d < 2 ^ 63 \<longrightarrow> 5000 < jiffies_to_msecs K (of_nat d)) \<and> limit + step < 2 ^ 63)"

lemma watchdog_repeat:
  assumes "clock_runs K time tick step limit" and "ec_last_jump ec = dest" "ec_last_jump_jiffies ec = Some (of_nat t)"
    and "t < time (ac_world (ec_ctx ec))" "time (ac_world (ec_ctx ec)) < t + 2 ^ 63"
  shows "jump_watchdog K ec dest =
    (let ec' = set_world ec (tick (ac_world (ec_ctx ec)))
     in if 5000 < jiffies_to_msecs K (of_nat (time (ac_world (ec_ctx ec)) - t)) then Some (ec'\<lparr>ec_abort := True\<rparr>) else Some ec')"
  using assms time_after_of_nat [OF assms(4,5)]
  by (simp add: jump_watchdog_def clock_runs_def Let_def)

lemma self_jump_aborts:
  assumes clock: "clock_runs K time tick step limit"
    and "get_u8 (ac_bios (ec_ctx ec)) ptr = Some 67" "get_u16 (ac_bios (ec_ctx ec)) (ptr + 1) = Some target"
    and "unat (ec_start ec) + unat target = ptr" "\<not> ec_abort ec"
    and "ec_last_jump ec = ucast (ec_start ec) + ucast target" "ec_last_jump_jiffies ec = Some (of_nat t)"
    and "t < time (ac_world (ec_ctx ec))" "time (ac_world (ec_ctx ec)) \<le> t + limit + step"
  shows "\<exists>n ec'. atom_exec_loop n K ec ptr = Returned (- 22, ec') \<and> ac_debug_depth (ec_ctx ec') = ac_debug_depth (ec_ctx ec)"
  using assms(2-)
proof (induction "t + limit - time (ac_world (ec_ctx ec))" arbitrary: ec rule: less_induct)
  case less
  let ?w = "ac_world (ec_ctx ec)"
  let ?ec = "set_world ec (tick ?w)"
  have b: "time ?w < t + 2 ^ 63" using less.prems(8) clock unfolding clock_runs_def by linarith
  have tick: "time ?w < time (tick ?w)" "time (tick ?w) \<le> time ?w + step" using clock by (simp_all add: clock_runs_def)
  note wd = watchdog_repeat [OF clock less.prems(5,6,7) b]
  show ?case
  proof (cases "5000 < jiffies_to_msecs K (of_nat (time ?w - t))")
    case True
    then have "atom_exec_loop (Suc (Suc 0)) K ec ptr = Returned (- 22, ?ec\<lparr>ec_abort := True\<rparr>)"
      using exec_jump [OF less.prems(1,2,4), of "Suc 0" K] wd less.prems(1,3) exec_abort [of "?ec\<lparr>ec_abort := True\<rparr>" ptr 67 0 K]
      by (simp add: Let_def del: atom_exec_loop.simps)
    then show ?thesis by fastforce
  next
    case False
    then have small: "time ?w - t < limit" 
      using clock b less.prems(7) unfolding clock_runs_def by (metis less_diff_conv2 add.commute linorder_not_less less_imp_le)
    have "\<exists>n ec'. atom_exec_loop n K ?ec ptr = Returned (- 22, ec') \<and> ac_debug_depth (ec_ctx ec') = ac_debug_depth (ec_ctx ?ec)"
      by (rule less.hyps) (use less.prems small tick in simp_all)
    then obtain n ec' where e: "atom_exec_loop n K ?ec ptr = Returned (- 22, ec')"
      and dd: "ac_debug_depth (ec_ctx ec') = ac_debug_depth (ec_ctx ec)" by auto
    from e have "atom_exec_loop (Suc n) K ec ptr = Returned (- 22, ec')"
      using exec_jump [OF less.prems(1,2,4), of n K] wd False less.prems(3) by (simp add: Let_def del: atom_exec_loop.simps)
    then show ?thesis using dd by blast
  qed
qed

text \<open>The first execution of the jump only starts the watchdog.\<close>

lemma watchdog_first:
  assumes "clock_runs K time tick step limit" and "ec_last_jump ec \<noteq> dest"
  shows "jump_watchdog K ec dest = Some ((set_world ec (tick (ac_world (ec_ctx ec))))\<lparr>ec_last_jump := dest,
    ec_last_jump_jiffies := Some (of_nat (time (ac_world (ec_ctx ec))))\<rparr>)"
  using assms by (simp add: jump_watchdog_def clock_runs_def)

lemma self_jump_from_start:
  assumes clock: "clock_runs K time tick step limit"
    and j: "get_u8 (ac_bios (ec_ctx ec)) ptr = Some 67" "get_u16 (ac_bios (ec_ctx ec)) (ptr + 1) = Some target"
    and p: "unat (ec_start ec) + unat target = ptr" "\<not> ec_abort ec"
    and l: "ec_last_jump ec = 0" "ec_start ec \<noteq> 0"
  shows "\<exists>n ec'. atom_exec_loop n K ec ptr = Returned (- 22, ec') \<and> ac_debug_depth (ec_ctx ec') = ac_debug_depth (ec_ctx ec)"
proof -
  let ?w = "ac_world (ec_ctx ec)" and ?dest = "ucast (ec_start ec) + ucast target :: u32"
  let ?ec = "(set_world ec (tick ?w))\<lparr>ec_last_jump := ?dest, ec_last_jump_jiffies := Some (of_nat (time ?w))\<rparr>"
  have "unat (of_nat (unat (ec_start ec) + unat target) :: u32) = unat (ec_start ec) + unat target"
    using unat_lt_len [of "ec_start ec"] unat_lt_len [of target] by (intro unat_of_nat_small) simp
  then have "?dest \<noteq> 0" unfolding of_nat_start using l(2) by (auto simp: unat_eq_0)
  then have wd: "jump_watchdog K ec ?dest = Some ?ec" using watchdog_first [OF clock, of ec ?dest] l(1) by simp
  have tk: "time ?w < time (tick ?w)" "time (tick ?w) \<le> time ?w + limit + step"
    using clock by (auto simp: clock_runs_def intro: le_trans)
  have "\<exists>n ec'. atom_exec_loop n K ?ec ptr = Returned (- 22, ec') \<and> ac_debug_depth (ec_ctx ec') = ac_debug_depth (ec_ctx ?ec)"
    by (rule self_jump_aborts [OF clock, where t = "time ?w"]) (use j p tk in simp_all)
  then obtain n ec' where "atom_exec_loop n K ?ec ptr = Returned (- 22, ec')"
    and "ac_debug_depth (ec_ctx ec') = ac_debug_depth (ec_ctx ec)" by auto
  then show ?thesis
    using exec_jump [OF j p(2), of n K] wd p(1) by (metis option.simps(5))
qed

text \<open>Two jumps to each other: each resets the watchdog of the other.\<close>

lemma jump_pair_runs:
  assumes "get_u8 bios p1 = Some 67" "get_u16 bios (p1 + 1) = Some t1" "get_u8 bios p2 = Some 67" "get_u16 bios (p2 + 1) = Some t2"
    and "unat s + unat t1 = p2" "unat s + unat t2 = p1" "p1 \<noteq> p2"
    and "ac_bios (ec_ctx ec) = bios" "ec_start ec = s" "\<not> ec_abort ec"
    and "ptr = p1 \<and> ec_last_jump ec \<noteq> ucast s + ucast t1 \<or> ptr = p2 \<and> ec_last_jump ec \<noteq> ucast s + ucast t2"
  shows "atom_exec_loop n K ec ptr = Timeout"
  using assms(8-)
proof (induction n arbitrary: ec ptr)
  case (Suc n)
  obtain now w where j: "jiffies K (ac_world (ec_ctx ec)) = (now, w)" by fastforce
  have ne: "(ucast s + ucast t1 :: u32) \<noteq> ucast s + ucast t2" using assms(5-7) by (intro dest_neq) simp
  define t where "t = (if ptr = p1 then t1 else t2)"
  let ?ec = "(set_world ec w)\<lparr>ec_last_jump := ucast s + ucast t, ec_last_jump_jiffies := Some now\<rparr>"
  have "get_u8 (ac_bios (ec_ctx ec)) ptr = Some 67" "get_u16 (ac_bios (ec_ctx ec)) (ptr + 1) = Some t"
    using Suc.prems assms(1-4,7) by (auto simp: t_def)
  moreover have "jump_watchdog K ec (ucast (ec_start ec) + ucast t) = Some ?ec"
    using Suc.prems assms(7) j by (auto simp: jump_watchdog_def t_def)
  ultimately have "atom_exec_loop (Suc n) K ec ptr = atom_exec_loop n K ?ec (unat s + unat t)"
    using exec_jump [of ec ptr t n K] Suc.prems by (simp del: atom_exec_loop.simps)
  also have "\<dots> = Timeout"
    by (rule Suc.IH) (use Suc.prems ne assms(5-7) in \<open>auto simp: t_def\<close>)
  finally show ?case .
qed simp

section \<open>A concrete kernel\<close>

text \<open>A clock of 250 ticks a second that advances by one tick per reading, and a card without registers.\<close>

definition tick_kernel :: "nat kernel" where
  "tick_kernel =
     \<lparr>jiffies = (\<lambda>w. (of_nat w, w + 1)), jiffies_to_msecs = (\<lambda>d. if 1250 < d then 6000 else ucast d * 4),
      drm_can_sleep = (\<lambda>w. True), udelay = (\<lambda>w n. w), mdelay = (\<lambda>w n. w + unat n), msleep = (\<lambda>w n. w + unat n),
      kzalloc_ok = (\<lambda>w n. (True, w))\<rparr>"

definition null_card :: "'w card_info" where
  "null_card =
     \<lparr>reg_write = (\<lambda>w r v. w), reg_read = (\<lambda>w r. (0, w)), ioreg_write = (\<lambda>w r v. w), ioreg_read = (\<lambda>w r. (0, w)),
      mc_write = (\<lambda>w r v. w), mc_read = (\<lambda>w r. (0, w)), pll_write = (\<lambda>w r v. w), pll_read = (\<lambda>w r. (0, w))\<rparr>"

lemma tick_kernel_runs: "clock_runs tick_kernel (\<lambda>w. w) (\<lambda>w. w + 1) 1 1251"
proof -
  have "(1250 :: u64) < of_nat d" if "1251 \<le> d" "d < 2 ^ 63" for d
    using that unat_of_nat_small [of d, where ?'a = 64] by (simp add: word_less_nat_alt)
  then show ?thesis by (simp add: clock_runs_def tick_kernel_def)
qed

text \<open>An image with one table at offset 6, whose code starts at offset 12.\<close>

definition one_table :: "u8 list \<Rightarrow> nat atom_context" where
  "one_table code = blank_context null_card 0 ([0, 0, 0, 0, 6, 0, 9, 0, 0, 0, 0, 0] @ code)"

section \<open>Properties\<close>

text \<open>
  (C4) Whatever the image holds, a table that returns gives 0 or \<open>-EINVAL\<close> and leaves behind a
  usable context: the image, the table offsets, the indirect-IO index and the sizes of the scratch
  region and the parameter array are unchanged, the IO mode is one the register routines know, and
  after success the depth counter is back at its old value.
\<close>

theorem atom_execute_table_keeps:
  assumes "amdgpu_atom_execute_table fuel K ctx index params = Returned (r, ctx', params')"
  shows "r \<in> {0, - 22} \<and> ctx_shape ctx' = ctx_shape ctx \<and> length params' = length params \<and> io_mode_ok ctx' \<and>
    (r = 0 \<longrightarrow> ac_debug_depth ctx' = ac_debug_depth ctx)"
proof -
  let ?ctx = "ctx\<lparr>ac_data_block := 0, ac_reg_block := 0, ac_fb_base := 0, ac_io_mode := 0, ac_divmul0 := 0, ac_divmul1 := 0\<rparr>"
  have "table_ok ?ctx params r ctx' params'"
    using assms unfolding amdgpu_atom_execute_table_def amdgpu_atom_execute_table_locked_def
    by (rule execute_table_with_ok [rotated]) (rule exec_loop_ok)
  then show ?thesis by (auto simp: table_ok_def ctx_shape_def io_mode_ok_def)
qed

theorem atom_execute_table_keeps_witness:
  "\<exists>ctx'. amdgpu_atom_execute_table 3 tick_kernel (one_table [90, 91]) 0 [] = Returned (0, ctx', []) \<and>
    ctx_shape ctx' = ctx_shape (one_table [90, 91]) \<and> io_mode_ok ctx'"
proof -
  obtain ctx' where r: "amdgpu_atom_execute_table 3 tick_kernel (one_table [90, 91]) 0 [] = Returned (0, ctx', [])"
    by (simp add: amdgpu_atom_execute_table_def amdgpu_atom_execute_table_locked_def execute_table_with_def one_table_def
        blank_context_def get_u8_def get_u16_def table_header_def enter_table_def alloc_ws_def numeral_3_eq_3
        atom_exec_body_def atom_dispatch_def opcode_table_def outcome_of_def atom_op_nop_def atom_op_eot_def leave_table_def)
  then show ?thesis using atom_execute_table_keeps [OF r] by blast
qed

text \<open>
  The outcome of a table is a matter of the table, not of the fuel: once a run has ended, by
  returning or by a fault, every larger amount of fuel gives the same outcome.
\<close>

theorem atom_execute_table_fuel:
  assumes "amdgpu_atom_execute_table n K ctx index params \<noteq> Timeout" and "n \<le> m"
  shows "amdgpu_atom_execute_table m K ctx index params = amdgpu_atom_execute_table n K ctx index params"
proof -
  have "outcome_le (atom_exec_loop n K ec ptr) (atom_exec_loop m K ec ptr)" for ec ptr
    unfolding outcome_le_def using exec_loop_more [OF _ assms(2)] by metis
  then have "outcome_le (amdgpu_atom_execute_table n K ctx index params) (amdgpu_atom_execute_table m K ctx index params)"
    unfolding amdgpu_atom_execute_table_def amdgpu_atom_execute_table_locked_def by (intro execute_table_with_mono)
  then show ?thesis using assms(1) by (simp add: outcome_le_def)
qed

theorem atom_execute_table_fuel_witness:
  "amdgpu_atom_execute_table 100 tick_kernel (one_table [91]) 0 [] = amdgpu_atom_execute_table 3 tick_kernel (one_table [91]) 0 []"
proof -
  have "amdgpu_atom_execute_table 3 tick_kernel (one_table [91]) 0 [] \<noteq> Timeout"
    by (simp add: amdgpu_atom_execute_table_def amdgpu_atom_execute_table_locked_def execute_table_with_def one_table_def
        blank_context_def get_u8_def get_u16_def table_header_def enter_table_def alloc_ws_def numeral_3_eq_3
        atom_exec_body_def dispatch_eot leave_table_def)
  then show ?thesis using atom_execute_table_fuel [of 3 tick_kernel "one_table [91]" 0 "[]" 100] by simp
qed

text \<open>
  The watchdog ends a table that hangs in a jump to itself: with any clock that runs, the table
  returns \<open>-EINVAL\<close>. The depth counter, raised on entry, is not lowered on this path.
\<close>

theorem atom_watchdog_aborts:
  assumes clock: "clock_runs K time tick step limit"
    and base: "get_u16 (ac_bios ctx) (unat (ac_cmd_table ctx) + 4 + 2 * index) = Some base" "base \<noteq> 0"
    and header: "table_header (ac_bios ctx) (unat base) = Some (ws, ps)"
    and jump: "get_u8 (ac_bios ctx) (unat base + 6) = Some 67" "get_u16 (ac_bios ctx) (unat base + 7) = Some 6"
  shows "\<exists>fuel ctx' params'. amdgpu_atom_execute_table fuel K ctx index params = Returned (- 22, ctx', params') \<and>
    ac_debug_depth ctx' = ac_debug_depth ctx + 1"
proof -
  let ?ctx = "ctx\<lparr>ac_data_block := 0, ac_reg_block := 0, ac_fb_base := 0, ac_io_mode := 0, ac_divmul0 := 0, ac_divmul1 := 0\<rparr>"
  let ?ec = "enter_table K ?ctx params 0 base ws ps"
  have "ac_bios (ec_ctx ?ec) = ac_bios ctx" "ec_start ?ec = base" "ec_last_jump ?ec = 0" "\<not> ec_abort ?ec"
    "ac_debug_depth (ec_ctx ?ec) = ac_debug_depth ctx + 1"
    by (simp_all add: enter_table_def split: prod.splits)
  note ec = this
  have p: "unat base + 6 + 1 = unat base + 7" by simp
  have "\<exists>n ec'. atom_exec_loop n K ?ec (unat base + 6) = Returned (- 22, ec') \<and>
      ac_debug_depth (ec_ctx ec') = ac_debug_depth (ec_ctx ?ec)"
    by (rule self_jump_from_start [OF clock, where target = 6])
      (use ec base jump(1) jump(2) [folded p] in simp_all)
  then obtain n ec' where "atom_exec_loop n K ?ec (unat base + 6) = Returned (- 22, ec')"
    "ac_debug_depth (ec_ctx ec') = ac_debug_depth ctx + 1" using ec(5) by auto
  then show ?thesis
    using base header by (intro exI [of _ n])
      (simp add: amdgpu_atom_execute_table_def amdgpu_atom_execute_table_locked_def execute_table_with_def)
qed

theorem atom_watchdog_aborts_witness:
  "\<exists>fuel ctx' params'. amdgpu_atom_execute_table fuel tick_kernel (one_table [67, 6, 0]) 0 [] = Returned (- 22, ctx', params') \<and>
    ac_debug_depth ctx' = 1"
  using atom_watchdog_aborts [OF tick_kernel_runs, of "one_table [67, 6, 0]" 0 6 0 0 "[]"]
  by (simp add: one_table_def blank_context_def get_u8_def get_u16_def table_header_def)

text \<open>
  (C34) The watchdog sees only repeated jumps to one place: a table of two jumps to each other runs
  for ever, whatever the clock says.
\<close>

theorem atom_watchdog_misses_jump_pair:
  assumes base: "get_u16 (ac_bios ctx) (unat (ac_cmd_table ctx) + 4 + 2 * index) = Some base" "base \<noteq> 0"
    and header: "table_header (ac_bios ctx) (unat base) = Some (ws, ps)"
    and jumps: "get_u8 (ac_bios ctx) (unat base + 6) = Some 67" "get_u16 (ac_bios ctx) (unat base + 7) = Some 9"
      "get_u8 (ac_bios ctx) (unat base + 9) = Some 67" "get_u16 (ac_bios ctx) (unat base + 10) = Some 6"
  shows "amdgpu_atom_execute_table fuel K ctx index params = Timeout"
proof -
  let ?ctx = "ctx\<lparr>ac_data_block := 0, ac_reg_block := 0, ac_fb_base := 0, ac_io_mode := 0, ac_divmul0 := 0, ac_divmul1 := 0\<rparr>"
  let ?ec = "enter_table K ?ctx params 0 base ws ps"
  have ec: "ac_bios (ec_ctx ?ec) = ac_bios ctx" "ec_start ?ec = base" "ec_last_jump ?ec = 0" "\<not> ec_abort ?ec"
    by (simp_all add: enter_table_def split: prod.splits)
  have p: "unat base + 6 + 1 = unat base + 7" "unat base + 9 + 1 = unat base + 10" by simp_all
  have "unat (of_nat (unat base + unat (9 :: u16)) :: u32) = unat base + unat (9 :: u16)"
    using unat_lt_len [of base] by (intro unat_of_nat_small) simp
  then have "(ucast base + ucast (9 :: u16) :: u32) \<noteq> 0" unfolding of_nat_start by (auto simp: unat_eq_0)
  then have "atom_exec_loop fuel K ?ec (unat base + 6) = Timeout"
    using ec jumps(1,3) jumps(2) [folded p(1)] jumps(4) [folded p(2)]
    by (intro jump_pair_runs [of "ac_bios ctx" "unat base + 6" 9 "unat base + 9" 6 base]) simp_all
  then show ?thesis
    using base header
    by (simp add: amdgpu_atom_execute_table_def amdgpu_atom_execute_table_locked_def execute_table_with_def)
qed

theorem atom_watchdog_misses_jump_pair_witness:
  "amdgpu_atom_execute_table 1000 tick_kernel (one_table [67, 9, 0, 67, 6, 0]) 0 [] = Timeout"
  using atom_watchdog_misses_jump_pair [of "one_table [67, 9, 0, 67, 6, 0]" 0 6 0 0 1000 tick_kernel "[]"]
  by (simp add: one_table_def blank_context_def get_u8_def get_u16_def table_header_def)

end
