(* ===== verification/Atom_Parse.thy ===== *)
theory Atom_Parse
  imports Atom_Inv
begin

text \<open>
  The entry points of \<open>amdgpu/atom.c\<close> around the interpreter: parsing an image with its
  indirect-IO index, initialising the ASIC, looking up table headers and allocating the scratch
  region.

  The memory of the C code is modelled by the allocator of \<open>kernel\<close>, which may fail. Strings
  are read byte by byte from the image.

  Shown here: a context is only made of an image with the three magic values, and its table offsets
  are those of the image; the indexed indirect-IO programs start right behind a start marker, and
  indexing ends for every image; the scratch region has the size the image asks for and never none.
\<close>

section \<open>Indirect-IO index\<close>

definition atom_iio_len :: "nat list" where
  "atom_iio_len = [1, 2, 3, 3, 3, 3, 4, 4, 4, 3]"

lemma iio_len_pos: "nth_opt atom_iio_len i = Some n \<Longrightarrow> 0 < n"
  by (auto simp: nth_opt_Some_iff atom_iio_len_def nth_Cons' split: if_splits)

lemma get_u8_less: "get_u8 bios ptr = Some b \<Longrightarrow> ptr < length bios"
  by (simp add: get_u8_def split: if_splits)

text \<open>The inner loop: skip the operations of one program up to its end marker.\<close>

function iio_skip :: "u8 list \<Rightarrow> nat \<Rightarrow> nat option" where
  "iio_skip bios base = do {
     op \<leftarrow> get_u8 bios base;
     if op \<noteq> 9 then do {
       len \<leftarrow> nth_opt atom_iio_len (unat op);
       iio_skip bios (base + len)
     }
     else Some base
   }"
  by pat_completeness auto

termination
  by (relation "measure (\<lambda>(bios, base). length bios - base)") (auto dest!: iio_len_pos get_u8_less)

declare iio_skip.simps [simp del]

lemma iio_skip_ge: "iio_skip bios base = Some b \<Longrightarrow> base \<le> b \<and> get_u8 bios b = Some 9"
proof (induction bios base rule: iio_skip.induct)
  case (1 bios base)
  from 1(2) show ?case
    by (subst (asm) iio_skip.simps) (auto elim!: bind_eq_SomeE split: if_splits dest: 1(1) add_leD1 [OF conjunct1 [OF 1(1)]])
qed

text \<open>The outer loop. The start of a program is stored in 16 bits.\<close>

function iio_index :: "u8 list \<Rightarrow> nat \<Rightarrow> u16 list \<Rightarrow> u16 list option" where
  "iio_index bios base iio = do {
     op \<leftarrow> get_u8 bios base;
     if op = 1 then do {
       num \<leftarrow> get_u8 bios (base + 1);
       iio \<leftarrow> update_opt iio (unat num) (of_nat (base + 2));
       base \<leftarrow> iio_skip bios (base + 2);
       iio_index bios (base + 3) iio
     }
     else Some iio
   }"
  by pat_completeness auto

termination
  by (relation "measure (\<lambda>(bios, base, iio). length bios - base)") (auto dest!: iio_skip_ge get_u8_less)

declare iio_index.simps [simp del]

text \<open>\<open>atom_index_iio\<close>: \<open>Some None\<close> is a failed allocation.\<close>

definition atom_index_iio :: "'w kernel \<Rightarrow> u8 list \<Rightarrow> nat \<Rightarrow> 'w \<Rightarrow> (u16 list option \<times> 'w) option" where
  "atom_index_iio K bios base w =
     (let (ok, w) = kzalloc_ok K w (2 * 256)
      in if \<not> ok then Some (None, w)
         else do { iio \<leftarrow> iio_index bios base (replicate 256 0); Some (Some iio, w) })"

section \<open>Parsing an image\<close>

text \<open>\<open>strncmp(CSTR(ptr), s, strlen(s)) == 0\<close> for a string without NUL.\<close>

fun bios_matches :: "u8 list \<Rightarrow> nat \<Rightarrow> u8 list \<Rightarrow> bool option" where
  "bios_matches bios ptr [] = Some True"
| "bios_matches bios ptr (c # s) = do {
     b \<leftarrow> get_u8 bios ptr;
     if b = c then bios_matches bios (ptr + 1) s else Some False
   }"

definition ATOM_ATI_MAGIC :: "u8 list" where
  "ATOM_ATI_MAGIC = [0x20, 0x37, 0x36, 0x31, 0x32, 0x39, 0x35, 0x35, 0x32, 0x30]"

definition ATOM_ROM_MAGIC :: "u8 list" where
  "ATOM_ROM_MAGIC = [0x41, 0x54, 0x4F, 0x4D]"

text \<open>\<open>while (*str && (*str == '\n' || *str == '\r')) str++\<close>\<close>

function skip_newlines :: "u8 list \<Rightarrow> nat \<Rightarrow> nat option" where
  "skip_newlines bios str = do {
     c \<leftarrow> get_u8 bios str;
     if c = 10 \<or> c = 13 then skip_newlines bios (str + 1) else Some str
   }"
  by pat_completeness auto

termination
  by (relation "measure (\<lambda>(bios, str). length bios - str)") (auto dest!: get_u8_less)

declare skip_newlines.simps [simp del]

text \<open>
  The copy of the name: at most 511 characters, cut at the first one outside \<open>'.'\<close> to
  \<open>'z'\<close>. The result is the characters and whether the terminator was stored.
\<close>

fun copy_name :: "u8 list \<Rightarrow> nat \<Rightarrow> nat \<Rightarrow> (u8 list \<times> bool) option" where
  "copy_name bios str 0 = Some ([], False)"
| "copy_name bios str (Suc n) = do {
     c \<leftarrow> get_u8 bios str;
     if sint c < 46 \<or> sint c > 122 then Some ([], True)
     else do { (cs, z) \<leftarrow> copy_name bios (str + 1) n; Some (c # cs, z) }
   }"

text \<open>The fields of a context of zeroes with the image and the card.\<close>

definition zero_context :: "'w card_info \<Rightarrow> u8 list \<Rightarrow> i32 \<Rightarrow> 'w \<Rightarrow> 'w atom_context" where
  "zero_context crd bios depth w =
     \<lparr>ac_card = crd, ac_bios = bios, ac_cmd_table = 0, ac_data_table = 0, ac_iio = [],
      ac_data_block = 0, ac_fb_base = 0, ac_divmul0 = 0, ac_divmul1 = 0, ac_io_attr = 0, ac_reg_block = 0,
      ac_shift = 0, ac_cs_equal = False, ac_cs_above = False, ac_io_mode = 0, ac_scratch = None,
      ac_scratch_size_bytes = 0, ac_debug_depth = depth, ac_world = w\<rparr>"

text \<open>
  \<open>amdgpu_atom_parse\<close>: the context, or \<open>None\<close> for NULL, with the name it prints, and
  the world. \<open>debug_depth\<close> is the static counter of the file.
\<close>

definition amdgpu_atom_parse ::
  "'w kernel \<Rightarrow> 'w card_info \<Rightarrow> u8 list \<Rightarrow> i32 \<Rightarrow> 'w \<Rightarrow>
   (('w atom_context \<times> u8 list \<times> bool) option \<times> 'w) option" where
  "amdgpu_atom_parse K crd bios depth w =
     (let (ok, w) = kzalloc_ok K w 1
      in if \<not> ok then Some (None, w)
         else do {
           magic \<leftarrow> get_u16 bios 0;
           if magic \<noteq> 0xAA55 then Some (None, w)
           else do {
             ati \<leftarrow> bios_matches bios 0x30 ATOM_ATI_MAGIC;
             if \<not> ati then Some (None, w)
             else do {
               base \<leftarrow> get_u16 bios 0x48;
               let base = unat base;
               rom \<leftarrow> bios_matches bios (base + 4) ATOM_ROM_MAGIC;
               if \<not> rom then Some (None, w)
               else do {
                 cmd \<leftarrow> get_u16 bios (base + 0x1E);
                 dat \<leftarrow> get_u16 bios (base + 0x20);
                 iiop \<leftarrow> get_u16 bios (unat dat + 0x32);
                 (iio, w) \<leftarrow> atom_index_iio K bios (unat iiop + 4) w;
                 case iio of
                   None \<Rightarrow> Some (None, w)
                 | Some iio \<Rightarrow> do {
                     msg \<leftarrow> get_u16 bios (base + 0x10);
                     str \<leftarrow> skip_newlines bios (unat msg);
                     name \<leftarrow> copy_name bios str 511;
                     Some (Some ((zero_context crd bios depth w)\<lparr>ac_cmd_table := ucast cmd,
                       ac_data_table := ucast dat, ac_iio := iio\<rparr>, name), w)
                   }
               }
             }
           }
         })"

section \<open>Initialising the ASIC\<close>

definition amdgpu_atom_asic_init :: "nat \<Rightarrow> 'w kernel \<Rightarrow> 'w atom_context \<Rightarrow> (i32 \<times> 'w atom_context) outcome" where
  "amdgpu_atom_asic_init fuel K ctx =
     (let bios = ac_bios ctx
      in case do {
           hwi \<leftarrow> get_u16 bios (unat (ac_data_table ctx) + 0xC);
           sclk \<leftarrow> get_u32 bios (unat hwi + 8);
           mclk \<leftarrow> get_u32 bios (unat hwi + 0xC);
           Some (sclk, mclk)
         } of
           None \<Rightarrow> Fault
         | Some (sclk, mclk) \<Rightarrow>
             if sclk = 0 \<or> mclk = 0 then Returned (1, ctx)
             else
               (case get_u16 bios (unat (ac_cmd_table ctx) + 4 + 2 * 0) of
                  None \<Rightarrow> Fault
                | Some base \<Rightarrow>
                    if base = 0 then Returned (1, ctx)
                    else
                      (case amdgpu_atom_execute_table fuel K ctx 0 ([sclk, mclk] @ replicate 14 0) of
                         Returned (ret, ctx, ps) \<Rightarrow> Returned (ret, ctx)
                       | Fault \<Rightarrow> Fault
                       | Timeout \<Rightarrow> Timeout)))"

section \<open>Table headers and the scratch region\<close>

text \<open>
  The flags tell which of the pointers \<open>size\<close>, \<open>frev\<close>, \<open>crev\<close> the caller
  passes; the fields of the others are not read. \<open>Some None\<close> is the result \<open>false\<close>.
\<close>

definition read_if :: "bool \<Rightarrow> 'a option \<Rightarrow> 'a option option" where
  "read_if wanted r = (if wanted then map_option Some r else Some None)"

definition amdgpu_atom_parse_data_header ::
  "'w atom_context \<Rightarrow> nat \<Rightarrow> bool \<Rightarrow> bool \<Rightarrow> bool \<Rightarrow>
   (u16 option \<times> u8 option \<times> u8 option \<times> u16) option option" where
  "amdgpu_atom_parse_data_header ctx index want_size want_frev want_crev = do {
     let offset = index * 2 + 4;
     idx \<leftarrow> get_u16 (ac_bios ctx) (unat (ac_data_table ctx) + offset);
     if idx = 0 then Some None
     else do {
       sz \<leftarrow> read_if want_size (get_u16 (ac_bios ctx) (unat idx));
       frev \<leftarrow> read_if want_frev (get_u8 (ac_bios ctx) (unat idx + 2));
       crev \<leftarrow> read_if want_crev (get_u8 (ac_bios ctx) (unat idx + 3));
       Some (Some (sz, frev, crev, idx))
     }
   }"

definition amdgpu_atom_parse_cmd_header ::
  "'w atom_context \<Rightarrow> nat \<Rightarrow> bool \<Rightarrow> bool \<Rightarrow> (u8 option \<times> u8 option) option option" where
  "amdgpu_atom_parse_cmd_header ctx index want_frev want_crev = do {
     let offset = index * 2 + 4;
     idx \<leftarrow> get_u16 (ac_bios ctx) (unat (ac_cmd_table ctx) + offset);
     if idx = 0 then Some None
     else do {
       frev \<leftarrow> read_if want_frev (get_u8 (ac_bios ctx) (unat idx + 2));
       crev \<leftarrow> read_if want_crev (get_u8 (ac_bios ctx) (unat idx + 3));
       Some (Some (frev, crev))
     }
   }"

text \<open>
  The data table of \<open>VRAM_UsageByFirmware\<close> has index 11. Its reservation follows the header of
  four bytes: a 32-bit address and the 16-bit size in kilobytes. \<open>-ENOMEM\<close> is \<open>-12\<close>.
\<close>

definition fb_usage_bytes :: "'w atom_context \<Rightarrow> nat option" where
  "fb_usage_bytes ctx = do {
     header \<leftarrow> amdgpu_atom_parse_data_header ctx 11 False False False;
     usage_bytes \<leftarrow> (case header of
         None \<Rightarrow> Some 0
       | Some (_, _, _, data_offset) \<Rightarrow>
           map_option (\<lambda>kb. unat kb * 1024) (get_u16 (ac_bios ctx) (unat data_offset + 8)));
     Some (if usage_bytes = 0 then 20 * 1024 else usage_bytes)
   }"

definition amdgpu_atom_allocate_fb_scratch :: "'w kernel \<Rightarrow> 'w atom_context \<Rightarrow> (i32 \<times> 'w atom_context) option" where
  "amdgpu_atom_allocate_fb_scratch K ctx = do {
     usage_bytes \<leftarrow> fb_usage_bytes ctx;
     let ctx = ctx\<lparr>ac_scratch_size_bytes := 0\<rparr>;
     let (ok, w) = kzalloc_ok K (ac_world ctx) usage_bytes;
     let ctx = ctx\<lparr>ac_world := w\<rparr>;
     if \<not> ok then Some (- 12, ctx\<lparr>ac_scratch := None\<rparr>)
     else Some (0, ctx\<lparr>ac_scratch := Some (replicate (usage_bytes div 4) 0), ac_scratch_size_bytes := of_nat usage_bytes\<rparr>)
   }"

section \<open>The index\<close>

text \<open>
  An entry of the index is zero or the address right behind a start marker with its number. The entries have
  16 bits, so this is expected of images of at most 64 kilobytes only.
\<close>

definition iio_entry_ok :: "u8 list \<Rightarrow> nat \<Rightarrow> u16 \<Rightarrow> bool" where
  "iio_entry_ok bios num entry =
     (entry = 0 \<or> 2 \<le> unat entry \<and> get_u8 bios (unat entry - 2) = Some 1 \<and> get_u8 bios (unat entry - 1) = Some (of_nat num))"

lemma iio_index_ok:
  assumes "iio_index bios base iio = Some iio'" "length iio = 256" "length bios \<le> 0x10000 \<Longrightarrow> n < 256 \<Longrightarrow> iio_entry_ok bios n (iio ! n)"
  shows "length iio' = 256 \<and> (length bios \<le> 0x10000 \<longrightarrow> n < 256 \<longrightarrow> iio_entry_ok bios n (iio' ! n))"
  using assms
proof (induction bios base iio rule: iio_index.induct)
  case (1 bios base iio)
  from 1(2) obtain op where op: "get_u8 bios base = Some op" by (subst (asm) iio_index.simps) (auto elim!: bind_eq_SomeE)
  show ?case
  proof (cases "op = 1")
    case True
    from 1(2) op True obtain num iio1 b where num: "get_u8 bios (base + 1) = Some num"
      and u: "update_opt iio (unat num) (of_nat (base + 2)) = Some iio1"
      and b: "iio_skip bios (base + 2) = Some b" and l: "iio_index bios (b + 3) iio1 = Some iio'"
      by (subst (asm) iio_index.simps) (auto elim!: bind_eq_SomeE)
    have "iio_entry_ok bios n (iio1 ! n)" if small: "length bios \<le> 0x10000" and that: "n < 256"
    proof (cases "n = unat num")
      case n: True
      then have "iio1 ! n = of_nat (base + 2)" using u 1(3) that by (auto simp: update_opt_Some_iff)
      moreover have "base + 2 < 0x10000" using iio_skip_ge [OF b] get_u8_less [of bios b] small by fastforce
      then have "unat (of_nat (base + 2) :: u16) = base + 2" by (intro unat_of_nat_small) simp
      ultimately have "unat (iio1 ! n) = base + 2" by simp
      then show ?thesis using op True num n by (simp add: iio_entry_ok_def)
    next
      case False
      then show ?thesis using 1(4) [OF small that] u by (auto simp: update_opt_Some_iff)
    qed
    moreover have "length iio1 = 256" using u 1(3) by (auto simp: update_opt_Some_iff)
    ultimately show ?thesis using 1(1) [OF op True num u b l] by blast
  next
    case False
    then show ?thesis using 1(2-4) op by (subst (asm) iio_index.simps) auto
  qed
qed

lemma bios_matches_iff:
  "bios_matches bios ptr s = Some True \<longleftrightarrow> (\<forall>i < length s. get_u8 bios (ptr + i) = Some (s ! i))"
proof (induction s arbitrary: ptr)
  case (Cons c s)
  have "(\<forall>i < length (c # s). get_u8 bios (ptr + i) = Some ((c # s) ! i)) \<longleftrightarrow>
      get_u8 bios ptr = Some c \<and> (\<forall>i < length s. get_u8 bios (ptr + 1 + i) = Some (s ! i))"
    by (simp add: All_less_Suc2)
  then show ?case using Cons.IH [of "ptr + 1"] by (cases "get_u8 bios ptr") auto
qed simp

lemma fb_usage_bytes_bounds:
  assumes "fb_usage_bytes ctx = Some n"
  shows "4 dvd n" "0 < n" "n < 2 ^ 26"
proof -
  have "unat kb * 1024 < 2 ^ 26" for kb :: u16 using unat_lt_len [of kb] by simp
  moreover have "4 dvd unat kb * 1024" for kb :: u16 by (rule dvd_mult) simp
  ultimately show "4 dvd n" "0 < n" "n < 2 ^ 26"
    using assms by (auto simp: fb_usage_bytes_def elim!: bind_eq_SomeE split: option.splits if_splits)
qed

section \<open>Properties\<close>

text \<open>
  (C37) A context is only made from an image with the three magic values. Its table offsets are those
  the image gives. In an image of at most 64 kilobytes, what 16 bits can address, each of the 256 indirect-IO
  entries is empty or the address right behind a start marker with the entry's number.
\<close>

theorem atom_parse_sound:
  assumes "amdgpu_atom_parse K crd bios depth w = Some (Some (ctx, name), w')"
  shows "get_u16 bios 0 = Some 0xAA55 \<and>
    (\<forall>i < 10. get_u8 bios (0x30 + i) = Some (ATOM_ATI_MAGIC ! i)) \<and>
    (\<exists>base cmd dat. get_u16 bios 0x48 = Some base \<and>
      (\<forall>i < 4. get_u8 bios (unat base + 4 + i) = Some (ATOM_ROM_MAGIC ! i)) \<and>
      get_u16 bios (unat base + 0x1E) = Some cmd \<and> get_u16 bios (unat base + 0x20) = Some dat \<and>
      ac_cmd_table ctx = ucast cmd \<and> ac_data_table ctx = ucast dat) \<and>
    ac_bios ctx = bios \<and> io_mode_ok ctx \<and>
    length (ac_iio ctx) = 256 \<and> (length bios \<le> 0x10000 \<longrightarrow> (\<forall>n < 256. iio_entry_ok bios n (ac_iio ctx ! n)))"
proof -
  obtain w1 where ok: "kzalloc_ok K w 1 = (True, w1)"
    using assms by (cases "kzalloc_ok K w 1") (auto simp: amdgpu_atom_parse_def split: if_splits)
  note p = assms [unfolded amdgpu_atom_parse_def ok Let_def, simplified]
  from p obtain base cmd dat iio w2 and iiop :: u16 where
    m: "get_u16 bios 0 = Some 0xAA55" "bios_matches bios 0x30 ATOM_ATI_MAGIC = Some True" "get_u16 bios 0x48 = Some base"
      "bios_matches bios (unat base + 4) ATOM_ROM_MAGIC = Some True"
      "get_u16 bios (unat base + 0x1E) = Some cmd" "get_u16 bios (unat base + 0x20) = Some dat"
    and i: "atom_index_iio K bios (unat iiop + 4) w1 = Some (Some iio, w2)"
    and ctx: "ctx = (zero_context crd bios depth w2)\<lparr>ac_cmd_table := ucast cmd, ac_data_table := ucast dat, ac_iio := iio\<rparr>"
    by (auto elim!: bind_eq_SomeE split: if_splits option.splits)
  from i have "iio_index bios (unat iiop + 4) (replicate 256 0) = Some iio"
    by (auto simp: atom_index_iio_def Let_def split: prod.splits if_splits elim!: bind_eq_SomeE)
  from iio_index_ok [OF this] have "length iio = 256 \<and> (length bios \<le> 0x10000 \<longrightarrow> (\<forall>n < 256. iio_entry_ok bios n (iio ! n)))"
    by (simp add: iio_entry_ok_def)
  then show ?thesis
    using m ctx unfolding bios_matches_iff
    by (simp add: zero_context_def io_mode_ok_def ATOM_ATI_MAGIC_def ATOM_ROM_MAGIC_def)
qed

text \<open>An image with empty tables: the magic values, one parameter block at \<open>0x50\<close>, and the empty indirect-IO program 7.\<close>

definition small_image :: "u8 list" where
  "small_image = map (\<lambda>i. if i = 0 then 0x55 else if i = 1 then 0xAA
     else if 0x30 \<le> i \<and> i < 0x3A then ATOM_ATI_MAGIC ! (i - 0x30)
     else if i = 0x42 then 0x71 else if i = 0x48 then 0x50
     else if 0x54 \<le> i \<and> i < 0x58 then ATOM_ROM_MAGIC ! (i - 0x54)
     else if i = 0x60 then 0x72 else if i = 0x70 then 0x10
     else if i = 0x75 then 1 else if i = 0x76 then 7 else if i = 0x77 then 9 else 0) [0..<0x80]"

lemma copy_name_numeral:
  "copy_name bios str (numeral n) = do {
     c \<leftarrow> get_u8 bios str;
     if sint c < 46 \<or> sint c > 122 then Some ([], True)
     else do { (cs, z) \<leftarrow> copy_name bios (str + 1) (pred_numeral n); Some (c # cs, z) }
   }"
  by (simp add: numeral_eq_Suc)

theorem atom_parse_sound_witness:
  "\<exists>ctx w. amdgpu_atom_parse tick_kernel null_card small_image 0 0 = Some (Some (ctx, [], True), w) \<and>
    ac_data_table ctx = 0x10 \<and> length (ac_iio ctx) = 256 \<and> ac_iio ctx ! 7 = 0x77 \<and> iio_entry_ok small_image 7 (ac_iio ctx ! 7)"
proof -
  obtain ctx w where r: "amdgpu_atom_parse tick_kernel null_card small_image 0 0 = Some (Some (ctx, [], True), w)"
    and d: "ac_data_table ctx = 0x10" "ac_iio ctx ! 7 = 0x77"
    by (simp add: amdgpu_atom_parse_def tick_kernel_def get_u16_def get_u8_def small_image_def ATOM_ATI_MAGIC_def
        ATOM_ROM_MAGIC_def atom_index_iio_def iio_index.simps iio_skip.simps update_opt_def skip_newlines.simps copy_name_numeral zero_context_def)
  moreover have "length small_image \<le> 0x10000" by (simp add: small_image_def)
  then have "length (ac_iio ctx) = 256" "iio_entry_ok small_image 7 (ac_iio ctx ! 7)" using atom_parse_sound [OF r] by auto
  ultimately show ?thesis by blast
qed

text \<open>
  The scratch region is never empty, and its size in bytes is the size of the buffer: the image's
  reservation, or 20 kilobytes when it makes none.
\<close>

theorem atom_fb_scratch_size:
  assumes "amdgpu_atom_allocate_fb_scratch K ctx = Some (0, ctx')"
  shows "\<exists>xs. ac_scratch ctx' = Some xs \<and> unat (ac_scratch_size_bytes ctx') = 4 * length xs \<and> xs \<noteq> []"
proof -
  from assms obtain n where n: "fb_usage_bytes ctx = Some n"
    and c: "ac_scratch ctx' = Some (replicate (n div 4) 0)" "ac_scratch_size_bytes ctx' = of_nat n"
    by (auto simp: amdgpu_atom_allocate_fb_scratch_def Let_def elim!: bind_eq_SomeE split: prod.splits if_splits)
  show ?thesis
    using fb_usage_bytes_bounds [OF n] c unat_of_nat_small [of n, where ?'a = 32] by auto
qed

theorem atom_fb_scratch_size_witness:
  "\<exists>ctx' xs. amdgpu_atom_allocate_fb_scratch tick_kernel (one_table (replicate 26 0)) = Some (0, ctx') \<and>
    ac_scratch ctx' = Some xs \<and> unat (ac_scratch_size_bytes ctx') = 4 * length xs \<and> xs \<noteq> []"
proof -
  obtain ctx' where r: "amdgpu_atom_allocate_fb_scratch tick_kernel (one_table (replicate 26 0)) = Some (0, ctx')"
    by (simp add: amdgpu_atom_allocate_fb_scratch_def fb_usage_bytes_def amdgpu_atom_parse_data_header_def one_table_def
        blank_context_def get_u16_def get_u8_def nth_append tick_kernel_def)
  then show ?thesis using atom_fb_scratch_size [OF r] by blast
qed

end
