(* ===== verification/Sub_Alloc.thy ===== *)
theory Sub_Alloc
  imports Prelude
begin

text \<open>
  The sub-allocator of \<open>amdgpu/amdgpu_sa.c\<close>: a buffer cut into pieces in the order of a
  ring, with a roving position, the hole, behind which the next piece is placed.

  The intrusive lists of the C code are lists of pieces and of their identities: \<open>olist\<close> holds
  the pieces in address order, \<open>flist\<close> the pieces that are freed once a fence signals. The
  pointer \<open>hole\<close> is \<open>None\<close> when it points at the list head and else the identity of a
  piece. Which fences have signalled is an argument of the operations, since it is the hardware that
  decides it. Offsets are 32-bit words; the remainder by a zero alignment has no result.
\<close>

section \<open>Data\<close>

record fence =
  f_id :: nat
  f_context :: u64

record amdgpu_sa_bo =
  sb_id :: nat
  sb_soffset :: u32
  sb_eoffset :: u32
  sb_fence :: "fence option"

record amdgpu_sa_manager =
  sm_hole :: "nat option"
  sm_flist :: "nat list list"
  sm_olist :: "amdgpu_sa_bo list"
  sm_size :: u32
  sm_align :: u32

section \<open>Operations\<close>

text \<open>The list part of \<open>amdgpu_sa_bo_manager_init\<close>, which stays when the buffer is created.\<close>

definition amdgpu_sa_bo_manager_init :: "u32 \<Rightarrow> u32 \<Rightarrow> amdgpu_sa_manager" where
  "amdgpu_sa_bo_manager_init sz align =
     \<lparr>sm_hole = None, sm_flist = replicate 32 [], sm_olist = [], sm_size = sz, sm_align = align\<rparr>"

text \<open>\<open>hole->next\<close> and everything behind it; \<open>olist.prev\<close> of a piece.\<close>

definition after_hole :: "amdgpu_sa_manager \<Rightarrow> amdgpu_sa_bo list" where
  "after_hole m = (case sm_hole m of
     None \<Rightarrow> sm_olist m
   | Some i \<Rightarrow> tl (dropWhile (\<lambda>b. sb_id b \<noteq> i) (sm_olist m)))"

fun list_prev :: "nat option \<Rightarrow> amdgpu_sa_bo list \<Rightarrow> nat \<Rightarrow> nat option" where
  "list_prev p [] i = None"
| "list_prev p (b # bs) i = (if sb_id b = i then p else list_prev (Some (sb_id b)) bs i)"

definition amdgpu_sa_bo_remove_locked :: "nat \<Rightarrow> amdgpu_sa_manager \<Rightarrow> amdgpu_sa_manager" where
  "amdgpu_sa_bo_remove_locked i m =
     m\<lparr>sm_hole := (if sm_hole m = Some i then list_prev None (sm_olist m) i else sm_hole m),
       sm_olist := filter (\<lambda>b. sb_id b \<noteq> i) (sm_olist m),
       sm_flist := map (filter (\<lambda>j. j \<noteq> i)) (sm_flist m)\<rparr>"

text \<open>The loop of \<open>amdgpu_sa_bo_try_free\<close> over the pieces behind the hole.\<close>

fun try_free_loop :: "(fence \<Rightarrow> bool) \<Rightarrow> amdgpu_sa_bo list \<Rightarrow> amdgpu_sa_manager \<Rightarrow> amdgpu_sa_manager" where
  "try_free_loop signaled [] m = m"
| "try_free_loop signaled (b # bs) m =
     (case sb_fence b of
        None \<Rightarrow> m
      | Some f \<Rightarrow> if \<not> signaled f then m
          else try_free_loop signaled bs (amdgpu_sa_bo_remove_locked (sb_id b) m))"

definition amdgpu_sa_bo_try_free :: "(fence \<Rightarrow> bool) \<Rightarrow> amdgpu_sa_manager \<Rightarrow> amdgpu_sa_manager" where
  "amdgpu_sa_bo_try_free signaled m = try_free_loop signaled (after_hole m) m"

definition amdgpu_sa_bo_hole_soffset :: "amdgpu_sa_manager \<Rightarrow> u32" where
  "amdgpu_sa_bo_hole_soffset m = (case sm_hole m of
     None \<Rightarrow> 0
   | Some i \<Rightarrow> (case find (\<lambda>b. sb_id b = i) (sm_olist m) of None \<Rightarrow> 0 | Some b \<Rightarrow> sb_eoffset b))"

definition amdgpu_sa_bo_hole_eoffset :: "amdgpu_sa_manager \<Rightarrow> u32" where
  "amdgpu_sa_bo_hole_eoffset m = (case after_hole m of [] \<Rightarrow> sm_size m | b # bs \<Rightarrow> sb_soffset b)"

text \<open>\<open>(align - (soffset % align)) % align\<close>\<close>

definition sa_wasted :: "u32 \<Rightarrow> u32 \<Rightarrow> u32 option" where
  "sa_wasted soffset align = (if align = 0 then None else Some ((align - soffset mod align) mod align))"

text \<open>\<open>list_add\<close> behind the hole.\<close>

definition insert_hole :: "amdgpu_sa_bo \<Rightarrow> amdgpu_sa_manager \<Rightarrow> amdgpu_sa_bo list" where
  "insert_hole b m = take (length (sm_olist m) - length (after_hole m)) (sm_olist m) @ b # after_hole m"

text \<open>The second component tells whether the piece was placed.\<close>

definition amdgpu_sa_bo_try_alloc ::
  "nat \<Rightarrow> u32 \<Rightarrow> u32 \<Rightarrow> amdgpu_sa_manager \<Rightarrow> (amdgpu_sa_manager \<times> amdgpu_sa_bo option) option" where
  "amdgpu_sa_bo_try_alloc i sz align m = do {
     let soffset = amdgpu_sa_bo_hole_soffset m;
     let eoffset = amdgpu_sa_bo_hole_eoffset m;
     wasted \<leftarrow> sa_wasted soffset align;
     if sz + wasted \<le> eoffset - soffset then
       (let soffset = soffset + wasted;
            b = \<lparr>sb_id = i, sb_soffset = soffset, sb_eoffset = soffset + sz, sb_fence = None\<rparr>
        in Some (m\<lparr>sm_olist := insert_hole b m, sm_hole := Some i\<rparr>, Some b))
     else Some (m, None)
   }"

definition amdgpu_sa_event :: "u32 \<Rightarrow> u32 \<Rightarrow> amdgpu_sa_manager \<Rightarrow> bool option" where
  "amdgpu_sa_event sz align m =
     (if \<exists>l \<in> set (sm_flist m). l \<noteq> [] then Some True
      else do {
        let soffset = amdgpu_sa_bo_hole_soffset m;
        let eoffset = amdgpu_sa_bo_hole_eoffset m;
        wasted \<leftarrow> sa_wasted soffset align;
        Some (sz + wasted \<le> eoffset - soffset)
      })"

text \<open>
  The scan of the fence lists in \<open>amdgpu_sa_bo_next_hole\<close>: the fences to wait for, one per list
  as far as there is one, and the closest freed piece with its distance so far.
\<close>

fun next_hole_scan ::
  "(fence \<Rightarrow> bool) \<Rightarrow> amdgpu_sa_manager \<Rightarrow> u32 \<Rightarrow> nat list list \<Rightarrow> nat list \<Rightarrow> fence option list \<Rightarrow>
   u32 \<times> amdgpu_sa_bo option \<Rightarrow> (fence option list \<times> u32 \<times> amdgpu_sa_bo option) option" where
  "next_hole_scan signaled m soffset [] tries fences best = Some (fences, best)"
| "next_hole_scan signaled m soffset (l # ls) tries fences best =
     (case l of
        [] \<Rightarrow> do {
          (fs, r) \<leftarrow> next_hole_scan signaled m soffset ls (tl tries) (tl fences) best;
          Some (hd fences # fs, r)
        }
      | i # _ \<Rightarrow> do {
          b \<leftarrow> find (\<lambda>b. sb_id b = i) (sm_olist m);
          f \<leftarrow> sb_fence b;
          if \<not> signaled f then do {
            (fs, r) \<leftarrow> next_hole_scan signaled m soffset ls (tl tries) (tl fences) best;
            Some (Some f # fs, r)
          }
          else if hd tries > 2 then do {
            (fs, r) \<leftarrow> next_hole_scan signaled m soffset ls (tl tries) (tl fences) best;
            Some (hd fences # fs, r)
          }
          else do {
            let tmp = sb_soffset b;
            let tmp = (if tmp < soffset then tmp + sm_size m else tmp);
            let tmp = tmp - soffset;
            (fs, r) \<leftarrow> next_hole_scan signaled m soffset ls (tl tries) (tl fences)
              (if tmp < fst best then (tmp, Some b) else best);
            Some (hd fences # fs, r)
          }
        })"

text \<open>The result: the manager, the fences, the tries, and whether to try again.\<close>

definition amdgpu_sa_bo_next_hole ::
  "(fence \<Rightarrow> bool) \<Rightarrow> amdgpu_sa_manager \<Rightarrow> fence option list \<Rightarrow> nat list \<Rightarrow>
   (amdgpu_sa_manager \<times> fence option list \<times> nat list \<times> bool) option" where
  "amdgpu_sa_bo_next_hole signaled m fences tries =
     (if after_hole m = [] then Some (m\<lparr>sm_hole := None\<rparr>, fences, tries, True)
      else do {
        let soffset = amdgpu_sa_bo_hole_soffset m;
        (fences, best, best_bo) \<leftarrow> next_hole_scan signaled m soffset (sm_flist m) tries fences (sm_size m * 2, None);
        case best_bo of
          None \<Rightarrow> Some (m, fences, tries, False)
        | Some b \<Rightarrow> do {
            f \<leftarrow> sb_fence b;
            let idx = unat (ucast (f_context f) :: u32) mod 32;
            let tries = tries[idx := tries ! idx + 1];
            let m = m\<lparr>sm_hole := list_prev None (sm_olist m) (sb_id b)\<rparr>;
            Some (amdgpu_sa_bo_remove_locked (sb_id b) m, fences, tries, True)
          }
      })"

text \<open>
  The search of \<open>amdgpu_sa_bo_new\<close> under the lock: the inner loop. The fences may signal at
  any moment, so each of the two walks of an iteration sees its own state of them. The result is the
  manager, the piece if one was placed, and else the fences to wait for.
\<close>

primrec sa_pass ::
  "nat \<Rightarrow> (nat \<Rightarrow> fence \<Rightarrow> bool) \<Rightarrow> nat \<Rightarrow> u32 \<Rightarrow> u32 \<Rightarrow> amdgpu_sa_manager \<Rightarrow> fence option list \<Rightarrow> nat list \<Rightarrow>
   (amdgpu_sa_manager \<times> amdgpu_sa_bo option \<times> fence option list) outcome" where
  "sa_pass 0 signaled i sz align m fences tries = Timeout"
| "sa_pass (Suc n) signaled i sz align m fences tries =
     (case amdgpu_sa_bo_try_alloc i sz align (amdgpu_sa_bo_try_free (signaled (2 * n + 1)) m) of
        None \<Rightarrow> Fault
      | Some (m, Some b) \<Rightarrow> Returned (m, Some b, fences)
      | Some (m, None) \<Rightarrow>
          (case amdgpu_sa_bo_next_hole (signaled (2 * n)) m fences tries of
             None \<Rightarrow> Fault
           | Some (m, fences, tries, again) \<Rightarrow>
               if again then sa_pass n signaled i sz align m fences tries else Returned (m, None, fences)))"

text \<open>
  One answer of the environment to a wait: the result of the wait, the manager as other threads left
  it while the lock was released, and the fences as they are then.
\<close>

type_synonym sa_wait = "int \<times> amdgpu_sa_manager \<times> (nat \<Rightarrow> fence \<Rightarrow> bool)"

text \<open>\<open>r = (t > 0) ? 0 : t\<close> after a wait for fences, else the result of the wait queue.\<close>

definition wait_result :: "fence option list \<Rightarrow> int \<Rightarrow> int" where
  "wait_result fences t = (if \<exists>f. Some f \<in> set fences then (if 0 < t then 0 else t) else t)"

text \<open>The outer loop; it blocks, here \<open>Timeout\<close>, when the environment answers no more.\<close>

fun sa_new_loop ::
  "nat \<Rightarrow> nat \<Rightarrow> u32 \<Rightarrow> u32 \<Rightarrow> sa_wait list \<Rightarrow> (nat \<Rightarrow> fence \<Rightarrow> bool) \<Rightarrow> amdgpu_sa_manager \<Rightarrow>
   (int \<times> amdgpu_sa_manager \<times> amdgpu_sa_bo option) outcome" where
  "sa_new_loop fuel i sz align waits signaled m =
     (case sa_pass fuel signaled i sz align m (replicate 32 None) (replicate 32 0) of
        Fault \<Rightarrow> Fault
      | Timeout \<Rightarrow> Timeout
      | Returned (m, Some b, _) \<Rightarrow> Returned (0, m, Some b)
      | Returned (m, None, fences) \<Rightarrow>
          (case waits of
             [] \<Rightarrow> Timeout
           | (t, m, signaled) # waits \<Rightarrow>
               if wait_result fences t = 0 then sa_new_loop fuel i sz align waits signaled m
               else Returned (wait_result fences t, m, None)))"

text \<open>\<open>amdgpu_sa_bo_new\<close>; the flag tells whether the piece's structure could be allocated.\<close>

definition amdgpu_sa_bo_new ::
  "nat \<Rightarrow> bool \<Rightarrow> nat \<Rightarrow> u32 \<Rightarrow> u32 \<Rightarrow> sa_wait list \<Rightarrow> (nat \<Rightarrow> fence \<Rightarrow> bool) \<Rightarrow> amdgpu_sa_manager \<Rightarrow>
   (int \<times> amdgpu_sa_manager \<times> amdgpu_sa_bo option) outcome" where
  "amdgpu_sa_bo_new fuel kmalloc_ok i sz align waits signaled m =
     (if align > sm_align m then Returned (- 22, m, None)
      else if sz > sm_size m then Returned (- 22, m, None)
      else if \<not> kmalloc_ok then Returned (- 12, m, None)
      else sa_new_loop fuel i sz align waits signaled m)"

definition fence_list :: "fence \<Rightarrow> nat" where
  "fence_list f = unat (ucast (f_context f mod 32) :: u32)"

definition amdgpu_sa_bo_free ::
  "nat option \<Rightarrow> fence option \<Rightarrow> (fence \<Rightarrow> bool) \<Rightarrow> amdgpu_sa_manager \<Rightarrow> amdgpu_sa_manager" where
  "amdgpu_sa_bo_free sa_bo fence signaled m =
     (case sa_bo of
        None \<Rightarrow> m
      | Some i \<Rightarrow>
          (case fence of
             Some f \<Rightarrow> if \<not> signaled f then
                 m\<lparr>sm_olist := map (\<lambda>b. if sb_id b = i then b\<lparr>sb_fence := Some f\<rparr> else b) (sm_olist m),
                   sm_flist := (sm_flist m)[fence_list f := sm_flist m ! fence_list f @ [i]]\<rparr>
               else amdgpu_sa_bo_remove_locked i m
           | None \<Rightarrow> amdgpu_sa_bo_remove_locked i m))"

text \<open>The list part of \<open>amdgpu_sa_bo_manager_fini\<close>.\<close>

definition amdgpu_sa_bo_manager_fini :: "(fence \<Rightarrow> bool) \<Rightarrow> amdgpu_sa_manager \<Rightarrow> amdgpu_sa_manager" where
  "amdgpu_sa_bo_manager_fini signaled m =
     (let m = (if sm_olist m \<noteq> [] then amdgpu_sa_bo_try_free signaled (m\<lparr>sm_hole := None\<rparr>) else m);
          m = fold amdgpu_sa_bo_remove_locked (map sb_id (sm_olist m)) m
      in m\<lparr>sm_size := 0\<rparr>)"

end
