(* ===== verification/Sub_Alloc_Inv.thy ===== *)
theory Sub_Alloc_Inv
  imports Sub_Alloc Machine
begin

text \<open>
  The sub-allocator over time. Shown here: the operations keep the pieces in order, disjoint and inside
  the buffer; a piece that is handed out is aligned, of the size asked for and disjoint from all others;
  the search loop of an allocation ends; pieces in use stay; the sub-allocator implements an allocator of
  intervals; an allocation succeeds once all fences have signalled.
\<close>

section \<open>The layout of the buffer\<close>

text \<open>The pieces follow each other between two offsets.\<close>

fun layout :: "nat \<Rightarrow> amdgpu_sa_bo list \<Rightarrow> nat \<Rightarrow> bool" where
  "layout lo [] hi = (lo \<le> hi)"
| "layout lo (b # bs) hi =
     (lo \<le> unat (sb_soffset b) \<and> unat (sb_soffset b) \<le> unat (sb_eoffset b) \<and> layout (unat (sb_eoffset b)) bs hi)"

text \<open>Where the last piece ends.\<close>

definition layout_end :: "nat \<Rightarrow> amdgpu_sa_bo list \<Rightarrow> nat" where
  "layout_end lo bs = (if bs = [] then lo else unat (sb_eoffset (last bs)))"

lemma layout_le: "layout lo bs hi \<Longrightarrow> lo \<le> hi"
  by (induction bs arbitrary: lo) fastforce+

lemma layout_mono: "layout lo bs hi \<Longrightarrow> lo' \<le> lo \<Longrightarrow> layout lo' bs hi"
  by (cases bs) auto

lemma layout_append: "layout lo (as @ bs) hi \<longleftrightarrow> layout lo as (layout_end lo as) \<and> layout (layout_end lo as) bs hi"
  by (induction as arbitrary: lo) (auto simp: layout_end_def)

lemma layout_filter: "layout lo bs hi \<Longrightarrow> layout lo (filter P bs) hi"
proof (induction bs arbitrary: lo)
  case (Cons b bs)
  then show ?case by (auto intro: layout_mono)
qed simp

lemma layout_bounds: "layout lo bs hi \<Longrightarrow> b \<in> set bs \<Longrightarrow>
  lo \<le> unat (sb_soffset b) \<and> unat (sb_soffset b) \<le> unat (sb_eoffset b) \<and> unat (sb_eoffset b) \<le> hi"
proof (induction bs arbitrary: lo)
  case (Cons a bs)
  note le = layout_le [of "unat (sb_eoffset a)" bs hi] and IH = Cons.IH [of "unat (sb_eoffset a)"]
  show ?case
  proof (cases "b = a")
    case False
    then have "b \<in> set bs" using Cons.prems(2) by simp
    then show ?thesis using IH Cons.prems(1) by force
  qed (use le Cons.prems(1) in auto)
qed simp

text \<open>Two pieces are disjoint: one ends before the other starts.\<close>

definition disjoint_bos :: "amdgpu_sa_bo \<Rightarrow> amdgpu_sa_bo \<Rightarrow> bool" where
  "disjoint_bos a b = (unat (sb_eoffset a) \<le> unat (sb_soffset b) \<or> unat (sb_eoffset b) \<le> unat (sb_soffset a))"

lemma layout_disjoint:
  assumes "layout lo bs hi" "distinct (map sb_id bs)" "a \<in> set bs" "b \<in> set bs" "sb_id a \<noteq> sb_id b"
  shows "disjoint_bos a b"
  using assms
proof (induction bs arbitrary: lo)
  case (Cons c bs)
  have "disjoint_bos c x" if "x \<in> set bs" for x
    using layout_bounds [of "unat (sb_eoffset c)" bs hi x] Cons.prems(1) that by (simp add: disjoint_bos_def)
  then show ?case
    using Cons by (auto simp: disjoint_bos_def)
qed simp

section \<open>The invariant\<close>

text \<open>
  The pieces are laid out in order from 0 to the size; their identities are distinct; the hole is the
  head or a piece of the list; a fence list holds exactly the pieces that wait for a fence of its
  contexts. Size and alignment leave room for their sum.
\<close>

definition waits_in :: "amdgpu_sa_bo list \<Rightarrow> nat \<Rightarrow> nat \<Rightarrow> bool" where
  "waits_in bs i j = (\<exists>b \<in> set bs. sb_id b = i \<and> (\<exists>f. sb_fence b = Some f \<and> fence_list f = j))"

definition flist_inv :: "amdgpu_sa_bo list \<Rightarrow> nat list list \<Rightarrow> bool" where
  "flist_inv bs fl = (length fl = 32 \<and> (\<forall>j < 32. \<forall>i. i \<in> set (fl ! j) \<longleftrightarrow> waits_in bs i j))"

definition sa_inv :: "amdgpu_sa_manager \<Rightarrow> bool" where
  "sa_inv m \<longleftrightarrow> layout 0 (sm_olist m) (unat (sm_size m)) \<and> distinct (map sb_id (sm_olist m)) \<and>
     (case sm_hole m of None \<Rightarrow> True | Some i \<Rightarrow> i \<in> sb_id ` set (sm_olist m)) \<and>
     flist_inv (sm_olist m) (sm_flist m) \<and>
     unat (sm_size m) + unat (sm_align m) < 2 ^ 32"

lemma fence_list_lt: "fence_list f < 32"
proof -
  have "unat (f_context f mod 32) < 32" by (simp add: unat_mod_distrib)
  then show ?thesis by (simp add: fence_list_def unat_ucast)
qed

lemma init_inv: "unat sz + unat align < 2 ^ 32 \<Longrightarrow> sa_inv (amdgpu_sa_bo_manager_init sz align)"
  by (simp add: sa_inv_def amdgpu_sa_bo_manager_init_def flist_inv_def waits_in_def)

lemma flist_filter:
  assumes "flist_inv bs fl"
  shows "flist_inv (filter (\<lambda>b. sb_id b \<noteq> i) bs) (map (filter (\<lambda>j. j \<noteq> i)) fl)"
  using assms by (auto simp: flist_inv_def waits_in_def)

lemma list_prev_in: "list_prev p bs i = Some j \<Longrightarrow> distinct (map sb_id bs) \<Longrightarrow> p \<noteq> Some i \<Longrightarrow>
  p = Some j \<or> j \<in> sb_id ` set bs \<and> j \<noteq> i"
  by (induction bs arbitrary: p) (auto split: if_splits)

lemma remove_inv:
  assumes "sa_inv m"
  shows "sa_inv (amdgpu_sa_bo_remove_locked i m)"
proof -
  let ?m = "amdgpu_sa_bo_remove_locked i m"
  have 1: "layout 0 (sm_olist ?m) (unat (sm_size ?m))" "distinct (map sb_id (sm_olist ?m))"
    using assms by (simp_all add: sa_inv_def amdgpu_sa_bo_remove_locked_def layout_filter distinct_map_filter)
  have 2: "case sm_hole ?m of None \<Rightarrow> True | Some i \<Rightarrow> i \<in> sb_id ` set (sm_olist ?m)"
    using assms list_prev_in [of None "sm_olist m" i]
    by (fastforce simp: sa_inv_def amdgpu_sa_bo_remove_locked_def split: option.splits)
  have 3: "flist_inv (sm_olist ?m) (sm_flist ?m)"
    using assms by (simp add: sa_inv_def amdgpu_sa_bo_remove_locked_def flist_filter)
  show ?thesis using assms 1 2 3 unfolding sa_inv_def by (simp add: amdgpu_sa_bo_remove_locked_def)
qed

section \<open>The hole\<close>

lemma dropWhile_split:
  assumes "i \<in> sb_id ` set bs"
  shows "\<exists>pre b. bs = pre @ b # tl (dropWhile (\<lambda>b. sb_id b \<noteq> i) bs) \<and> sb_id b = i \<and> i \<notin> sb_id ` set pre \<and>
    find (\<lambda>b. sb_id b = i) bs = Some b"
  using assms
proof (induction bs)
  case (Cons a bs)
  show ?case
  proof (cases "sb_id a = i")
    case True
    then show ?thesis by (intro exI [of _ "[]"] exI [of _ a]) simp
  next
    case False
    then obtain pre b where "bs = pre @ b # tl (dropWhile (\<lambda>b. sb_id b \<noteq> i) bs)" "sb_id b = i" "i \<notin> sb_id ` set pre"
      "find (\<lambda>b. sb_id b = i) bs = Some b" using Cons by auto
    then show ?thesis using False by (intro exI [of _ "a # pre"] exI [of _ b]) simp
  qed
qed simp

text \<open>
  The list is what lies up to the hole and what lies behind it. The hole's offsets are the end of the
  former and the start of the latter.
\<close>

lemma hole_split:
  assumes "sa_inv m"
  obtains pre where "sm_olist m = pre @ after_hole m"
    and "unat (amdgpu_sa_bo_hole_soffset m) = layout_end 0 pre"
    and "insert_hole b m = pre @ b # after_hole m"
    and "sm_hole m = (if pre = [] then None else Some (sb_id (last pre)))"
proof (cases "sm_hole m")
  case None
  then show ?thesis
    using that [of "[]"] by (simp add: after_hole_def amdgpu_sa_bo_hole_soffset_def layout_end_def insert_hole_def)
next
  case (Some i)
  then have "i \<in> sb_id ` set (sm_olist m)" using assms by (simp add: sa_inv_def)
  from dropWhile_split [OF this] obtain pre b where p: "sm_olist m = pre @ b # after_hole m" "sb_id b = i"
    and f: "find (\<lambda>b. sb_id b = i) (sm_olist m) = Some b"
    using Some by (auto simp: after_hole_def)
  show ?thesis
    by (rule that [of "pre @ [b]"])
      (use p f Some in \<open>simp_all add: amdgpu_sa_bo_hole_soffset_def layout_end_def insert_hole_def\<close>)
qed

lemma hole_eoffset_nat: "unat (amdgpu_sa_bo_hole_eoffset m) =
  (case after_hole m of [] \<Rightarrow> unat (sm_size m) | b # bs \<Rightarrow> unat (sb_soffset b))"
  by (simp add: amdgpu_sa_bo_hole_eoffset_def split: list.split)

lemma layout_gap: "layout lo bs hi \<Longrightarrow> lo \<le> (case bs of [] \<Rightarrow> hi | b # bs \<Rightarrow> unat (sb_soffset b))"
  by (cases bs) auto

section \<open>Freeing\<close>

lemma try_free_loop_inv: "sa_inv m \<Longrightarrow> sa_inv (try_free_loop signaled bs m)"
  by (induction bs arbitrary: m) (auto split: option.split intro: remove_inv)

lemma try_free_inv: "sa_inv m \<Longrightarrow> sa_inv (amdgpu_sa_bo_try_free signaled m)"
  by (simp add: amdgpu_sa_bo_try_free_def try_free_loop_inv)

lemma remove_keeps:
  "sm_size (amdgpu_sa_bo_remove_locked i m) = sm_size m" "sm_align (amdgpu_sa_bo_remove_locked i m) = sm_align m"
  "set (sm_olist (amdgpu_sa_bo_remove_locked i m)) = {b \<in> set (sm_olist m). sb_id b \<noteq> i}"
  by (auto simp: amdgpu_sa_bo_remove_locked_def)

text \<open>A relation between managers: only pieces whose fence has signalled are gone.\<close>

definition reclaims :: "(fence \<Rightarrow> bool) \<Rightarrow> amdgpu_sa_manager \<Rightarrow> amdgpu_sa_manager \<Rightarrow> bool" where
  "reclaims signaled m m' = (sm_size m' = sm_size m \<and> sm_align m' = sm_align m \<and> set (sm_olist m') \<subseteq> set (sm_olist m) \<and>
     (\<forall>b \<in> set (sm_olist m). b \<in> set (sm_olist m') \<or> (\<exists>f. sb_fence b = Some f \<and> signaled f)))"

lemma reclaims_refl [intro]: "reclaims signaled m m" by (simp add: reclaims_def)

lemma reclaims_trans: "reclaims signaled m m' \<Longrightarrow> reclaims signaled m' m'' \<Longrightarrow> reclaims signaled m m''"
  unfolding reclaims_def by (auto 4 3)

lemma reclaims_mono: "reclaims signaled m m' \<Longrightarrow> (\<And>f. signaled f \<Longrightarrow> signaled' f) \<Longrightarrow> reclaims signaled' m m'"
  unfolding reclaims_def by blast

lemma remove_reclaims:
  assumes "sa_inv m" "b \<in> set (sm_olist m)" "sb_fence b = Some f" "signaled f"
  shows "reclaims signaled m (amdgpu_sa_bo_remove_locked (sb_id b) m)"
proof -
  have "c = b" if "c \<in> set (sm_olist m)" "sb_id c = sb_id b" for c
    using assms(1,2) that by (auto simp: sa_inv_def distinct_map inj_on_def)
  then show ?thesis using assms(3,4) by (auto simp: reclaims_def remove_keeps)
qed

lemma try_free_loop_reclaims:
  assumes "sa_inv m" "set bs \<subseteq> set (sm_olist m)" "distinct (map sb_id bs)"
  shows "reclaims signaled m (try_free_loop signaled bs m)"
  using assms
proof (induction bs arbitrary: m)
  case (Cons b bs)
  show ?case
  proof (cases "\<exists>f. sb_fence b = Some f \<and> signaled f")
    case True
    then obtain f where f: "sb_fence b = Some f" "signaled f" by blast
    let ?m = "amdgpu_sa_bo_remove_locked (sb_id b) m"
    have "reclaims signaled m ?m" using Cons.prems f by (intro remove_reclaims) auto
    moreover have "set bs \<subseteq> set (sm_olist ?m)" using Cons.prems by (auto simp: remove_keeps image_iff)
    then have "reclaims signaled ?m (try_free_loop signaled bs ?m)"
      using Cons remove_inv by simp
    ultimately show ?thesis using f by (simp add: reclaims_trans)
  next
    case False
    then show ?thesis by (auto split: option.split)
  qed
qed auto

lemma try_free_reclaims:
  assumes "sa_inv m"
  shows "reclaims signaled m (amdgpu_sa_bo_try_free signaled m)"
proof -
  obtain pre where p: "sm_olist m = pre @ after_hole m" by (rule hole_split [OF assms])
  have d: "distinct (map sb_id (sm_olist m))" using assms by (simp add: sa_inv_def)
  show ?thesis
    unfolding amdgpu_sa_bo_try_free_def
    by (rule try_free_loop_reclaims [OF assms]) (use d in \<open>simp_all add: p\<close>)
qed

section \<open>Placing a piece\<close>

lemma align_up_nat:
  fixes S A :: nat
  assumes "0 < A"
  shows "(S + (A - S mod A) mod A) mod A = 0"
proof -
  have "(S + (A - S mod A) mod A) mod A = (S mod A + (A - S mod A)) mod A"
    by (simp only: mod_add_left_eq mod_add_right_eq)
  also have "S mod A + (A - S mod A) = A" using assms mod_less_divisor [of A S] by linarith
  finally show ?thesis by simp
qed

lemma sa_wasted_nat:
  assumes "align \<noteq> 0"
  obtains w where "sa_wasted s align = Some w" "unat w < unat align" "(unat s + unat w) mod unat align = 0"
proof
  have pos: "0 < unat align" using assms by (simp add: unat_gt_0)
  let ?w = "(align - s mod align) mod align"
  show "sa_wasted s align = Some ?w" using assms by (simp add: sa_wasted_def)
  have "s mod align \<le> align" using pos by (simp add: word_le_nat_alt unat_mod_distrib less_imp_le)
  then have w: "unat ?w = (unat align - unat s mod unat align) mod unat align"
    by (simp add: unat_mod_distrib unat_sub)
  show "unat ?w < unat align" using pos by (simp add: unat_mod_distrib)
  show "(unat s + unat ?w) mod unat align = 0" unfolding w by (rule align_up_nat [OF pos])
qed

text \<open>
  A request that \<open>amdgpu_sa_bo_new\<close> lets through, for a structure that is not in use. The function does not
  check that the alignment is not zero: this is asked of its callers here, since the search divides by it.
\<close>

definition request_ok :: "nat \<Rightarrow> u32 \<Rightarrow> u32 \<Rightarrow> amdgpu_sa_manager \<Rightarrow> bool" where
  "request_ok i sz align m = (align \<noteq> 0 \<and> align \<le> sm_align m \<and> sz \<le> sm_size m \<and> i \<notin> sb_id ` set (sm_olist m))"

lemma waits_in_insert: "sb_fence b = None \<Longrightarrow> waits_in (xs @ b # ys) i j = waits_in (xs @ ys) i j"
  by (auto simp: waits_in_def)

lemma try_alloc_cases:
  assumes inv: "sa_inv m" and req: "request_ok i sz align m"
  obtains (full) "amdgpu_sa_bo_try_alloc i sz align m = Some (m, None)"
    | (placed) m' b where "amdgpu_sa_bo_try_alloc i sz align m = Some (m', Some b)"
      "sa_inv m'" "set (sm_olist m') = insert b (set (sm_olist m))" "sb_id b = i" "sb_fence b = None"
      "unat (sb_soffset b) mod unat align = 0" "unat (sb_eoffset b) = unat (sb_soffset b) + unat sz"
      "sm_size m' = sm_size m" "sm_align m' = sm_align m"
proof -
  obtain pre where pre: "sm_olist m = pre @ after_hole m" "unat (amdgpu_sa_bo_hole_soffset m) = layout_end 0 pre"
    by (rule hole_split [OF inv])
  have pre3: "insert_hole b m = pre @ b # after_hole m" for b
    using arg_cong [OF pre(1), of length] by (simp add: insert_hole_def pre(1))
  define s e where "s = amdgpu_sa_bo_hole_soffset m" and "e = amdgpu_sa_bo_hole_eoffset m"
  obtain w where w: "sa_wasted s align = Some w" "unat w < unat align" "(unat s + unat w) mod unat align = 0"
    using sa_wasted_nat req by (metis request_ok_def)
  have lay: "layout 0 pre (unat s)" "layout (unat s) (after_hole m) (unat (sm_size m))"
    using inv pre(1,2) by (simp_all add: sa_inv_def layout_append s_def)
  have se: "unat s \<le> unat e" "unat e \<le> unat (sm_size m)"
    using layout_gap [OF lay(2)] layout_bounds [OF lay(2), of "hd (after_hole m)"]
    by (cases "after_hole m"; simp add: e_def hole_eoffset_nat)+
  have small: "unat (sz + w) = unat sz + unat w"
    using inv req w(2) by (intro unat_add_small) (simp add: sa_inv_def request_ok_def word_le_nat_alt)
  show ?thesis
  proof (cases "sz + w \<le> e - s")
    case False
    then show ?thesis using full w by (simp add: amdgpu_sa_bo_try_alloc_def s_def e_def)
  next
    case True
    let ?b = "\<lparr>sb_id = i, sb_soffset = s + w, sb_eoffset = s + w + sz, sb_fence = None\<rparr>"
    let ?m = "m\<lparr>sm_olist := insert_hole ?b m, sm_hole := Some i\<rparr>"
    have "unat (e - s) = unat e - unat s" using se by (simp add: unat_sub word_le_nat_alt)
    then have fit: "unat s + unat w + unat sz \<le> unat e" using True small se by (simp add: word_le_nat_alt)
    then have o1: "unat (s + w) = unat s + unat w"
      using unat_lt_len [of e] by (intro unat_add_small) simp
    then have o2: "unat (s + w + sz) = unat s + unat w + unat sz"
      using unat_add_small [of "s + w" sz] fit unat_lt_len [of e] by simp
    have a: "amdgpu_sa_bo_try_alloc i sz align m = Some (?m, Some ?b)"
      using True w by (simp add: amdgpu_sa_bo_try_alloc_def s_def e_def Let_def)
    have "layout (unat (sb_eoffset ?b)) (after_hole m) (unat (sm_size m))"
      using fit lay(2) by (cases "after_hole m") (simp_all add: o2 e_def hole_eoffset_nat)
    then have "layout 0 (pre @ ?b # after_hole m) (unat (sm_size m))"
      using lay pre(2) by (simp add: layout_append s_def [symmetric] o1 o2)
    then have i: "sa_inv ?m"
      using inv req unfolding sa_inv_def request_ok_def pre3 by (simp add: pre(1) flist_inv_def waits_in_insert image_Un)
    show ?thesis
      by (rule placed [OF a i]) (simp_all add: pre pre3 o1 o2 w(3))
  qed
qed

section \<open>Moving the hole\<close>

text \<open>A piece of the manager whose fence has signalled.\<close>

definition freed :: "(fence \<Rightarrow> bool) \<Rightarrow> amdgpu_sa_manager \<Rightarrow> amdgpu_sa_bo \<Rightarrow> bool" where
  "freed signaled m b = (b \<in> set (sm_olist m) \<and> (\<exists>f. sb_fence b = Some f \<and> signaled f))"

lemma next_hole_scan_total:
  assumes "\<forall>l \<in> set ls. l \<noteq> [] \<longrightarrow>
      (\<exists>b f. find (\<lambda>b. sb_id b = hd l) (sm_olist m) = Some b \<and> b \<in> set (sm_olist m) \<and> sb_fence b = Some f)"
    and "\<forall>b. snd best = Some b \<longrightarrow> freed signaled m b"
  shows "\<exists>fs d bo. next_hole_scan signaled m soffset ls tries fences best = Some (fs, d, bo) \<and>
    (\<forall>b. bo = Some b \<longrightarrow> freed signaled m b)"
  using assms
proof (induction ls arbitrary: tries fences best)
  case Nil
  then show ?case by (cases best) simp
next
  case (Cons l ls)
  have IH: "\<exists>fs d bo. next_hole_scan signaled m soffset ls tries' fences' best' = Some (fs, d, bo) \<and>
    (\<forall>b. bo = Some b \<longrightarrow> freed signaled m b)" if "\<forall>b. snd best' = Some b \<longrightarrow> freed signaled m b"
    for tries' fences' best'
    by (rule Cons.IH) (use Cons.prems(1) that in auto)
  show ?case
  proof (cases l)
    case Nil
    then show ?thesis using IH [OF Cons.prems(2), of "tl tries" "tl fences"] by auto
  next
    case (Cons i k)
    then obtain b f where b: "find (\<lambda>b. sb_id b = i) (sm_olist m) = Some b" "b \<in> set (sm_olist m)" "sb_fence b = Some f"
      using Cons.prems(1) by (metis list.distinct(1) list.sel(1) list.set_intros(1))
    have keep: ?thesis if "\<not> signaled f \<or> hd tries > 2"
      using IH [OF Cons.prems(2), of "tl tries" "tl fences"] that b Cons by auto
    have "?thesis" if "signaled f" "\<not> hd tries > 2"
    proof -
      define tmp where "tmp = (if sb_soffset b < soffset then sb_soffset b + sm_size m else sb_soffset b) - soffset"
      have "\<forall>c. snd (if tmp < fst best then (tmp, Some b) else best) = Some c \<longrightarrow> freed signaled m c"
        using Cons.prems(2) b that(1) by (auto simp: freed_def)
      from IH [OF this, of "tl tries" "tl fences"] show ?thesis
        using b that Cons by (auto simp: tmp_def Let_def)
    qed
    then show ?thesis using keep by blast
  qed
qed

lemma flist_find:
  assumes "sa_inv m" "l \<in> set (sm_flist m)" "l \<noteq> []"
  shows "\<exists>b f. find (\<lambda>b. sb_id b = hd l) (sm_olist m) = Some b \<and> b \<in> set (sm_olist m) \<and> sb_fence b = Some f"
proof -
  obtain j where j: "j < 32" "l = sm_flist m ! j"
    using assms(1,2) by (metis in_set_conv_nth sa_inv_def flist_inv_def)
  then have "waits_in (sm_olist m) (hd l) j"
    using assms(1) hd_in_set [OF assms(3)] by (auto simp: sa_inv_def flist_inv_def)
  then obtain b f where b: "b \<in> set (sm_olist m)" "sb_id b = hd l" "sb_fence b = Some f" by (auto simp: waits_in_def)
  then obtain c where c: "find (\<lambda>b. sb_id b = hd l) (sm_olist m) = Some c" "c \<in> set (sm_olist m)" "sb_id c = hd l"
    using dropWhile_split [of "hd l" "sm_olist m"] by (metis image_eqI in_set_conv_decomp)
  then have "c = b" using assms(1) b by (auto simp: sa_inv_def distinct_map inj_on_def)
  then show ?thesis using b c by blast
qed

lemma list_prev_inv:
  assumes "sa_inv m"
  shows "sa_inv (m\<lparr>sm_hole := list_prev None (sm_olist m) i\<rparr>)"
  using assms list_prev_in [of None "sm_olist m" i] by (fastforce simp: sa_inv_def split: option.splits)

lemma next_hole_cases:
  assumes inv: "sa_inv m"
  obtains (wrap) "after_hole m = []"
      "amdgpu_sa_bo_next_hole signaled m fences tries = Some (m\<lparr>sm_hole := None\<rparr>, fences, tries, True)"
    | (stop) fences' where "after_hole m \<noteq> []"
      "amdgpu_sa_bo_next_hole signaled m fences tries = Some (m, fences', tries, False)"
    | (skip) b fences' tries' where "after_hole m \<noteq> []" "freed signaled m b"
      "amdgpu_sa_bo_next_hole signaled m fences tries =
        Some (amdgpu_sa_bo_remove_locked (sb_id b) (m\<lparr>sm_hole := list_prev None (sm_olist m) (sb_id b)\<rparr>), fences', tries', True)"
proof (cases "after_hole m = []")
  case True
  then show ?thesis using wrap by (simp add: amdgpu_sa_bo_next_hole_def)
next
  case False
  have fl: "\<forall>l \<in> set (sm_flist m). l \<noteq> [] \<longrightarrow>
      (\<exists>b f. find (\<lambda>b. sb_id b = hd l) (sm_olist m) = Some b \<and> b \<in> set (sm_olist m) \<and> sb_fence b = Some f)"
    using flist_find [OF inv] by blast
  obtain fs d bo where s: "next_hole_scan signaled m (amdgpu_sa_bo_hole_soffset m) (sm_flist m) tries fences (sm_size m * 2, None)
      = Some (fs, d, bo)" and bo: "\<forall>b. bo = Some b \<longrightarrow> freed signaled m b"
    using next_hole_scan_total [OF fl, of "(sm_size m * 2, None)" signaled "amdgpu_sa_bo_hole_soffset m" tries fences] by auto
  show ?thesis
  proof (cases bo)
    case None
    then show ?thesis using stop False s by (simp add: amdgpu_sa_bo_next_hole_def)
  next
    case (Some b)
    then obtain f where "freed signaled m b" "sb_fence b = Some f" using bo by (auto simp: freed_def)
    then show ?thesis using skip False s Some by (simp add: amdgpu_sa_bo_next_hole_def Let_def)
  qed
qed

section \<open>One search\<close>

text \<open>An empty buffer serves every request.\<close>

lemma try_alloc_empty:
  assumes "request_ok i sz align m" "sm_olist m = []" "sm_hole m = None"
  shows "\<exists>m' b. amdgpu_sa_bo_try_alloc i sz align m = Some (m', Some b)"
  using assms by (auto simp: amdgpu_sa_bo_try_alloc_def request_ok_def sa_wasted_def amdgpu_sa_bo_hole_soffset_def
    amdgpu_sa_bo_hole_eoffset_def after_hole_def Let_def)

definition sa_measure :: "amdgpu_sa_manager \<Rightarrow> nat" where
  "sa_measure m = 2 * length (sm_olist m) + (if sm_hole m = None then 0 else 1)"

lemma remove_length:
  assumes "i \<in> sb_id ` set (sm_olist m)"
  shows "length (sm_olist (amdgpu_sa_bo_remove_locked i m)) < length (sm_olist m)"
  using assms by (auto simp: amdgpu_sa_bo_remove_locked_def intro: length_filter_less)

lemma remove_measure: "sa_inv m \<Longrightarrow> sa_measure (amdgpu_sa_bo_remove_locked i m) \<le> sa_measure m"
proof (cases "i \<in> sb_id ` set (sm_olist m)")
  case True
  then show ?thesis using remove_length [of i m] by (simp add: sa_measure_def)
next
  case False
  moreover assume "sa_inv m"
  ultimately have "sm_hole m \<noteq> Some i" by (auto simp: sa_inv_def)
  then show ?thesis by (simp add: sa_measure_def amdgpu_sa_bo_remove_locked_def)
qed

lemma try_free_measure: "sa_inv m \<Longrightarrow> sa_measure (amdgpu_sa_bo_try_free signaled m) \<le> sa_measure m"
proof -
  have "sa_inv m \<Longrightarrow> sa_measure (try_free_loop signaled bs m) \<le> sa_measure m" for bs
  proof (induction bs arbitrary: m)
    case (Cons b bs)
    then show ?case
      using remove_measure [OF Cons.prems] remove_inv [OF Cons.prems]
      by (auto split: option.split intro: le_trans)
  qed simp
  then show "sa_inv m \<Longrightarrow> ?thesis" by (simp add: amdgpu_sa_bo_try_free_def)
qed

text \<open>What a search did: it took away freed pieces only and placed at most one piece, as asked for.\<close>

definition placed :: "nat \<Rightarrow> u32 \<Rightarrow> u32 \<Rightarrow> amdgpu_sa_bo \<Rightarrow> bool" where
  "placed i sz align b = (sb_id b = i \<and> sb_fence b = None \<and> unat (sb_soffset b) mod unat align = 0 \<and>
     unat (sb_eoffset b) = unat (sb_soffset b) + unat sz)"

definition searched :: "(fence \<Rightarrow> bool) \<Rightarrow> nat \<Rightarrow> u32 \<Rightarrow> u32 \<Rightarrow> amdgpu_sa_manager \<Rightarrow>
    amdgpu_sa_manager \<Rightarrow> amdgpu_sa_bo option \<Rightarrow> bool" where
  "searched signaled i sz align m m' bo \<longleftrightarrow> sa_inv m' \<and>
     (\<exists>m1. reclaims signaled m m1 \<and> sa_inv m1 \<and>
       (case bo of None \<Rightarrow> m' = m1
        | Some b \<Rightarrow> placed i sz align b \<and> set (sm_olist m') = insert b (set (sm_olist m1)) \<and>
            sm_size m' = sm_size m \<and> sm_align m' = sm_align m))"

lemma searched_before:
  assumes "reclaims signaled m m1" "searched signaled i sz align m1 m' bo"
  shows "searched signaled i sz align m m' bo"
proof -
  obtain m2 where m2: "reclaims signaled m1 m2" "sa_inv m2" "sa_inv m'"
    "case bo of None \<Rightarrow> m' = m2 | Some b \<Rightarrow> placed i sz align b \<and> set (sm_olist m') = insert b (set (sm_olist m2)) \<and>
      sm_size m' = sm_size m1 \<and> sm_align m' = sm_align m1"
    using assms(2) unfolding searched_def by blast
  have "sm_size m1 = sm_size m" "sm_align m1 = sm_align m" using assms(1) by (simp_all add: reclaims_def)
  then show ?thesis
    using m2 unfolding searched_def by (intro conjI exI [of _ m2]) (auto intro: reclaims_trans [OF assms(1)] split: option.splits)
qed

lemma reclaims_request: "reclaims signaled m m' \<Longrightarrow> request_ok i sz align m \<Longrightarrow> request_ok i sz align m'"
  by (auto simp: reclaims_def request_ok_def)

lemma skip_ok:
  assumes "sa_inv m" "freed signaled m b"
  defines "m' \<equiv> amdgpu_sa_bo_remove_locked (sb_id b) (m\<lparr>sm_hole := list_prev None (sm_olist m) (sb_id b)\<rparr>)"
  shows "sa_inv m'" "reclaims signaled m m'" "sa_measure m' < sa_measure m"
proof -
  let ?m = "m\<lparr>sm_hole := list_prev None (sm_olist m) (sb_id b)\<rparr>"
  have i: "sa_inv ?m" by (rule list_prev_inv [OF assms(1)])
  then show "sa_inv m'" unfolding m'_def by (rule remove_inv)
  have "reclaims signaled ?m m'"
    using assms(2) unfolding m'_def by (auto simp: freed_def intro!: remove_reclaims [OF i])
  then show "reclaims signaled m m'" by (simp add: reclaims_def)
  have "length (sm_olist m') < length (sm_olist m)"
    using remove_length [of "sb_id b" ?m] assms(2) by (simp add: m'_def freed_def)
  then show "sa_measure m' < sa_measure m" by (simp add: sa_measure_def)
qed

text \<open>An iteration ends the search or leaves less to do.\<close>

lemma sa_pass_ok:
  fixes signaled :: "nat \<Rightarrow> fence \<Rightarrow> bool"
  assumes "sa_inv m" "request_ok i sz align m"
  defines "sig \<equiv> \<lambda>f. \<exists>n. signaled n f"
  shows "case sa_pass n signaled i sz align m fences tries of
      Timeout \<Rightarrow> n \<le> sa_measure m
    | Fault \<Rightarrow> False
    | Returned (m', bo, fs) \<Rightarrow> searched sig i sz align m m' bo"
  using assms(1,2)
proof (induction n arbitrary: m fences tries)
  case (Suc n)
  define m1 where "m1 = amdgpu_sa_bo_try_free (signaled (Suc (2 * n))) m"
  have r1: "reclaims sig m m1"
    unfolding m1_def sig_def by (rule reclaims_mono [OF try_free_reclaims [OF Suc.prems(1)]]) blast
  have i1: "sa_inv m1" and q1: "request_ok i sz align m1" and l1: "sa_measure m1 \<le> sa_measure m"
    using Suc.prems try_free_inv try_free_measure reclaims_request [OF r1] by (auto simp: m1_def)
  have again: ?case
    if a: "amdgpu_sa_bo_try_alloc i sz align m1 = Some (m1, None)"
      and h: "amdgpu_sa_bo_next_hole (signaled (2 * n)) m1 fences tries = Some (m2, fences', tries', True)"
      and r: "reclaims sig m1 m2" and i2: "sa_inv m2" and l: "sa_measure m2 < sa_measure m1"
    for m2 fences' tries'
  proof -
    have q: "request_ok i sz align m2" by (rule reclaims_request [OF r q1])
    have rr: "reclaims sig m m2" by (rule reclaims_trans [OF r1 r])
    show ?thesis
      using Suc.IH [OF i2 q, of fences' tries'] a h l l1
      by (auto simp: m1_def [symmetric] split: outcome.splits intro: searched_before [OF rr])
  qed
  from i1 q1 show ?case
  proof (cases rule: try_alloc_cases)
    case (placed m2 b)
    have "searched sig i sz align m m2 (Some b)"
      using placed r1 i1 by (auto simp: searched_def placed_def reclaims_def)
    then show ?thesis using placed(1) by (simp add: m1_def)
  next
    case full
    show ?thesis
      using i1
    proof (cases rule: next_hole_cases [of m1 "signaled (2 * n)" fences tries])
      case wrap
      have "sm_hole m1 \<noteq> None"
        using wrap(1) full try_alloc_empty [OF q1] by (auto simp: after_hole_def split: option.splits)
      then show ?thesis
        by (intro again [OF full wrap(2)]) (use i1 in \<open>auto simp: reclaims_def sa_inv_def sa_measure_def\<close>)
    next
      case (stop fences')
      have "searched sig i sz align m m1 None" using r1 i1 by (auto simp: searched_def)
      then show ?thesis using full stop(2) by (simp add: m1_def)
    next
      case (skip b fences' tries')
      note ok = skip_ok [OF i1 skip(2)]
      have "reclaims sig m1 (amdgpu_sa_bo_remove_locked (sb_id b) (m1\<lparr>sm_hole := list_prev None (sm_olist m1) (sb_id b)\<rparr>))"
        by (rule reclaims_mono [OF ok(2)]) (auto simp: sig_def)
      then show ?thesis by (rule again [OF full skip(3) _ ok(1,3)])
    qed
  qed
qed simp

section \<open>Handing a piece back\<close>

lemma layout_fence: "layout lo (map (\<lambda>b. if P b then b\<lparr>sb_fence := x\<rparr> else b) bs) hi = layout lo bs hi"
  by (induction bs arbitrary: lo) auto

lemma ids_fence: "map sb_id (map (\<lambda>b. if P b then b\<lparr>sb_fence := x\<rparr> else b) bs) = map sb_id bs"
  by simp

lemma waits_in_fence:
  assumes "b \<in> set bs" "sb_id b = i" "sb_fence b = None" "distinct (map sb_id bs)"
  shows "waits_in (map (\<lambda>b. if sb_id b = i then b\<lparr>sb_fence := Some f\<rparr> else b) bs) k j \<longleftrightarrow>
    waits_in bs k j \<or> k = i \<and> j = fence_list f"
proof -
  let ?g = "\<lambda>b. if sb_id b = i then b\<lparr>sb_fence := Some f\<rparr> else b"
  have only: "c = b" if "c \<in> set bs" "sb_id c = i" for c
    using assms(1,2,4) that unfolding distinct_map inj_on_def by blast
  show ?thesis
  proof (cases "k = i")
    case True
    have 1: "waits_in (map ?g bs) i j \<longleftrightarrow> (\<exists>c \<in> set bs. sb_id c = i \<and> fence_list f = j)"
      unfolding waits_in_def set_map bex_simps(7) by (rule bex_cong) auto
    have 2: "\<not> waits_in bs i j" using only assms(3) unfolding waits_in_def by fastforce
    show ?thesis unfolding True 1 using 2 assms(1,2) by blast
  next
    case False
    have "waits_in (map ?g bs) k j \<longleftrightarrow>
      (\<exists>c \<in> set bs. sb_id c = k \<and> (\<exists>g. sb_fence c = Some g \<and> fence_list g = j))"
      unfolding waits_in_def set_map bex_simps(7) by (rule bex_cong) (use False in auto)
    then show ?thesis using False by (simp add: waits_in_def)
  qed
qed

lemma sa_inv_relist:
  assumes "sa_inv m" "layout 0 bs (unat (sm_size m))" "map sb_id bs = map sb_id (sm_olist m)" "flist_inv bs fl"
  shows "sa_inv (m\<lparr>sm_olist := bs, sm_flist := fl\<rparr>)"
proof -
  have "sb_id ` set bs = sb_id ` set (sm_olist m)" using assms(3) by (metis set_map)
  then show ?thesis using assms unfolding sa_inv_def by (simp split: option.splits)
qed

text \<open>The piece \<open>i\<close> is in use: it was handed out and not given back.\<close>

definition in_use :: "nat \<Rightarrow> amdgpu_sa_manager \<Rightarrow> bool" where
  "in_use i m = (\<exists>b \<in> set (sm_olist m). sb_id b = i \<and> sb_fence b = None)"

lemma free_inv:
  assumes inv: "sa_inv m" and use: "in_use i m"
  shows "sa_inv (amdgpu_sa_bo_free (Some i) fence signaled m)"
proof (cases "\<exists>f. fence = Some f \<and> \<not> signaled f")
  case True
  then obtain f where f: "fence = Some f" "\<not> signaled f" by blast
  let ?g = "\<lambda>b. if sb_id b = i then b\<lparr>sb_fence := Some f\<rparr> else b"
  let ?fl = "(sm_flist m)[fence_list f := sm_flist m ! fence_list f @ [i]]"
  have len: "length (sm_flist m) = 32" and d: "distinct (map sb_id (sm_olist m))"
    using inv by (simp_all add: sa_inv_def flist_inv_def)
  obtain b where "b \<in> set (sm_olist m)" "sb_id b = i" "sb_fence b = None" using use by (auto simp: in_use_def)
  note w = waits_in_fence [OF this d, of f]
  have "flist_inv (map ?g (sm_olist m)) ?fl"
    using inv w fence_list_lt [of f] by (auto simp: sa_inv_def flist_inv_def nth_list_update len)
  then have "sa_inv (m\<lparr>sm_olist := map ?g (sm_olist m), sm_flist := ?fl\<rparr>)"
    by (intro sa_inv_relist [OF inv _ ids_fence]) (use inv in \<open>simp_all only: layout_fence sa_inv_def\<close>)
  then show ?thesis using f by (simp add: amdgpu_sa_bo_free_def)
next
  case False
  then show ?thesis using remove_inv [OF inv] by (auto simp: amdgpu_sa_bo_free_def split: option.split)
qed

section \<open>The allocator over time\<close>

text \<open>
  The steps of the manager between two points where its lock is free: a search by \<open>amdgpu_sa_bo_new\<close>,
  with a fresh identity and a request it admits, and \<open>amdgpu_sa_bo_free\<close> of a piece in use.
\<close>

inductive sa_step :: "amdgpu_sa_manager \<Rightarrow> amdgpu_sa_manager \<Rightarrow> bool" where
  search: "request_ok i sz align m \<Longrightarrow>
    sa_pass n signaled i sz align m fences tries = Returned (m', bo, fs) \<Longrightarrow> sa_step m m'"
| give_back: "in_use i m \<Longrightarrow> sa_step m (amdgpu_sa_bo_free (Some i) fence signaled' m)"

inductive_cases sa_stepE: "sa_step m m'"

lemma search_searched:
  assumes "sa_inv m" "request_ok i sz align m" "sa_pass n signaled i sz align m fences tries = Returned (m', bo, fs)"
  shows "searched (\<lambda>f. \<exists>n. signaled n f) i sz align m m' bo"
  using sa_pass_ok [OF assms(1,2), where n = n and signaled = signaled and fences = fences and tries = tries] assms(3) by simp

lemma sa_step_inv: "sa_step m m' \<Longrightarrow> sa_inv m \<Longrightarrow> sa_inv m'"
  by (induction rule: sa_step.induct) (auto intro: free_inv dest: search_searched simp: searched_def)

lemma searched_size: "searched sig i sz align m m' bo \<Longrightarrow> sm_size m' = sm_size m"
  by (auto simp: searched_def reclaims_def split: option.splits)

lemma free_size: "sm_size (amdgpu_sa_bo_free i fence signaled m) = sm_size m"
  by (simp add: amdgpu_sa_bo_free_def remove_keeps split: option.split)

lemma sa_step_size:
  assumes "sa_step m m'" "sa_inv m"
  shows "sm_size m' = sm_size m"
  using assms by (auto elim!: sa_stepE simp: free_size searched_size [OF search_searched])

section \<open>The abstract allocator\<close>

text \<open>
  What the sub-allocator promises: a partial map from identities to intervals of the buffer, each in
  use or retired. An interval may be handed out where no other lies; only retired ones are dropped.
\<close>

type_synonym intervals = "nat \<rightharpoonup> nat \<times> nat \<times> bool"

inductive alloc_step :: "nat \<Rightarrow> intervals \<Rightarrow> intervals \<Rightarrow> bool" for N where
  alloc: "A i = None \<Longrightarrow> s \<le> e \<Longrightarrow> e \<le> N \<Longrightarrow>
    (\<And>j s' e' u. A j = Some (s', e', u) \<Longrightarrow> e \<le> s' \<or> e' \<le> s) \<Longrightarrow> alloc_step N A (A(i \<mapsto> (s, e, True)))"
| retire: "A i = Some (s, e, True) \<Longrightarrow> alloc_step N A (A(i \<mapsto> (s, e, False)))"
| drop: "(\<And>i. i \<in> R \<Longrightarrow> \<exists>s e. A i = Some (s, e, False)) \<Longrightarrow> alloc_step N A (A |` (- R))"

definition sa_abs :: "amdgpu_sa_manager \<Rightarrow> intervals" where
  "sa_abs m = map_of (map (\<lambda>b. (sb_id b, unat (sb_soffset b), unat (sb_eoffset b), sb_fence b = None)) (sm_olist m))"

lemma sa_abs_iff:
  assumes "sa_inv m"
  shows "sa_abs m i = Some v \<longleftrightarrow>
    (\<exists>b \<in> set (sm_olist m). sb_id b = i \<and> v = (unat (sb_soffset b), unat (sb_eoffset b), sb_fence b = None))"
proof -
  have "distinct (map fst (map (\<lambda>b. (sb_id b, unat (sb_soffset b), unat (sb_eoffset b), sb_fence b = None)) (sm_olist m)))"
    using assms by (simp add: sa_inv_def comp_def)
  from map_of_eq_Some_iff [OF this] show ?thesis unfolding sa_abs_def by auto
qed

lemma sa_abs_None: "sa_abs m i = None \<longleftrightarrow> i \<notin> sb_id ` set (sm_olist m)"
  by (auto simp: sa_abs_def map_of_eq_None_iff image_image)

lemma sa_abs_eqI:
  assumes "sa_inv m" "\<And>i v. A i = Some v \<longleftrightarrow>
    (\<exists>b \<in> set (sm_olist m). sb_id b = i \<and> v = (unat (sb_soffset b), unat (sb_eoffset b), sb_fence b = None))"
  shows "sa_abs m = A"
proof
  fix i show "sa_abs m i = A i"
    using sa_abs_iff [OF assms(1), of i] assms(2) [of i] by (metis option.exhaust)
qed

lemma reclaims_abs:
  assumes "reclaims sig m m'" "sa_inv m" "sa_inv m'"
  shows "alloc_step N (sa_abs m) (sa_abs m')"
proof -
  let ?R = "sb_id ` (set (sm_olist m) - set (sm_olist m'))"
  have same: "b = c" if "b \<in> set (sm_olist m)" "c \<in> set (sm_olist m)" "sb_id b = sb_id c" for b c
    using assms(2) that by (auto simp: sa_inv_def distinct_map inj_on_def)
  have "sa_abs m' = sa_abs m |` (- ?R)"
  proof (rule sa_abs_eqI [OF assms(3)])
    fix i v
    show "(sa_abs m |` (- ?R)) i = Some v \<longleftrightarrow>
      (\<exists>b \<in> set (sm_olist m'). sb_id b = i \<and> v = (unat (sb_soffset b), unat (sb_eoffset b), sb_fence b = None))"
      using assms(1) same unfolding restrict_map_def reclaims_def
      by (auto simp: sa_abs_iff [OF assms(2)] split: if_splits)
  qed
  moreover have "alloc_step N (sa_abs m) (sa_abs m |` (- ?R))"
  proof (rule alloc_step.drop)
    fix i assume "i \<in> ?R"
    then show "\<exists>s e. sa_abs m i = Some (s, e, False)"
      using assms(1) by (fastforce simp: sa_abs_iff [OF assms(2)] reclaims_def)
  qed
  ultimately show ?thesis by simp
qed

lemma searched_abs:
  assumes "searched sig i sz align m m' bo" "sa_inv m" "request_ok i sz align m"
  shows "(alloc_step (unat (sm_size m)))\<^sup>*\<^sup>* (sa_abs m) (sa_abs m')"
proof -
  let ?N = "unat (sm_size m)"
  obtain m1 where m1: "reclaims sig m m1" "sa_inv m1" "sa_inv m'"
    and bo: "case bo of None \<Rightarrow> m' = m1 | Some b \<Rightarrow> placed i sz align b \<and>
      set (sm_olist m') = insert b (set (sm_olist m1)) \<and> sm_size m' = sm_size m \<and> sm_align m' = sm_align m"
    using assms(1) unfolding searched_def by blast
  have d: "alloc_step ?N (sa_abs m) (sa_abs m1)" by (rule reclaims_abs [OF m1(1) assms(2) m1(2)])
  show ?thesis
  proof (cases bo)
    case (Some b)
    then have b: "sb_id b = i" "sb_fence b = None" "set (sm_olist m') = insert b (set (sm_olist m1))" "sm_size m' = sm_size m"
      using bo by (simp_all add: placed_def)
    have new: "i \<notin> sb_id ` set (sm_olist m1)"
      using reclaims_request [OF m1(1) assms(3)] by (simp add: request_ok_def)
    have lay: "layout 0 (sm_olist m') ?N" "distinct (map sb_id (sm_olist m'))"
      using m1(3) b(4) by (simp_all add: sa_inv_def)
    have "sa_abs m' = (sa_abs m1)(i \<mapsto> (unat (sb_soffset b), unat (sb_eoffset b), True))"
      by (rule sa_abs_eqI [OF m1(3)]) (use new in \<open>auto simp: sa_abs_iff [OF m1(2)] b\<close>)
    moreover have "alloc_step ?N (sa_abs m1) ((sa_abs m1)(i \<mapsto> (unat (sb_soffset b), unat (sb_eoffset b), True)))"
    proof (rule alloc_step.alloc)
      show "sa_abs m1 i = None" using new by (simp add: sa_abs_None)
      show "unat (sb_soffset b) \<le> unat (sb_eoffset b)" "unat (sb_eoffset b) \<le> ?N"
        using layout_bounds [OF lay(1), of b] b(3) by simp_all
      fix j s' e' u assume "sa_abs m1 j = Some (s', e', u)"
      then obtain c where c: "c \<in> set (sm_olist m1)" "s' = unat (sb_soffset c)" "e' = unat (sb_eoffset c)"
        by (auto simp: sa_abs_iff [OF m1(2)])
      then have "sb_id b \<noteq> sb_id c" using new b(1) by auto
      then show "unat (sb_eoffset b) \<le> s' \<or> e' \<le> unat (sb_soffset b)"
        using layout_disjoint [OF lay, of b c] b(3) c by (simp add: disjoint_bos_def)
    qed
    ultimately show ?thesis using d by (simp add: rtranclp.rtrancl_into_rtrancl)
  qed (use bo d in auto)
qed

lemma free_abs:
  assumes inv: "sa_inv m" and use: "in_use i m"
  shows "(alloc_step N)\<^sup>*\<^sup>* (sa_abs m) (sa_abs (amdgpu_sa_bo_free (Some i) fence signaled m))"
proof -
  let ?m = "amdgpu_sa_bo_free (Some i) fence signaled m"
  have i': "sa_inv ?m" by (rule free_inv [OF inv use])
  obtain b where b: "b \<in> set (sm_olist m)" "sb_id b = i" "sb_fence b = None" using use by (auto simp: in_use_def)
  then have a: "sa_abs m i = Some (unat (sb_soffset b), unat (sb_eoffset b), True)"
    by (auto simp: sa_abs_iff [OF inv])
  let ?A = "(sa_abs m)(i \<mapsto> (unat (sb_soffset b), unat (sb_eoffset b), False))"
  have same: "c = b" if "c \<in> set (sm_olist m)" "sb_id c = i" for c
    using inv b(1,2) that by (auto simp: sa_inv_def distinct_map inj_on_def)
  have r: "alloc_step N (sa_abs m) ?A" using a by (rule alloc_step.retire)
  show ?thesis
  proof (cases "\<exists>f. fence = Some f \<and> \<not> signaled f")
    case True
    then obtain f where f: "fence = Some f" "\<not> signaled f" by blast
    have ol: "sm_olist ?m = map (\<lambda>b. if sb_id b = i then b\<lparr>sb_fence := Some f\<rparr> else b) (sm_olist m)"
      using f by (simp add: amdgpu_sa_bo_free_def)
    have "sa_abs ?m = ?A"
    proof (rule sa_abs_eqI [OF i'])
      fix k v
      have g: "(\<exists>c \<in> set (sm_olist ?m). sb_id c = k \<and> v = (unat (sb_soffset c), unat (sb_eoffset c), sb_fence c = None)) \<longleftrightarrow>
        (\<exists>c \<in> set (sm_olist m). sb_id c = k \<and> v = (unat (sb_soffset c), unat (sb_eoffset c), k \<noteq> i \<and> sb_fence c = None))"
        unfolding ol set_map bex_simps(7) by (rule bex_cong) auto
      have only: "(\<exists>c \<in> set (sm_olist m). sb_id c = i \<and> P c) \<longleftrightarrow> P b" for P
        using b(1,2) same by metis
      show "?A k = Some v \<longleftrightarrow>
        (\<exists>c \<in> set (sm_olist ?m). sb_id c = k \<and> v = (unat (sb_soffset c), unat (sb_eoffset c), sb_fence c = None))"
      proof (cases "k = i")
        case True
        then show ?thesis unfolding g by (auto simp: only)
      next
        case False
        then show ?thesis unfolding g by (simp add: sa_abs_iff [OF inv])
      qed
    qed
    then show ?thesis using r by auto
  next
    case False
    then have m: "?m = amdgpu_sa_bo_remove_locked i m" by (auto simp: amdgpu_sa_bo_free_def split: option.split)
    have "sa_abs ?m = ?A |` (- {i})"
      by (rule sa_abs_eqI [OF i']) (auto simp: m remove_keeps restrict_map_def sa_abs_iff [OF inv] split: if_splits)
    moreover have "alloc_step N ?A (?A |` (- {i}))" by (rule alloc_step.drop) auto
    ultimately show ?thesis using r by (simp add: converse_rtranclp_into_rtranclp r_into_rtranclp)
  qed
qed

lemma sa_step_abs:
  assumes "sa_step m m'" "sa_inv m"
  shows "(alloc_step (unat (sm_size m)))\<^sup>*\<^sup>* (sa_abs m) (sa_abs m')"
  using assms by (auto elim!: sa_stepE intro: free_abs searched_abs [OF search_searched])

interpretation sa: simulation "\<lambda>m. unat sz + unat align < 2 ^ 32 \<and> m = amdgpu_sa_bo_manager_init sz align" sa_step
    "\<lambda>m. sa_inv m \<and> sm_size m = sz" sa_abs "alloc_step (unat sz)" for sz align
proof unfold_locales
  fix m assume "unat sz + unat align < 2 ^ 32 \<and> m = amdgpu_sa_bo_manager_init sz align"
  then show "sa_inv m \<and> sm_size m = sz" using init_inv by (auto simp: amdgpu_sa_bo_manager_init_def)
next
  fix m m' assume st: "sa_step m m'" and i: "sa_inv m \<and> sm_size m = sz"
  then show "sa_inv m' \<and> sm_size m' = sz" using sa_step_inv sa_step_size by simp
  show "(alloc_step (unat sz))\<^sup>*\<^sup>* (sa_abs m) (sa_abs m')" using sa_step_abs [OF st] i by auto
qed

section \<open>All fences signalled\<close>

lemma try_free_loop_all:
  assumes "sm_olist m = pre @ bs" "distinct (map sb_id (pre @ bs))" "sm_hole m = h" "h \<notin> Some ` sb_id ` set bs"
    "\<forall>b \<in> set bs. \<exists>f. sb_fence b = Some f \<and> signaled f"
  shows "sm_olist (try_free_loop signaled bs m) = pre \<and> sm_hole (try_free_loop signaled bs m) = h"
  using assms
proof (induction bs arbitrary: m)
  case (Cons b bs)
  let ?m = "amdgpu_sa_bo_remove_locked (sb_id b) m"
  have "filter (\<lambda>c. sb_id c \<noteq> sb_id b) (pre @ bs) = pre @ bs"
    using Cons.prems(2) by (intro filter_True) (auto simp: image_iff)
  then have "sm_olist ?m = pre @ bs" "sm_hole ?m = h"
    using Cons.prems(1,3,4) by (simp_all add: amdgpu_sa_bo_remove_locked_def)
  then show ?case using Cons by auto
qed simp

lemma try_free_all:
  assumes inv: "sa_inv m" and all: "\<forall>b \<in> set (sm_olist m). \<exists>f. sb_fence b = Some f \<and> signaled f"
  shows "after_hole (amdgpu_sa_bo_try_free signaled m) = []"
    "sm_hole m = None \<Longrightarrow> sm_olist (amdgpu_sa_bo_try_free signaled m) = []"
proof -
  let ?m = "amdgpu_sa_bo_try_free signaled m"
  obtain pre where p: "sm_olist m = pre @ after_hole m" "sm_hole m = (if pre = [] then None else Some (sb_id (last pre)))"
    by (rule hole_split [OF inv])
  have d: "distinct (map sb_id (pre @ after_hole m))" using inv p(1) by (simp add: sa_inv_def)
  have "sm_hole m \<notin> Some ` sb_id ` set (after_hole m)"
    using d by (cases pre rule: rev_cases) (auto simp: p(2) image_iff)
  then have r: "sm_olist ?m = pre" "sm_hole ?m = sm_hole m"
    using try_free_loop_all [OF p(1) d refl] all by (simp_all add: amdgpu_sa_bo_try_free_def p(1))
  show "sm_hole m = None \<Longrightarrow> sm_olist ?m = []" using r p(2) by (simp split: if_splits)
  have "pre = [] \<or> dropWhile (\<lambda>b. sb_id b \<noteq> sb_id (last pre)) pre = [last pre]"
    using d by (cases pre rule: rev_cases) (auto simp: dropWhile_append image_iff)
  then show "after_hole ?m = []" using r p(2) by (auto simp: after_hole_def)
qed

lemma sa_pass_all:
  assumes inv: "sa_inv m" and req: "request_ok i sz align m"
    and all: "\<forall>b \<in> set (sm_olist m). \<exists>f. sb_fence b = Some f \<and> (\<forall>n. signaled n f)"
  shows "\<exists>m' b fs. sa_pass (Suc (Suc n)) signaled i sz align m fences tries = Returned (m', Some b, fs)"
proof -
  define m1 where "m1 = amdgpu_sa_bo_try_free (signaled (Suc (Suc (Suc (2 * n))))) m"
  have r1: "reclaims (signaled (Suc (Suc (Suc (2 * n))))) m m1" unfolding m1_def by (rule try_free_reclaims [OF inv])
  have i1: "sa_inv m1" and q1: "request_ok i sz align m1"
    using try_free_inv [OF inv] reclaims_request [OF r1 req] by (simp_all add: m1_def)
  have e1: "after_hole m1 = []" unfolding m1_def by (rule try_free_all [OF inv]) (use all in blast)
  show ?thesis
    using i1 q1
  proof (cases rule: try_alloc_cases)
    case (placed m2 b)
    then show ?thesis by (simp add: m1_def [symmetric])
  next
    case full
    let ?m2 = "m1\<lparr>sm_hole := None\<rparr>"
    have i2: "sa_inv ?m2" using i1 by (simp add: sa_inv_def)
    have a2: "\<forall>b \<in> set (sm_olist ?m2). \<exists>f. sb_fence b = Some f \<and> signaled (Suc (2 * n)) f"
      using all r1 by (fastforce simp: reclaims_def)
    let ?m3 = "amdgpu_sa_bo_try_free (signaled (Suc (2 * n))) ?m2"
    have e: "sm_olist ?m3 = []" using try_free_all(2) [OF i2 a2] by simp
    moreover have "sm_hole ?m3 = None" using try_free_inv [OF i2, of "signaled (Suc (2 * n))"] e by (auto simp: sa_inv_def split: option.splits)
    moreover have "request_ok i sz align ?m2" using q1 by (simp add: request_ok_def)
    then have "request_ok i sz align ?m3" by (rule reclaims_request [OF try_free_reclaims [OF i2]])
    ultimately obtain m' b where "amdgpu_sa_bo_try_alloc i sz align ?m3 = Some (m', Some b)" using try_alloc_empty by blast
    then show ?thesis using full e1 by (simp add: m1_def [symmetric] amdgpu_sa_bo_next_hole_def)
  qed
qed

section \<open>The whole allocation\<close>

text \<open>
  What an allocation may return that starts with the manager \<open>m\<close> and whose waits are answered by
  \<open>waits\<close>: a piece that a search in one of the managers placed, with the code 0, or no piece, with the
  error of the wait that failed and the manager as that wait left it.
\<close>

definition new_ok :: "nat \<Rightarrow> u32 \<Rightarrow> u32 \<Rightarrow> amdgpu_sa_manager \<Rightarrow> sa_wait list \<Rightarrow>
    (int \<times> amdgpu_sa_manager \<times> amdgpu_sa_bo option) outcome \<Rightarrow> bool" where
  "new_ok i sz align m waits res = (case res of
      Timeout \<Rightarrow> True
    | Fault \<Rightarrow> False
    | Returned (r, m', None) \<Rightarrow> r \<noteq> 0 \<and> (\<exists>s. (r, m', s) \<in> set waits)
    | Returned (r, m', Some b) \<Rightarrow> r = 0 \<and>
        (\<exists>m0 \<in> insert m (fst ` snd ` set waits). \<exists>sig. searched sig i sz align m0 m' (Some b)))"

lemma new_ok_later: "new_ok i sz align m1 waits res \<Longrightarrow> new_ok i sz align m ((t, m1, s) # waits) res"
  unfolding new_ok_def by (simp split: outcome.splits prod.splits option.splits) blast+

lemma wait_result_id: "wait_result fs t \<noteq> 0 \<Longrightarrow> wait_result fs t = t"
  by (auto simp: wait_result_def split: if_splits)

lemma sa_new_loop_ok:
  assumes "sa_inv m" "request_ok i sz align m" "\<forall>(t, m, s) \<in> set waits. sa_inv m \<and> request_ok i sz align m"
  shows "new_ok i sz align m waits (sa_new_loop fuel i sz align waits signaled m)"
  using assms
proof (induction waits arbitrary: m signaled)
  case Nil
  note ok = sa_pass_ok [OF Nil(1,2), of signaled fuel "replicate 32 None" "replicate 32 0"]
  show ?case
  proof (cases "sa_pass fuel signaled i sz align m (replicate 32 None) (replicate 32 0)")
    case (Returned x)
    then show ?thesis using ok by (cases x; cases "fst (snd x)") (auto simp: new_ok_def)
  qed (use ok in \<open>simp_all add: new_ok_def\<close>)
next
  case (Cons w waits)
  obtain t m1 s where w: "w = (t, m1, s)" by (cases w)
  have m1: "sa_inv m1" "request_ok i sz align m1" and ws: "\<forall>(t, m, s) \<in> set waits. sa_inv m \<and> request_ok i sz align m"
    using Cons.prems(3) w by auto
  have IH: "new_ok i sz align m (w # waits) (sa_new_loop fuel i sz align waits s m1)"
    unfolding w by (rule new_ok_later [OF Cons.IH [OF m1 ws]])
  note ok = sa_pass_ok [OF Cons.prems(1,2), of signaled fuel "replicate 32 None" "replicate 32 0"]
  show ?case
  proof (cases "sa_pass fuel signaled i sz align m (replicate 32 None) (replicate 32 0)")
    case (Returned x)
    obtain m' bo fs where x: "x = (m', bo, fs)" by (cases x)
    show ?thesis
    proof (cases bo)
      case None
      have err: "new_ok i sz align m (w # waits) (Returned (wait_result fs t, m1, None))" if "wait_result fs t \<noteq> 0"
        using wait_result_id [OF that] that by (auto simp: new_ok_def w)
      from None show ?thesis using IH err Returned x by (simp add: w)
    next
      case (Some b)
      then show ?thesis using ok Returned x by (auto simp: new_ok_def)
    qed
  qed (use ok in \<open>simp_all add: new_ok_def\<close>)
qed

lemma sa_new_loop_ends:
  assumes "sa_inv m" "request_ok i sz align m" "\<forall>(t, m, s) \<in> set waits. sa_inv m \<and> request_ok i sz align m"
    and "sa_measure m < fuel" "\<forall>(t, m, s) \<in> set waits. sa_measure m < fuel" and "\<exists>(t, m, s) \<in> set waits. t < 0"
  shows "sa_new_loop fuel i sz align waits signaled m \<noteq> Timeout"
  using assms
proof (induction waits arbitrary: m signaled)
  case (Cons w waits)
  obtain t m1 s where w: "w = (t, m1, s)" by (cases w)
  have IH: "sa_new_loop fuel i sz align waits s m1 \<noteq> Timeout" if "0 \<le> t"
    by (rule Cons.IH) (use Cons.prems(3,5,6) that in \<open>auto simp: w\<close>)
  have t: "0 \<le> t" if "wait_result fs t = 0" for fs using that by (auto simp: wait_result_def split: if_splits)
  note ok = sa_pass_ok [OF Cons.prems(1,2), of signaled fuel "replicate 32 None" "replicate 32 0"]
  show ?case
  proof (cases "sa_pass fuel signaled i sz align m (replicate 32 None) (replicate 32 0)")
    case (Returned x)
    then show ?thesis using IH t by (cases x; cases "fst (snd x)") (auto simp: w)
  next
    case Timeout
    then show ?thesis using ok Cons.prems(4) by simp
  qed simp
qed simp

section \<open>Tearing down\<close>

lemma fold_remove: "sa_inv m \<Longrightarrow> sa_inv (fold amdgpu_sa_bo_remove_locked is m) \<and>
  set (sm_olist (fold amdgpu_sa_bo_remove_locked is m)) = {b \<in> set (sm_olist m). sb_id b \<notin> set is}"
  by (induction "is" arbitrary: m) (auto simp: remove_keeps remove_inv)

lemma fini_empty:
  assumes "sa_inv m"
  shows "sm_olist (amdgpu_sa_bo_manager_fini signaled m) = []"
proof -
  define m1 where "m1 = (if sm_olist m \<noteq> [] then amdgpu_sa_bo_try_free signaled (m\<lparr>sm_hole := None\<rparr>) else m)"
  have "sa_inv (m\<lparr>sm_hole := None\<rparr>)" using assms by (simp add: sa_inv_def)
  then have "sa_inv m1" using assms try_free_inv by (simp add: m1_def)
  then have "set (sm_olist (fold amdgpu_sa_bo_remove_locked (map sb_id (sm_olist m1)) m1)) = {}"
    using fold_remove [of m1 "map sb_id (sm_olist m1)"] by auto
  then show ?thesis by (simp add: amdgpu_sa_bo_manager_fini_def m1_def [symmetric] Let_def)
qed

lemma sa_inv_piece:
  assumes "sa_inv m" "a \<in> set (sm_olist m)" "b \<in> set (sm_olist m)"
  shows "unat (sb_soffset a) \<le> unat (sb_eoffset a) \<and> unat (sb_eoffset a) \<le> unat (sm_size m) \<and>
    (sb_id a \<noteq> sb_id b \<longrightarrow> disjoint_bos a b)"
proof -
  have lay: "layout 0 (sm_olist m) (unat (sm_size m))" "distinct (map sb_id (sm_olist m))"
    using assms(1) by (simp_all add: sa_inv_def)
  show ?thesis using layout_bounds [OF lay(1) assms(2)] layout_disjoint [OF lay assms(2,3)] by blast
qed

lemma init_steps:
  assumes "unat sz + unat align < 2 ^ 32" "sa_step\<^sup>*\<^sup>* (amdgpu_sa_bo_manager_init sz align) m"
  shows "sa_inv m \<and> sm_size m = sz"
  using assms by (intro sa.reachable_inv) simp_all

text \<open>A manager of 256 bytes with two pieces, the first of them waiting for a fence, and how it is reached.\<close>

definition demo0 :: amdgpu_sa_manager where "demo0 = amdgpu_sa_bo_manager_init 256 16"

definition demo1 :: amdgpu_sa_manager where
  "demo1 = demo0\<lparr>sm_hole := Some 1, sm_olist := [\<lparr>sb_id = 1, sb_soffset = 0, sb_eoffset = 100, sb_fence = None\<rparr>]\<rparr>"

definition demo2 :: amdgpu_sa_manager where
  "demo2 = demo1\<lparr>sm_hole := Some 2, sm_olist := [\<lparr>sb_id = 1, sb_soffset = 0, sb_eoffset = 100, sb_fence = None\<rparr>,
     \<lparr>sb_id = 2, sb_soffset = 112, sb_eoffset = 212, sb_fence = None\<rparr>]\<rparr>"

definition demo3 :: amdgpu_sa_manager where
  "demo3 = demo2\<lparr>sm_olist := [\<lparr>sb_id = 1, sb_soffset = 0, sb_eoffset = 100, sb_fence = Some \<lparr>f_id = 7, f_context = 33\<rparr>\<rparr>,
     \<lparr>sb_id = 2, sb_soffset = 112, sb_eoffset = 212, sb_fence = None\<rparr>], sm_flist := (replicate 32 [])[1 := [1]]\<rparr>"

lemmas demo_defs = demo0_def demo1_def demo2_def demo3_def amdgpu_sa_bo_manager_init_def
lemmas sa_defs = amdgpu_sa_bo_try_free_def amdgpu_sa_bo_try_alloc_def amdgpu_sa_bo_next_hole_def after_hole_def
  amdgpu_sa_bo_hole_soffset_def amdgpu_sa_bo_hole_eoffset_def sa_wasted_def insert_hole_def

lemma demo_search:
  "sa_pass 1 (\<lambda>n f. False) 1 100 16 demo0 (replicate 32 None) (replicate 32 0) =
    Returned (demo1, Some \<lparr>sb_id = 1, sb_soffset = 0, sb_eoffset = 100, sb_fence = None\<rparr>, replicate 32 None)"
  "sa_pass 1 (\<lambda>n f. False) 2 100 16 demo1 (replicate 32 None) (replicate 32 0) =
    Returned (demo2, Some \<lparr>sb_id = 2, sb_soffset = 112, sb_eoffset = 212, sb_fence = None\<rparr>, replicate 32 None)"
  by (simp_all add: demo_defs sa_defs Let_def)

lemma demo_free: "amdgpu_sa_bo_free (Some 1) (Some \<lparr>f_id = 7, f_context = 33\<rparr>) (\<lambda>f. False) demo2 = demo3"
  by (simp add: demo_defs amdgpu_sa_bo_free_def fence_list_def)

lemma demo_steps: "sa_step\<^sup>*\<^sup>* demo0 demo3"
proof -
  have "sa_step demo0 demo1" by (rule sa_step.search [OF _ demo_search(1)]) (simp add: request_ok_def demo_defs)
  moreover have "sa_step demo1 demo2" by (rule sa_step.search [OF _ demo_search(2)]) (simp add: request_ok_def demo_defs)
  moreover have "sa_step demo2 demo3"
    unfolding demo_free [symmetric] by (rule sa_step.give_back) (simp add: in_use_def demo_defs)
  ultimately show ?thesis by (meson converse_rtranclp_into_rtranclp rtranclp.rtrancl_refl)
qed

section \<open>Properties\<close>

text \<open>
  (C3) Whatever sequence of searches and frees a manager goes through after its initialisation, with the
  fences signalling in any order, its pieces lie inside the buffer and no two of them overlap.
\<close>

theorem sa_reachable_disjoint:
  assumes "unat sz + unat align < 2 ^ 32" "sa_step\<^sup>*\<^sup>* (amdgpu_sa_bo_manager_init sz align) m"
    and "a \<in> set (sm_olist m)" "b \<in> set (sm_olist m)"
  shows "unat (sb_soffset a) \<le> unat (sb_eoffset a) \<and> unat (sb_eoffset a) \<le> unat sz \<and>
    (sb_id a \<noteq> sb_id b \<longrightarrow> disjoint_bos a b)"
  using sa_inv_piece [of m a b] init_steps [OF assms(1,2)] assms(3,4) by simp

theorem sa_reachable_disjoint_witness:
  "disjoint_bos \<lparr>sb_id = 1, sb_soffset = 0, sb_eoffset = 100, sb_fence = Some \<lparr>f_id = 7, f_context = 33\<rparr>\<rparr>
     \<lparr>sb_id = 2, sb_soffset = 112, sb_eoffset = 212, sb_fence = None\<rparr>"
  using sa_reachable_disjoint [OF _ demo_steps [unfolded demo0_def],
    of "\<lparr>sb_id = 1, sb_soffset = 0, sb_eoffset = 100, sb_fence = Some \<lparr>f_id = 7, f_context = 33\<rparr>\<rparr>"
      "\<lparr>sb_id = 2, sb_soffset = 112, sb_eoffset = 212, sb_fence = None\<rparr>"]
  by (simp add: demo3_def)

text \<open>
  (C15) The sub-allocator implements the abstract allocator: every run of it is a run in which intervals are
  handed out where no other lies, retired by their user, and dropped only after that.
\<close>

theorem sa_refines_intervals:
  assumes "unat sz + unat align < 2 ^ 32" "sa_step\<^sup>*\<^sup>* (amdgpu_sa_bo_manager_init sz align) m"
  shows "(alloc_step (unat sz))\<^sup>*\<^sup>* Map.empty (sa_abs m)"
proof -
  have "sa_abs (amdgpu_sa_bo_manager_init sz align) = Map.empty" by (simp add: sa_abs_def amdgpu_sa_bo_manager_init_def)
  then show ?thesis using sa.reachable_abs [of sz align, OF _ assms(2)] assms(1) by simp
qed

theorem sa_refines_intervals_witness:
  "(alloc_step 256)\<^sup>*\<^sup>* Map.empty (sa_abs demo3) \<and> sa_abs demo3 1 = Some (0, 100, False)"
  using sa_refines_intervals [OF _ demo_steps [unfolded demo0_def]] by (simp add: sa_abs_def demo3_def)

text \<open>
  (C16) For a request within the bounds of the manager, with an alignment other than zero, the search under
  the lock ends after at most two iterations per piece and two more, without a fault.
  Only pieces whose fence has signalled are gone. A piece it places has the identity, the alignment and
  the size asked for.
\<close>

theorem sa_search_terminates:
  assumes "sa_inv m" "request_ok i sz align m" "2 * length (sm_olist m) + 1 < n"
  shows "\<exists>m' bo fs m1. sa_pass n signaled i sz align m fences tries = Returned (m', bo, fs) \<and> sa_inv m' \<and>
    reclaims (\<lambda>f. \<exists>n. signaled n f) m m1 \<and>
    (case bo of None \<Rightarrow> m' = m1
     | Some b \<Rightarrow> placed i sz align b \<and> set (sm_olist m') = insert b (set (sm_olist m1)))"
proof -
  have "sa_measure m < n" using assms(3) by (simp add: sa_measure_def)
  then obtain m' bo fs where r: "sa_pass n signaled i sz align m fences tries = Returned (m', bo, fs)"
    and s: "searched (\<lambda>f. \<exists>n. signaled n f) i sz align m m' bo"
    using sa_pass_ok [OF assms(1,2), of signaled n fences tries]
    by (cases "sa_pass n signaled i sz align m fences tries") auto
  from s show ?thesis unfolding searched_def using r by (auto split: option.splits)
qed

theorem sa_search_terminates_witness:
  "\<exists>m' bo fs m1. sa_pass 6 (\<lambda>n f. even n) 3 100 16 demo3 (replicate 32 None) (replicate 32 0) = Returned (m', bo, fs) \<and>
    sa_inv m' \<and> reclaims (\<lambda>f. \<exists>n :: nat. even n) demo3 m1 \<and>
    (case bo of None \<Rightarrow> m' = m1
     | Some b \<Rightarrow> placed 3 100 16 b \<and> set (sm_olist m') = insert b (set (sm_olist m1)))"
proof (rule sa_search_terminates)
  show "sa_inv demo3" using init_steps [OF _ demo_steps [unfolded demo0_def]] by simp
qed (simp_all add: request_ok_def demo_defs)

text \<open>
  \<open>amdgpu_sa_bo_new\<close>, whatever other threads do to the manager while it waits: a request beyond the
  manager's alignment or size is refused with -EINVAL and a failed allocation of the piece's structure
  with -ENOMEM, the manager unchanged; otherwise it never faults, a piece it returns with the code 0 was
  placed by a search, and any other code is that of a wait that failed, without a piece. With an
  interrupted wait among the answers it returns.
\<close>

theorem sa_new_ok:
  assumes "sa_inv m" "align \<noteq> 0" "i \<notin> sb_id ` set (sm_olist m)"
    and "\<forall>(t, m', s) \<in> set waits. sa_inv m' \<and> i \<notin> sb_id ` set (sm_olist m') \<and> sm_size m' = sm_size m \<and> sm_align m' = sm_align m"
  shows "if sm_align m < align \<or> sm_size m < sz
      then amdgpu_sa_bo_new fuel kmalloc_ok i sz align waits signaled m = Returned (- 22, m, None)
    else if \<not> kmalloc_ok
      then amdgpu_sa_bo_new fuel kmalloc_ok i sz align waits signaled m = Returned (- 12, m, None)
    else new_ok i sz align m waits (amdgpu_sa_bo_new fuel kmalloc_ok i sz align waits signaled m) \<and>
      ((\<forall>m' \<in> insert m (fst ` snd ` set waits). 2 * length (sm_olist m') + 1 < fuel) \<longrightarrow> (\<exists>(t, m', s) \<in> set waits. t < 0) \<longrightarrow>
        amdgpu_sa_bo_new fuel kmalloc_ok i sz align waits signaled m \<noteq> Timeout)"
proof (cases "sm_align m < align \<or> sm_size m < sz \<or> \<not> kmalloc_ok")
  case True
  then show ?thesis by (auto simp: amdgpu_sa_bo_new_def)
next
  case False
  then have ok: "align \<le> sm_align m" "sz \<le> sm_size m" kmalloc_ok by auto
  have new: "amdgpu_sa_bo_new fuel kmalloc_ok i sz align waits signaled m = sa_new_loop fuel i sz align waits signaled m"
    using ok by (auto simp: amdgpu_sa_bo_new_def)
  have req: "request_ok i sz align m" "\<forall>(t, m', s) \<in> set waits. sa_inv m' \<and> request_ok i sz align m'"
    using assms(2-4) ok by (auto simp: request_ok_def)
  have "sa_new_loop fuel i sz align waits signaled m \<noteq> Timeout"
    if "\<forall>m' \<in> insert m (fst ` snd ` set waits). 2 * length (sm_olist m') + 1 < fuel" "\<exists>(t, m', s) \<in> set waits. t < 0"
    by (rule sa_new_loop_ends [OF assms(1) req]) (use that in \<open>auto simp: sa_measure_def\<close>)
  then show ?thesis
    unfolding new using False sa_new_loop_ok [OF assms(1) req, of fuel signaled] by (simp del: sa_new_loop.simps)
qed

theorem sa_new_ok_witness:
  "new_ok 1 100 16 demo0 [(- 512, demo0, \<lambda>n f. False)] (amdgpu_sa_bo_new 2 True 1 100 16 [(- 512, demo0, \<lambda>n f. False)] (\<lambda>n f. False) demo0) \<and>
   amdgpu_sa_bo_new 2 True 1 100 16 [(- 512, demo0, \<lambda>n f. False)] (\<lambda>n f. False) demo0 \<noteq> Timeout"
proof -
  have "sa_inv demo0" unfolding demo0_def by (rule init_inv) simp
  then show ?thesis
    using sa_new_ok [of demo0 16 1 "[(- 512, demo0, \<lambda>n f. False)]" 100 2 True "\<lambda>n f. False"]
    by (simp add: demo0_def amdgpu_sa_bo_manager_init_def)
qed

text \<open>
  (C21) Once the fences of all pieces have signalled, an allocation that passes the checks of
  \<open>amdgpu_sa_bo_new\<close> succeeds without waiting, whatever the position of the hole and the fragmentation: two
  iterations are enough. The alignment zero passes these checks too, and there the search faults with a
  division by zero.
\<close>

theorem sa_new_after_signals:
  assumes "sa_inv m" "align \<le> sm_align m" "sz \<le> sm_size m" "i \<notin> sb_id ` set (sm_olist m)" "2 \<le> fuel"
    and "\<forall>b \<in> set (sm_olist m). \<exists>f. sb_fence b = Some f \<and> (\<forall>n. signaled n f)"
  shows "if align = 0 then amdgpu_sa_bo_new fuel True i sz align waits signaled m = Fault
    else \<exists>m' b. amdgpu_sa_bo_new fuel True i sz align waits signaled m = Returned (0, m', Some b) \<and> placed i sz align b \<and> b \<in> set (sm_olist m')"
proof -
  obtain n where n: "fuel = Suc (Suc n)" using le_Suc_ex [OF assms(5)] by auto
  have c: "\<not> sm_align m < align" "\<not> sm_size m < sz" using assms(2,3) by auto
  show ?thesis
  proof (cases "align = 0")
    case True
    then show ?thesis using n c by (simp add: amdgpu_sa_bo_new_def amdgpu_sa_bo_try_alloc_def sa_wasted_def)
  next
    case False
    then have req: "request_ok i sz align m" using assms(2-4) by (simp add: request_ok_def)
    from sa_pass_all [OF assms(1) req assms(6), of n "replicate 32 None" "replicate 32 0"]
    show ?thesis using n c False search_searched [OF assms(1) req, of "Suc (Suc n)" signaled "replicate 32 None" "replicate 32 0"]
      by (fastforce simp: amdgpu_sa_bo_new_def searched_def simp del: sa_pass.simps)
  qed
qed

theorem sa_new_after_signals_witness:
  "\<exists>m' b. amdgpu_sa_bo_new 2 True 3 200 16 [] (\<lambda>n f. True)
     (amdgpu_sa_bo_free (Some 2) (Some \<lparr>f_id = 8, f_context = 2\<rparr>) (\<lambda>f. False) demo3) = Returned (0, m', Some b) \<and>
     placed 3 200 16 b \<and> b \<in> set (sm_olist m')"
proof -
  let ?m = "amdgpu_sa_bo_free (Some 2) (Some \<lparr>f_id = 8, f_context = 2\<rparr>) (\<lambda>f. False) demo3"
  have "sa_inv demo3" using init_steps [OF _ demo_steps [unfolded demo0_def]] by simp
  then have "sa_inv ?m" by (rule free_inv) (simp add: in_use_def demo_defs)
  from sa_new_after_signals [OF this, of 16 200 3 2 "\<lambda>n f. True" "[]"] show ?thesis by (simp add: demo_defs amdgpu_sa_bo_free_def)
qed

end
