(* ===== verification/Sched.thy ===== *)
theory Sched
  imports Prelude
begin

text \<open>
  The GPU scheduler of \<open>scheduler/gpu_scheduler.c\<close> and \<open>scheduler/sched_fence.c\<close>: one
  scheduler with its run queues, the entities that queue jobs on them, the worker thread that feeds the
  hardware ring, the list of jobs the hardware works on, and the fences that tie them together.

  Entities and jobs are numbers; the state maps them to their records. A fence is one of the two fences
  of a job of this scheduler or a fence of someone else, which has a number and a context. The callbacks
  on fences are lists in the order of registration, as \<open>fence_add_callback\<close> promises: it appends
  the callback, or returns \<open>-ENOENT\<close> when the fence has signalled. What the backend answers, the
  dependencies of a job and the fence of the hardware, comes in as arguments. Reference counts and trace
  points are left out.

  The handlers of the code are functions on the state. The worker has three places to be: awake, asleep
  on its wait queue, and behind \<open>run_job\<close> with the job still in the entity's queue. The lemmas here
  describe what one selection, one dependency and one fence do to the state.
\<close>

section \<open>Data\<close>

datatype sfence = Scheduled nat | Finished nat | Other nat u64

record amd_sched_rq =
  rq_entities :: "nat list"
  rq_current :: "nat option"

record amd_sched_entity =
  en_rq :: "nat option"
  en_sched :: bool
  en_queue :: "nat list"
  en_limit :: nat
  en_fence_seq :: u32
  en_fence_context :: u64
  en_dependency :: "sfence option"

record amd_sched_job =
  jb_entity :: nat
  jb_seq :: u32
  jb_context :: u64
  jb_scheduled :: bool
  jb_finished :: bool
  jb_parent :: "nat option"
  jb_finish_work :: bool

datatype other_cb = Wakeup nat | Process_job nat

datatype worker = Awake | Sleeping | Submitted nat

record amd_gpu_scheduler =
  hw_submission_limit :: u32
  sc_timeout :: i64
  sched_rq :: "nat \<Rightarrow> amd_sched_rq"
  hw_rq_count :: i32
  ring_mirror_list :: "nat list"
  sc_tdr :: "nat list"
  sc_entities :: "nat \<Rightarrow> amd_sched_entity"
  sc_jobs :: "nat \<Rightarrow> amd_sched_job"
  sc_clear_cbs :: "(nat \<times> nat) list"
  sc_finish_cbs :: "nat list"
  sc_other_cbs :: "(nat \<times> other_cb) list"
  sc_signaled :: "nat list"
  sc_worker :: worker
  sc_ran :: "nat list"
  sc_freed :: "nat list"

text \<open>\<open>MAX_SCHEDULE_TIMEOUT\<close> is \<open>LONG_MAX\<close>.\<close>

definition max_schedule_timeout :: i64 where
  "max_schedule_timeout = 0x7FFFFFFFFFFFFFFF"

definition set_entity :: "nat \<Rightarrow> (amd_sched_entity \<Rightarrow> amd_sched_entity) \<Rightarrow> amd_gpu_scheduler \<Rightarrow> amd_gpu_scheduler" where
  "set_entity e f s = s\<lparr>sc_entities := (sc_entities s)(e := f (sc_entities s e))\<rparr>"

definition set_job :: "nat \<Rightarrow> (amd_sched_job \<Rightarrow> amd_sched_job) \<Rightarrow> amd_gpu_scheduler \<Rightarrow> amd_gpu_scheduler" where
  "set_job j f s = s\<lparr>sc_jobs := (sc_jobs s)(j := f (sc_jobs s j))\<rparr>"

section \<open>Run queues\<close>

definition amd_sched_rq_init :: amd_sched_rq where
  "amd_sched_rq_init = \<lparr>rq_entities = [], rq_current = None\<rparr>"

definition amd_sched_rq_add_entity :: "amd_sched_rq \<Rightarrow> nat \<Rightarrow> amd_sched_rq" where
  "amd_sched_rq_add_entity rq e =
     (if e \<in> set (rq_entities rq) then rq else rq\<lparr>rq_entities := rq_entities rq @ [e]\<rparr>)"

definition amd_sched_rq_remove_entity :: "amd_sched_rq \<Rightarrow> nat \<Rightarrow> amd_sched_rq" where
  "amd_sched_rq_remove_entity rq e =
     (if e \<notin> set (rq_entities rq) then rq
      else rq\<lparr>rq_entities := filter (\<lambda>x. x \<noteq> e) (rq_entities rq),
              rq_current := (if rq_current rq = Some e then None else rq_current rq)\<rparr>)"

text \<open>The entities behind the current one, and the second loop, which ends at the current one.\<close>

definition rq_continue :: "amd_sched_rq \<Rightarrow> nat list" where
  "rq_continue rq = (case rq_current rq of
     None \<Rightarrow> []
   | Some c \<Rightarrow> tl (dropWhile (\<lambda>e. e \<noteq> c) (rq_entities rq)))"

fun rq_scan :: "(nat \<Rightarrow> bool) \<Rightarrow> nat option \<Rightarrow> nat list \<Rightarrow> nat option" where
  "rq_scan ready c [] = None"
| "rq_scan ready c (e # es) = (if ready e then Some e else if c = Some e then None else rq_scan ready c es)"

definition amd_sched_rq_select_entity :: "(nat \<Rightarrow> bool) \<Rightarrow> amd_sched_rq \<Rightarrow> nat option \<times> amd_sched_rq" where
  "amd_sched_rq_select_entity ready rq =
     (case find ready (rq_continue rq) of
        Some e \<Rightarrow> (Some e, rq\<lparr>rq_current := Some e\<rparr>)
      | None \<Rightarrow>
          (case rq_scan ready (rq_current rq) (rq_entities rq) of
             Some e \<Rightarrow> (Some e, rq\<lparr>rq_current := Some e\<rparr>)
           | None \<Rightarrow> (None, rq)))"

section \<open>Waking the worker\<close>

text \<open>\<open>atomic_read\<close> is an \<open>int\<close>; the comparison with the \<open>uint32_t\<close> limit is unsigned.\<close>

definition amd_sched_ready :: "amd_gpu_scheduler \<Rightarrow> bool" where
  "amd_sched_ready s = (hw_rq_count s < hw_submission_limit s)"

definition wake_up_worker :: "amd_gpu_scheduler \<Rightarrow> amd_gpu_scheduler" where
  "wake_up_worker s = (if sc_worker s = Sleeping then s\<lparr>sc_worker := Awake\<rparr> else s)"

definition amd_sched_wakeup :: "amd_gpu_scheduler \<Rightarrow> amd_gpu_scheduler" where
  "amd_sched_wakeup s = (if amd_sched_ready s then wake_up_worker s else s)"

section \<open>Entities\<close>

text \<open>
  \<open>kfifo_alloc\<close> gives a result and the number of jobs that fit, \<open>kcl_fence_context_alloc\<close> the
  first of two contexts.
\<close>

definition amd_sched_entity_init ::
  "nat option \<Rightarrow> nat option \<Rightarrow> int \<times> nat \<Rightarrow> u64 \<Rightarrow> amd_gpu_scheduler \<Rightarrow> int \<times> amd_gpu_scheduler" where
  "amd_sched_entity_init entity rq kfifo ctx s =
     (case entity of
        None \<Rightarrow> (- 22, s)
      | Some e \<Rightarrow>
          (case rq of
             None \<Rightarrow> (- 22, s)
           | Some q \<Rightarrow>
               (let en = \<lparr>en_rq = Some q, en_sched = True, en_queue = [], en_limit = 0, en_fence_seq = 0,
                          en_fence_context = 0, en_dependency = None\<rparr>
                in if fst kfifo \<noteq> 0 then (fst kfifo, set_entity e (\<lambda>_. en) s)
                   else (0, set_entity e (\<lambda>_. en\<lparr>en_limit := snd kfifo, en_fence_context := ctx\<rparr>) s))))"

definition amd_sched_entity_is_initialized :: "nat \<Rightarrow> amd_gpu_scheduler \<Rightarrow> bool" where
  "amd_sched_entity_is_initialized e s = (en_sched (sc_entities s e) \<and> en_rq (sc_entities s e) \<noteq> None)"

definition amd_sched_entity_is_idle :: "nat \<Rightarrow> amd_gpu_scheduler \<Rightarrow> bool" where
  "amd_sched_entity_is_idle e s = (en_queue (sc_entities s e) = [])"

definition amd_sched_entity_is_ready :: "nat \<Rightarrow> amd_gpu_scheduler \<Rightarrow> bool" where
  "amd_sched_entity_is_ready e s =
     (if en_queue (sc_entities s e) = [] then False
      else if en_dependency (sc_entities s e) \<noteq> None then False
      else True)"

text \<open>\<open>amd_sched_entity_fini\<close> waits, here without a result, while the entity has jobs.\<close>

definition amd_sched_entity_fini :: "nat \<Rightarrow> amd_gpu_scheduler \<Rightarrow> amd_gpu_scheduler option" where
  "amd_sched_entity_fini e s =
     (case en_rq (sc_entities s e) of
        None \<Rightarrow> Some s
      | Some q \<Rightarrow>
          if \<not> amd_sched_entity_is_initialized e s then Some s
          else if \<not> amd_sched_entity_is_idle e s then None
          else Some (set_entity e (\<lambda>en. en\<lparr>en_limit := 0\<rparr>)
            (s\<lparr>sched_rq := (sched_rq s)(q := amd_sched_rq_remove_entity (sched_rq s q) e)\<rparr>)))"

definition amd_sched_entity_wakeup :: "nat \<Rightarrow> amd_gpu_scheduler \<Rightarrow> amd_gpu_scheduler" where
  "amd_sched_entity_wakeup e s = amd_sched_wakeup (set_entity e (\<lambda>en. en\<lparr>en_dependency := None\<rparr>) s)"

definition amd_sched_entity_clear_dep :: "nat \<Rightarrow> amd_gpu_scheduler \<Rightarrow> amd_gpu_scheduler" where
  "amd_sched_entity_clear_dep e s = set_entity e (\<lambda>en. en\<lparr>en_dependency := None\<rparr>) s"

text \<open>The context of a fence; \<open>to_amd_sched_fence\<close> with the test for the same scheduler.\<close>

definition fence_context :: "sfence \<Rightarrow> amd_gpu_scheduler \<Rightarrow> u64" where
  "fence_context f s = (case f of
     Scheduled j \<Rightarrow> jb_context (sc_jobs s j)
   | Finished j \<Rightarrow> jb_context (sc_jobs s j) + 1
   | Other n c \<Rightarrow> c)"

definition to_amd_sched_fence :: "sfence \<Rightarrow> nat option" where
  "to_amd_sched_fence f = (case f of Scheduled j \<Rightarrow> Some j | Finished j \<Rightarrow> Some j | Other n c \<Rightarrow> None)"

text \<open>The fence is the entity's dependency when this is called; \<open>True\<close> when a callback was added.\<close>

definition amd_sched_entity_add_dependency_cb :: "nat \<Rightarrow> sfence \<Rightarrow> amd_gpu_scheduler \<Rightarrow> bool \<times> amd_gpu_scheduler" where
  "amd_sched_entity_add_dependency_cb e fence s =
     (if fence_context fence s = en_fence_context (sc_entities s e) then (False, s)
      else (case fence of
          Other n c \<Rightarrow>
            if n \<notin> set (sc_signaled s) then (True, s\<lparr>sc_other_cbs := sc_other_cbs s @ [(n, Wakeup e)]\<rparr>)
            else (False, s)
        | _ \<Rightarrow>
            (let j = the (to_amd_sched_fence fence);
                 s = set_entity e (\<lambda>en. en\<lparr>en_dependency := Some (Scheduled j)\<rparr>) s
             in if \<not> jb_scheduled (sc_jobs s j) then (True, s\<lparr>sc_clear_cbs := sc_clear_cbs s @ [(j, e)]\<rparr>)
                else (False, s))))"

text \<open>
  \<open>amd_sched_entity_pop_job\<close>: the list holds what \<open>ops->dependency\<close> returns from call to call
  until it returns NULL.
\<close>

fun pop_job_loop :: "nat \<Rightarrow> nat \<Rightarrow> sfence list \<Rightarrow> amd_gpu_scheduler \<Rightarrow> nat option \<times> amd_gpu_scheduler" where
  "pop_job_loop e j [] s = (Some j, set_entity e (\<lambda>en. en\<lparr>en_dependency := None\<rparr>) s)"
| "pop_job_loop e j (f # fs) s =
     (let s = set_entity e (\<lambda>en. en\<lparr>en_dependency := Some f\<rparr>) s;
          (added, s) = amd_sched_entity_add_dependency_cb e f s
      in if added then (None, s) else pop_job_loop e j fs s)"

definition amd_sched_entity_pop_job :: "nat \<Rightarrow> sfence list \<Rightarrow> amd_gpu_scheduler \<Rightarrow> nat option \<times> amd_gpu_scheduler" where
  "amd_sched_entity_pop_job e deps s =
     (case en_queue (sc_entities s e) of
        [] \<Rightarrow> (None, s)
      | j # js \<Rightarrow> pop_job_loop e j deps s)"

text \<open>
  The first component tells whether the job found room; an entity without a run queue is a fault.
\<close>

definition amd_sched_entity_in :: "nat \<Rightarrow> amd_gpu_scheduler \<Rightarrow> (bool \<times> amd_gpu_scheduler) option" where
  "amd_sched_entity_in j s =
     (let e = jb_entity (sc_jobs s j);
          added = (length (en_queue (sc_entities s e)) < en_limit (sc_entities s e));
          s = (if added then set_entity e (\<lambda>en. en\<lparr>en_queue := en_queue en @ [j]\<rparr>) s else s)
      in if added \<and> length (en_queue (sc_entities s e)) = 1 then do {
           q \<leftarrow> en_rq (sc_entities s e);
           Some (added, amd_sched_wakeup
             (s\<lparr>sched_rq := (sched_rq s)(q := amd_sched_rq_add_entity (sched_rq s q) e)\<rparr>))
         }
         else Some (added, s))"

section \<open>Fences of a job\<close>

text \<open>\<open>amd_sched_fence_create\<close>: the allocation may fail.\<close>

definition amd_sched_fence_create :: "bool \<Rightarrow> nat \<Rightarrow> amd_gpu_scheduler \<Rightarrow> (u32 \<times> u64) option \<times> amd_gpu_scheduler" where
  "amd_sched_fence_create alloc_ok e s =
     (if \<not> alloc_ok then (None, s)
      else (let seq = en_fence_seq (sc_entities s e) + 1
            in (Some (seq, en_fence_context (sc_entities s e)), set_entity e (\<lambda>en. en\<lparr>en_fence_seq := seq\<rparr>) s)))"

definition amd_sched_job_init :: "bool \<Rightarrow> nat \<Rightarrow> nat \<Rightarrow> amd_gpu_scheduler \<Rightarrow> int \<times> amd_gpu_scheduler" where
  "amd_sched_job_init alloc_ok j e s =
     (case amd_sched_fence_create alloc_ok e s of
        (None, s) \<Rightarrow> (- 12, set_job j (\<lambda>jb. jb\<lparr>jb_entity := e\<rparr>) s)
      | (Some (seq, ctx), s) \<Rightarrow>
          (0, set_job j (\<lambda>_. \<lparr>jb_entity = e, jb_seq = seq, jb_context = ctx, jb_scheduled = False, jb_finished = False,
                             jb_parent = None, jb_finish_work = False\<rparr>) s))"

text \<open>\<open>fence_signal\<close> marks a fence once and runs its callbacks in order.\<close>

definition amd_sched_fence_scheduled :: "nat \<Rightarrow> amd_gpu_scheduler \<Rightarrow> amd_gpu_scheduler" where
  "amd_sched_fence_scheduled j s =
     (if jb_scheduled (sc_jobs s j) then s
      else fold (\<lambda>(_, e). amd_sched_entity_clear_dep e) (filter (\<lambda>(i, _). i = j) (sc_clear_cbs s))
        (set_job j (\<lambda>jb. jb\<lparr>jb_scheduled := True\<rparr>) s\<lparr>sc_clear_cbs := filter (\<lambda>(i, _). i \<noteq> j) (sc_clear_cbs s)\<rparr>))"

definition amd_sched_job_finish_cb :: "nat \<Rightarrow> amd_gpu_scheduler \<Rightarrow> amd_gpu_scheduler" where
  "amd_sched_job_finish_cb j s = set_job j (\<lambda>jb. jb\<lparr>jb_finish_work := True\<rparr>) s"

definition amd_sched_fence_finished :: "nat \<Rightarrow> amd_gpu_scheduler \<Rightarrow> amd_gpu_scheduler" where
  "amd_sched_fence_finished j s =
     (if jb_finished (sc_jobs s j) then s
      else fold amd_sched_job_finish_cb (filter (\<lambda>i. i = j) (sc_finish_cbs s))
        (set_job j (\<lambda>jb. jb\<lparr>jb_finished := True\<rparr>) s\<lparr>sc_finish_cbs := filter (\<lambda>i. i \<noteq> j) (sc_finish_cbs s)\<rparr>))"

definition amd_sched_entity_push_job :: "nat \<Rightarrow> amd_gpu_scheduler \<Rightarrow> (bool \<times> amd_gpu_scheduler) option" where
  "amd_sched_entity_push_job j s =
     amd_sched_entity_in j
       (if jb_finished (sc_jobs s j) then s else s\<lparr>sc_finish_cbs := sc_finish_cbs s @ [j]\<rparr>)"

section \<open>Jobs on the hardware\<close>

definition schedule_tdr :: "nat \<Rightarrow> amd_gpu_scheduler \<Rightarrow> amd_gpu_scheduler" where
  "schedule_tdr j s = s\<lparr>sc_tdr := List.insert j (sc_tdr s)\<rparr>"

definition amd_sched_job_begin :: "nat \<Rightarrow> amd_gpu_scheduler \<Rightarrow> amd_gpu_scheduler" where
  "amd_sched_job_begin j s =
     (let s = s\<lparr>ring_mirror_list := ring_mirror_list s @ [j]\<rparr>
      in if sc_timeout s \<noteq> max_schedule_timeout \<and> hd (ring_mirror_list s) = j then schedule_tdr j s else s)"

definition amd_sched_job_finish :: "nat \<Rightarrow> amd_gpu_scheduler \<Rightarrow> amd_gpu_scheduler" where
  "amd_sched_job_finish j s =
     (let s = set_job j (\<lambda>jb. jb\<lparr>jb_finish_work := False\<rparr>)
                (s\<lparr>ring_mirror_list := filter (\<lambda>i. i \<noteq> j) (ring_mirror_list s)\<rparr>);
          s = (if sc_timeout s \<noteq> max_schedule_timeout then
                 (let s = s\<lparr>sc_tdr := filter (\<lambda>i. i \<noteq> j) (sc_tdr s)\<rparr>
                  in case ring_mirror_list s of [] \<Rightarrow> s | n # _ \<Rightarrow> schedule_tdr n s)
               else s)
      in s\<lparr>sc_freed := sc_freed s @ [j]\<rparr>)"

definition amd_sched_process_job :: "nat \<Rightarrow> amd_gpu_scheduler \<Rightarrow> amd_gpu_scheduler" where
  "amd_sched_process_job j s =
     wake_up_worker (amd_sched_fence_finished j (s\<lparr>hw_rq_count := hw_rq_count s - 1\<rparr>))"

text \<open>
  The end of a submission, the same in the worker and in the recovery: the fence of the hardware, if
  there is one, and the result of adding \<open>amd_sched_process_job\<close> as its callback.
\<close>

definition attach_fence :: "nat \<Rightarrow> (nat \<times> int) option \<Rightarrow> amd_gpu_scheduler \<Rightarrow> amd_gpu_scheduler" where
  "attach_fence j fence s =
     (case fence of
        Some (n, r) \<Rightarrow>
          (let s = set_job j (\<lambda>jb. jb\<lparr>jb_parent := Some n\<rparr>) s
           in if r = - 2 then amd_sched_process_job j s
              else if r \<noteq> 0 then s
              else s\<lparr>sc_other_cbs := sc_other_cbs s @ [(n, Process_job j)]\<rparr>)
      | None \<Rightarrow> amd_sched_process_job j s)"

text \<open>\<open>amd_sched_hw_job_reset\<close>: \<open>fence_remove_callback\<close> on a missing parent is a fault.\<close>

fun reset_loop :: "nat list \<Rightarrow> amd_gpu_scheduler \<Rightarrow> amd_gpu_scheduler option" where
  "reset_loop [] s = Some s"
| "reset_loop (j # js) s =
     (case jb_parent (sc_jobs s j) of
        None \<Rightarrow> None
      | Some n \<Rightarrow>
          if (n, Process_job j) \<in> set (sc_other_cbs s) then
            reset_loop js (set_job j (\<lambda>jb. jb\<lparr>jb_parent := None\<rparr>)
              (s\<lparr>sc_other_cbs := filter (\<lambda>c. c \<noteq> (n, Process_job j)) (sc_other_cbs s)\<rparr>))
          else reset_loop js s)"

definition amd_sched_hw_job_reset :: "amd_gpu_scheduler \<Rightarrow> amd_gpu_scheduler option" where
  "amd_sched_hw_job_reset s = map_option (\<lambda>s. s\<lparr>hw_rq_count := 0\<rparr>) (reset_loop (rev (ring_mirror_list s)) s)"

text \<open>\<open>amd_sched_job_recovery\<close>, with the answer of \<open>run_job\<close> for each job.\<close>

definition recover_job :: "(nat \<Rightarrow> (nat \<times> int) option) \<Rightarrow> nat \<Rightarrow> amd_gpu_scheduler \<Rightarrow> amd_gpu_scheduler" where
  "recover_job run_job j s =
     attach_fence j (run_job j) (s\<lparr>sc_ran := sc_ran s @ [j], hw_rq_count := hw_rq_count s + 1\<rparr>)"

definition amd_sched_job_recovery :: "(nat \<Rightarrow> (nat \<times> int) option) \<Rightarrow> amd_gpu_scheduler \<Rightarrow> amd_gpu_scheduler" where
  "amd_sched_job_recovery run_job s =
     fold (recover_job run_job) (ring_mirror_list s)
       (case ring_mirror_list s of
          [] \<Rightarrow> s
        | j # _ \<Rightarrow> if sc_timeout s \<noteq> max_schedule_timeout then schedule_tdr j s else s)"

section \<open>The worker\<close>

fun select_rqs :: "nat list \<Rightarrow> amd_gpu_scheduler \<Rightarrow> nat option \<times> amd_gpu_scheduler" where
  "select_rqs [] s = (None, s)"
| "select_rqs (q # qs) s =
     (case amd_sched_rq_select_entity (\<lambda>e. amd_sched_entity_is_ready e s) (sched_rq s q) of
        (Some e, rq) \<Rightarrow> (Some e, s\<lparr>sched_rq := (sched_rq s)(q := rq)\<rparr>)
      | (None, rq) \<Rightarrow> select_rqs qs (s\<lparr>sched_rq := (sched_rq s)(q := rq)\<rparr>))"

definition amd_sched_select_entity :: "amd_gpu_scheduler \<Rightarrow> nat option \<times> amd_gpu_scheduler" where
  "amd_sched_select_entity s = (if \<not> amd_sched_ready s then (None, s) else select_rqs [0, 1] s)"

text \<open>
  One turn of the loop of \<open>amd_sched_main\<close>: up to the submission of a job, and the rest, which
  takes the job out of the queue.
\<close>

definition main_submit :: "sfence list \<Rightarrow> (nat \<Rightarrow> (nat \<times> int) option) \<Rightarrow> amd_gpu_scheduler \<Rightarrow> amd_gpu_scheduler" where
  "main_submit deps run_job s =
     (case amd_sched_select_entity s of
        (None, s) \<Rightarrow> s\<lparr>sc_worker := Sleeping\<rparr>
      | (Some e, s) \<Rightarrow>
          (case amd_sched_entity_pop_job e deps s of
             (None, s) \<Rightarrow> s
           | (Some j, s) \<Rightarrow>
               (let s = amd_sched_job_begin j (s\<lparr>hw_rq_count := hw_rq_count s + 1\<rparr>);
                    s = amd_sched_fence_scheduled j (s\<lparr>sc_ran := sc_ran s @ [j]\<rparr>)
                in attach_fence j (run_job j) (s\<lparr>sc_worker := Submitted e\<rparr>))))"

definition main_out :: "nat \<Rightarrow> amd_gpu_scheduler \<Rightarrow> amd_gpu_scheduler" where
  "main_out e s = (set_entity e (\<lambda>en. en\<lparr>en_queue := tl (en_queue en)\<rparr>) s)\<lparr>sc_worker := Awake\<rparr>"

text \<open>The state that \<open>amd_sched_init\<close> sets up; the result of \<open>kthread_run\<close> is its result.\<close>

definition amd_sched_init :: "int \<Rightarrow> u32 \<Rightarrow> i64 \<Rightarrow> amd_gpu_scheduler \<Rightarrow> int \<times> amd_gpu_scheduler" where
  "amd_sched_init thread hw_submission timeout s =
     (if thread < 0 then thread else 0,
      s\<lparr>hw_submission_limit := hw_submission, sc_timeout := timeout,
        sched_rq := (sched_rq s)(0 := amd_sched_rq_init, 1 := amd_sched_rq_init),
        ring_mirror_list := [], hw_rq_count := 0, sc_worker := Awake\<rparr>)"

section \<open>Selection\<close>

lemma rq_scan_Some: "rq_scan ready c es = Some e \<Longrightarrow> e \<in> set es \<and> ready e"
  by (induction es) (auto split: if_splits)

lemma rq_scan_None: "rq_scan ready c es = None \<Longrightarrow> e \<in> set es \<Longrightarrow>
  \<not> ready e \<or> (\<exists>d. c = Some d \<and> e \<in> set (tl (dropWhile (\<lambda>x. x \<noteq> d) es)))"
  by (induction es) (auto split: if_splits)

text \<open>The current entity of a run queue is on its list, which has no entity twice.\<close>

definition rq_ok :: "amd_sched_rq \<Rightarrow> bool" where
  "rq_ok rq = (distinct (rq_entities rq) \<and> (\<forall>c. rq_current rq = Some c \<longrightarrow> c \<in> set (rq_entities rq)))"

lemma rq_continue_subset: "set (rq_continue rq) \<subseteq> set (rq_entities rq)"
proof -
  have "set (tl (dropWhile P xs)) \<subseteq> set xs" for P and xs :: "nat list"
    by (metis list.set_sel(2) set_dropWhileD subsetI tl_Nil)
  then show ?thesis by (cases "rq_current rq") (simp_all add: rq_continue_def)
qed

lemma rq_select_Some:
  assumes "amd_sched_rq_select_entity ready rq = (Some e, rq')"
  shows "e \<in> set (rq_entities rq)" "ready e" "rq' = rq\<lparr>rq_current := Some e\<rparr>"
  using assms rq_continue_subset [of rq]
  by (auto simp: amd_sched_rq_select_entity_def find_Some_iff split: option.splits dest!: rq_scan_Some)

lemma rq_select_None:
  assumes "amd_sched_rq_select_entity ready rq = (None, rq')"
  shows "rq' = rq" "\<forall>e \<in> set (rq_entities rq). \<not> ready e"
proof -
  have f: "find ready (rq_continue rq) = None" and sc: "rq_scan ready (rq_current rq) (rq_entities rq) = None" and "rq' = rq"
    using assms by (auto simp: amd_sched_rq_select_entity_def split: option.splits)
  then show "rq' = rq" by simp
  show "\<forall>e \<in> set (rq_entities rq). \<not> ready e"
    using rq_scan_None [OF sc] f by (cases "rq_current rq") (auto simp: find_None_iff rq_continue_def)
qed

text \<open>Selection moves current entities only.\<close>

definition moved :: "amd_gpu_scheduler \<Rightarrow> amd_gpu_scheduler \<Rightarrow> bool" where
  "moved s s' = (\<exists>rqs. s' = s\<lparr>sched_rq := rqs\<rparr> \<and> (\<forall>q. rq_entities (rqs q) = rq_entities (sched_rq s q)) \<and>
     (\<forall>q. rq_ok (sched_rq s q) \<longrightarrow> rq_ok (rqs q)))"

lemma moved_refl: "moved s s"
  by (auto simp: moved_def intro!: exI [of _ "sched_rq s"])

lemma moved_trans: "moved s s' \<Longrightarrow> moved s' s'' \<Longrightarrow> moved s s''"
  by (auto simp: moved_def)

lemma is_ready_moved: "moved s s' \<Longrightarrow> amd_sched_entity_is_ready e s' = amd_sched_entity_is_ready e s"
  by (auto simp: moved_def amd_sched_entity_is_ready_def)

lemma select_rqs_ok:
  assumes "select_rqs qs s = (r, s')"
  shows "moved s s' \<and> (case r of
      Some e \<Rightarrow> amd_sched_entity_is_ready e s \<and> (\<exists>q \<in> set qs. e \<in> set (rq_entities (sched_rq s q)))
    | None \<Rightarrow> \<forall>q \<in> set qs. \<forall>e \<in> set (rq_entities (sched_rq s q)). \<not> amd_sched_entity_is_ready e s)"
  using assms
proof (induction qs arbitrary: s)
  case Nil
  then show ?case by (auto simp: moved_refl)
next
  case (Cons q qs)
  obtain r1 rq where sel: "amd_sched_rq_select_entity (\<lambda>e. amd_sched_entity_is_ready e s) (sched_rq s q) = (r1, rq)"
    by (metis surj_pair)
  show ?case
  proof (cases r1)
    case (Some e)
    with sel have e: "e \<in> set (rq_entities (sched_rq s q))" "amd_sched_entity_is_ready e s"
      "rq = sched_rq s q\<lparr>rq_current := Some e\<rparr>" using rq_select_Some by blast+
    then have "moved s (s\<lparr>sched_rq := (sched_rq s)(q := rq)\<rparr>)"
      by (auto simp: moved_def rq_ok_def intro!: exI [of _ "(sched_rq s)(q := rq)"])
    then show ?thesis using Cons.prems Some sel e by auto
  next
    case None
    with sel have n: "rq = sched_rq s q" "\<forall>e \<in> set (rq_entities (sched_rq s q)). \<not> amd_sched_entity_is_ready e s"
      using rq_select_None by blast+
    then show ?thesis using Cons.IH [of s] Cons.prems None sel by (auto split: option.splits)
  qed
qed

lemma select_ok:
  assumes "amd_sched_select_entity s = (r, s')"
  shows "moved s s' \<and> (case r of
      Some e \<Rightarrow> amd_sched_ready s \<and> amd_sched_entity_is_ready e s \<and> (\<exists>q < 2. e \<in> set (rq_entities (sched_rq s q)))
    | None \<Rightarrow> amd_sched_ready s \<longrightarrow> (\<forall>q < 2. \<forall>e \<in> set (rq_entities (sched_rq s q)). \<not> amd_sched_entity_is_ready e s))"
proof (cases "amd_sched_ready s")
  case True
  then have "select_rqs [0, 1] s = (r, s')" using assms by (simp add: amd_sched_select_entity_def)
  from select_rqs_ok [OF this] show ?thesis
    using True by (auto simp: less_2_cases_iff split: option.splits)
next
  case False
  then show ?thesis using assms by (auto simp: amd_sched_select_entity_def moved_refl)
qed

section \<open>Dependencies\<close>

text \<open>
  When a dependency need not be waited for: it is a fence of the entity's own context, a fence of a job
  this scheduler has handed to the hardware already, or a fence of someone else that has signalled.
\<close>

definition satisfied :: "nat \<Rightarrow> sfence \<Rightarrow> amd_gpu_scheduler \<Rightarrow> bool" where
  "satisfied e f s = (fence_context f s = en_fence_context (sc_entities s e) \<or>
     (case f of Other n c \<Rightarrow> n \<in> set (sc_signaled s) | Scheduled j \<Rightarrow> jb_scheduled (sc_jobs s j)
      | Finished j \<Rightarrow> jb_scheduled (sc_jobs s j)))"

text \<open>The state with the dependency of one entity replaced and callbacks added.\<close>

definition blocked :: "nat \<Rightarrow> sfence option \<Rightarrow> (nat \<times> nat) list \<Rightarrow> (nat \<times> other_cb) list \<Rightarrow> amd_gpu_scheduler \<Rightarrow> amd_gpu_scheduler" where
  "blocked e d clear other s = (set_entity e (\<lambda>en. en\<lparr>en_dependency := d\<rparr>) s)
     \<lparr>sc_clear_cbs := sc_clear_cbs s @ clear, sc_other_cbs := sc_other_cbs s @ other\<rparr>"

text \<open>What an entity waits for, with the callback that ends the wait.\<close>

definition waits :: "nat \<Rightarrow> sfence option \<Rightarrow> (nat \<times> nat) list \<Rightarrow> (nat \<times> other_cb) list \<Rightarrow> amd_gpu_scheduler \<Rightarrow> bool" where
  "waits e d clear other s =
     ((\<exists>j. d = Some (Scheduled j) \<and> clear = [(j, e)] \<and> other = [] \<and> \<not> jb_scheduled (sc_jobs s j)) \<or>
      (\<exists>n c. d = Some (Other n c) \<and> clear = [] \<and> other = [(n, Wakeup e)] \<and> n \<notin> set (sc_signaled s)))"

lemma blocked_simps [simp]:
  "fence_context g (blocked e d clear other s) = fence_context g s"
  "en_fence_context (sc_entities (blocked e d clear other s) i) = en_fence_context (sc_entities s i)"
  "sc_signaled (blocked e d clear other s) = sc_signaled s" "sc_jobs (blocked e d clear other s) = sc_jobs s"
  "sc_other_cbs (blocked e d clear other s) = sc_other_cbs s @ other"
  "sc_clear_cbs (blocked e d clear other s) = sc_clear_cbs s @ clear"
  "set_entity e (\<lambda>en. en\<lparr>en_dependency := d'\<rparr>) (blocked e d clear other s) = blocked e d' clear other s"
  "blocked e d clear other s\<lparr>sc_clear_cbs := sc_clear_cbs s @ clear'\<rparr> = blocked e d clear' other s"
  "blocked e d clear other s\<lparr>sc_other_cbs := sc_other_cbs s @ other'\<rparr> = blocked e d clear other' s"
  by (simp_all add: blocked_def set_entity_def fence_context_def split: sfence.split)

lemma add_dependency_cb_cases:
  obtains (added) d clear other where
      "amd_sched_entity_add_dependency_cb e f (blocked e (Some f) [] [] s) = (True, blocked e d clear other s)"
      "waits e d clear other s" "\<not> satisfied e f s"
    | (ignored) d where
      "amd_sched_entity_add_dependency_cb e f (blocked e (Some f) [] [] s) = (False, blocked e d [] [] s)" "satisfied e f s"
proof (cases "fence_context f s = en_fence_context (sc_entities s e)")
  case True
  then show ?thesis
    by (intro ignored [of "Some f"]) (simp_all add: amd_sched_entity_add_dependency_cb_def satisfied_def)
next
  case False
  note defs = amd_sched_entity_add_dependency_cb_def satisfied_def waits_def to_amd_sched_fence_def Let_def
  show ?thesis
  proof (cases f)
    case (Scheduled j)
    then show ?thesis using False
      by (cases "jb_scheduled (sc_jobs s j)") (auto intro: added ignored simp: defs)
  next
    case (Finished j)
    then show ?thesis using False
      by (cases "jb_scheduled (sc_jobs s j)") (auto intro: added ignored simp: defs)
  next
    case (Other n c)
    then show ?thesis using False
      by (cases "n \<in> set (sc_signaled s)") (auto intro: added ignored simp: defs)
  qed
qed

lemma pop_job_loop_cases:
  obtains (runs) "pop_job_loop e j fs s = (Some j, blocked e None [] [] s)" "\<forall>f \<in> set fs. satisfied e f s"
    | (waits) d clear other where "pop_job_loop e j fs s = (None, blocked e d clear other s)" "waits e d clear other s"
      "\<exists>f \<in> set fs. \<not> satisfied e f s"
proof -
  have *: "pop_job_loop e j fs (blocked e d0 [] [] s) = (Some j, blocked e None [] [] s) \<and> (\<forall>f \<in> set fs. satisfied e f s) \<or>
    (\<exists>d clear other. pop_job_loop e j fs (blocked e d0 [] [] s) = (None, blocked e d clear other s) \<and> waits e d clear other s \<and>
      (\<exists>f \<in> set fs. \<not> satisfied e f s))" for d0
  proof (induction fs arbitrary: d0)
    case (Cons f fs)
    show ?case
    proof (cases rule: add_dependency_cb_cases [of e f s])
      case (added d clear other)
      then show ?thesis by auto
    next
      case (ignored d)
      then show ?thesis using Cons.IH [of d] by auto
    qed
  qed simp
  have s: "blocked e (en_dependency (sc_entities s e)) [] [] s = s"
    by (simp add: blocked_def set_entity_def)
  show ?thesis using * [of "en_dependency (sc_entities s e)"] runs waits unfolding s by blast
qed

section \<open>Fences\<close>

lemma fold_clear_dep:
  "fold (\<lambda>(_, e). amd_sched_entity_clear_dep e) cs s =
    s\<lparr>sc_entities := \<lambda>e. if e \<in> snd ` set cs then (sc_entities s e)\<lparr>en_dependency := None\<rparr> else sc_entities s e\<rparr>"
proof (induction cs arbitrary: s)
  case (Cons c cs)
  obtain a b where "c = (a, b)" by (cases c)
  then have "fold (\<lambda>(_, e). amd_sched_entity_clear_dep e) (c # cs) s =
    fold (\<lambda>(_, e). amd_sched_entity_clear_dep e) cs (amd_sched_entity_clear_dep b s)" by simp
  also note Cons.IH
  finally show ?case
    using \<open>c = (a, b)\<close> unfolding amd_sched_entity_clear_dep_def set_entity_def
    by (auto simp: fun_eq_iff intro!: amd_gpu_scheduler.equality)
qed simp

lemma fence_scheduled_eq:
  "amd_sched_fence_scheduled j s =
    (if jb_scheduled (sc_jobs s j) then s
     else set_job j (\<lambda>jb. jb\<lparr>jb_scheduled := True\<rparr>) s
       \<lparr>sc_clear_cbs := filter (\<lambda>(i, _). i \<noteq> j) (sc_clear_cbs s),
        sc_entities := \<lambda>e. if (j, e) \<in> set (sc_clear_cbs s) then (sc_entities s e)\<lparr>en_dependency := None\<rparr> else sc_entities s e\<rparr>)"
proof -
  have "e \<in> snd ` set (filter (\<lambda>(i, _). i = j) (sc_clear_cbs s)) \<longleftrightarrow> (j, e) \<in> set (sc_clear_cbs s)" for e by force
  then show ?thesis unfolding amd_sched_fence_scheduled_def fold_clear_dep set_job_def by (simp cong: if_cong)
qed

lemma fold_finish_cb: "fold amd_sched_job_finish_cb (filter (\<lambda>i. i = j) is) s =
    (if j \<in> set is then set_job j (\<lambda>jb. jb\<lparr>jb_finish_work := True\<rparr>) s else s)"
  by (induction "is" arbitrary: s) (auto simp: amd_sched_job_finish_cb_def set_job_def)

lemma fence_finished_eq:
  "amd_sched_fence_finished j s =
    (if jb_finished (sc_jobs s j) then s
     else set_job j (\<lambda>jb. jb\<lparr>jb_finished := True, jb_finish_work := jb_finish_work jb \<or> j \<in> set (sc_finish_cbs s)\<rparr>) s
       \<lparr>sc_finish_cbs := filter (\<lambda>i. i \<noteq> j) (sc_finish_cbs s)\<rparr>)"
  unfolding amd_sched_fence_finished_def fold_finish_cb by (simp add: set_job_def)

end
