(* ===== verification/Sched_Inv.thy ===== *)
theory Sched_Inv
  imports Sched Machine
begin

text \<open>
  The scheduler over time. The step relation \<open>sched_step\<close> lets the handlers of \<open>Sched\<close> run in any
  order in which the driver can run them. Shown here: the invariant of the scheduler and that every step
  keeps it, the fairness of the round robin, the refinement to first-in-first-out queues, and what a
  reset and a recovery do.
\<close>

section \<open>The driver in time\<close>

text \<open>A job that was neither queued nor run yet; an entity that nothing refers to.\<close>

definition fresh_job :: "nat \<Rightarrow> amd_gpu_scheduler \<Rightarrow> bool" where
  "fresh_job j s = (j \<notin> set (sc_ran s) \<and> (\<forall>e. j \<notin> set (en_queue (sc_entities s e))))"

definition unused_entity :: "nat \<Rightarrow> amd_gpu_scheduler \<Rightarrow> bool" where
  "unused_entity e s = (en_queue (sc_entities s e) = [] \<and> (\<forall>q. e \<notin> set (rq_entities (sched_rq s q))) \<and>
     (\<forall>j. (j, e) \<notin> set (sc_clear_cbs s)) \<and> (\<forall>n. (n, Wakeup e) \<notin> set (sc_other_cbs s)))"

text \<open>
  The steps: setting up entities and jobs, pushing a job, the two halves of the worker's loop, a fence
  of someone else that signals, its callbacks one by one, the finish work of a job, and the end of an
  entity. A reset of the hardware is no step of its own: the runs are those between two resets, and what a
  reset and the recovery after it do to such a state is shown apart from them.
\<close>

inductive sched_step :: "amd_gpu_scheduler \<Rightarrow> amd_gpu_scheduler \<Rightarrow> bool" where
  entity_init: "unused_entity e s \<Longrightarrow> q < 2 \<Longrightarrow> amd_sched_entity_init (Some e) (Some q) kfifo ctx s = (r, s') \<Longrightarrow> sched_step s s'"
| job_init: "fresh_job j s \<Longrightarrow> amd_sched_job_init ok j e s = (r, s') \<Longrightarrow> sched_step s s'"
| push: "fresh_job j s \<Longrightarrow> en_rq (sc_entities s (jb_entity (sc_jobs s j))) = Some q \<Longrightarrow> q < 2 \<Longrightarrow>
    amd_sched_entity_push_job j s = Some (True, s') \<Longrightarrow> sched_step s s'"
| submit: "sc_worker s = Awake \<Longrightarrow> sched_step s (main_submit deps run_job s)"
| out: "sc_worker s = Submitted e \<Longrightarrow> sched_step s (main_out e s)"
| signal: "sched_step s (s\<lparr>sc_signaled := n # sc_signaled s\<rparr>)"
| wakeup: "(n, Wakeup e) \<in> set (sc_other_cbs s) \<Longrightarrow> n \<in> set (sc_signaled s) \<Longrightarrow>
    sched_step s (amd_sched_entity_wakeup e (s\<lparr>sc_other_cbs := remove1 (n, Wakeup e) (sc_other_cbs s)\<rparr>))"
| process: "(n, Process_job j) \<in> set (sc_other_cbs s) \<Longrightarrow> n \<in> set (sc_signaled s) \<Longrightarrow>
    sched_step s (amd_sched_process_job j (s\<lparr>sc_other_cbs := remove1 (n, Process_job j) (sc_other_cbs s)\<rparr>))"
| finish: "jb_finish_work (sc_jobs s j) \<Longrightarrow> sched_step s (amd_sched_job_finish j s)"
| entity_fini: "amd_sched_entity_fini e s = Some s' \<Longrightarrow> sched_step s s'"

inductive_cases sched_stepE: "sched_step s s'"

text \<open>A scheduler after \<open>amd_sched_init\<close> on zeroed memory.\<close>

definition sched_start :: "u32 \<Rightarrow> i64 \<Rightarrow> amd_gpu_scheduler" where
  "sched_start limit timeout = snd (amd_sched_init 0 limit timeout
     \<lparr>hw_submission_limit = 0, sc_timeout = 0, sched_rq = (\<lambda>_. amd_sched_rq_init), hw_rq_count = 0, ring_mirror_list = [],
      sc_tdr = [], sc_entities = (\<lambda>_. \<lparr>en_rq = None, en_sched = False, en_queue = [], en_limit = 0, en_fence_seq = 0,
        en_fence_context = 0, en_dependency = None\<rparr>),
      sc_jobs = (\<lambda>_. \<lparr>jb_entity = 0, jb_seq = 0, jb_context = 0, jb_scheduled = False, jb_finished = False,
        jb_parent = None, jb_finish_work = False\<rparr>),
      sc_clear_cbs = [], sc_finish_cbs = [], sc_other_cbs = [], sc_signaled = [], sc_worker = Awake, sc_ran = [], sc_freed = []\<rparr>)"

subsection \<open>The turn of the worker\<close>

text \<open>The state after a job was handed to the hardware, before its fence is attached.\<close>

definition submitted :: "nat \<Rightarrow> nat \<Rightarrow> amd_gpu_scheduler \<Rightarrow> amd_gpu_scheduler" where
  "submitted e j s =
     (let s1 = amd_sched_job_begin j (s\<lparr>hw_rq_count := hw_rq_count s + 1\<rparr>)
      in (amd_sched_fence_scheduled j (s1\<lparr>sc_ran := sc_ran s1 @ [j]\<rparr>))\<lparr>sc_worker := Submitted e\<rparr>)"

lemma blocked_none:
  assumes "en_dependency (sc_entities s e) = None"
  shows "blocked e None [] [] s = s"
proof -
  have "(sc_entities s e)\<lparr>en_dependency := None\<rparr> = sc_entities s e" using assms by (simp flip: assms)
  then show ?thesis by (simp add: blocked_def set_entity_def)
qed

lemma main_submit_cases:
  obtains (sleeps) s1 where "main_submit deps run_job s = s1\<lparr>sc_worker := Sleeping\<rparr>" "moved s s1"
      "amd_sched_ready s \<longrightarrow> (\<forall>q < 2. \<forall>e \<in> set (rq_entities (sched_rq s q)). \<not> amd_sched_entity_is_ready e s)"
    | (blocks) s1 e d clear other where "main_submit deps run_job s = blocked e d clear other s1" "moved s s1"
      "waits e d clear other s"
    | (submits) s1 e j js where "main_submit deps run_job s = attach_fence j (run_job j) (submitted e j s1)" "moved s s1"
      "amd_sched_ready s" "en_queue (sc_entities s e) = j # js" "\<forall>f \<in> set deps. satisfied e f s"
proof -
  obtain r s1 where sel: "amd_sched_select_entity s = (r, s1)" by (metis surj_pair)
  note ok = select_ok [OF sel]
  then obtain rqs where s1: "s1 = s\<lparr>sched_rq := rqs\<rparr>" by (auto simp: moved_def)
  show ?thesis
  proof (cases r)
    case None
    then show ?thesis using sleeps [of s1] ok sel by (simp add: main_submit_def)
  next
    case (Some e)
    then have rd: "amd_sched_ready s" "en_queue (sc_entities s e) \<noteq> []" "en_dependency (sc_entities s e) = None"
      using ok by (auto simp: amd_sched_entity_is_ready_def split: if_splits)
    then obtain j js where q: "en_queue (sc_entities s e) = j # js" by (cases "en_queue (sc_entities s e)") auto
    have pop: "amd_sched_entity_pop_job e deps s1 = pop_job_loop e j deps s1"
      using q by (simp add: amd_sched_entity_pop_job_def s1)
    show ?thesis
    proof (cases rule: pop_job_loop_cases [of e j deps s1])
      case runs
      have "main_submit deps run_job s = attach_fence j (run_job j) (submitted e j s1)"
        using runs(1) sel Some pop rd(3) by (simp add: main_submit_def blocked_none s1 submitted_def Let_def)
      moreover have "\<forall>f \<in> set deps. satisfied e f s"
        using runs(2) by (simp add: s1 satisfied_def fence_context_def split: sfence.splits)
      ultimately show ?thesis using submits ok rd(1) q by blast
    next
      case (waits d clear other)
      have "main_submit deps run_job s = blocked e d clear other s1"
        using waits(1) sel Some pop by (simp add: main_submit_def)
      then show ?thesis using blocks ok waits(2) by (simp add: s1 waits_def)
    qed
  qed
qed

subsection \<open>The operations as updates\<close>

lemma wake_eq: "wake_up_worker s = s\<lparr>sc_worker := (if sc_worker s = Sleeping then Awake else sc_worker s)\<rparr>"
  by (simp add: wake_up_worker_def)

lemma wakeup_eq: "amd_sched_wakeup s =
    s\<lparr>sc_worker := (if amd_sched_ready s \<and> sc_worker s = Sleeping then Awake else sc_worker s)\<rparr>"
  by (simp add: amd_sched_wakeup_def wake_up_worker_def)

lemma process_job_eq:
  assumes "\<not> jb_finished (sc_jobs s j)"
  shows "amd_sched_process_job j s = s\<lparr>hw_rq_count := hw_rq_count s - 1,
    sc_jobs := (sc_jobs s)(j := sc_jobs s j\<lparr>jb_finished := True, jb_finish_work := jb_finish_work (sc_jobs s j) \<or> j \<in> set (sc_finish_cbs s)\<rparr>),
    sc_finish_cbs := filter (\<lambda>i. i \<noteq> j) (sc_finish_cbs s),
    sc_worker := (if sc_worker s = Sleeping then Awake else sc_worker s)\<rparr>"
  using assms by (simp add: amd_sched_process_job_def fence_finished_eq set_job_def wake_up_worker_def)

lemma submitted_eq:
  assumes "\<not> jb_scheduled (sc_jobs s j)"
  shows "submitted e j s = s\<lparr>hw_rq_count := hw_rq_count s + 1, ring_mirror_list := ring_mirror_list s @ [j],
    sc_tdr := (if sc_timeout s \<noteq> max_schedule_timeout \<and> hd (ring_mirror_list s @ [j]) = j then List.insert j (sc_tdr s) else sc_tdr s),
    sc_ran := sc_ran s @ [j],
    sc_jobs := (sc_jobs s)(j := sc_jobs s j\<lparr>jb_scheduled := True\<rparr>),
    sc_clear_cbs := filter (\<lambda>(i, _). i \<noteq> j) (sc_clear_cbs s),
    sc_entities := \<lambda>e. if (j, e) \<in> set (sc_clear_cbs s) then (sc_entities s e)\<lparr>en_dependency := None\<rparr> else sc_entities s e,
    sc_worker := Submitted e\<rparr>"
  using assms
  by (simp add: submitted_def Let_def amd_sched_job_begin_def fence_scheduled_eq set_job_def schedule_tdr_def cong: if_cong)

lemma attach_cases:
  assumes "\<not> jb_finished (sc_jobs s j)"
  obtains (finished) p where "attach_fence j r s = s\<lparr>hw_rq_count := hw_rq_count s - 1,
      sc_jobs := (sc_jobs s)(j := sc_jobs s j\<lparr>jb_parent := p, jb_finished := True,
        jb_finish_work := jb_finish_work (sc_jobs s j) \<or> j \<in> set (sc_finish_cbs s)\<rparr>),
      sc_finish_cbs := filter (\<lambda>i. i \<noteq> j) (sc_finish_cbs s),
      sc_worker := (if sc_worker s = Sleeping then Awake else sc_worker s)\<rparr>"
    | (pending) n where "attach_fence j r s = s\<lparr>sc_jobs := (sc_jobs s)(j := sc_jobs s j\<lparr>jb_parent := Some n\<rparr>),
        sc_other_cbs := sc_other_cbs s @ [(n, Process_job j)]\<rparr>"
    | (stuck) n where "attach_fence j r s = s\<lparr>sc_jobs := (sc_jobs s)(j := sc_jobs s j\<lparr>jb_parent := Some n\<rparr>)\<rparr>"
proof (cases r)
  case None
  then show ?thesis using finished [of "jb_parent (sc_jobs s j)"] assms by (simp add: attach_fence_def process_job_eq)
next
  case (Some x)
  obtain n k where x: "x = (n, k)" by (cases x)
  let ?s = "set_job j (\<lambda>jb. jb\<lparr>jb_parent := Some n\<rparr>) s"
  have f: "\<not> jb_finished (sc_jobs ?s j)" using assms by (simp add: set_job_def)
  consider "k = - 2" | "k = 0" | "k \<noteq> 0" "k \<noteq> - 2" by blast
  then show ?thesis
  proof cases
    case 1
    then show ?thesis
      by (intro finished [of "Some n"]) (simp add: Some x attach_fence_def process_job_eq [OF f] Let_def; simp add: set_job_def cong: if_cong)
  next
    case 2
    then show ?thesis using pending [of n] Some x by (simp add: attach_fence_def set_job_def Let_def)
  next
    case 3
    then show ?thesis using stuck [of n] Some x by (simp add: attach_fence_def set_job_def Let_def)
  qed
qed

lemma push_job_eq:
  assumes "amd_sched_entity_push_job j s = Some (True, s')" "e = jb_entity (sc_jobs s j)" "\<not> jb_finished (sc_jobs s j)"
    "en_rq (sc_entities s e) = Some q"
  shows "s' = (let s1 = s\<lparr>sc_finish_cbs := sc_finish_cbs s @ [j],
      sc_entities := (sc_entities s)(e := sc_entities s e\<lparr>en_queue := en_queue (sc_entities s e) @ [j]\<rparr>)\<rparr>
    in if en_queue (sc_entities s e) = [] then
      s1\<lparr>sched_rq := (sched_rq s)(q := amd_sched_rq_add_entity (sched_rq s q) e),
         sc_worker := (if amd_sched_ready s \<and> sc_worker s = Sleeping then Awake else sc_worker s)\<rparr>
      else s1)"
  using assms by (auto simp: amd_sched_entity_push_job_def amd_sched_entity_in_def set_entity_def Let_def wakeup_eq
    amd_sched_ready_def split: if_splits)

section \<open>The invariant\<close>

text \<open>The jobs of an entity that were not run yet: behind the submission the first one was.\<close>

definition pending :: "nat \<Rightarrow> amd_gpu_scheduler \<Rightarrow> nat list" where
  "pending e s = (if sc_worker s = Submitted e then tl (en_queue (sc_entities s e)) else en_queue (sc_entities s e))"

definition processing :: "(nat \<times> other_cb) list \<Rightarrow> nat list" where
  "processing cbs = List.map_filter (\<lambda>(n, c). case c of Process_job j \<Rightarrow> Some j | Wakeup e \<Rightarrow> None) cbs"

lemma processing_simps [simp]:
  "processing [] = []" "processing ((n, Wakeup e) # cs) = processing cs" "processing ((n, Process_job j) # cs) = j # processing cs"
  "processing (cs @ ds) = processing cs @ processing ds"
  by (simp_all add: processing_def List.map_filter_def)

lemma processing_iff: "j \<in> set (processing cs) \<longleftrightarrow> (\<exists>n. (n, Process_job j) \<in> set cs)"
proof (induction cs)
  case (Cons c cs)
  then show ?case by (cases c; cases "snd c") auto
qed simp

lemma processing_wakeup: "processing (remove1 (n, Wakeup e) cs) = processing cs"
proof (induction cs)
  case (Cons c cs)
  then show ?case by (cases c; cases "snd c") auto
qed simp

lemma processing_remove: "distinct (processing cs) \<Longrightarrow> (n, Process_job j) \<in> set cs \<Longrightarrow>
  processing (remove1 (n, Process_job j) cs) = remove1 j (processing cs)"
proof (induction cs)
  case (Cons c cs)
  then show ?case by (cases c; cases "snd c") (auto simp: processing_iff)
qed simp

text \<open>An entity with jobs is on the list of its run queue.\<close>

definition queue_inv :: "amd_gpu_scheduler \<Rightarrow> bool" where
  "queue_inv s \<longleftrightarrow>
     (\<forall>e. en_queue (sc_entities s e) \<noteq> [] \<longrightarrow>
        (\<exists>q < 2. en_rq (sc_entities s e) = Some q \<and> e \<in> set (rq_entities (sched_rq s q)))) \<and>
     (\<forall>q. rq_ok (sched_rq s q)) \<and>
     (\<forall>e. sc_worker s = Submitted e \<longrightarrow> en_queue (sc_entities s e) \<noteq> [])"

text \<open>No job is run twice, or queued twice; a fence with the callback of a job belongs to a running job.\<close>

definition jobs_inv :: "amd_gpu_scheduler \<Rightarrow> bool" where
  "jobs_inv s \<longleftrightarrow> distinct (sc_ran s) \<and> (\<forall>e. distinct (pending e s)) \<and>
     (\<forall>e. \<forall>i \<in> set (pending e s). i \<notin> set (sc_ran s)) \<and>
     (\<forall>e. \<forall>i \<in> set (en_queue (sc_entities s e)). jb_entity (sc_jobs s i) = e) \<and>
     (\<forall>i. jb_finished (sc_jobs s i) \<or> jb_scheduled (sc_jobs s i) \<longrightarrow> i \<in> set (sc_ran s)) \<and>
     distinct (processing (sc_other_cbs s)) \<and>
     (\<forall>i \<in> set (processing (sc_other_cbs s)). i \<in> set (sc_ran s) \<and> \<not> jb_finished (sc_jobs s i))"

text \<open>The jobs that the hardware works on, and their number.\<close>

definition in_flight :: "amd_gpu_scheduler \<Rightarrow> nat list" where
  "in_flight s = filter (\<lambda>i. \<not> jb_finished (sc_jobs s i)) (sc_ran s)"

definition count_inv :: "amd_gpu_scheduler \<Rightarrow> bool" where
  "count_inv s \<longleftrightarrow> unat (hw_rq_count s) = length (in_flight s) \<and> length (in_flight s) \<le> unat (hw_submission_limit s)"

text \<open>The mirror list holds every job in flight, and the first job of it has its timer running.\<close>

definition mirror_inv :: "amd_gpu_scheduler \<Rightarrow> bool" where
  "mirror_inv s \<longleftrightarrow> distinct (ring_mirror_list s) \<and> set (ring_mirror_list s) \<subseteq> set (sc_ran s) \<and>
     set (in_flight s) \<subseteq> set (ring_mirror_list s) \<and>
     (\<forall>i. jb_finish_work (sc_jobs s i) \<longrightarrow> jb_finished (sc_jobs s i)) \<and>
     (sc_timeout s \<noteq> max_schedule_timeout \<longrightarrow> ring_mirror_list s \<noteq> [] \<longrightarrow> hd (ring_mirror_list s) \<in> set (sc_tdr s))"

text \<open>The worker sleeps only while it has nothing to do.\<close>

definition wake_inv :: "amd_gpu_scheduler \<Rightarrow> bool" where
  "wake_inv s \<longleftrightarrow> (sc_worker s = Sleeping \<longrightarrow> amd_sched_ready s \<longrightarrow>
     (\<forall>q < 2. \<forall>e \<in> set (rq_entities (sched_rq s q)). \<not> amd_sched_entity_is_ready e s))"

text \<open>An entity that waits has a callback on the fence it waits for.\<close>

fun has_cb :: "nat \<Rightarrow> (nat \<times> nat) list \<Rightarrow> (nat \<times> other_cb) list \<Rightarrow> sfence \<Rightarrow> bool" where
  "has_cb e clear other (Scheduled j) = ((j, e) \<in> set clear)"
| "has_cb e clear other (Finished j) = False"
| "has_cb e clear other (Other n c) = ((n, Wakeup e) \<in> set other)"

lemma has_cb_append [simp]:
  "has_cb e clear other d \<Longrightarrow> has_cb e (clear @ clear') other d" "has_cb e clear other d \<Longrightarrow> has_cb e clear (other @ other') d"
  by (cases d; simp)+

definition dep_inv :: "amd_gpu_scheduler \<Rightarrow> bool" where
  "dep_inv s \<longleftrightarrow> (\<forall>e d. en_dependency (sc_entities s e) = Some d \<longrightarrow> has_cb e (sc_clear_cbs s) (sc_other_cbs s) d) \<and>
     (\<forall>j e. (j, e) \<in> set (sc_clear_cbs s) \<longrightarrow> \<not> jb_scheduled (sc_jobs s j))"

definition sched_inv :: "amd_gpu_scheduler \<Rightarrow> bool" where
  "sched_inv s \<longleftrightarrow> queue_inv s \<and> jobs_inv s \<and> count_inv s \<and> mirror_inv s \<and> wake_inv s \<and> dep_inv s"

lemmas inv_defs = queue_inv_def jobs_inv_def count_inv_def in_flight_def mirror_inv_def wake_inv_def dep_inv_def pending_def
  amd_sched_entity_is_ready_def amd_sched_ready_def

lemma sched_start_inv: "sched_inv (sched_start limit timeout)"
  by (simp add: sched_inv_def inv_defs sched_start_def amd_sched_init_def amd_sched_rq_init_def rq_ok_def)

subsection \<open>The worker's turn keeps the invariant\<close>

lemma moved_inv:
  assumes "moved s s'" "sched_inv s"
  shows "sched_inv s'"
proof -
  obtain rqs where s': "s' = s\<lparr>sched_rq := rqs\<rparr>" and e: "\<forall>q. rq_entities (rqs q) = rq_entities (sched_rq s q)"
    and k: "\<forall>q. rq_ok (sched_rq s q) \<longrightarrow> rq_ok (rqs q)" using assms(1) by (auto simp: moved_def)
  have "queue_inv s'" using assms(2) k by (simp add: sched_inv_def queue_inv_def s' e)
  moreover have "jobs_inv s' = jobs_inv s" "count_inv s' = count_inv s" "mirror_inv s' = mirror_inv s" "dep_inv s' = dep_inv s"
    by (simp_all add: jobs_inv_def count_inv_def mirror_inv_def dep_inv_def in_flight_def pending_def s')
  moreover have "wake_inv s' = wake_inv s"
    by (simp add: wake_inv_def amd_sched_ready_def amd_sched_entity_is_ready_def s' e)
  ultimately show ?thesis using assms(2) by (simp add: sched_inv_def)
qed

lemma blocked_inv:
  assumes "sched_inv s" "waits e d clear other s" "sc_worker s = Awake"
  shows "sched_inv (blocked e d clear other s)"
proof -
  let ?s = "blocked e d clear other s"
  have p: "processing other = []" using assms(2) by (auto simp: waits_def)
  have q: "queue_inv ?s" "count_inv ?s" "mirror_inv ?s" "wake_inv ?s"
    using assms(1,3) by (simp_all add: sched_inv_def inv_defs blocked_def set_entity_def)
  have "jobs_inv ?s" using assms(1,3) by (simp add: sched_inv_def jobs_inv_def pending_def blocked_def set_entity_def p)
  moreover have "dep_inv ?s" using assms(1,2) by (auto simp: sched_inv_def dep_inv_def blocked_def set_entity_def waits_def)
  ultimately show ?thesis using q by (simp add: sched_inv_def)
qed


lemma submitted_inv:
  assumes inv: "sched_inv s" and q: "en_queue (sc_entities s e) = j # js" and rd: "amd_sched_ready s" and w: "sc_worker s = Awake"
  shows "sched_inv (submitted e j s)" "j \<in> set (sc_ran (submitted e j s))" "\<not> jb_finished (sc_jobs (submitted e j s) j)"
    "j \<notin> set (processing (sc_other_cbs (submitted e j s)))" "sc_worker (submitted e j s) = Submitted e"
proof -
  have jo: "jobs_inv s" using inv by (simp add: sched_inv_def)
  have "j \<in> set (pending e s)" using q w by (simp add: pending_def)
  then have new: "j \<notin> set (sc_ran s)" using jo by (auto simp: jobs_inv_def)
  then have ns: "\<not> jb_scheduled (sc_jobs s j)" "\<not> jb_finished (sc_jobs s j)" "j \<notin> set (processing (sc_other_cbs s))"
    using jo by (auto simp: jobs_inv_def)
  note eq = submitted_eq [OF ns(1), of e]
  let ?t = "submitted e j s"
  have [simp]: "en_queue (sc_entities ?t x) = en_queue (sc_entities s x)" "en_rq (sc_entities ?t x) = en_rq (sc_entities s x)"
    "jb_finished (sc_jobs ?t i) = jb_finished (sc_jobs s i)" "jb_entity (sc_jobs ?t i) = jb_entity (sc_jobs s i)"
    "jb_finish_work (sc_jobs ?t i) = jb_finish_work (sc_jobs s i)"
    "jb_scheduled (sc_jobs ?t i) = (i = j \<or> jb_scheduled (sc_jobs s i))" for x i by (simp_all add: eq)
  have [simp]: "sched_rq ?t = sched_rq s" "sc_worker ?t = Submitted e" "sc_ran ?t = sc_ran s @ [j]" "sc_other_cbs ?t = sc_other_cbs s"
    "hw_rq_count ?t = hw_rq_count s + 1" "hw_submission_limit ?t = hw_submission_limit s" "sc_timeout ?t = sc_timeout s"
    "ring_mirror_list ?t = ring_mirror_list s @ [j]" by (simp_all add: eq)
  show "j \<in> set (sc_ran ?t)" "\<not> jb_finished (sc_jobs ?t j)" "j \<notin> set (processing (sc_other_cbs ?t))" "sc_worker ?t = Submitted e"
    using ns by simp_all
  have own: "jb_entity (sc_jobs s i) = x" if "i \<in> set (en_queue (sc_entities s x))" for i x using jo that by (simp add: jobs_inv_def)
  have "queue_inv ?t" using inv q by (auto simp: sched_inv_def queue_inv_def)
  moreover have "jobs_inv ?t"
  proof -
    have p: "pending x ?t = (if x = e then js else pending x s)" for x using q w by (auto simp: pending_def)
    have pe: "pending e s = j # js" using q w by (simp add: pending_def)
    have d: "\<forall>x. distinct (pending x s)" "\<forall>x. \<forall>i \<in> set (pending x s). i \<notin> set (sc_ran s)" using jo by (simp_all add: jobs_inv_def)
    have d1: "\<forall>x. distinct (pending x ?t)" using d(1) pe by (auto simp: p dest: spec [of _ e])
    have "i \<noteq> j" if "i \<in> set (pending x ?t)" for x i
    proof (cases "x = e")
      case True
      then show ?thesis using that d(1) pe by (auto simp: p dest: spec [of _ e])
    next
      case False
      then have "i \<in> set (en_queue (sc_entities s x))" using that w by (simp add: p pending_def)
      then show ?thesis using own [of i x] own [of j e] q False by auto
    qed
    moreover have "i \<notin> set (sc_ran s)" if "i \<in> set (pending x ?t)" for x i 
      using that d(2) [rule_format, of i x] pe by (cases "x = e") (simp_all add: p)
    ultimately have d2: "\<forall>x. \<forall>i \<in> set (pending x ?t). i \<notin> set (sc_ran ?t)" by auto
    show ?thesis using jo new d1 d2 unfolding jobs_inv_def by auto
  qed
  moreover have f: "in_flight ?t = in_flight s @ [j]" using ns by (simp add: in_flight_def)
  have lt: "unat (hw_rq_count s) < unat (hw_submission_limit s)" using rd by (simp add: amd_sched_ready_def word_less_nat_alt)
  then have "unat (hw_rq_count s + 1) = unat (hw_rq_count s) + 1"
    using unat_lt_len [of "hw_submission_limit s"] by (subst unat_add_small) simp_all
  then have "count_inv ?t" using inv lt by (simp add: sched_inv_def count_inv_def f)
  moreover have "mirror_inv ?t"
    using inv new unfolding sched_inv_def mirror_inv_def f by (cases "ring_mirror_list s") (auto simp: eq)
  moreover have "wake_inv ?t" by (simp add: wake_inv_def)
  moreover have "has_cb x (sc_clear_cbs ?t) (sc_other_cbs ?t) d" if "en_dependency (sc_entities ?t x) = Some d" for x d
  proof -
    have "en_dependency (sc_entities s x) = Some d" "(j, x) \<notin> set (sc_clear_cbs s)" using that by (simp_all add: eq split: if_splits)
    moreover from this(1) have "has_cb x (sc_clear_cbs s) (sc_other_cbs s) d" using inv by (simp add: sched_inv_def dep_inv_def)
    ultimately show ?thesis by (cases d) (auto simp: eq)
  qed
  then have "dep_inv ?t" using inv by (auto simp: sched_inv_def dep_inv_def) (auto simp: eq)
  ultimately show "sched_inv ?t" by (simp add: sched_inv_def)
qed

lemma is_ready_iff: "amd_sched_entity_is_ready e s \<longleftrightarrow> en_queue (sc_entities s e) \<noteq> [] \<and> en_dependency (sc_entities s e) = None"
  by (simp add: amd_sched_entity_is_ready_def)

text \<open>A job completes: its callback is gone from the fences and its fence is marked.\<close>

definition completed :: "nat \<Rightarrow> nat option \<Rightarrow> (nat \<times> other_cb) list \<Rightarrow> amd_gpu_scheduler \<Rightarrow> amd_gpu_scheduler" where
  "completed j p cbs s = s\<lparr>hw_rq_count := hw_rq_count s - 1,
     sc_jobs := (sc_jobs s)(j := sc_jobs s j\<lparr>jb_parent := p, jb_finished := True,
       jb_finish_work := jb_finish_work (sc_jobs s j) \<or> j \<in> set (sc_finish_cbs s)\<rparr>),
     sc_finish_cbs := filter (\<lambda>i. i \<noteq> j) (sc_finish_cbs s), sc_other_cbs := cbs,
     sc_worker := (if sc_worker s = Sleeping then Awake else sc_worker s)\<rparr>"

lemma length_filter_neq: "distinct xs \<Longrightarrow> j \<in> set xs \<Longrightarrow> length (filter (\<lambda>i. i \<noteq> j) xs) = length xs - 1"
  using distinct_remove1_removeAll [of xs j] length_remove1 [of j xs] by (simp add: removeAll_filter_not_eq eq_commute)

lemma completed_inv:
  assumes inv: "sched_inv s" and j: "j \<in> set (sc_ran s)" "\<not> jb_finished (sc_jobs s j)"
    and cbs: "distinct (processing cbs)" "set (processing cbs) \<subseteq> set (processing (sc_other_cbs s)) - {j}"
      "\<And>n e. (n, Wakeup e) \<in> set (sc_other_cbs s) \<Longrightarrow> (n, Wakeup e) \<in> set cbs"
  shows "sched_inv (completed j p cbs s)"
proof -
  let ?t = "completed j p cbs s"
  have [simp]: "jb_finished (sc_jobs ?t i) = (i = j \<or> jb_finished (sc_jobs s i))" "jb_entity (sc_jobs ?t i) = jb_entity (sc_jobs s i)"
    "jb_scheduled (sc_jobs ?t i) = jb_scheduled (sc_jobs s i)" for i by (simp_all add: completed_def)
  have [simp]: "sched_rq ?t = sched_rq s" "sc_ran ?t = sc_ran s" "sc_other_cbs ?t = cbs" "sc_entities ?t = sc_entities s"
    "hw_submission_limit ?t = hw_submission_limit s" "sc_timeout ?t = sc_timeout s" "ring_mirror_list ?t = ring_mirror_list s"
    "sc_clear_cbs ?t = sc_clear_cbs s" "sc_tdr ?t = sc_tdr s" by (simp_all add: completed_def)
  have w: "sc_worker ?t = Submitted e \<longleftrightarrow> sc_worker s = Submitted e" "sc_worker ?t \<noteq> Sleeping" for e by (auto simp: completed_def)
  have pe: "pending e ?t = pending e s" for e by (simp add: pending_def w)
  have jo: "jobs_inv s" and ci: "count_inv s" using inv by (simp_all add: sched_inv_def)
  have f: "in_flight ?t = filter (\<lambda>i. i \<noteq> j) (in_flight s)" by (auto simp: in_flight_def intro: filter_cong)
  have jf: "j \<in> set (in_flight s)" "distinct (in_flight s)" using j jo by (simp_all add: in_flight_def jobs_inv_def)
  note len = length_filter_neq [OF jf(2,1)]
  have "queue_inv ?t" using inv by (simp add: sched_inv_def queue_inv_def w)
  moreover have "jobs_inv ?t" using jo j cbs(1,2) by (simp add: jobs_inv_def pe) blast
  moreover have pos: "0 < length (in_flight s)" using jf(1) by (cases "in_flight s") auto
  then have "hw_rq_count s \<noteq> 0" using ci by (auto simp: count_inv_def)
  then have "unat (hw_rq_count s - 1) = unat (hw_rq_count s) - 1" by (simp add: unat_minus_one)
  then have "count_inv ?t" using ci len unfolding count_inv_def f by (auto simp: completed_def)
  moreover have "mirror_inv ?t"
    using inv unfolding sched_inv_def mirror_inv_def f by (auto simp: completed_def split: if_splits)
  moreover have "wake_inv ?t" using w by (simp add: wake_inv_def)
  moreover have "has_cb e (sc_clear_cbs s) cbs d" if "has_cb e (sc_clear_cbs s) (sc_other_cbs s) d" for e d
    using that cbs(3) by (cases d) auto
  then have "dep_inv ?t" using inv by (simp add: sched_inv_def dep_inv_def)
  ultimately show ?thesis by (simp add: sched_inv_def)
qed

lemma attach_inv:
  assumes inv: "sched_inv s" and j: "j \<in> set (sc_ran s)" "\<not> jb_finished (sc_jobs s j)"
    and np: "j \<notin> set (processing (sc_other_cbs s))" "sc_worker s \<noteq> Sleeping"
  shows "sched_inv (attach_fence j r s)"
  using j(2)
proof (cases rule: attach_cases [of s j r])
  case (finished p)
  then have "attach_fence j r s = completed j p (sc_other_cbs s) s" by (simp add: completed_def)
  moreover have "sched_inv (completed j p (sc_other_cbs s) s)"
    using inv np by (intro completed_inv [OF inv j]) (auto simp: sched_inv_def jobs_inv_def)
  ultimately show ?thesis by simp
next
  case (pending n)
  let ?t = "s\<lparr>sc_jobs := (sc_jobs s)(j := sc_jobs s j\<lparr>jb_parent := Some n\<rparr>), sc_other_cbs := sc_other_cbs s @ [(n, Process_job j)]\<rparr>"
  have [simp]: "jb_finished (((sc_jobs s)(j := sc_jobs s j\<lparr>jb_parent := Some n\<rparr>)) i) = jb_finished (sc_jobs s i)" "jb_entity (((sc_jobs s)(j := sc_jobs s j\<lparr>jb_parent := Some n\<rparr>)) i) = jb_entity (sc_jobs s i)"
    "jb_scheduled (((sc_jobs s)(j := sc_jobs s j\<lparr>jb_parent := Some n\<rparr>)) i) = jb_scheduled (sc_jobs s i)" "jb_finish_work (((sc_jobs s)(j := sc_jobs s j\<lparr>jb_parent := Some n\<rparr>)) i) = jb_finish_work (sc_jobs s i)" for i by simp_all
  have pe: "Sched_Inv.pending e ?t = Sched_Inv.pending e s" for e by (simp add: pending_def)
  have "jobs_inv ?t" using inv j np by (simp add: sched_inv_def jobs_inv_def pe del: fun_upd_apply)
  moreover have "queue_inv ?t" "count_inv ?t" "mirror_inv ?t" "wake_inv ?t" "dep_inv ?t"
    using inv np by (simp_all add: sched_inv_def queue_inv_def count_inv_def in_flight_def mirror_inv_def wake_inv_def dep_inv_def del: fun_upd_apply)
  ultimately show ?thesis using pending by (simp add: sched_inv_def)
next
  case (stuck n)
  let ?t = "s\<lparr>sc_jobs := (sc_jobs s)(j := sc_jobs s j\<lparr>jb_parent := Some n\<rparr>)\<rparr>"
  have [simp]: "jb_finished (((sc_jobs s)(j := sc_jobs s j\<lparr>jb_parent := Some n\<rparr>)) i) = jb_finished (sc_jobs s i)" "jb_entity (((sc_jobs s)(j := sc_jobs s j\<lparr>jb_parent := Some n\<rparr>)) i) = jb_entity (sc_jobs s i)"
    "jb_scheduled (((sc_jobs s)(j := sc_jobs s j\<lparr>jb_parent := Some n\<rparr>)) i) = jb_scheduled (sc_jobs s i)" "jb_finish_work (((sc_jobs s)(j := sc_jobs s j\<lparr>jb_parent := Some n\<rparr>)) i) = jb_finish_work (sc_jobs s i)" for i by simp_all
  have pe: "Sched_Inv.pending e ?t = Sched_Inv.pending e s" for e by (simp add: pending_def)
  have "jobs_inv ?t" "queue_inv ?t" "count_inv ?t" "mirror_inv ?t" "wake_inv ?t" "dep_inv ?t"
    using inv np by (simp_all add: sched_inv_def jobs_inv_def pe queue_inv_def count_inv_def in_flight_def mirror_inv_def
      wake_inv_def dep_inv_def del: fun_upd_apply)
  then show ?thesis using stuck by (simp add: sched_inv_def)
qed


lemma submit_inv:
  assumes inv: "sched_inv s" and w: "sc_worker s = Awake"
  shows "sched_inv (main_submit deps run_job s)"
proof (cases rule: main_submit_cases [of deps run_job s])
  case (sleeps s1)
  have i1: "sched_inv s1" by (rule moved_inv [OF sleeps(2) inv])
  have rd: "amd_sched_ready s1 = amd_sched_ready s" "rq_entities (sched_rq s1 q) = rq_entities (sched_rq s q)" for q
    using sleeps(2) by (auto simp: moved_def amd_sched_ready_def)
  have w1: "sc_worker s1 = Awake" using sleeps(2) w by (auto simp: moved_def)
  let ?t = "s1\<lparr>sc_worker := Sleeping\<rparr>"
  have "wake_inv ?t"
    using sleeps(3) rd is_ready_moved [OF sleeps(2)] by (simp add: wake_inv_def amd_sched_ready_def is_ready_iff)
  moreover have "pending e ?t = pending e s1" for e using w1 by (simp add: pending_def)
  then have "jobs_inv ?t" using i1 by (simp add: sched_inv_def jobs_inv_def)
  moreover have "queue_inv ?t" "count_inv ?t" "mirror_inv ?t" "dep_inv ?t"
    using i1 by (simp_all add: sched_inv_def queue_inv_def count_inv_def in_flight_def mirror_inv_def dep_inv_def)
  ultimately show ?thesis using sleeps(1) by (simp add: sched_inv_def)
next
  case (blocks s1 e d clear other)
  have "waits e d clear other s1" "sc_worker s1 = Awake" using blocks(2,3) w by (auto simp: moved_def waits_def)
  then show ?thesis using blocked_inv [OF moved_inv [OF blocks(2) inv]] blocks(1) by simp
next
  case (submits s1 e j js)
  have "en_queue (sc_entities s1 e) = j # js" "amd_sched_ready s1" "sc_worker s1 = Awake"
    using submits(2-4) w by (auto simp: moved_def amd_sched_ready_def)
  note ok = submitted_inv [OF moved_inv [OF submits(2) inv] this]
  have "sched_inv (attach_fence j (run_job j) (submitted e j s1))" by (rule attach_inv [OF ok(1-4)]) (simp add: ok(5))
  then show ?thesis using submits(1) by simp
qed

subsection \<open>The other steps keep the invariant\<close>

lemma entity_init_inv:
  assumes inv: "sched_inv s" and u: "unused_entity e s" and i: "amd_sched_entity_init (Some e) (Some q) kfifo ctx s = (r, s')"
  shows "sched_inv s'"
proof -
  obtain en where s': "s' = s\<lparr>sc_entities := (sc_entities s)(e := en)\<rparr>" and en: "en_queue en = []" "en_dependency en = None"
    using i by (auto simp: amd_sched_entity_init_def set_entity_def Let_def split: if_splits)
  have qe: "en_queue (((sc_entities s)(e := en)) x) = en_queue (sc_entities s x)" for x using en(1) u by (simp add: unused_entity_def)
  then have "pending x s' = pending x s" for x by (simp add: pending_def s' del: fun_upd_apply)
  then have "jobs_inv s'" using inv by (simp add: sched_inv_def jobs_inv_def) (simp add: s' qe del: fun_upd_apply)
  moreover have "queue_inv s'" using inv u en(1) by (auto simp: sched_inv_def queue_inv_def s' unused_entity_def)
  moreover have "count_inv s'" "mirror_inv s'" using inv by (simp_all add: sched_inv_def count_inv_def in_flight_def mirror_inv_def s')
  moreover have "wake_inv s'" using inv u
    by (auto simp: sched_inv_def wake_inv_def amd_sched_ready_def is_ready_iff s' unused_entity_def)
  moreover have "dep_inv s'" using inv en(2) by (simp add: sched_inv_def dep_inv_def s')
  ultimately show ?thesis by (simp add: sched_inv_def)
qed

lemma job_init_inv:
  assumes inv: "sched_inv s" and u: "fresh_job j s" and i: "amd_sched_job_init ok j e s = (r, s')"
  shows "sched_inv s'"
proof -
  have nf: "\<not> jb_finished (sc_jobs s j)" "\<not> jb_scheduled (sc_jobs s j)" "\<not> jb_finish_work (sc_jobs s j)"
    using inv u by (auto simp: sched_inv_def jobs_inv_def mirror_inv_def fresh_job_def)
  obtain jb sq where s': "s' = s\<lparr>sc_entities := (sc_entities s)(e := sc_entities s e\<lparr>en_fence_seq := sq\<rparr>), sc_jobs := (sc_jobs s)(j := jb)\<rparr>"
    and jb: "\<not> jb_finished jb" "\<not> jb_scheduled jb" "\<not> jb_finish_work jb"
  proof (cases ok)
    case True
    then show ?thesis using that i
      by (simp add: amd_sched_job_init_def amd_sched_fence_create_def set_entity_def set_job_def Let_def)
        (metis amd_sched_job.select_convs(4,5,7))
  next
    case False
    then have "s' = s\<lparr>sc_entities := (sc_entities s)(e := sc_entities s e\<lparr>en_fence_seq := en_fence_seq (sc_entities s e)\<rparr>),
      sc_jobs := (sc_jobs s)(j := sc_jobs s j\<lparr>jb_entity := e\<rparr>)\<rparr>"
      using i by (simp add: amd_sched_job_init_def amd_sched_fence_create_def set_job_def)
    then show ?thesis by (rule that) (simp_all add: nf)
  qed
  let ?E = "(sc_entities s)(e := sc_entities s e\<lparr>en_fence_seq := sq\<rparr>)"
  let ?J = "(sc_jobs s)(j := jb)"
  have E: "en_queue (?E x) = en_queue (sc_entities s x)" "en_rq (?E x) = en_rq (sc_entities s x)"
    "en_dependency (?E x) = en_dependency (sc_entities s x)" for x by simp_all
  have J: "jb_finished (?J i) = jb_finished (sc_jobs s i)" "jb_scheduled (?J i) = jb_scheduled (sc_jobs s i)"
    "jb_finish_work (?J i) = jb_finish_work (sc_jobs s i)" for i using jb nf by simp_all
  have pe: "pending x s' = pending x s" for x by (simp add: pending_def s' E del: fun_upd_apply)
  have own: "jb_entity (?J i) = x" if "i \<in> set (en_queue (sc_entities s x))" for i x
    using inv u that by (auto simp: sched_inv_def jobs_inv_def fresh_job_def)
  have "jobs_inv s'" using inv own by (simp add: sched_inv_def jobs_inv_def pe del: fun_upd_apply) (simp add: s' E J del: fun_upd_apply)
  moreover have "queue_inv s'" "count_inv s'" "mirror_inv s'" "wake_inv s'" "dep_inv s'"
    using inv by (simp_all add: sched_inv_def queue_inv_def count_inv_def in_flight_def mirror_inv_def wake_inv_def dep_inv_def
      amd_sched_ready_def is_ready_iff s' E J del: fun_upd_apply)
  ultimately show ?thesis by (simp add: sched_inv_def)
qed


lemma rq_add_ok: "rq_ok rq \<Longrightarrow> rq_ok (amd_sched_rq_add_entity rq e)" "set (rq_entities (amd_sched_rq_add_entity rq e)) = insert e (set (rq_entities rq))"
  by (auto simp: rq_ok_def amd_sched_rq_add_entity_def)

lemma rq_remove_ok: "rq_ok rq \<Longrightarrow> rq_ok (amd_sched_rq_remove_entity rq e)" "set (rq_entities (amd_sched_rq_remove_entity rq e)) = set (rq_entities rq) - {e}"
  by (auto simp: rq_ok_def amd_sched_rq_remove_entity_def)

lemma push_inv:
  assumes inv: "sched_inv s" and u: "fresh_job j s" and q: "en_rq (sc_entities s (jb_entity (sc_jobs s j))) = Some q" "q < 2"
    and p: "amd_sched_entity_push_job j s = Some (True, s')"
  shows "sched_inv s'"
proof -
  let ?e = "jb_entity (sc_jobs s j)"
  let ?E = "(sc_entities s)(?e := sc_entities s ?e\<lparr>en_queue := en_queue (sc_entities s ?e) @ [j]\<rparr>)"
  have nf: "\<not> jb_finished (sc_jobs s j)" using inv u by (auto simp: sched_inv_def jobs_inv_def fresh_job_def)
  note eq = push_job_eq [OF p refl nf q(1), unfolded Let_def]
  have same: "sc_entities s' = ?E" "sc_jobs s' = sc_jobs s" "sc_ran s' = sc_ran s" "sc_other_cbs s' = sc_other_cbs s" "sc_clear_cbs s' = sc_clear_cbs s"
    "hw_rq_count s' = hw_rq_count s" "hw_submission_limit s' = hw_submission_limit s" "sc_timeout s' = sc_timeout s"
    "ring_mirror_list s' = ring_mirror_list s" "sc_tdr s' = sc_tdr s" by (simp_all add: eq)
  have w: "sc_worker s' = Submitted x \<longleftrightarrow> sc_worker s = Submitted x" for x by (auto simp: eq)
  have rqs: "rq_ok (sched_rq s' x)" "set (rq_entities (sched_rq s x)) \<subseteq> set (rq_entities (sched_rq s' x))" for x
    using inv by (auto simp: eq sched_inv_def queue_inv_def rq_add_ok)
  have qi: "queue_inv s" and jo: "jobs_inv s" using inv by (simp_all add: sched_inv_def)
  have E: "en_rq (?E x) = en_rq (sc_entities s x)" "en_dependency (?E x) = en_dependency (sc_entities s x)" for x by simp_all
  have "queue_inv s'"
  proof -
    have "\<exists>r < 2. en_rq (sc_entities s' x) = Some r \<and> x \<in> set (rq_entities (sched_rq s' r))" if "en_queue (sc_entities s' x) \<noteq> []" for x
    proof (cases "en_queue (sc_entities s x) = []")
      case True
      then have "x = ?e" using that by (auto simp: same split: if_splits)
      then show ?thesis using True q by (auto simp: eq rq_add_ok)
    next
      case False
      then obtain r where "r < 2" "en_rq (sc_entities s x) = Some r" "x \<in> set (rq_entities (sched_rq s r))"
        using qi by (auto simp: queue_inv_def)
      then show ?thesis using rqs(2) by (auto simp: same)
    qed
    then show ?thesis using qi rqs(1) by (simp add: queue_inv_def w) (simp add: same)
  qed
  moreover have "jobs_inv s'"
  proof -
    have pe: "pending x s' = (if x = ?e then pending x s @ [j] else pending x s)" for x
      using qi by (auto simp: pending_def w same queue_inv_def)
    have sub: "set (pending x s) \<subseteq> set (en_queue (sc_entities s x))" for x
      by (auto simp: pending_def dest: list.set_sel(2) [rotated]) (metis list.set_sel(2) tl_Nil)
    have "j \<notin> set (pending x s)" for x using sub u by (auto simp: fresh_job_def)
    moreover have "jb_entity (sc_jobs s i) = x" if "i \<in> set (en_queue (sc_entities s' x))" for i x
      using jo that by (auto simp: jobs_inv_def same split: if_splits)
    ultimately show ?thesis using jo u by (simp add: jobs_inv_def pe fresh_job_def same(2-4))
  qed
  moreover have "count_inv s'" "mirror_inv s'" using inv by (simp_all add: sched_inv_def count_inv_def in_flight_def mirror_inv_def same)
  moreover have "dep_inv s'" using inv by (simp add: sched_inv_def dep_inv_def same E del: fun_upd_apply)
  moreover have "wake_inv s'"
  proof (cases "en_queue (sc_entities s ?e) = []")
    case True
    then show ?thesis using inv by (auto simp: eq wake_inv_def amd_sched_ready_def)
  next
    case False
    then have "amd_sched_entity_is_ready x s' = amd_sched_entity_is_ready x s" for x by (auto simp: is_ready_iff same)
    then show ?thesis using inv False by (simp add: sched_inv_def wake_inv_def amd_sched_ready_def) (simp add: eq)
  qed
  ultimately show ?thesis by (simp add: sched_inv_def)
qed

lemma out_inv:
  assumes inv: "sched_inv s" and w: "sc_worker s = Submitted e"
  shows "sched_inv (main_out e s)"
proof -
  let ?E = "(sc_entities s)(e := sc_entities s e\<lparr>en_queue := tl (en_queue (sc_entities s e))\<rparr>)"
  have eq: "main_out e s = s\<lparr>sc_entities := ?E, sc_worker := Awake\<rparr>" by (simp add: main_out_def set_entity_def)
  have E: "en_rq (?E x) = en_rq (sc_entities s x)" "en_dependency (?E x) = en_dependency (sc_entities s x)" for x by simp_all
  have pe: "pending x (main_out e s) = pending x s" for x using w by (auto simp: pending_def eq)
  have jo: "jobs_inv s" using inv by (simp add: sched_inv_def)
  have "jb_entity (sc_jobs s i) = x" if "i \<in> set (en_queue (?E x))" for i x
    using jo that list.set_sel(2) [of "en_queue (sc_entities s e)" i]
    by (auto simp: jobs_inv_def split: if_splits) (metis list.sel(2))
  then have "jobs_inv (main_out e s)" using jo by (simp add: jobs_inv_def pe del: fun_upd_apply) (simp add: eq del: fun_upd_apply)
  moreover have "queue_inv (main_out e s)"
    using inv w by (cases "en_queue (sc_entities s e)") (auto simp: sched_inv_def queue_inv_def eq)
  moreover have "count_inv (main_out e s)" "mirror_inv (main_out e s)" "wake_inv (main_out e s)" "dep_inv (main_out e s)"
    using inv by (simp_all add: sched_inv_def count_inv_def in_flight_def mirror_inv_def wake_inv_def dep_inv_def eq E del: fun_upd_apply)
  ultimately show ?thesis by (simp add: sched_inv_def)
qed


lemma wakeup_inv:
  assumes inv: "sched_inv s" and cb: "(n, Wakeup e) \<in> set (sc_other_cbs s)"
  shows "sched_inv (amd_sched_entity_wakeup e (s\<lparr>sc_other_cbs := remove1 (n, Wakeup e) (sc_other_cbs s)\<rparr>))" (is "sched_inv ?t")
proof -
  let ?E = "(sc_entities s)(e := sc_entities s e\<lparr>en_dependency := None\<rparr>)"
  have eq: "?t = s\<lparr>sc_other_cbs := remove1 (n, Wakeup e) (sc_other_cbs s), sc_entities := ?E,
      sc_worker := (if amd_sched_ready s \<and> sc_worker s = Sleeping then Awake else sc_worker s)\<rparr>"
    by (simp add: amd_sched_entity_wakeup_def set_entity_def wakeup_eq amd_sched_ready_def)
  have w: "sc_worker ?t = Submitted x \<longleftrightarrow> sc_worker s = Submitted x" for x by (auto simp: eq)
  have E: "en_queue (?E x) = en_queue (sc_entities s x)" "en_rq (?E x) = en_rq (sc_entities s x)" for x by simp_all
  have pe: "pending x ?t = pending x s" for x by (simp add: pending_def w) (simp add: eq)
  have "jobs_inv ?t" using inv by (simp add: sched_inv_def jobs_inv_def pe) (simp add: eq processing_wakeup)
  moreover have "queue_inv ?t" using inv by (simp add: sched_inv_def queue_inv_def w) (simp add: eq)
  moreover have "count_inv ?t" "mirror_inv ?t" using inv by (simp_all add: sched_inv_def count_inv_def in_flight_def mirror_inv_def eq)
  moreover have "wake_inv ?t" using inv by (auto simp: wake_inv_def eq amd_sched_ready_def)
  moreover have "has_cb x (sc_clear_cbs s) (remove1 (n, Wakeup e) (sc_other_cbs s)) d"
    if "has_cb x (sc_clear_cbs s) (sc_other_cbs s) d" "x \<noteq> e" for x d
    using that by (cases d) auto
  then have "dep_inv ?t" using inv by (auto simp: sched_inv_def dep_inv_def eq)
  ultimately show ?thesis by (simp add: sched_inv_def)
qed

lemma process_inv:
  assumes inv: "sched_inv s" and cb: "(n, Process_job j) \<in> set (sc_other_cbs s)"
  shows "sched_inv (amd_sched_process_job j (s\<lparr>sc_other_cbs := remove1 (n, Process_job j) (sc_other_cbs s)\<rparr>))"
proof -
  let ?cbs = "remove1 (n, Process_job j) (sc_other_cbs s)"
  have jo: "jobs_inv s" using inv by (simp add: sched_inv_def)
  then have d: "distinct (processing (sc_other_cbs s))" by (simp add: jobs_inv_def)
  have j: "j \<in> set (sc_ran s)" "\<not> jb_finished (sc_jobs s j)" using jo cb by (auto simp: jobs_inv_def processing_iff)
  have "amd_sched_process_job j (s\<lparr>sc_other_cbs := ?cbs\<rparr>) = completed j (jb_parent (sc_jobs s j)) ?cbs s"
    using j(2) by (simp add: process_job_eq completed_def)
  moreover have "sched_inv (completed j (jb_parent (sc_jobs s j)) ?cbs s)"
    using d by (intro completed_inv [OF inv j]) (auto simp: processing_remove [OF d cb] dest: in_set_remove1)
  ultimately show ?thesis by simp
qed

lemma finish_inv:
  assumes inv: "sched_inv s" and f: "jb_finish_work (sc_jobs s j)"
  shows "sched_inv (amd_sched_job_finish j s)" (is "sched_inv ?t")
proof -
  let ?J = "(sc_jobs s)(j := sc_jobs s j\<lparr>jb_finish_work := False\<rparr>)"
  let ?m = "filter (\<lambda>i. i \<noteq> j) (ring_mirror_list s)"
  obtain tdr where eq: "?t = s\<lparr>ring_mirror_list := ?m, sc_jobs := ?J, sc_tdr := tdr, sc_freed := sc_freed s @ [j]\<rparr>"
    and tdr: "sc_timeout s \<noteq> max_schedule_timeout \<Longrightarrow> ?m \<noteq> [] \<Longrightarrow> hd ?m \<in> set tdr"
  proof (cases "sc_timeout s = max_schedule_timeout")
    case True
    then show ?thesis using that [of "sc_tdr s"] by (simp add: amd_sched_job_finish_def set_job_def Let_def)
  next
    case False
    then show ?thesis
      using that [of "case ?m of [] \<Rightarrow> filter (\<lambda>i. i \<noteq> j) (sc_tdr s) | n # _ \<Rightarrow> List.insert n (filter (\<lambda>i. i \<noteq> j) (sc_tdr s))"]
      by (simp add: amd_sched_job_finish_def set_job_def schedule_tdr_def Let_def split: list.splits)
  qed
  have J: "jb_finished (?J i) = jb_finished (sc_jobs s i)" "jb_scheduled (?J i) = jb_scheduled (sc_jobs s i)"
    "jb_entity (?J i) = jb_entity (sc_jobs s i)" "jb_finish_work (?J i) = (i \<noteq> j \<and> jb_finish_work (sc_jobs s i))" for i by simp_all
  have pe: "pending x ?t = pending x s" for x by (simp add: pending_def eq)
  have fl: "in_flight ?t = in_flight s" by (simp add: in_flight_def eq J del: fun_upd_apply)
  have mi: "mirror_inv s" using inv by (simp add: sched_inv_def)
  have "j \<notin> set (in_flight s)" using mi f by (simp add: mirror_inv_def in_flight_def)
  then have "mirror_inv ?t"
    using mi tdr unfolding mirror_inv_def fl by (simp add: eq J del: fun_upd_apply) auto
  moreover have "jobs_inv ?t" using inv by (simp add: sched_inv_def jobs_inv_def pe) (simp add: eq J del: fun_upd_apply)
  moreover have "count_inv ?t" using inv by (simp add: sched_inv_def count_inv_def fl) (simp add: eq)
  moreover have "queue_inv ?t" "wake_inv ?t" "dep_inv ?t"
    using inv by (simp_all add: sched_inv_def queue_inv_def wake_inv_def dep_inv_def amd_sched_ready_def is_ready_iff eq J del: fun_upd_apply)
  ultimately show ?thesis by (simp add: sched_inv_def)
qed

lemma fini_inv:
  assumes inv: "sched_inv s" and f: "amd_sched_entity_fini e s = Some s'"
  shows "sched_inv s'"
proof (cases "s' = s")
  case False
  then obtain q where q: "en_queue (sc_entities s e) = []"
    and eq: "s' = s\<lparr>sched_rq := (sched_rq s)(q := amd_sched_rq_remove_entity (sched_rq s q) e),
      sc_entities := (sc_entities s)(e := sc_entities s e\<lparr>en_limit := 0\<rparr>)\<rparr>"
    using f by (auto simp: amd_sched_entity_fini_def amd_sched_entity_is_idle_def set_entity_def split: option.splits if_splits)
  let ?E = "(sc_entities s)(e := sc_entities s e\<lparr>en_limit := 0\<rparr>)"
  have E: "en_queue (?E x) = en_queue (sc_entities s x)" "en_rq (?E x) = en_rq (sc_entities s x)"
    "en_dependency (?E x) = en_dependency (sc_entities s x)" for x by simp_all
  have pe: "pending x s' = pending x s" for x by (simp add: pending_def eq)
  have "rq_ok (sched_rq s' x)" for x using inv by (auto simp: eq sched_inv_def queue_inv_def rq_remove_ok)
  moreover have "\<exists>r < 2. en_rq (sc_entities s' x) = Some r \<and> x \<in> set (rq_entities (sched_rq s' r))" if "en_queue (sc_entities s' x) \<noteq> []" for x
  proof -
    have "en_queue (sc_entities s x) \<noteq> []" "x \<noteq> e" using that q by (auto simp: eq split: if_splits)
    then obtain r where "r < 2" "en_rq (sc_entities s x) = Some r" "x \<in> set (rq_entities (sched_rq s r))"
      using inv by (auto simp: sched_inv_def queue_inv_def)
    then show ?thesis using \<open>x \<noteq> e\<close> by (auto simp: eq rq_remove_ok)
  qed
  ultimately have "queue_inv s'" using inv by (simp add: sched_inv_def queue_inv_def) (simp add: eq)
  moreover have "jobs_inv s'" using inv by (simp add: sched_inv_def jobs_inv_def pe) (simp add: eq E del: fun_upd_apply)
  moreover have "wake_inv s'"
    using inv by (auto simp: sched_inv_def wake_inv_def amd_sched_ready_def is_ready_iff eq rq_remove_ok split: if_splits)
  moreover have "count_inv s'" "mirror_inv s'" "dep_inv s'"
    using inv by (simp_all add: sched_inv_def count_inv_def in_flight_def mirror_inv_def dep_inv_def eq E del: fun_upd_apply)
  ultimately show ?thesis by (simp add: sched_inv_def)
qed (use inv in simp)

lemma sched_step_inv: "sched_step s s' \<Longrightarrow> sched_inv s \<Longrightarrow> sched_inv s'"
proof (induction rule: sched_step.induct)
  case (signal s n)
  let ?t = "s\<lparr>sc_signaled := n # sc_signaled s\<rparr>"
  have "pending x ?t = pending x s" for x by (simp add: pending_def)
  then show ?case using signal
    by (simp add: sched_inv_def queue_inv_def jobs_inv_def count_inv_def in_flight_def mirror_inv_def wake_inv_def dep_inv_def
      amd_sched_ready_def is_ready_iff)
qed (blast intro: entity_init_inv job_init_inv push_inv submit_inv out_inv wakeup_inv process_inv finish_inv fini_inv)+

lemma submit_limit: "hw_submission_limit (main_submit deps run_job s) = hw_submission_limit s \<and> sc_timeout (main_submit deps run_job s) = sc_timeout s"
proof (cases rule: main_submit_cases [of deps run_job s])
  case (sleeps s1)
  then show ?thesis by (auto simp: moved_def)
next
  case (blocks s1 e d clear other)
  then show ?thesis by (auto simp: moved_def blocked_def set_entity_def)
next
  case (submits s1 e j js)
  have a: "hw_submission_limit (amd_sched_fence_finished j s) = hw_submission_limit s \<and> sc_timeout (amd_sched_fence_finished j s) = sc_timeout s" for s
    by (simp add: fence_finished_eq set_job_def)
  have b: "hw_submission_limit (amd_sched_fence_scheduled j s) = hw_submission_limit s \<and> sc_timeout (amd_sched_fence_scheduled j s) = sc_timeout s" for s
    by (simp add: fence_scheduled_eq set_job_def)
  have c: "hw_submission_limit (attach_fence j r s) = hw_submission_limit s \<and> sc_timeout (attach_fence j r s) = sc_timeout s" for r s
    by (auto simp: attach_fence_def amd_sched_process_job_def wake_up_worker_def a set_job_def Let_def split: option.split)
  show ?thesis using submits(1,2)
    by (auto simp: moved_def c submitted_def b amd_sched_job_begin_def schedule_tdr_def Let_def)
qed

text \<open>
  The test for a fence of the entity itself compares with the context of the scheduled fences. The
  finished fence of a job of the entity has the next context, so the entity waits for it like for any
  other fence of the scheduler.
\<close>

lemma own_finished_fence_not_ignored:
  assumes "jb_context (sc_jobs s j) = en_fence_context (sc_entities s e)" "\<not> jb_scheduled (sc_jobs s j)"
  shows "fst (amd_sched_entity_add_dependency_cb e (Finished j) s)"
  using assms by (simp add: amd_sched_entity_add_dependency_cb_def fence_context_def to_amd_sched_fence_def set_entity_def)

section \<open>Round robin\<close>

text \<open>The order in which the entities of a run queue are looked at: from behind the current one around to it.\<close>

definition rr_order :: "amd_sched_rq \<Rightarrow> nat list" where
  "rr_order rq = (case rq_current rq of
     None \<Rightarrow> rq_entities rq
   | Some c \<Rightarrow> tl (dropWhile (\<lambda>e. e \<noteq> c) (rq_entities rq)) @ takeWhile (\<lambda>e. e \<noteq> c) (rq_entities rq) @ [c])"

lemma rq_scan_find:
  "rq_scan ready None es = find ready es" "c \<in> set es \<Longrightarrow> rq_scan ready (Some c) es = find ready (takeWhile (\<lambda>e. e \<noteq> c) es @ [c])"
  by (induction es) auto

lemma find_append: "find P (xs @ ys) = (case find P xs of None \<Rightarrow> find P ys | Some x \<Rightarrow> Some x)"
  by (induction xs) auto

lemma rq_select_find:
  assumes "rq_ok rq"
  shows "amd_sched_rq_select_entity ready rq =
    (case find ready (rr_order rq) of Some e \<Rightarrow> (Some e, rq\<lparr>rq_current := Some e\<rparr>) | None \<Rightarrow> (None, rq))"
proof (cases "rq_current rq")
  case None
  then show ?thesis by (simp add: amd_sched_rq_select_entity_def rr_order_def rq_continue_def rq_scan_find)
next
  case (Some c)
  then have "c \<in> set (rq_entities rq)" using assms by (simp add: rq_ok_def)
  then show ?thesis
    using Some by (simp add: amd_sched_rq_select_entity_def rr_order_def rq_continue_def rq_scan_find find_append split: option.split)
qed

lemma split_at:
  assumes "distinct es" "es = xs @ c # ys"
  shows "takeWhile (\<lambda>e. e \<noteq> c) es = xs" "tl (dropWhile (\<lambda>e. e \<noteq> c) es) = ys"
proof -
  have "\<forall>x \<in> set xs. x \<noteq> c" using assms by auto
  then show "takeWhile (\<lambda>e. e \<noteq> c) es = xs" "tl (dropWhile (\<lambda>e. e \<noteq> c) es) = ys"
    unfolding assms(2) by simp_all
qed

lemma rr_order_set: "rq_ok rq \<Longrightarrow> set (rr_order rq) = set (rq_entities rq)"
proof (cases "rq_current rq")
  case (Some c)
  moreover assume ok: "rq_ok rq"
  ultimately obtain xs ys where "rq_entities rq = xs @ c # ys" by (auto simp: rq_ok_def in_set_conv_decomp)
  then show ?thesis using ok Some split_at [of "rq_entities rq" xs c ys] by (auto simp: rr_order_def rq_ok_def)
qed (simp add: rr_order_def)

text \<open>Selecting an entity turns the order so that it ends with that entity.\<close>

lemma rr_order_turn:
  assumes ok: "rq_ok rq" and o: "rr_order rq = xs @ e # ys"
  shows "rr_order (rq\<lparr>rq_current := Some e\<rparr>) = ys @ xs @ [e]"
proof -
  have d: "distinct (rq_entities rq)" using ok by (simp add: rq_ok_def)
  have turn: "rr_order (rq\<lparr>rq_current := Some e\<rparr>) = bs @ as @ [e]" if "rq_entities rq = as @ e # bs" for as bs
    using split_at [OF d that] by (simp add: rr_order_def)
  show ?thesis
  proof (cases "rq_current rq")
    case None
    then show ?thesis using turn [of xs ys] o by (simp add: rr_order_def)
  next
    case (Some c)
    then obtain as bs where es: "rq_entities rq = as @ c # bs" using ok by (auto simp: rq_ok_def in_set_conv_decomp)
    then have "bs @ as @ [c] = xs @ e # ys" using o Some split_at [OF d es] by (simp add: rr_order_def)
    then obtain us where "bs = xs @ us \<and> us @ as @ [c] = e # ys \<or> xs = bs @ us \<and> as @ [c] = us @ e # ys"
      by (auto simp: append_eq_append_conv2)
    then consider us where "bs = xs @ e # us" "ys = us @ as @ [c]" | us where "xs = bs @ us" "as @ [c] = us @ e # ys"
      by (cases us) auto
    then show ?thesis
    proof cases
      case 1
      then show ?thesis using turn [of "as @ c # xs" us] es by simp
    next
      case 2
      then consider vs where "as = us @ e # vs" "ys = vs @ [c]" | "us = as" "e = c" "ys = []"
        by (cases ys rule: rev_cases) auto
      then show ?thesis
      proof cases
        case 1
        then show ?thesis using turn [of us "vs @ c # bs"] es 2 by simp
      next
        case 2
        then show ?thesis using turn [of as bs] es \<open>xs = bs @ us\<close> by simp
      qed
    qed
  qed
qed

text \<open>The entities selected one after another, where each time another set of entities may be ready.\<close>

primrec rr_run :: "(nat \<Rightarrow> bool) list \<Rightarrow> amd_sched_rq \<Rightarrow> nat option list" where
  "rr_run [] rq = []"
| "rr_run (r # rs) rq = (case amd_sched_rq_select_entity r rq of (x, rq') \<Rightarrow> x # rr_run rs rq')"

lemma rr_run_fair:
  assumes "rq_ok rq" "rr_order rq = xs @ e # ys" "e \<notin> set xs" "\<forall>r \<in> set rs. r e" "length xs < length rs"
  shows "Some e \<in> set (rr_run rs rq)"
  using assms
proof (induction rs arbitrary: rq xs ys)
  case (Cons r rs)
  have re: "r e" using Cons.prems(4) by simp
  then have "find r (rr_order rq) \<noteq> None" unfolding Cons.prems(2) find_None_iff by auto
  then obtain x where f: "find r (rr_order rq) = Some x" by blast
  have sel: "amd_sched_rq_select_entity r rq = (Some x, rq\<lparr>rq_current := Some x\<rparr>)"
    using rq_select_find [OF Cons.prems(1), of r] f by simp
  have x: "x \<in> set (rq_entities rq)" using rq_select_Some(1) [OF sel] .
  show ?case
  proof (cases "x = e")
    case True
    then show ?thesis using sel by simp
  next
    case False
    have "x \<in> set xs"
      using f False re unfolding Cons.prems(2) by (auto simp: find_append find_Some_iff split: option.splits)
    then obtain as bs where xs: "xs = as @ x # bs" by (meson split_list)
    have "rr_order (rq\<lparr>rq_current := Some x\<rparr>) = (bs @ e # ys) @ as @ [x]"
      by (rule rr_order_turn [OF Cons.prems(1)]) (simp add: Cons.prems(2) xs)
    moreover have "rq_ok (rq\<lparr>rq_current := Some x\<rparr>)" using Cons.prems(1) x by (simp add: rq_ok_def)
    ultimately have "Some e \<in> set (rr_run rs (rq\<lparr>rq_current := Some x\<rparr>))"
      using Cons.IH [of "rq\<lparr>rq_current := Some x\<rparr>" bs "ys @ as @ [x]"] Cons.prems(3-5) xs by auto
    then show ?thesis using sel by simp
  qed
qed simp

section \<open>The abstract scheduler\<close>

text \<open>
  What the scheduler promises: a queue per entity, the sequence of the jobs that were run, and the set
  of those that are done. Jobs leave a queue at its front only, to be run, and only while fewer than
  \<open>N\<close> jobs are run and not done.
\<close>

type_synonym fifo = "(nat \<Rightarrow> nat list) \<times> nat list \<times> nat set"

inductive fifo_step :: "nat \<Rightarrow> fifo \<Rightarrow> fifo \<Rightarrow> bool" for N where
  enqueue: "j \<notin> set R \<Longrightarrow> (\<And>e. j \<notin> set (Q e)) \<Longrightarrow> fifo_step N (Q, R, D) (Q(e := Q e @ [j]), R, D)"
| run: "Q e = j # js \<Longrightarrow> card (set R - D) < N \<Longrightarrow> fifo_step N (Q, R, D) (Q(e := js), R @ [j], D)"
| complete: "j \<in> set R \<Longrightarrow> j \<notin> D \<Longrightarrow> fifo_step N (Q, R, D) (Q, R, insert j D)"

definition sched_abs :: "amd_gpu_scheduler \<Rightarrow> fifo" where
  "sched_abs s = (\<lambda>e. pending e s, sc_ran s, {i \<in> set (sc_ran s). jb_finished (sc_jobs s i)})"

lemma sched_abs_same: "(\<And>x. pending x t = pending x s) \<Longrightarrow> sc_ran t = sc_ran s \<Longrightarrow>
  (\<And>i. jb_finished (sc_jobs t i) = jb_finished (sc_jobs s i)) \<Longrightarrow> sched_abs t = sched_abs s"
  by (simp add: sched_abs_def)

lemma completed_abs:
  assumes "j \<in> set (sc_ran s)" "\<not> jb_finished (sc_jobs s j)"
  shows "fifo_step N (sched_abs s) (sched_abs (completed j p cbs s))"
proof -
  have "sched_abs (completed j p cbs s) = (\<lambda>e. pending e s, sc_ran s, insert j {i \<in> set (sc_ran s). jb_finished (sc_jobs s i)})"
    using assms(1) by (auto simp: sched_abs_def completed_def pending_def)
  moreover have "fifo_step N (sched_abs s) (\<lambda>e. pending e s, sc_ran s, insert j {i \<in> set (sc_ran s). jb_finished (sc_jobs s i)})"
    unfolding sched_abs_def by (rule fifo_step.complete) (use assms in auto)
  ultimately show ?thesis by simp
qed

lemma in_flight_card: "jobs_inv s \<Longrightarrow> card (set (sc_ran s) - {i \<in> set (sc_ran s). jb_finished (sc_jobs s i)}) = length (in_flight s)"
proof -
  assume "jobs_inv s"
  then have "distinct (in_flight s)" by (simp add: jobs_inv_def in_flight_def)
  moreover have "set (sc_ran s) - {i \<in> set (sc_ran s). jb_finished (sc_jobs s i)} = set (in_flight s)" by (auto simp: in_flight_def)
  ultimately show ?thesis by (simp add: distinct_card)
qed

lemma submitted_abs:
  assumes inv: "sched_inv s" and q: "en_queue (sc_entities s e) = j # js" and rd: "amd_sched_ready s" and w: "sc_worker s = Awake"
  shows "fifo_step (unat (hw_submission_limit s)) (sched_abs s) (sched_abs (submitted e j s))"
proof -
  have jo: "jobs_inv s" using inv by (simp add: sched_inv_def)
  have "j \<in> set (pending e s)" using q w by (simp add: pending_def)
  then have new: "j \<notin> set (sc_ran s)" using jo by (auto simp: jobs_inv_def)
  then have ns: "\<not> jb_scheduled (sc_jobs s j)" "\<not> jb_finished (sc_jobs s j)" using jo by (auto simp: jobs_inv_def)
  note eq = submitted_eq [OF ns(1), of e]
  let ?D = "{i \<in> set (sc_ran s). jb_finished (sc_jobs s i)}"
  have "pending x (submitted e j s) = ((\<lambda>e. pending e s)(e := js)) x" for x using q w by (auto simp: pending_def eq)
  then have "sched_abs (submitted e j s) = ((\<lambda>e. pending e s)(e := js), sc_ran s @ [j], ?D)"
    using ns(2) by (auto simp: sched_abs_def eq)
  moreover have "card (set (sc_ran s) - ?D) < unat (hw_submission_limit s)"
    using inv rd in_flight_card [OF jo] by (simp add: sched_inv_def count_inv_def amd_sched_ready_def word_less_nat_alt)
  then have "fifo_step (unat (hw_submission_limit s)) (\<lambda>e. pending e s, sc_ran s, ?D) ((\<lambda>e. pending e s)(e := js), sc_ran s @ [j], ?D)"
    using q w by (intro fifo_step.run) (simp_all add: pending_def)
  moreover have "sched_abs s = (\<lambda>e. pending e s, sc_ran s, ?D)" by (simp add: sched_abs_def)
  ultimately show ?thesis by (simp only:)
qed

lemma attach_abs:
  assumes j: "j \<in> set (sc_ran s)" "\<not> jb_finished (sc_jobs s j)"
  shows "(fifo_step N)\<^sup>*\<^sup>* (sched_abs s) (sched_abs (attach_fence j r s))"
  using j(2)
proof (cases rule: attach_cases [of s j r])
  case (finished p)
  then have "attach_fence j r s = completed j p (sc_other_cbs s) s" by (simp add: completed_def)
  then show ?thesis using completed_abs [OF j] by (simp add: r_into_rtranclp)
next
  case (pending n)
  then have "sched_abs (attach_fence j r s) = sched_abs s" by (intro sched_abs_same) (simp_all add: pending_def)
  then show ?thesis by simp
next
  case (stuck n)
  then have "sched_abs (attach_fence j r s) = sched_abs s" by (intro sched_abs_same) (simp_all add: pending_def)
  then show ?thesis by simp
qed

lemma submit_abs:
  assumes inv: "sched_inv s" and w: "sc_worker s = Awake"
  shows "(fifo_step (unat (hw_submission_limit s)))\<^sup>*\<^sup>* (sched_abs s) (sched_abs (main_submit deps run_job s))"
proof (cases rule: main_submit_cases [of deps run_job s])
  case (sleeps s1)
  then have "sched_abs (main_submit deps run_job s) = sched_abs s" using w by (intro sched_abs_same) (auto simp: moved_def pending_def)
  then show ?thesis by simp
next
  case (blocks s1 e d clear other)
  then have "sched_abs (main_submit deps run_job s) = sched_abs s"
    by (intro sched_abs_same) (auto simp: moved_def blocked_def set_entity_def pending_def)
  then show ?thesis by simp
next
  case (submits s1 e j js)
  have a: "sched_abs s1 = sched_abs s" "hw_submission_limit s1 = hw_submission_limit s"
    using submits(2) by (auto simp: moved_def pending_def intro!: sched_abs_same)
  have pre: "en_queue (sc_entities s1 e) = j # js" "amd_sched_ready s1" "sc_worker s1 = Awake"
    using submits(2-4) w by (auto simp: moved_def amd_sched_ready_def)
  note ok = submitted_inv [OF moved_inv [OF submits(2) inv] pre]
  have "fifo_step (unat (hw_submission_limit s)) (sched_abs s) (sched_abs (submitted e j s1))"
    using submitted_abs [OF moved_inv [OF submits(2) inv] pre] a by simp
  then show ?thesis using attach_abs [OF ok(2,3)] submits(1) by (simp add: converse_rtranclp_into_rtranclp)
qed

lemma push_abs:
  assumes inv: "sched_inv s" and u: "fresh_job j s" and q: "en_rq (sc_entities s (jb_entity (sc_jobs s j))) = Some q"
    and p: "amd_sched_entity_push_job j s = Some (True, s')"
  shows "fifo_step N (sched_abs s) (sched_abs s')"
proof -
  let ?e = "jb_entity (sc_jobs s j)"
  have nf: "\<not> jb_finished (sc_jobs s j)" using inv u by (auto simp: sched_inv_def jobs_inv_def fresh_job_def)
  note eq = push_job_eq [OF p refl nf q, unfolded Let_def]
  have qi: "queue_inv s" using inv by (simp add: sched_inv_def)
  have "pending x s' = ((\<lambda>e. pending e s)(?e := pending ?e s @ [j])) x" for x
    using qi by (auto simp: pending_def eq queue_inv_def)
  then have "sched_abs s' = ((\<lambda>e. pending e s)(?e := pending ?e s @ [j]), sc_ran s, {i \<in> set (sc_ran s). jb_finished (sc_jobs s i)})"
    by (auto simp: sched_abs_def eq)
  moreover have "set (pending x s) \<subseteq> set (en_queue (sc_entities s x))" for x
    by (cases "en_queue (sc_entities s x)") (auto simp: pending_def)
  then have "fifo_step N (sched_abs s) ((\<lambda>e. pending e s)(?e := pending ?e s @ [j]), sc_ran s, {i \<in> set (sc_ran s). jb_finished (sc_jobs s i)})"
    unfolding sched_abs_def using u by (intro fifo_step.enqueue) (auto simp: fresh_job_def)
  ultimately show ?thesis by simp
qed


lemma sched_step_abs:
  assumes "sched_step s s'" "sched_inv s"
  shows "(fifo_step (unat (hw_submission_limit s)))\<^sup>*\<^sup>* (sched_abs s) (sched_abs s') \<and>
    hw_submission_limit s' = hw_submission_limit s"
  using assms
proof (cases rule: sched_step.cases)
  case (entity_init e q kfifo ctx r)
  then have "pending x s' = pending x s" for x
    by (auto simp: amd_sched_entity_init_def set_entity_def Let_def pending_def unused_entity_def split: if_splits)
  moreover have "sc_ran s' = sc_ran s" "sc_jobs s' = sc_jobs s" "hw_submission_limit s' = hw_submission_limit s"
    using entity_init by (auto simp: amd_sched_entity_init_def set_entity_def Let_def split: if_splits)
  ultimately show ?thesis using sched_abs_same [of s' s] by simp
next
  case (job_init j ok e r)
  have nf: "\<not> jb_finished (sc_jobs s j)" using assms(2) job_init(1) by (auto simp: sched_inv_def jobs_inv_def fresh_job_def)
  note defs = amd_sched_job_init_def amd_sched_fence_create_def set_entity_def set_job_def Let_def
  have w: "sc_ran s' = sc_ran s" "hw_submission_limit s' = hw_submission_limit s" "sc_worker s' = sc_worker s"
    using job_init(2) by (auto simp: defs split: if_splits)
  have q: "en_queue (sc_entities s' x) = en_queue (sc_entities s x)" for x using job_init(2) by (auto simp: defs split: if_splits)
  have "jb_finished (sc_jobs s' i) = jb_finished (sc_jobs s i)" for i using job_init(2) nf by (auto simp: defs split: if_splits)
  moreover have "pending x s' = pending x s" for x by (simp add: pending_def w q)
  moreover note w
  ultimately show ?thesis using sched_abs_same [of s' s] by simp
next
  case (push j q)
  have nf: "\<not> jb_finished (sc_jobs s j)" using assms(2) push(1) by (auto simp: sched_inv_def jobs_inv_def fresh_job_def)
  have "hw_submission_limit s' = hw_submission_limit s" by (simp add: push_job_eq [OF push(4) refl nf push(2)] Let_def)
  then show ?thesis using push_abs [OF assms(2) push(1,2,4)] by (simp add: r_into_rtranclp)
next
  case (submit deps run_job)
  then show ?thesis using submit_abs [OF assms(2)] submit_limit by simp
next
  case (out e)
  then have "sched_abs s' = sched_abs s"
    by (intro sched_abs_same) (auto simp: main_out_def set_entity_def pending_def)
  then show ?thesis using out by (simp add: main_out_def set_entity_def)
next
  case (signal n)
  then have "sched_abs s' = sched_abs s" by (intro sched_abs_same) (simp_all add: pending_def)
  then show ?thesis using signal by simp
next
  case (wakeup n e)
  then have "sched_abs s' = sched_abs s"
    by (intro sched_abs_same) (auto simp: amd_sched_entity_wakeup_def set_entity_def wakeup_eq pending_def)
  then show ?thesis using wakeup by (simp add: amd_sched_entity_wakeup_def set_entity_def wakeup_eq)
next
  case (process n j)
  let ?cbs = "remove1 (n, Process_job j) (sc_other_cbs s)"
  have j: "j \<in> set (sc_ran s)" "\<not> jb_finished (sc_jobs s j)"
    using assms(2) process(2) by (auto simp: sched_inv_def jobs_inv_def processing_iff)
  have "s' = completed j (jb_parent (sc_jobs s j)) ?cbs s" using process(1) j(2) by (simp add: process_job_eq completed_def)
  moreover have "hw_submission_limit (completed j (jb_parent (sc_jobs s j)) ?cbs s) = hw_submission_limit s" by (simp add: completed_def)
  ultimately show ?thesis using completed_abs [OF j] by (simp add: r_into_rtranclp)
next
  case (finish j)
  have "sc_entities s' = sc_entities s" "sc_worker s' = sc_worker s" "sc_ran s' = sc_ran s" "hw_submission_limit s' = hw_submission_limit s"
    "jb_finished (sc_jobs s' i) = jb_finished (sc_jobs s i)" for i
    using finish(1) by (auto simp: amd_sched_job_finish_def set_job_def schedule_tdr_def Let_def split: list.split)
  then show ?thesis using sched_abs_same [of s' s] by (simp add: pending_def)
next
  case (entity_fini e)
  then have "pending x s' = pending x s" "sc_ran s' = sc_ran s" "sc_jobs s' = sc_jobs s" "hw_submission_limit s' = hw_submission_limit s" for x
    by (auto simp: amd_sched_entity_fini_def set_entity_def pending_def split: option.splits if_splits)
  then show ?thesis using sched_abs_same [of s' s] by simp
qed

interpretation gs: simulation "\<lambda>s. s = sched_start limit timeout" sched_step
    "\<lambda>s. sched_inv s \<and> hw_submission_limit s = limit" sched_abs "fifo_step (unat limit)" for limit timeout
proof unfold_locales
  fix s assume "s = sched_start limit timeout"
  then show "sched_inv s \<and> hw_submission_limit s = limit"
    using sched_start_inv by (simp add: sched_start_def amd_sched_init_def)
next
  fix s s' assume st: "sched_step s s'" and i: "sched_inv s \<and> hw_submission_limit s = limit"
  then show "sched_inv s' \<and> hw_submission_limit s' = limit" "(fifo_step (unat limit))\<^sup>*\<^sup>* (sched_abs s) (sched_abs s')"
    using sched_step_inv [OF st] sched_step_abs [OF st] by auto
qed

lemma sched_steps_inv:
  assumes "sched_step\<^sup>*\<^sup>* (sched_start limit timeout) s"
  shows "sched_inv s \<and> hw_submission_limit s = limit"
  by (rule gs.reachable_inv [OF refl assms])

section \<open>Reset and recovery\<close>

lemma processing_filter: "distinct (processing cs) \<Longrightarrow> (n, Process_job j) \<in> set cs \<Longrightarrow>
  processing (filter (\<lambda>c. c \<noteq> (n, Process_job j)) cs) = filter (\<lambda>i. i \<noteq> j) (processing cs)"
proof (induction cs)
  case (Cons c cs)
  have skip: "filter (\<lambda>c. c \<noteq> (n, Process_job j)) cs = cs" if "j \<notin> set (processing cs)"
    using that by (auto simp: processing_iff filter_id_conv)
  obtain m b where c: "c = (m, b)" by (cases c)
  show ?case
  proof (cases b)
    case (Wakeup e)
    then show ?thesis using Cons c by simp
  next
    case (Process_job i)
    then show ?thesis
    proof (cases "i = j")
      case True
      then have "j \<notin> set (processing cs)" using Cons.prems(1) c Process_job by simp
      moreover from this have "m = n" using Cons.prems(2) c Process_job True by (auto simp: processing_iff)
      moreover from calculation have "filter (\<lambda>i. i \<noteq> j) (processing cs) = processing cs" by (intro filter_True) auto
      ultimately show ?thesis using skip c Process_job True by simp
    next
      case False
      then show ?thesis using Cons c Process_job by simp
    qed
  qed
qed simp

lemma reset_loop_ok:
  assumes "distinct js" "distinct (processing (sc_other_cbs s))"
    "\<forall>j \<in> set js. \<exists>n. jb_parent (sc_jobs s j) = Some n \<and> (n, Process_job j) \<in> set (sc_other_cbs s)"
  shows "\<exists>J cbs. reset_loop js s = Some (s\<lparr>sc_jobs := J, sc_other_cbs := cbs\<rparr>) \<and>
    processing cbs = filter (\<lambda>i. i \<notin> set js) (processing (sc_other_cbs s))"
  using assms
proof (induction js arbitrary: s)
  case Nil
  show ?case by (rule exI [of _ "sc_jobs s"], rule exI [of _ "sc_other_cbs s"]) simp
next
  case (Cons j js)
  obtain n where n: "jb_parent (sc_jobs s j) = Some n" "(n, Process_job j) \<in> set (sc_other_cbs s)" using Cons.prems(3) by auto
  let ?s = "set_job j (\<lambda>jb. jb\<lparr>jb_parent := None\<rparr>)
    (s\<lparr>sc_other_cbs := filter (\<lambda>c. c \<noteq> (n, Process_job j)) (sc_other_cbs s)\<rparr>)"
  have p: "processing (sc_other_cbs ?s) = filter (\<lambda>i. i \<noteq> j) (processing (sc_other_cbs s))"
    using processing_filter [OF Cons.prems(2) n(2)] by (simp add: set_job_def)
  have "\<exists>J cbs. reset_loop js ?s = Some (?s\<lparr>sc_jobs := J, sc_other_cbs := cbs\<rparr>) \<and>
    processing cbs = filter (\<lambda>i. i \<notin> set js) (processing (sc_other_cbs ?s))"
  proof (rule Cons.IH)
    show "distinct (processing (sc_other_cbs ?s))" using Cons.prems(2) by (simp add: p)
    show "\<forall>i \<in> set js. \<exists>n. jb_parent (sc_jobs ?s i) = Some n \<and> (n, Process_job i) \<in> set (sc_other_cbs ?s)"
      using Cons.prems(1,3) by (auto simp: set_job_def)
  qed (use Cons.prems(1) in simp)
  then obtain J cbs where r: "reset_loop js ?s = Some (?s\<lparr>sc_jobs := J, sc_other_cbs := cbs\<rparr>)"
    "processing cbs = filter (\<lambda>i. i \<notin> set js) (processing (sc_other_cbs ?s))" by blast
  have "?s\<lparr>sc_jobs := J, sc_other_cbs := cbs\<rparr> = s\<lparr>sc_jobs := J, sc_other_cbs := cbs\<rparr>" by (simp add: set_job_def)
  then have "reset_loop (j # js) s = Some (s\<lparr>sc_jobs := J, sc_other_cbs := cbs\<rparr>)" using n r(1) by simp
  moreover have "processing cbs = filter (\<lambda>i. i \<notin> set (j # js)) (processing (sc_other_cbs s))"
    unfolding r(2) p by (auto intro: filter_cong)
  ultimately show ?case by blast
qed

lemma reset_loop_fault: "j \<in> set js \<Longrightarrow> jb_parent (sc_jobs s j) = None \<Longrightarrow> reset_loop js s = None"
proof (induction js arbitrary: s)
  case (Cons i js)
  show ?case
  proof (cases "i = j")
    case False
    then show ?thesis using Cons by (auto simp: set_job_def split: option.split)
  qed (use Cons in simp)
qed simp

lemma fold_recover:
  "fold (recover_job (\<lambda>j. Some (f j, 0))) js s = s\<lparr>sc_ran := sc_ran s @ js, hw_rq_count := hw_rq_count s + of_nat (length js),
     sc_jobs := fold (\<lambda>j J. J(j := J j\<lparr>jb_parent := Some (f j)\<rparr>)) js (sc_jobs s),
     sc_other_cbs := sc_other_cbs s @ map (\<lambda>j. (f j, Process_job j)) js\<rparr>"
  by (induction js arbitrary: s) (simp_all add: recover_job_def attach_fence_def set_job_def)

lemma processing_map: "processing (map (\<lambda>j. (f j, Process_job j)) js) = js"
  by (induction js) simp_all

text \<open>
  A short run: an entity and a job are set up, the job is pushed and submitted; once the backend has no
  fence for it, once it has.
\<close>

definition sdemo1 :: amd_gpu_scheduler where "sdemo1 = snd (amd_sched_entity_init (Some 0) (Some 1) (0, 4) 7 (sched_start 2 100))"
definition sdemo2 :: amd_gpu_scheduler where "sdemo2 = snd (amd_sched_job_init True 0 0 sdemo1)"
definition sdemo3 :: amd_gpu_scheduler where "sdemo3 = snd (the (amd_sched_entity_push_job 0 sdemo2))"
definition sdemo4 :: "(nat \<times> int) option \<Rightarrow> amd_gpu_scheduler" where "sdemo4 r = main_submit [] (\<lambda>_. r) sdemo3"

lemmas sdemo_defs = sdemo1_def sdemo2_def sdemo3_def sdemo4_def sched_start_def amd_sched_init_def amd_sched_rq_init_def
  amd_sched_entity_init_def amd_sched_job_init_def amd_sched_fence_create_def amd_sched_entity_push_job_def amd_sched_entity_in_def
  amd_sched_wakeup_def wake_up_worker_def amd_sched_ready_def amd_sched_rq_add_entity_def set_entity_def set_job_def
  main_submit_def amd_sched_select_entity_def amd_sched_rq_select_entity_def rq_continue_def amd_sched_entity_is_ready_def
  amd_sched_entity_pop_job_def amd_sched_job_begin_def amd_sched_fence_scheduled_def attach_fence_def amd_sched_process_job_def
  amd_sched_fence_finished_def amd_sched_job_finish_cb_def schedule_tdr_def max_schedule_timeout_def

lemma sdemo_steps: "sched_step\<^sup>*\<^sup>* (sched_start 2 100) (sdemo4 r)"
proof -
  have "sched_step (sched_start 2 100) sdemo1"
    by (rule sched_step.entity_init [of 0 _ 1 "(0, 4)" 7 0])
      (simp_all add: sdemo1_def unused_entity_def sched_start_def amd_sched_init_def amd_sched_rq_init_def amd_sched_entity_init_def)
  moreover have "sched_step sdemo1 sdemo2"
    by (rule sched_step.job_init [of 0 _ True 0 0])
      (simp_all add: sdemo1_def sdemo2_def fresh_job_def sched_start_def amd_sched_init_def amd_sched_entity_init_def set_entity_def
        amd_sched_job_init_def amd_sched_fence_create_def)
  moreover have "sched_step sdemo2 sdemo3"
    by (rule sched_step.push [of 0 _ 1]) (simp_all add: sdemo_defs fresh_job_def)
  moreover have "sched_step sdemo3 (sdemo4 r)"
    unfolding sdemo4_def by (rule sched_step.submit) (simp add: sdemo_defs)
  ultimately show ?thesis by (meson converse_rtranclp_into_rtranclp rtranclp.rtrancl_refl)
qed

lemma sdemo4_eval: "sc_ran (sdemo4 (Some (5, 0))) = [0]" "sc_worker (sdemo4 (Some (5, 0))) = Submitted 0"
  "ring_mirror_list (sdemo4 (Some (5, 0))) = [0]" "hw_rq_count (sdemo4 (Some (5, 0))) = 1" "\<not> jb_finished (sc_jobs (sdemo4 (Some (5, 0))) 0)"
  "jb_parent (sc_jobs (sdemo4 (Some (5, 0))) 0) = Some 5"
  "sc_other_cbs (sdemo4 (Some (5, 0))) = [(5, Process_job 0)]" "sc_timeout (sdemo4 (Some (5, 0))) = 100"
  "jb_parent (sc_jobs (sdemo4 None) 0) = None" "ring_mirror_list (sdemo4 None) = [0]"
  by (simp_all add: sdemo_defs Let_def)

text \<open>The worker takes the job out of the queue, finds nothing more to do and sleeps.\<close>

definition sdemo5 :: amd_gpu_scheduler where "sdemo5 = main_submit [] (\<lambda>_. None) (main_out 0 (sdemo4 (Some (5, 0))))"

text \<open>A second job of the entity depends on a fence of someone else.\<close>

definition sdemo6 :: amd_gpu_scheduler where "sdemo6 = main_submit [Other 9 3] (\<lambda>_. None) sdemo3"

lemma sdemo5_steps: "sched_step\<^sup>*\<^sup>* (sched_start 2 100) sdemo5"
proof -
  have "sched_step (sdemo4 (Some (5, 0))) (main_out 0 (sdemo4 (Some (5, 0))))" by (rule sched_step.out) (rule sdemo4_eval(2))
  moreover have "sched_step (main_out 0 (sdemo4 (Some (5, 0)))) sdemo5"
    unfolding sdemo5_def by (rule sched_step.submit) (simp add: main_out_def)
  ultimately show ?thesis using sdemo_steps [of "Some (5, 0)"] by (meson rtranclp.rtrancl_into_rtrancl)
qed

lemma sdemo5_eval: "sc_worker sdemo5 = Sleeping"
  by (simp add: sdemo5_def main_out_def sdemo_defs)

lemma sdemo6_steps: "sched_step\<^sup>*\<^sup>* (sched_start 2 100) sdemo6"
proof -
  have "sched_step (sched_start 2 100) sdemo1"
    by (rule sched_step.entity_init [of 0 _ 1 "(0, 4)" 7 0]) (simp_all add: unused_entity_def sdemo_defs)
  moreover have "sched_step sdemo1 sdemo2"
    by (rule sched_step.job_init [of 0 _ True 0 0]) (simp_all add: fresh_job_def sdemo_defs)
  moreover have "sched_step sdemo2 sdemo3"
    by (rule sched_step.push [of 0 _ 1]) (simp_all add: sdemo_defs fresh_job_def)
  moreover have "sched_step sdemo3 sdemo6"
    unfolding sdemo6_def by (rule sched_step.submit) (simp add: sdemo_defs)
  ultimately show ?thesis by (meson converse_rtranclp_into_rtranclp rtranclp.rtrancl_refl)
qed

lemma sdemo6_eval: "en_dependency (sc_entities sdemo6 0) = Some (Other 9 3)"
  by (simp add: sdemo6_def sdemo_defs amd_sched_entity_add_dependency_cb_def fence_context_def)

section \<open>Properties\<close>

text \<open>
  (C1) Whatever the interleaving of pushes, submissions, fences and finish works: the counter of the
  scheduler is the number of jobs that were given to the hardware and whose fence has not signalled,
  and this number never exceeds the submission limit.
\<close>

theorem sched_in_flight_bound:
  assumes "sched_step\<^sup>*\<^sup>* (sched_start limit timeout) s"
  shows "unat (hw_rq_count s) = card {j \<in> set (sc_ran s). \<not> jb_finished (sc_jobs s j)} \<and>
    card {j \<in> set (sc_ran s). \<not> jb_finished (sc_jobs s j)} \<le> unat limit"
proof -
  have i: "sched_inv s" "hw_submission_limit s = limit" using sched_steps_inv [OF assms] by simp_all
  then have "distinct (in_flight s)" by (simp add: sched_inv_def jobs_inv_def in_flight_def)
  then have "card {j \<in> set (sc_ran s). \<not> jb_finished (sc_jobs s j)} = length (in_flight s)"
    using distinct_card [of "in_flight s"] by (simp add: in_flight_def)
  then show ?thesis using i by (simp add: sched_inv_def count_inv_def)
qed

theorem sched_in_flight_bound_witness:
  "card {j \<in> set (sc_ran (sdemo4 (Some (5, 0)))). \<not> jb_finished (sc_jobs (sdemo4 (Some (5, 0))) j)} = 1"
  using sched_in_flight_bound [OF sdemo_steps [of "Some (5, 0)"]] by (simp add: sdemo4_eval)

text \<open>
  (C10) No wakeup is lost: while the worker sleeps, its selection finds no entity, so there is either no room
  on the hardware or no entity with a job and without a dependency on either run queue.
\<close>

theorem sched_no_lost_wakeup:
  assumes "sched_step\<^sup>*\<^sup>* (sched_start limit timeout) s" "sc_worker s = Sleeping"
  shows "fst (amd_sched_select_entity s) = None"
proof -
  have "wake_inv s" using sched_steps_inv [OF assms(1)] by (simp add: sched_inv_def)
  then have none: "amd_sched_ready s \<Longrightarrow> \<forall>q < 2. \<forall>e \<in> set (rq_entities (sched_rq s q)). \<not> amd_sched_entity_is_ready e s"
    using assms(2) by (simp add: wake_inv_def)
  obtain r s1 where sel: "amd_sched_select_entity s = (r, s1)" by (metis surj_pair)
  show ?thesis using select_ok [OF sel] none sel by (cases r) auto
qed

theorem sched_no_lost_wakeup_witness: "fst (amd_sched_select_entity sdemo5) = None"
  by (rule sched_no_lost_wakeup [OF sdemo5_steps sdemo5_eval])

text \<open>
  An entity that waits for a fence has its callback registered there: the callback that clears the
  dependency when the job of this scheduler is scheduled, or the one that wakes the worker when the
  fence of someone else signals. The former is on the list only while that job is not scheduled.
\<close>

theorem sched_wait_has_callback:
  assumes "sched_step\<^sup>*\<^sup>* (sched_start limit timeout) s" "en_dependency (sc_entities s e) = Some d"
  shows "(\<exists>j. d = Scheduled j \<and> (j, e) \<in> set (sc_clear_cbs s) \<and> \<not> jb_scheduled (sc_jobs s j)) \<or>
    (\<exists>n c. d = Other n c \<and> (n, Wakeup e) \<in> set (sc_other_cbs s))"
proof -
  have "dep_inv s" using sched_steps_inv [OF assms(1)] by (simp add: sched_inv_def)
  then have "has_cb e (sc_clear_cbs s) (sc_other_cbs s) d" "\<And>j. (j, e) \<in> set (sc_clear_cbs s) \<Longrightarrow> \<not> jb_scheduled (sc_jobs s j)"
    using assms(2) by (auto simp: dep_inv_def)
  then show ?thesis by (cases d) auto
qed

theorem sched_wait_has_callback_witness: "\<exists>n. (n, Wakeup 0) \<in> set (sc_other_cbs sdemo6)"
  using sched_wait_has_callback [OF sdemo6_steps sdemo6_eval] by auto

text \<open>
  (C25) A turn of the worker either leaves the sequence of run jobs as it is or adds the first job of an
  entity, and then every dependency the backend named for it is satisfied: it is of the entity's own
  context, or of a job this scheduler has given to the hardware, or a fence that has signalled.
\<close>

theorem sched_runs_satisfied:
  "sc_ran (main_submit deps run_job s) = sc_ran s \<or>
   (\<exists>e j js. en_queue (sc_entities s e) = j # js \<and> sc_ran (main_submit deps run_job s) = sc_ran s @ [j] \<and>
      (\<forall>f \<in> set deps. satisfied e f s))"
proof (cases rule: main_submit_cases [of deps run_job s])
  case (sleeps s1)
  then show ?thesis by (auto simp: moved_def)
next
  case (blocks s1 e d clear other)
  then show ?thesis by (auto simp: moved_def blocked_def set_entity_def)
next
  case (submits s1 e j js)
  have a: "sc_ran (amd_sched_fence_finished j s) = sc_ran s" "sc_ran (amd_sched_fence_scheduled j s) = sc_ran s" for s
    by (simp_all add: fence_finished_eq fence_scheduled_eq set_job_def)
  have c: "sc_ran (attach_fence j r s) = sc_ran s" for r s
    by (auto simp: attach_fence_def amd_sched_process_job_def wake_up_worker_def a set_job_def Let_def split: option.split)
  have "sc_ran (main_submit deps run_job s) = sc_ran s @ [j]"
    using submits(1,2) by (auto simp: moved_def c submitted_def a amd_sched_job_begin_def schedule_tdr_def Let_def)
  then show ?thesis using submits(4,5) by blast
qed

theorem sched_runs_satisfied_witness:
  "sc_ran sdemo6 = [] \<or> satisfied 0 (Other 9 3) sdemo3"
  using sched_runs_satisfied [of "[Other 9 3]" "\<lambda>_. None" sdemo3]
  by (auto simp: sdemo6_def sdemo_defs satisfied_def split: if_splits)

text \<open>
  (C24) The selection on a run queue is a fair round robin: it returns the first ready entity behind the
  current one, around the list, and none exactly when none is ready. An entity of the list that is ready
  at each of as many selections as the list is long is selected, whatever the others do.
\<close>

theorem sched_round_robin_fair:
  assumes "rq_ok rq"
  shows "amd_sched_rq_select_entity ready rq = (case find ready (rr_order rq) of
      Some e \<Rightarrow> (Some e, rq\<lparr>rq_current := Some e\<rparr>) | None \<Rightarrow> (None, rq)) \<and>
    (\<forall>e \<in> set (rq_entities rq). (\<forall>r \<in> set rs. r e) \<longrightarrow> length (rq_entities rq) \<le> length rs \<longrightarrow> Some e \<in> set (rr_run rs rq))"
proof -
  have len: "length (rr_order rq) = length (rq_entities rq)"
  proof (cases "rq_current rq")
    case (Some c)
    then obtain xs ys where "rq_entities rq = xs @ c # ys" using assms by (auto simp: rq_ok_def in_set_conv_decomp)
    then show ?thesis using assms Some split_at [of "rq_entities rq" xs c ys] by (auto simp: rr_order_def rq_ok_def)
  qed (simp add: rr_order_def)
  have "Some e \<in> set (rr_run rs rq)" if "e \<in> set (rq_entities rq)" "\<forall>r \<in> set rs. r e" "length (rq_entities rq) \<le> length rs" for e
  proof -
    have "e \<in> set (rr_order rq)" using that(1) rr_order_set [OF assms] by simp
    then obtain xs ys where o: "rr_order rq = xs @ e # ys" "e \<notin> set xs" by (meson split_list_first)
    show ?thesis by (rule rr_run_fair [OF assms o that(2)]) (use len o that(3) in simp)
  qed
  then show ?thesis using rq_select_find [OF assms] by blast
qed

theorem sched_round_robin_fair_witness:
  "Some 3 \<in> set (rr_run [\<lambda>e. True, \<lambda>e. e = 3 \<or> e = 1, \<lambda>e. True] \<lparr>rq_entities = [1, 3, 4], rq_current = Some 3\<rparr>)"
proof -
  have "rq_ok \<lparr>rq_entities = [1, 3, 4], rq_current = Some 3\<rparr>" by (simp add: rq_ok_def)
  from sched_round_robin_fair [OF this, of "\<lambda>e. True" "[\<lambda>e. True, \<lambda>e. e = 3 \<or> e = 1, \<lambda>e. True]"]
  show ?thesis by (simp del: rr_run.simps)
qed

text \<open>
  The mirror list of the ring holds every job in flight, each once, so that a recovery can run them
  again; and with a finite timeout the first job of the list always has its timer running.
\<close>

theorem sched_mirror_timer:
  assumes "sched_step\<^sup>*\<^sup>* (sched_start limit timeout) s"
  shows "distinct (ring_mirror_list s) \<and> {j \<in> set (sc_ran s). \<not> jb_finished (sc_jobs s j)} \<subseteq> set (ring_mirror_list s) \<and>
    (sc_timeout s \<noteq> max_schedule_timeout \<longrightarrow> ring_mirror_list s \<noteq> [] \<longrightarrow> hd (ring_mirror_list s) \<in> set (sc_tdr s))"
  using sched_steps_inv [OF assms] by (simp add: sched_inv_def mirror_inv_def in_flight_def)

theorem sched_mirror_timer_witness: "0 \<in> set (sc_tdr (sdemo4 (Some (5, 0))))"
  using sched_mirror_timer [OF sdemo_steps [of "Some (5, 0)"]] by (simp add: sdemo4_eval max_schedule_timeout_def)

text \<open>
  A reset while every job of the mirror list still has its callback on the fence of the hardware, and a
  recovery in which the hardware takes them all: each of these jobs is run once more, in the order of
  the list, has exactly one callback again, and the counter is their number.
\<close>

theorem sched_reset_recovery:
  assumes "distinct (ring_mirror_list s)" "distinct (processing (sc_other_cbs s))"
    and "\<forall>j \<in> set (ring_mirror_list s). \<exists>n. jb_parent (sc_jobs s j) = Some n \<and> (n, Process_job j) \<in> set (sc_other_cbs s)"
  shows "\<exists>s1 s2. amd_sched_hw_job_reset s = Some s1 \<and> amd_sched_job_recovery (\<lambda>j. Some (f j, 0)) s1 = s2 \<and>
    sc_ran s2 = sc_ran s @ ring_mirror_list s \<and> hw_rq_count s2 = of_nat (length (ring_mirror_list s)) \<and>
    processing (sc_other_cbs s2) = filter (\<lambda>j. j \<notin> set (ring_mirror_list s)) (processing (sc_other_cbs s)) @ ring_mirror_list s"
proof -
  obtain J cbs where r: "reset_loop (rev (ring_mirror_list s)) s = Some (s\<lparr>sc_jobs := J, sc_other_cbs := cbs\<rparr>)"
    and p: "processing cbs = filter (\<lambda>i. i \<notin> set (rev (ring_mirror_list s))) (processing (sc_other_cbs s))"
    using reset_loop_ok [of "rev (ring_mirror_list s)" s] assms by auto
  let ?s1 = "s\<lparr>sc_jobs := J, sc_other_cbs := cbs, hw_rq_count := 0\<rparr>"
  have "amd_sched_hw_job_reset s = Some ?s1" using r by (simp add: amd_sched_hw_job_reset_def)
  then show ?thesis
    by (auto simp: amd_sched_job_recovery_def fold_recover schedule_tdr_def processing_map p split: list.split)
qed

theorem sched_reset_recovery_witness:
  "\<exists>s1 s2. amd_sched_hw_job_reset (sdemo4 (Some (5, 0))) = Some s1 \<and> amd_sched_job_recovery (\<lambda>j. Some (j + 6, 0)) s1 = s2 \<and>
    sc_ran s2 = [0, 0] \<and> hw_rq_count s2 = 1"
  using sched_reset_recovery [of "sdemo4 (Some (5, 0))" "\<lambda>j. j + 6"] by (auto simp: sdemo4_eval)



text \<open>
  (C26) \<open>amd_sched_hw_job_reset\<close> takes the parent fence of every job of the mirror list without looking
  whether there is one. A job that the backend failed to run has none and stays on the list until its
  finish work has run: a reset in this state, which the driver can reach, is a fault.
\<close>

theorem sched_reset_missing_parent:
  "\<exists>s. sched_step\<^sup>*\<^sup>* (sched_start 2 100) s \<and> amd_sched_hw_job_reset s = None"
proof -
  have "reset_loop (rev (ring_mirror_list (sdemo4 None))) (sdemo4 None) = None"
    by (rule reset_loop_fault [of 0]) (simp_all add: sdemo4_eval)
  then have "amd_sched_hw_job_reset (sdemo4 None) = None" by (simp add: amd_sched_hw_job_reset_def)
  then show ?thesis using sdemo_steps by blast
qed

end
