(* ===== verification/Pll.thy ===== *)
theory Pll
  imports Prelude
begin

text \<open>
  The pixel PLL of \<open>amdgpu/amdgpu_pll.c\<close>: the search for the dividers that come closest to a
  clock, and the choice of a PLL that several display controllers may share. All values are 32-bit
  words with the wrap-around of C; a division by zero and a shift by 32 or more have no result.
\<close>

section \<open>Data\<close>

record amdgpu_pll =
  reference_freq :: u32
  reference_div :: u32
  pl_post_div :: u32
  pll_out_min :: u32
  pll_out_max :: u32
  lcd_pll_out_min :: u32
  lcd_pll_out_max :: u32
  min_ref_div :: u32
  max_ref_div :: u32
  min_post_div :: u32
  max_post_div :: u32
  min_feedback_div :: u32
  max_feedback_div :: u32
  pl_flags :: u32

definition use_ref_div :: "amdgpu_pll \<Rightarrow> bool" where "use_ref_div pll = bit (pl_flags pll) 2"
definition use_frac_fb_div :: "amdgpu_pll \<Rightarrow> bool" where "use_frac_fb_div pll = bit (pl_flags pll) 10"
definition use_post_div :: "amdgpu_pll \<Rightarrow> bool" where "use_post_div pll = bit (pl_flags pll) 12"
definition is_lcd :: "amdgpu_pll \<Rightarrow> bool" where "is_lcd pll = bit (pl_flags pll) 13"
definition prefer_minm :: "amdgpu_pll \<Rightarrow> bool" where "prefer_minm pll = bit (pl_flags pll) 14"

section \<open>Arithmetic\<close>

text \<open>\<open>/\<close>, \<open>%\<close>, \<open>DIV_ROUND_UP\<close> and \<open>DIV_ROUND_CLOSEST\<close> at \<open>unsigned\<close>.\<close>

definition u_div :: "u32 \<Rightarrow> u32 \<Rightarrow> u32 option" where
  "u_div a b = (if b = 0 then None else Some (a div b))"

definition div_round_up :: "u32 \<Rightarrow> u32 \<Rightarrow> u32 option" where
  "div_round_up n d = u_div (n + d - 1) d"

definition div_round_closest :: "u32 \<Rightarrow> u32 \<Rightarrow> u32 option" where
  "div_round_closest x d = u_div (x + d div 2) d"

definition u_gcd :: "u32 \<Rightarrow> u32 \<Rightarrow> u32" where
  "u_gcd a b = of_nat (gcd (unat a) (unat b))"

section \<open>Dividers\<close>

text \<open>The two steps of \<open>amdgpu_pll_reduce_ratio\<close> that scale both numbers up.\<close>

definition scale_nom :: "u32 \<times> u32 \<Rightarrow> u32 \<Rightarrow> (u32 \<times> u32) option" where
  "scale_nom nd nom_min = (case nd of (nom, den) \<Rightarrow>
     if nom < nom_min then do {
       tmp \<leftarrow> div_round_up nom_min nom;
       Some (nom * tmp, den * tmp)
     } else Some (nom, den))"

definition scale_den :: "u32 \<times> u32 \<Rightarrow> u32 \<Rightarrow> (u32 \<times> u32) option" where
  "scale_den nd den_min = (case nd of (nom, den) \<Rightarrow>
     if den < den_min then do {
       tmp \<leftarrow> div_round_up den_min den;
       Some (nom * tmp, den * tmp)
     } else Some (nom, den))"

definition amdgpu_pll_reduce_ratio :: "u32 \<Rightarrow> u32 \<Rightarrow> u32 \<Rightarrow> u32 \<Rightarrow> (u32 \<times> u32) option" where
  "amdgpu_pll_reduce_ratio nom den nom_min den_min = do {
     let tmp = u_gcd nom den;
     nom \<leftarrow> u_div nom tmp;
     den \<leftarrow> u_div den tmp;
     nd \<leftarrow> scale_nom (nom, den) nom_min;
     scale_den nd den_min
   }"

text \<open>The result is the feedback and the reference divider.\<close>

definition amdgpu_pll_get_fb_ref_div :: "u32 \<Rightarrow> u32 \<Rightarrow> u32 \<Rightarrow> u32 \<Rightarrow> u32 \<Rightarrow> (u32 \<times> u32) option" where
  "amdgpu_pll_get_fb_ref_div nom den post_div fb_div_max ref_div_max = do {
     q \<leftarrow> u_div 128 post_div;
     let ref_div_max = min q ref_div_max;
     r \<leftarrow> div_round_closest den post_div;
     let ref_div = min (max r 1) ref_div_max;
     fb_div \<leftarrow> div_round_closest (nom * ref_div * post_div) den;
     if fb_div > fb_div_max then do {
       ref_div \<leftarrow> div_round_closest (ref_div * fb_div_max) fb_div;
       Some (fb_div_max, ref_div)
     } else Some (fb_div, ref_div)
   }"

definition target_clock :: "amdgpu_pll \<Rightarrow> u32 \<Rightarrow> u32" where
  "target_clock pll freq = (if use_frac_fb_div pll then freq else freq div 10)"

definition fb_div_range :: "amdgpu_pll \<Rightarrow> u32 \<times> u32" where
  "fb_div_range pll = (if use_frac_fb_div pll then (min_feedback_div pll * 10, max_feedback_div pll * 10)
     else (min_feedback_div pll, max_feedback_div pll))"

definition ref_div_range :: "amdgpu_pll \<Rightarrow> u32 \<times> u32" where
  "ref_div_range pll =
     (if use_ref_div pll then reference_div pll else min_ref_div pll,
      if use_frac_fb_div pll \<and> use_ref_div pll then reference_div pll else max_ref_div pll)"

definition vco_range :: "amdgpu_pll \<Rightarrow> u32 \<times> u32" where
  "vco_range pll = (let (vmin, vmax) = (if is_lcd pll then (lcd_pll_out_min pll, lcd_pll_out_max pll)
       else (pll_out_min pll, pll_out_max pll))
     in if use_frac_fb_div pll then (vmin * 10, vmax * 10) else (vmin, vmax))"

definition post_div_range :: "amdgpu_pll \<Rightarrow> u32 \<Rightarrow> (u32 \<times> u32) option" where
  "post_div_range pll clock =
     (if use_post_div pll then Some (pl_post_div pll, pl_post_div pll)
      else do {
        let (vco_min, vco_max) = vco_range pll;
        lo \<leftarrow> u_div vco_min clock;
        let lo = (if clock * lo < vco_min then lo + 1 else lo);
        let lo = (if lo < min_post_div pll then min_post_div pll else lo);
        hi \<leftarrow> u_div vco_max clock;
        let hi = (if clock * hi > vco_max then hi - 1 else hi);
        let hi = (if hi > max_post_div pll then max_post_div pll else hi);
        Some (lo, hi)
      })"

text \<open>The distance of the clock for one post divider; \<open>abs\<close> reads its argument as an \<open>int\<close>.\<close>

definition pll_diff :: "amdgpu_pll \<Rightarrow> u32 \<Rightarrow> u32 \<Rightarrow> u32 \<Rightarrow> u32 \<Rightarrow> u32 \<Rightarrow> u32 \<Rightarrow> u32 option" where
  "pll_diff pll clock nom den fb_div_max ref_div_max post_div = do {
     (fb_div, ref_div) \<leftarrow> amdgpu_pll_get_fb_ref_div nom den post_div fb_div_max ref_div_max;
     q \<leftarrow> u_div (reference_freq pll * fb_div) (ref_div * post_div);
     Some (c_abs (clock - q))
   }"

lemma unat_next:
  fixes p :: u32
  assumes "p \<noteq> 0xFFFFFFFF"
  shows "unat (p + 1) = unat p + 1"
proof -
  have "unat p \<noteq> unat (0xFFFFFFFF :: u32)" using assms by (simp only: word_unat_eq_iff simp_thms)
  then have "unat p + 1 < 2 ^ 32" using unat_lt_len [of p] by simp
  then show ?thesis by (subst unat_add_small) simp_all
qed

lemma search_measure: "(p :: u32) \<noteq> 0xFFFFFFFF \<Longrightarrow> 2 ^ 32 - unat (p + 1) < 2 ^ 32 - unat p"
  using unat_lt_len [of p] by (simp add: unat_next)

text \<open>
  The search loop. Behind the largest word the post divider wraps to 0, where the division in
  \<open>amdgpu_pll_get_fb_ref_div\<close> traps.
\<close>

function pll_search :: "(u32 \<Rightarrow> u32 option) \<Rightarrow> bool \<Rightarrow> u32 \<Rightarrow> u32 \<Rightarrow> u32 \<times> u32 \<Rightarrow> (u32 \<times> u32) option" where
  "pll_search diff minm post_div hi best =
     (if post_div \<le> hi then
        (case diff post_div of
           None \<Rightarrow> None
         | Some d \<Rightarrow>
             if post_div = 0xFFFFFFFF then None
             else pll_search diff minm (post_div + 1) hi
               (if d < snd best \<or> (d = snd best \<and> \<not> minm) then (post_div, d) else best))
      else Some best)"
  by pat_completeness auto
termination
  by (relation "measure (\<lambda>(_, _, p, _, _). 2 ^ 32 - unat p)") (simp_all only: wf_measure in_measure case_prod_conv, rule search_measure)

declare pll_search.simps [simp del]

text \<open>The widening of a small fractional feedback divider.\<close>

definition avoid_jitter :: "amdgpu_pll \<Rightarrow> u32 \<Rightarrow> u32 \<times> u32 \<Rightarrow> (u32 \<times> u32) option" where
  "avoid_jitter pll fb_div_min fr = (case fr of (fb_div, ref_div) \<Rightarrow>
     if use_frac_fb_div pll \<and> fb_div mod 10 \<noteq> 0 then
       (let fb_div_min = max fb_div_min ((9 - fb_div mod 10) * 20 + 60)
        in if fb_div < fb_div_min then do {
             tmp \<leftarrow> div_round_up fb_div_min fb_div;
             Some (fb_div * tmp, ref_div * tmp)
           } else Some (fb_div, ref_div))
     else Some (fb_div, ref_div))"

record pll_result =
  dot_clock :: u32
  fb_div_p :: u32
  frac_fb_div_p :: u32
  ref_div_p :: u32
  post_div_p :: u32

definition amdgpu_pll_compute :: "amdgpu_pll \<Rightarrow> u32 \<Rightarrow> pll_result option" where
  "amdgpu_pll_compute pll freq = do {
     let clock = target_clock pll freq;
     let (fb_div_min, fb_div_max) = fb_div_range pll;
     let (ref_div_min, ref_div_max) = ref_div_range pll;
     (post_div_min, post_div_max) \<leftarrow> post_div_range pll clock;
     (nom, den) \<leftarrow> amdgpu_pll_reduce_ratio clock (reference_freq pll) fb_div_min post_div_min;
     (post_div, diff_best) \<leftarrow> pll_search (pll_diff pll clock nom den fb_div_max ref_div_max) (prefer_minm pll)
       post_div_min post_div_max (if prefer_minm pll then post_div_min else post_div_max, - 1);
     (fb_div, ref_div) \<leftarrow> amdgpu_pll_get_fb_ref_div nom den post_div fb_div_max ref_div_max;
     (fb_div, ref_div) \<leftarrow> amdgpu_pll_reduce_ratio fb_div ref_div fb_div_min ref_div_min;
     (fb_div, ref_div) \<leftarrow> avoid_jitter pll fb_div_min (fb_div, ref_div);
     let (fb, frac) = (if use_frac_fb_div pll then (fb_div div 10, fb_div mod 10) else (fb_div, 0));
     dot \<leftarrow> u_div (reference_freq pll * fb * 10 + reference_freq pll * frac) (ref_div * post_div * 10);
     Some \<lparr>dot_clock = dot, fb_div_p = fb, frac_fb_div_p = frac, ref_div_p = ref_div, post_div_p = post_div\<rparr>
   }"

section \<open>Sharing a PLL\<close>

text \<open>
  A display controller: its number, its PLL, whether it has an encoder and whether that is in DP mode
  (the answer of \<open>amdgpu_atombios_encoder_get_encoder_mode\<close>), its connector and its clocks.
\<close>

record amdgpu_crtc =
  crtc_id :: nat
  pll_id :: u32
  encoder_dp :: "bool option"
  connector :: "nat option"
  mode_clock :: i32
  adjusted_clock :: u32
  ss_enabled :: bool

definition atom_ppll_invalid :: u32 where "atom_ppll_invalid = 0xFF"

fun use_mask_loop :: "nat \<Rightarrow> amdgpu_crtc list \<Rightarrow> u32 \<Rightarrow> u32 option" where
  "use_mask_loop c [] pll_in_use = Some pll_in_use"
| "use_mask_loop c (t # ts) pll_in_use =
     (if crtc_id t = c then use_mask_loop c ts pll_in_use
      else if pll_id t \<noteq> atom_ppll_invalid then do {
        m \<leftarrow> c_shl 1 (unat (pll_id t));
        use_mask_loop c ts (pll_in_use OR m)
      }
      else use_mask_loop c ts pll_in_use)"

definition amdgpu_pll_get_use_mask :: "nat \<Rightarrow> amdgpu_crtc list \<Rightarrow> u32 option" where
  "amdgpu_pll_get_use_mask c crtcs = use_mask_loop c crtcs 0"

fun amdgpu_pll_get_shared_dp_ppll :: "nat \<Rightarrow> amdgpu_crtc list \<Rightarrow> u32" where
  "amdgpu_pll_get_shared_dp_ppll c [] = atom_ppll_invalid"
| "amdgpu_pll_get_shared_dp_ppll c (t # ts) =
     (if crtc_id t = c then amdgpu_pll_get_shared_dp_ppll c ts
      else if encoder_dp t = Some True \<and> pll_id t \<noteq> atom_ppll_invalid then pll_id t
      else amdgpu_pll_get_shared_dp_ppll c ts)"

fun shared_nondp_loop :: "amdgpu_crtc \<Rightarrow> amdgpu_crtc list \<Rightarrow> u32" where
  "shared_nondp_loop crtc [] = atom_ppll_invalid"
| "shared_nondp_loop crtc (t # ts) =
     (if crtc_id t = crtc_id crtc then shared_nondp_loop crtc ts
      else if encoder_dp t = Some False then
        (if connector t = connector crtc \<and> pll_id t \<noteq> atom_ppll_invalid then pll_id t
         else if mode_clock crtc = mode_clock t \<and> adjusted_clock crtc = adjusted_clock t \<and>
                 ss_enabled crtc = ss_enabled t \<and> pll_id t \<noteq> atom_ppll_invalid then pll_id t
         else shared_nondp_loop crtc ts)
      else shared_nondp_loop crtc ts)"

definition amdgpu_pll_get_shared_nondp_ppll :: "amdgpu_crtc \<Rightarrow> amdgpu_crtc list \<Rightarrow> u32" where
  "amdgpu_pll_get_shared_nondp_ppll crtc crtcs =
     (if adjusted_clock crtc = 0 then atom_ppll_invalid else shared_nondp_loop crtc crtcs)"

section \<open>The search\<close>

lemma range_step:
  fixes p x hi :: u32
  assumes "p \<noteq> 0xFFFFFFFF"
  shows "p \<le> x \<longleftrightarrow> x = p \<or> p + 1 \<le> x" "p + 1 \<le> x \<Longrightarrow> p < x"
  using unat_next [OF assms] by (auto simp: word_le_nat_alt word_less_nat_alt word_unat_eq_iff)

lemma pll_search_ok:
  "pll_search diff minm p hi best = Some (b, d) \<Longrightarrow>
   d \<le> snd best \<and> (\<forall>x. p \<le> x \<longrightarrow> x \<le> hi \<longrightarrow> (\<exists>dx. diff x = Some dx \<and> d \<le> dx)) \<and>
   ((b, d) = best \<or> p \<le> b \<and> b \<le> hi \<and> diff b = Some d)"
proof (induction diff minm p hi best rule: pll_search.induct)
  case (1 diff minm p hi best)
  show ?case
  proof (cases "p \<le> hi")
    case False
    then show ?thesis using "1.prems" by (subst (asm) pll_search.simps) auto
  next
    case True
    then obtain dp where dp: "diff p = Some dp" "p \<noteq> 0xFFFFFFFF"
      using "1.prems" by (subst (asm) pll_search.simps) (auto split: option.splits if_splits)
    let ?best = "if dp < snd best \<or> dp = snd best \<and> \<not> minm then (p, dp) else best"
    have "pll_search diff minm (p + 1) hi ?best = Some (b, d)"
      using "1.prems" True dp by (subst (asm) pll_search.simps) simp
    note IH = "1.IH" [OF True dp this]
    have "d \<le> dp" "d \<le> snd best" using IH by (auto split: if_splits)
    then show ?thesis
      using IH dp(1) True range_step [OF dp(2)] by (auto split: if_splits intro: order.strict_implies_order)
  qed
qed


lemma search_best:
  assumes "pll_search diff minm lo hi (b0, - 1) = Some (b, d)" "lo \<le> b0" "b0 \<le> hi"
  shows "lo \<le> b \<and> b \<le> hi \<and> diff b = Some d \<and> (\<forall>x. lo \<le> x \<longrightarrow> x \<le> hi \<longrightarrow> (\<exists>dx. diff x = Some dx \<and> d \<le> dx))"
proof -
  note ok = pll_search_ok [OF assms(1)]
  have "diff b = Some d" if "(b, d) = (b0, - 1)"
  proof -
    obtain dx where "diff b = Some dx" "d \<le> dx" using ok assms(2,3) \<open>(b, d) = (b0, - 1)\<close> by auto
    then show ?thesis using that by (simp add: word_order.extremum_unique)
  qed
  then show ?thesis using ok assms(2,3) by auto
qed

section \<open>Ratios\<close>

lemma u_div_Some [simp]: "d \<noteq> 0 \<Longrightarrow> u_div n d = Some (n div d)"
  by (simp add: u_div_def)

lemma unat_u_gcd: "unat (u_gcd a b) = gcd (unat a) (unat b)"
proof (cases "a = 0")
  case False
  then have "gcd (unat a) (unat b) \<le> unat a" by (intro gcd_le1_nat) (simp add: unat_eq_0)
  then show ?thesis unfolding u_gcd_def by (intro unat_of_nat_small) (use unat_lt_len [of a] in simp)
qed (simp add: u_gcd_def)

text \<open>Rounding up: the smallest factor that reaches a bound.\<close>

lemma div_round_up_nat:
  assumes "0 < unat d" "0 < unat n" "unat n + unat d \<le> 2 ^ 32"
  obtains c where "div_round_up n d = Some c" "unat n \<le> unat c * unat d" "0 < unat c" "unat c \<le> unat n"
proof
  have d: "d \<noteq> 0" using assms(1) by auto
  have s: "unat (n + d - 1) = unat n + unat d - 1"
  proof -
    have e: "n + d - 1 = n + (d - 1)" by simp
    have m: "unat (d - 1) = unat d - 1" using d by (simp add: unat_minus_one)
    show ?thesis unfolding e using assms m by (subst unat_add_small) simp_all
  qed
  show "div_round_up n d = Some ((n + d - 1) div d)" using d by (simp add: div_round_up_def)
  have c: "unat ((n + d - 1) div d) = (unat n + unat d - 1) div unat d" by (simp add: unat_div_distrib s)
  have "unat n + unat d - 1 < ((unat n + unat d - 1) div unat d + 1) * unat d"
    using assms(1) by (metis add.commute div_mult_mod_eq mod_less_divisor mult.commute mult_Suc_right nat_add_left_cancel_less plus_1_eq_Suc)
  then show "unat n \<le> unat ((n + d - 1) div d) * unat d" unfolding c by simp
  show "0 < unat ((n + d - 1) div d)" unfolding c using assms(1,2) by (simp add: div_greater_zero_iff)
  have "(unat n + unat d - 1) div unat d \<le> unat n"
  proof -
    have "unat n + unat d - 1 \<le> unat n * unat d"
      using assms(1,2) by (cases "unat n"; cases "unat d") simp_all
    then show ?thesis using assms(1) by (metis div_le_mono nonzero_mult_div_cancel_right less_numeral_extra(3))
  qed
  then show "unat ((n + d - 1) div d) \<le> unat n" unfolding c .
qed

text \<open>Both scaling steps multiply both numbers by the same factor.\<close>

lemma scale_step:
  assumes "0 < unat a" "unat a * max 1 (unat lo) < 2 ^ 32" "unat b * max 1 (unat lo) < 2 ^ 32"
  obtains k where "0 < k" "k \<le> max 1 (unat lo)" "unat lo \<le> unat a * k"
    "(if a < lo then div_round_up lo a \<bind> (\<lambda>t. Some (a * t, b * t)) else Some (a, b)) = Some (a * of_nat k, b * of_nat k)"
    "unat (a * of_nat k) = unat a * k" "unat (b * of_nat k) = unat b * k"
proof (cases "a < lo")
  case True
  then have lt: "unat a < unat lo" by (simp add: word_less_nat_alt)
  have "unat lo + unat a \<le> unat a * unat lo + 1" using assms(1) lt by (cases "unat a"; cases "unat lo") simp_all
  then have "unat lo + unat a \<le> 2 ^ 32" using assms(2) lt by simp
  then obtain c where c: "div_round_up lo a = Some c" "unat lo \<le> unat c * unat a" "0 < unat c" "unat c \<le> unat lo"
    using div_round_up_nat [of a lo] assms(1) lt by auto
  have "unat c \<le> max 1 (unat lo)" using c(4) by simp
  then have m: "unat a * unat c < 2 ^ 32" "unat b * unat c < 2 ^ 32"
    using assms(2,3) by (meson le_less_trans mult_le_mono2)+
  show ?thesis
    by (rule that [of "unat c"]) (use True c m in \<open>simp_all add: unat_mult_small mult.commute\<close>)
next
  case False
  then have "unat lo \<le> unat a" by (simp add: word_less_nat_alt)
  then show ?thesis using that [of 1] False by simp
qed


lemma scale_den_swap: "scale_den (n, d) m = map_option prod.swap (scale_nom (d, n) m)"
  by (cases "div_round_up m d") (simp_all add: scale_den_def scale_nom_def)

lemma scale_nom_step:
  assumes "0 < unat a" "unat a * max 1 (unat lo) < 2 ^ 32" "unat b * max 1 (unat lo) < 2 ^ 32"
  obtains k where "0 < k" "k \<le> max 1 (unat lo)" "unat lo \<le> unat a * k"
    "scale_nom (a, b) lo = Some (a * of_nat k, b * of_nat k)"
    "unat (a * of_nat k) = unat a * k" "unat (b * of_nat k) = unat b * k"
  using scale_step [OF assms] unfolding scale_nom_def prod.case by blast

lemma reduce_ratio_ok:
  assumes pos: "0 < unat nom" "0 < unat den"
    and small: "unat nom * (max 1 (unat nom_min) * max 1 (unat den_min)) < 2 ^ 32"
      "unat den * (max 1 (unat nom_min) * max 1 (unat den_min)) < 2 ^ 32"
  shows "\<exists>n d. amdgpu_pll_reduce_ratio nom den nom_min den_min = Some (n, d) \<and> unat n * unat den = unat nom * unat d \<and>
    nom_min \<le> n \<and> den_min \<le> d \<and> unat d \<le> unat den * (max 1 (unat nom_min) * max 1 (unat den_min))"
proof -
  define g where "g = gcd (unat nom) (unat den)"
  have g: "0 < g" "g dvd unat nom" "g dvd unat den" using pos by (simp_all add: g_def)
  have gw: "u_gcd nom den \<noteq> 0" using unat_u_gcd [of nom den] g(1) by (auto simp: g_def)
  define n1 d1 where "n1 = nom div u_gcd nom den" and "d1 = den div u_gcd nom den"
  have n1: "unat n1 * g = unat nom" and d1: "unat d1 * g = unat den"
    using g by (simp_all add: n1_def d1_def unat_div_distrib unat_u_gcd flip: g_def)
  have p1: "0 < unat n1" "0 < unat d1" using pos n1 d1 by (auto intro: Nat.gr0I)
  let ?a = "max 1 (unat nom_min)" and ?b = "max 1 (unat den_min)"
  have le: "unat n1 \<le> unat nom" "unat d1 \<le> unat den" using n1 d1 g(1) by (auto simp flip: n1 d1)
  have s: "unat n1 * (?a * ?b) < 2 ^ 32" "unat d1 * (?a * ?b) < 2 ^ 32"
    using small le by (meson le_less_trans mult_le_mono1)+
  have ab: "?a \<le> ?a * ?b" using mult_le_mono2 [of 1 ?b ?a] by (simp only: max.cobounded1 mult_1_right simp_thms)
  then have s1: "unat n1 * ?a < 2 ^ 32" "unat d1 * ?a < 2 ^ 32" using s by (meson le_less_trans mult_le_mono2)+
  from scale_nom_step [OF p1(1) s1] obtain k where k: "0 < k" "k \<le> ?a" "unat nom_min \<le> unat n1 * k"
    "scale_nom (n1, d1) nom_min = Some (n1 * of_nat k, d1 * of_nat k)"
    "unat (n1 * of_nat k) = unat n1 * k" "unat (d1 * of_nat k) = unat d1 * k" .
  have kb: "k * ?b \<le> ?a * ?b" using k(2) by (rule mult_le_mono1)
  then have s2: "unat (d1 * of_nat k) * ?b < 2 ^ 32" "unat (n1 * of_nat k) * ?b < 2 ^ 32"
    using s unfolding k(5,6) by (metis le_less_trans mult.assoc mult_le_mono2)+
  have p2: "0 < unat (d1 * of_nat k)" using p1 k by simp
  from scale_nom_step [OF p2 s2] obtain l where l: "0 < l" "l \<le> ?b" "unat den_min \<le> unat (d1 * of_nat k) * l"
    "scale_nom (d1 * of_nat k, n1 * of_nat k) den_min = Some (d1 * of_nat k * of_nat l, n1 * of_nat k * of_nat l)"
    "unat (d1 * of_nat k * of_nat l) = unat (d1 * of_nat k) * l" "unat (n1 * of_nat k * of_nat l) = unat (n1 * of_nat k) * l" .
  have r: "amdgpu_pll_reduce_ratio nom den nom_min den_min = Some (n1 * of_nat k * of_nat l, d1 * of_nat k * of_nat l)"
    using gw k(4) l(4) by (simp add: amdgpu_pll_reduce_ratio_def scale_den_swap flip: n1_def d1_def)
  have "unat nom_min \<le> unat n1 * k * l" using k(3) l(1) by (metis le_trans mult.right_neutral mult_le_mono2 Suc_leI One_nat_def)
  moreover have "unat d1 * k * l \<le> unat den * (?a * ?b)"
    unfolding mult.assoc using le(2) k(2) l(2) by (intro mult_le_mono)
  ultimately show ?thesis
    using r l(3) unfolding word_le_nat_alt by (simp add: l(5,6) k(5,6) flip: n1 d1)
qed

section \<open>Divider limits\<close>

lemma unat_min: "unat (min a b :: u32) = min (unat a) (unat b)"
  by (auto simp: min_def word_le_nat_alt)

lemma closest_le:
  assumes "fb_max < fb" "unat r * unat fb_max \<le> 2 ^ 31"
  shows "\<exists>r'. div_round_closest (r * fb_max) fb = Some r' \<and> unat r' \<le> unat r"
proof -
  have lt: "unat fb_max < unat fb" using assms(1) by (simp add: word_less_nat_alt)
  then have nz: "fb \<noteq> 0" by auto
  have m: "unat (r * fb_max) = unat r * unat fb_max" using assms(2) by (intro unat_mult_small) simp
  have h: "unat (fb div 2) = unat fb div 2" by (simp add: unat_div_distrib)
  have "unat (r * fb_max + fb div 2) = unat r * unat fb_max + unat fb div 2"
    using assms(2) unat_lt_len [of fb] m h by (subst unat_add_small) simp_all
  then have v: "unat ((r * fb_max + fb div 2) div fb) = (unat r * unat fb_max + unat fb div 2) div unat fb"
    by (simp add: unat_div_distrib)
  have "unat r * unat fb_max \<le> unat r * unat fb" using lt by (intro mult_le_mono2) simp
  moreover have "unat fb div 2 < unat fb" using lt by simp
  ultimately have "unat r * unat fb_max + unat fb div 2 < unat r * unat fb + unat fb" by linarith
  then have "unat r * unat fb_max + unat fb div 2 < (unat r + 1) * unat fb" by (simp add: algebra_simps)
  then have "(unat r * unat fb_max + unat fb div 2) div unat fb < unat r + 1" by (simp add: less_mult_imp_div_less)
  then show ?thesis using nz v by (simp add: div_round_closest_def)
qed

lemma fb_ref_div_limits:
  assumes "0 < post_div" "post_div \<le> 128" "den \<noteq> 0" "unat fb_div_max \<le> 2 ^ 24"
  shows "\<exists>fb r. amdgpu_pll_get_fb_ref_div nom den post_div fb_div_max ref_div_max = Some (fb, r) \<and>
    fb \<le> fb_div_max \<and> r \<le> ref_div_max \<and> unat r * unat post_div \<le> 128"
proof -
  have p: "post_div \<noteq> 0" using assms(1) by auto
  define rm where "rm = min (128 div post_div) ref_div_max"
  define r where "r = min (max ((den + post_div div 2) div post_div) 1) rm"
  define fb where "fb = (nom * r * post_div + den div 2) div den"
  have eq: "amdgpu_pll_get_fb_ref_div nom den post_div fb_div_max ref_div_max =
    (if fb > fb_div_max then div_round_closest (r * fb_div_max) fb \<bind> (\<lambda>r. Some (fb_div_max, r)) else Some (fb, r))"
    using p assms(3) by (simp add: amdgpu_pll_get_fb_ref_div_def div_round_closest_def rm_def r_def fb_def Let_def)
  have "unat r \<le> unat rm" by (simp add: r_def unat_min)
  moreover have "unat rm \<le> 128 div unat post_div" by (simp add: rm_def unat_min unat_div_distrib)
  ultimately have r128: "unat r \<le> 128 div unat post_div" by simp
  have bound: "unat x * unat post_div \<le> 128" "x \<le> ref_div_max" if "unat x \<le> unat r" for x
  proof -
    have "unat x * unat post_div \<le> 128 div unat post_div * unat post_div" using that r128 by (intro mult_le_mono1) simp
    also have "\<dots> \<le> 128" by simp
    finally show "unat x * unat post_div \<le> 128" .
    show "x \<le> ref_div_max" using that \<open>unat r \<le> unat rm\<close> by (simp add: rm_def unat_min word_le_nat_alt)
  qed
  show ?thesis
  proof (cases "fb > fb_div_max")
    case True
    have "unat r \<le> 128" using r128 by (meson div_le_dividend le_trans)
    then have "unat r * unat fb_div_max \<le> 128 * 2 ^ 24" using assms(4) by (rule mult_le_mono)
    then obtain r' where "div_round_closest (r * fb_div_max) fb = Some r'" "unat r' \<le> unat r"
      using closest_le [OF True, of r] by auto
    then show ?thesis using eq True bound [of r'] by simp
  next
    case False
    then show ?thesis using eq bound [of r] by simp
  qed
qed

lemma diff_traps:
  assumes "128 < post_div" "den \<noteq> 0"
  shows "pll_diff pll clock nom den fb_div_max ref_div_max post_div = None"
proof -
  have "post_div \<noteq> 0" using assms(1) by auto
  moreover have "128 div post_div = 0"
    using assms(1) by (simp add: word_less_nat_alt unat_div_distrib flip: unat_eq_0)
  moreover have "den div 2 div den = 0"
  proof -
    have "0 < unat den" using assms(2) by (simp add: unat_gt_0)
    then have "unat den div 2 div unat den = 0" by (intro div_less) simp
    then have "unat (den div 2 div den) = 0" unfolding unat_div_distrib by simp
    then show ?thesis unfolding unat_eq_0 .
  qed
  ultimately show ?thesis
    using assms(2) by (simp add: pll_diff_def amdgpu_pll_get_fb_ref_div_def div_round_closest_def u_div_def Let_def min_def)
qed

section \<open>The clock of the result\<close>

text \<open>
  The clock that three dividers make of the reference, and the feedback divider of a result, in tenths when
  it has a fractional part. The limits of a PLL are moderate when the products of the computation fit.
\<close>

definition pll_clock :: "amdgpu_pll \<Rightarrow> nat \<Rightarrow> nat \<Rightarrow> nat \<Rightarrow> nat" where
  "pll_clock pll fb_div ref_div post_div = unat (reference_freq pll) * fb_div div (ref_div * post_div)"

definition feedback :: "amdgpu_pll \<Rightarrow> pll_result \<Rightarrow> nat" where
  "feedback pll r = (if use_frac_fb_div pll then 10 * unat (fb_div_p r) + unat (frac_fb_div_p r) else unat (fb_div_p r))"

definition moderate :: "amdgpu_pll \<Rightarrow> u32 \<Rightarrow> bool" where
  "moderate pll clock \<longleftrightarrow>
     (let fb_min = unat (fst (fb_div_range pll)); fb_max = unat (snd (fb_div_range pll)); k = fb_min * max 1 (unat (fst (ref_div_range pll)))
      in 0 < fb_min \<and> fb_max \<le> 2 ^ 24 \<and> unat (reference_freq pll) * fb_max < 2 ^ 31 \<and> unat clock < 2 ^ 31 \<and>
        fb_max * k < 2 ^ 32 \<and> 220 * (128 * k) < 2 ^ 32)"

lemma unat_c_abs_diff:
  fixes a b :: u32
  assumes "unat a < 2 ^ 31" "unat b < 2 ^ 31"
  shows "int (unat (c_abs (a - b))) = \<bar>int (unat a) - int (unat b)\<bar>"
proof -
  have sub: "sint (x - y) = int (unat x) - int (unat y) \<and> sint (- (x - y)) = int (unat y) - int (unat x)" if "y \<le> x" "unat x < 2 ^ 31" for x y :: u32
  proof -
    have u: "unat (x - y) = unat x - unat y" "unat y \<le> unat x" using that(1) by (simp_all add: unat_sub word_le_nat_alt)
    then show ?thesis using that(2) sint_of_small [of "x - y"] sint_uminus_small [of "x - y"] by simp
  qed
  have "sint (a - b) = int (unat a) - int (unat b)" using sub [of b a] sub [of a b] assms by (cases "b \<le> a") auto
  then show ?thesis by (simp add: unat_c_abs)
qed

lemma diff_clock:
  assumes "pll_diff pll clock nom den fb_max ref_max p = Some d" "unat fb_max \<le> 2 ^ 24" "unat (reference_freq pll) * unat fb_max < 2 ^ 31" "unat clock < 2 ^ 31"
  obtains fb r where "amdgpu_pll_get_fb_ref_div nom den p fb_max ref_max = Some (fb, r)" "fb \<le> fb_max" "0 < unat r" "0 < unat p" "unat r * unat p \<le> 128"
    "int (unat d) = \<bar>int (unat clock) - int (pll_clock pll (unat fb) (unat r) (unat p))\<bar>"
proof -
  obtain fb r where g: "amdgpu_pll_get_fb_ref_div nom den p fb_max ref_max = Some (fb, r)" and nz: "r * p \<noteq> 0"
    and d: "d = c_abs (clock - reference_freq pll * fb div (r * p))"
    using assms(1) by (auto simp: pll_diff_def u_div_def elim!: bind_eq_SomeE split: if_splits)
  have den: "den \<noteq> 0" using g by (auto simp: amdgpu_pll_get_fb_ref_div_def div_round_closest_def u_div_def Let_def elim!: bind_eq_SomeE split: if_splits)
  have "p \<le> 128" using assms(1) diff_traps [OF _ den, of p] by (metis not_le option.distinct(1))
  moreover have pos: "0 < unat r" "0 < unat p" "0 < p" using nz by (auto simp: unat_gt_0 word_gt_0)
  ultimately have l: "fb \<le> fb_max" "unat r * unat p \<le> 128" using fb_ref_div_limits [of p den fb_max nom ref_max] den g assms(2) by auto
  have "unat (reference_freq pll) * unat fb \<le> unat (reference_freq pll) * unat fb_max" using l(1) unfolding word_le_nat_alt by (rule mult_le_mono2)
  then have s: "unat (reference_freq pll) * unat fb < 2 ^ 31" using assms(3) by linarith
  have m: "unat (reference_freq pll * fb) = unat (reference_freq pll) * unat fb" "unat (r * p) = unat r * unat p"
    using s l(2) by (simp_all add: unat_mult_small)
  have q: "unat (reference_freq pll * fb div (r * p)) = pll_clock pll (unat fb) (unat r) (unat p)" by (simp add: unat_div_distrib m pll_clock_def)
  have "pll_clock pll (unat fb) (unat r) (unat p) < 2 ^ 31" using s by (simp add: pll_clock_def) (meson div_le_dividend le_less_trans)
  then show thesis using that [OF g l(1) pos(1,2) l(2)] unat_c_abs_diff [OF assms(4), of "reference_freq pll * fb div (r * p)"] d q by simp
qed

lemma reduce_ratio_zero: "amdgpu_pll_reduce_ratio 0 den nom_min den_min = Some x \<Longrightarrow> nom_min = 0"
  by (auto simp: amdgpu_pll_reduce_ratio_def scale_nom_def div_round_up_def u_div_def Let_def word_gt_0 elim!: bind_eq_SomeE split: if_splits)

lemma avoid_jitter_ratio:
  assumes "avoid_jitter pll lo (fb, r) = Some (fb', r')" "lo \<le> fb" "0 < unat fb" "0 < unat r" "220 * unat r < 2 ^ 32"
  shows "unat fb' * unat r = unat fb * unat r' \<and> 0 < unat r'"
proof -
  define l where "l = (9 - fb mod 10) * 20 + 60"
  have "avoid_jitter pll lo (fb, r) = (if use_frac_fb_div pll \<and> fb mod 10 \<noteq> 0 \<and> fb < max lo l
    then div_round_up (max lo l) fb \<bind> (\<lambda>t. Some (fb * t, r * t)) else Some (fb, r))"
    unfolding avoid_jitter_def Let_def l_def [symmetric] prod.case by simp
  moreover have "max lo l = l" if "fb < max lo l" using that assms(2) by (auto simp: max_def split: if_splits)
  ultimately consider (same) "fb' = fb" "r' = r" | (scaled) t where "fb mod 10 \<noteq> 0" "fb < l" "div_round_up l fb = Some t" "fb' = fb * t" "r' = r * t"
    using assms(1) by (cases "div_round_up (max lo l) fb") (auto split: if_splits)
  then show ?thesis
  proof cases
    case same
    then show ?thesis using assms(4) by simp
  next
    case scaled
    have m: "unat (fb mod 10) = unat fb mod 10" by (simp add: unat_mod_distrib)
    have "unat (9 - fb mod 10 :: u32) = 9 - unat fb mod 10" by (subst unat_sub) (simp_all add: word_le_nat_alt m)
    note w = this
    have "unat (w * 20 + 60) = unat w * 20 + 60" if "unat w \<le> 9" for w :: u32
      using that unat_mult_small [of w 20] unat_add_small [of "w * 20" 60] by simp
    from this [of "9 - fb mod 10", unfolded w, OF diff_le_self] have "unat l = (9 - unat fb mod 10) * 20 + 60" unfolding l_def .
    moreover have "0 < unat fb mod 10" using scaled(1) m by (metis gr0I unat_eq_0)
    ultimately have lo: "unat l \<le> 220" "0 < unat l" by simp_all
    then have fb: "unat fb < 220" using scaled(2) by (simp add: word_less_nat_alt)
    obtain c where c: "div_round_up l fb = Some c" "0 < unat c" "unat c \<le> unat l" using div_round_up_nat [OF assms(3) lo(2)] lo(1) fb by auto
    have t: "unat t \<le> 220" "0 < unat t" using c scaled(3) lo(1) by auto
    have "unat fb * unat t \<le> 220 * 220" using fb t(1) by (intro mult_le_mono) simp_all
    then have "unat fb * unat t < 2 ^ 32" by simp
    moreover have "unat r * unat t \<le> unat r * 220" using t(1) by (rule mult_le_mono2)
    then have "unat r * unat t < 2 ^ 32" using assms(5) by linarith
    ultimately have "unat (fb * t) = unat fb * unat t" "unat (r * t) = unat r * unat t" by (simp_all add: unat_mult_small)
    then show ?thesis using scaled(4,5) t(2) assms(4) by simp
  qed
qed

lemma same_ratio_div:
  fixes a b c d :: nat
  assumes "a * d = c * b" "0 < b" "0 < d"
  shows "a div b = c div d"
proof -
  have "a div b = (a * d) div (b * d)" using assms(3) by simp
  also have "\<dots> = (c * b) div (d * b)" by (simp only: assms(1) mult.commute [of b d])
  also have "\<dots> = c div d" using assms(2) by simp
  finally show ?thesis .
qed

lemma compute_parts:
  assumes run: "amdgpu_pll_compute pll freq = Some r" and m: "moderate pll (target_clock pll freq)"
    and range: "post_div_range pll (target_clock pll freq) = Some (lo, hi)" "lo \<le> hi"
    and ratio: "amdgpu_pll_reduce_ratio (target_clock pll freq) (reference_freq pll) (fst (fb_div_range pll)) lo = Some (nom, den)"
  shows "lo \<le> post_div_p r \<and> post_div_p r \<le> hi \<and> frac_fb_div_p r < 10"
    "lo \<le> x \<Longrightarrow> x \<le> hi \<Longrightarrow> \<exists>dx. pll_diff pll (target_clock pll freq) nom den (snd (fb_div_range pll)) (snd (ref_div_range pll)) x = Some dx \<and>
      (\<forall>d. pll_diff pll (target_clock pll freq) nom den (snd (fb_div_range pll)) (snd (ref_div_range pll)) (post_div_p r) = Some d \<longrightarrow> d \<le> dx)"
    "amdgpu_pll_get_fb_ref_div nom den (post_div_p r) (snd (fb_div_range pll)) (snd (ref_div_range pll)) = Some (fb, ref) \<Longrightarrow>
      fb \<le> snd (fb_div_range pll) \<Longrightarrow> 0 < unat ref \<Longrightarrow> unat ref \<le> 128 \<Longrightarrow>
      0 < unat (ref_div_p r) \<and> feedback pll r * unat ref = unat fb * unat (ref_div_p r)"
proof -
  let ?b0 = "if prefer_minm pll then lo else hi"
  let ?diff = "pll_diff pll (target_clock pll freq) nom den (snd (fb_div_range pll)) (snd (ref_div_range pll))"
  let ?lo = "fst (fb_div_range pll)" and ?rlo = "fst (ref_div_range pll)"
  obtain p d fb1 r1 fb2 r2 fb3 r3 where s: "pll_search ?diff (prefer_minm pll) lo hi (?b0, - 1) = Some (p, d)"
    "amdgpu_pll_get_fb_ref_div nom den p (snd (fb_div_range pll)) (snd (ref_div_range pll)) = Some (fb1, r1)"
    "amdgpu_pll_reduce_ratio fb1 r1 ?lo ?rlo = Some (fb2, r2)" "avoid_jitter pll ?lo (fb2, r2) = Some (fb3, r3)"
    and res: "post_div_p r = p" "ref_div_p r = r3" "fb_div_p r = (if use_frac_fb_div pll then fb3 div 10 else fb3)"
      "frac_fb_div_p r = (if use_frac_fb_div pll then fb3 mod 10 else 0)"
    using run unfolding amdgpu_pll_compute_def by (auto simp: range(1) ratio Let_def case_prod_beta if_distrib [of fst] if_distrib [of snd] elim!: bind_eq_SomeE cong: if_cong)
  have best: "lo \<le> p \<and> p \<le> hi \<and> ?diff p = Some d \<and> (\<forall>x. lo \<le> x \<longrightarrow> x \<le> hi \<longrightarrow> (\<exists>dx. ?diff x = Some dx \<and> d \<le> dx))"
    by (rule search_best [OF s(1)]) (use range(2) in simp_all)
  have frac: "frac_fb_div_p r < 10" using res(4) by (simp add: word_less_nat_alt unat_mod_distrib)
  have fb: "feedback pll r = unat fb3" using res by (simp add: feedback_def unat_div_distrib unat_mod_distrib)
  let ?k = "max 1 (unat ?lo) * max 1 (unat ?rlo)"
  have k: "unat (snd (fb_div_range pll)) * ?k < 2 ^ 32" "220 * (128 * ?k) < 2 ^ 32" "0 < unat ?lo"
    using m by (simp_all add: moderate_def Let_def max_def split: if_splits)
  have "0 < unat r3 \<and> unat fb3 * unat r1 = unat fb1 * unat r3" if h: "fb1 \<le> snd (fb_div_range pll)" "0 < unat r1" "unat r1 \<le> 128"
  proof -
    have pos: "0 < unat fb1" using s(3) k(3) reduce_ratio_zero [of r1 ?lo ?rlo] by (cases "fb1 = 0") (auto simp: unat_gt_0)
    have "unat fb1 * ?k \<le> unat (snd (fb_div_range pll)) * ?k" using h(1) unfolding word_le_nat_alt by (rule mult_le_mono1)
    moreover have r1: "unat r1 * ?k \<le> 128 * ?k" using h(3) by (rule mult_le_mono1)
    ultimately have "unat fb1 * ?k < 2 ^ 32" "unat r1 * ?k < 2 ^ 32" using k(1,2) by linarith+
    from reduce_ratio_ok [OF pos h(2) this] s(3) have q: "unat fb2 * unat r1 = unat fb1 * unat r2" "?lo \<le> fb2" "unat r2 \<le> unat r1 * ?k" by auto
    have fb2: "0 < unat fb2" using q(2) k(3) by (simp add: word_le_nat_alt)
    then have r2: "0 < unat r2" using q(1) h(2) pos by (metis gr0I mult_is_0)
    have "220 * unat r2 < 2 ^ 32" using q(3) r1 k(2) by linarith
    from avoid_jitter_ratio [OF s(4) q(2) fb2 r2 this] have j: "unat fb3 * unat r2 = unat fb2 * unat r3" "0 < unat r3" by simp_all
    have "unat fb3 * unat r1 * unat r2 = unat fb3 * unat r2 * unat r1" by (simp only: ac_simps)
    also have "\<dots> = unat fb2 * unat r1 * unat r3" by (simp only: j(1) ac_simps)
    also have "\<dots> = unat fb1 * unat r3 * unat r2" by (simp only: q(1) ac_simps)
    finally show ?thesis using r2 j(2) by simp
  qed
  then show "amdgpu_pll_get_fb_ref_div nom den (post_div_p r) (snd (fb_div_range pll)) (snd (ref_div_range pll)) = Some (fb, ref) \<Longrightarrow>
      fb \<le> snd (fb_div_range pll) \<Longrightarrow> 0 < unat ref \<Longrightarrow> unat ref \<le> 128 \<Longrightarrow>
      0 < unat (ref_div_p r) \<and> feedback pll r * unat ref = unat fb * unat (ref_div_p r)" using s(2) res(1,2) fb by auto
  show "lo \<le> post_div_p r \<and> post_div_p r \<le> hi \<and> frac_fb_div_p r < 10" using best res(1) frac by simp
  show "lo \<le> x \<Longrightarrow> x \<le> hi \<Longrightarrow> \<exists>dx. ?diff x = Some dx \<and> (\<forall>d. ?diff (post_div_p r) = Some d \<longrightarrow> d \<le> dx)" using best res(1) by auto
qed

section \<open>Use masks\<close>

lemma use_mask_bits:
  "use_mask_loop c ts m = Some m' \<Longrightarrow> n < 32 \<Longrightarrow>
   bit m' n \<longleftrightarrow> bit m n \<or> (\<exists>t \<in> set ts. crtc_id t \<noteq> c \<and> pll_id t \<noteq> atom_ppll_invalid \<and> unat (pll_id t) = n)"
proof (induction ts arbitrary: m)
  case (Cons t ts)
  show ?case
  proof (cases "crtc_id t \<noteq> c \<and> pll_id t \<noteq> atom_ppll_invalid")
    case True
    then have "unat (pll_id t) < 32" "use_mask_loop c ts (m OR push_bit (unat (pll_id t)) 1) = Some m'"
      using Cons.prems(1) by (simp_all add: c_shl_def split: if_splits)
    moreover have "bit (push_bit (unat (pll_id t)) 1 :: u32) n \<longleftrightarrow> unat (pll_id t) = n"
      using Cons.prems(2) by (auto simp: bit_simps)
    ultimately show ?thesis using Cons.IH [OF _ Cons.prems(2)] True by (auto simp: bit_or_iff)
  next
    case False
    then have "use_mask_loop c ts m = Some m'" using Cons.prems(1) by (auto split: if_splits)
    then show ?thesis using Cons.IH [OF _ Cons.prems(2)] False by auto
  qed
qed simp

lemma shared_dp_in:
  "amdgpu_pll_get_shared_dp_ppll c ts = p \<Longrightarrow> p \<noteq> atom_ppll_invalid \<Longrightarrow>
   \<exists>t \<in> set ts. crtc_id t \<noteq> c \<and> encoder_dp t = Some True \<and> pll_id t = p"
  by (induction ts) (auto split: if_splits)

lemma shared_nondp_in:
  "shared_nondp_loop crtc ts = p \<Longrightarrow> p \<noteq> atom_ppll_invalid \<Longrightarrow>
   \<exists>t \<in> set ts. crtc_id t \<noteq> crtc_id crtc \<and> encoder_dp t = Some False \<and> pll_id t = p \<and>
     (connector t = connector crtc \<or> mode_clock t = mode_clock crtc \<and> adjusted_clock t = adjusted_clock crtc \<and> ss_enabled t = ss_enabled crtc)"
  by (induction ts) (auto split: if_splits)

text \<open>A PLL with a reference of 27 MHz and the usual limits, and two display controllers.\<close>

definition demo_pll :: amdgpu_pll where
  "demo_pll = \<lparr>reference_freq = 2700, reference_div = 0, pl_post_div = 0, pll_out_min = 64800, pll_out_max = 110000,
     lcd_pll_out_min = 64800, lcd_pll_out_max = 110000, min_ref_div = 2, max_ref_div = 0x3FF, min_post_div = 2,
     max_post_div = 0x7F, min_feedback_div = 4, max_feedback_div = 0xFFF, pl_flags = 0\<rparr>"

definition demo_crtcs :: "amdgpu_crtc list" where
  "demo_crtcs = [\<lparr>crtc_id = 0, pll_id = 1, encoder_dp = Some True, connector = Some 4, mode_clock = 148500, adjusted_clock = 148500, ss_enabled = False\<rparr>,
     \<lparr>crtc_id = 1, pll_id = 2, encoder_dp = Some False, connector = Some 5, mode_clock = 74250, adjusted_clock = 74250, ss_enabled = True\<rparr>]"

lemma demo_range: "post_div_range demo_pll (target_clock demo_pll 148500) = Some (5, 7)"
  by (simp add: demo_pll_def post_div_range_def target_clock_def vco_range_def use_post_div_def use_frac_fb_div_def is_lcd_def)

lemmas pll_defs = amdgpu_pll_get_fb_ref_div_def div_round_closest_def u_div_def pll_diff_def c_abs_def

lemma demo_ratio: "amdgpu_pll_reduce_ratio (target_clock demo_pll 148500) (reference_freq demo_pll) (fst (fb_div_range demo_pll)) 5 = Some (33, 6)"
proof -
  have "u_gcd 14850 2700 = 1350" by (simp add: u_gcd_def gcd_non_0_nat)
  then show ?thesis
    by (simp add: amdgpu_pll_reduce_ratio_def target_clock_def fb_div_range_def use_frac_fb_div_def demo_pll_def scale_nom_def scale_den_def
      div_round_up_def u_div_def)
qed

lemma demo_diffs:
  "pll_diff demo_pll 14850 33 6 0xFFF 0x3FF 5 = Some 270"
  "pll_diff demo_pll 14850 33 6 0xFFF 0x3FF 6 = Some 0"
  "pll_diff demo_pll 14850 33 6 0xFFF 0x3FF 7 = Some 192"
  by (simp_all add: pll_defs demo_pll_def Let_def min_def max_def)

lemma demo_pll_search: "pll_search (pll_diff demo_pll 14850 33 6 0xFFF 0x3FF) False 5 7 (7, - 1) = Some (6, 0)"
  by (simp add: pll_search.simps demo_diffs)

lemma demo_compute: "amdgpu_pll_compute demo_pll 148500 =
    Some \<lparr>dot_clock = 14850, fb_div_p = 66, frac_fb_div_p = 0, ref_div_p = 2, post_div_p = 6\<rparr>"
proof -
  have r: "fb_div_range demo_pll = (4, 0xFFF)" "ref_div_range demo_pll = (2, 0x3FF)" "target_clock demo_pll 148500 = 14850"
    "reference_freq demo_pll = 2700" "prefer_minm demo_pll = False" "use_frac_fb_div demo_pll = False"
    by (simp_all add: fb_div_range_def ref_div_range_def target_clock_def demo_pll_def use_frac_fb_div_def use_ref_div_def prefer_minm_def)
  have g: "amdgpu_pll_get_fb_ref_div 33 6 6 0xFFF 0x3FF = Some (33, 1)" by (simp add: pll_defs Let_def min_def max_def)
  have "u_gcd 33 1 = 1" by (simp add: u_gcd_def gcd_non_0_nat)
  then have d: "amdgpu_pll_reduce_ratio 33 1 4 2 = Some (66, 2)"
    by (simp add: amdgpu_pll_reduce_ratio_def scale_nom_def scale_den_def div_round_up_def u_div_def)
  show ?thesis
    using demo_range demo_ratio demo_pll_search
    by (simp add: amdgpu_pll_compute_def r g d avoid_jitter_def u_div_def)
qed

section \<open>Properties\<close>

text \<open>
  (C32) The dividers that \<open>amdgpu_pll_compute\<close> returns make the closest clock that the search can reach. For a
  PLL whose limits are moderate, so that the products of the computation fit in their words, and whose range
  of post dividers is not empty: the post divider is in the range; the clock of the returned feedback,
  reference and post dividers is at least as close to the wanted one as that of every post divider of the
  range with the feedback and reference dividers that \<open>amdgpu_pll_get_fb_ref_div\<close> finds for it; and the
  fractional part of the feedback divider is a decimal digit.
\<close>

theorem pll_compute_best:
  assumes "amdgpu_pll_compute pll freq = Some r" "moderate pll (target_clock pll freq)"
    and "post_div_range pll (target_clock pll freq) = Some (lo, hi)" "lo \<le> hi"
    and "amdgpu_pll_reduce_ratio (target_clock pll freq) (reference_freq pll) (fst (fb_div_range pll)) lo = Some (nom, den)"
  shows "lo \<le> post_div_p r \<and> post_div_p r \<le> hi \<and> frac_fb_div_p r < 10 \<and>
    (\<forall>x. lo \<le> x \<longrightarrow> x \<le> hi \<longrightarrow>
      (\<exists>fb ref. amdgpu_pll_get_fb_ref_div nom den x (snd (fb_div_range pll)) (snd (ref_div_range pll)) = Some (fb, ref) \<and>
        \<bar>int (unat (target_clock pll freq)) - int (pll_clock pll (feedback pll r) (unat (ref_div_p r)) (unat (post_div_p r)))\<bar>
        \<le> \<bar>int (unat (target_clock pll freq)) - int (pll_clock pll (unat fb) (unat ref) (unat x))\<bar>))"
proof -
  let ?clock = "target_clock pll freq" and ?fmax = "snd (fb_div_range pll)" and ?rmax = "snd (ref_div_range pll)"
  let ?p = "post_div_p r"
  note parts = compute_parts [OF assms]
  have m: "unat ?fmax \<le> 2 ^ 24" "unat (reference_freq pll) * unat ?fmax < 2 ^ 31" "unat ?clock < 2 ^ 31" using assms(2) by (simp_all add: moderate_def Let_def)
  obtain d where d: "pll_diff pll ?clock nom den ?fmax ?rmax ?p = Some d" using parts(1) parts(2) [of ?p] by blast
  from diff_clock [OF d m] obtain fb ref where g: "amdgpu_pll_get_fb_ref_div nom den ?p ?fmax ?rmax = Some (fb, ref)" "fb \<le> ?fmax" "0 < unat ref" "0 < unat ?p"
    "unat ref * unat ?p \<le> 128" "int (unat d) = \<bar>int (unat ?clock) - int (pll_clock pll (unat fb) (unat ref) (unat ?p))\<bar>" .
  have "unat ref * 1 \<le> unat ref * unat ?p" using g(4) by (intro mult_le_mono2) simp
  then have "unat ref \<le> 128" using g(5) by linarith
  then have f: "0 < unat (ref_div_p r)" "feedback pll r * unat ref = unat fb * unat (ref_div_p r)" using parts(3) [OF g(1-3)] by simp_all
  have "unat (reference_freq pll) * feedback pll r * (unat ref * unat ?p) = unat (reference_freq pll) * unat fb * (unat (ref_div_p r) * unat ?p)"
    using f(2) by (metis mult.assoc)
  then have same: "pll_clock pll (feedback pll r) (unat (ref_div_p r)) (unat ?p) = pll_clock pll (unat fb) (unat ref) (unat ?p)"
    unfolding pll_clock_def using f(1) g(3,4) by (intro same_ratio_div) simp_all
  have "\<exists>fb ref. amdgpu_pll_get_fb_ref_div nom den x ?fmax ?rmax = Some (fb, ref) \<and> int (unat d) \<le> \<bar>int (unat ?clock) - int (pll_clock pll (unat fb) (unat ref) (unat x))\<bar>"
    if x: "lo \<le> x" "x \<le> hi" for x
  proof -
    obtain dx where dx: "pll_diff pll ?clock nom den ?fmax ?rmax x = Some dx" "d \<le> dx" using parts(2) [OF x] d by blast
    from diff_clock [OF dx(1) m] show ?thesis using dx(2) by (metis of_nat_le_iff word_le_nat_alt)
  qed
  then show ?thesis using parts(1) same g(6) by simp
qed

theorem pll_compute_best_witness:
  "\<exists>fb ref. amdgpu_pll_get_fb_ref_div 33 6 7 0xFFF 0x3FF = Some (fb, ref) \<and>
     \<bar>14850 - int (pll_clock demo_pll 66 2 6)\<bar> \<le> \<bar>14850 - int (pll_clock demo_pll (unat fb) (unat ref) 7)\<bar>"
proof -
  have r: "fb_div_range demo_pll = (4, 0xFFF)" "ref_div_range demo_pll = (2, 0x3FF)" "target_clock demo_pll 148500 = 14850" "use_frac_fb_div demo_pll = False"
    by (simp_all add: fb_div_range_def ref_div_range_def target_clock_def demo_pll_def use_frac_fb_div_def use_ref_div_def)
  have "moderate demo_pll (target_clock demo_pll 148500)" by (simp add: moderate_def r) (simp add: demo_pll_def)
  from pll_compute_best [OF demo_compute this demo_range _ demo_ratio, THEN conjunct2, THEN conjunct2, THEN conjunct2, rule_format, of 7]
  show ?thesis by (simp add: r feedback_def)
qed

text \<open>
  Reducing a ratio keeps its value and makes both numbers as large as asked for, as long as the scaled
  numbers fit in 32 bits.
\<close>

theorem pll_reduce_ratio_keeps:
  assumes "0 < nom" "0 < den"
    and "unat nom * (max 1 (unat nom_min) * max 1 (unat den_min)) < 2 ^ 32"
      "unat den * (max 1 (unat nom_min) * max 1 (unat den_min)) < 2 ^ 32"
  shows "\<exists>n d. amdgpu_pll_reduce_ratio nom den nom_min den_min = Some (n, d) \<and> unat n * unat den = unat nom * unat d \<and>
    nom_min \<le> n \<and> den_min \<le> d"
  using reduce_ratio_ok [of nom den nom_min den_min] assms by (auto simp: word_less_nat_alt)

theorem pll_reduce_ratio_keeps_witness:
  "\<exists>n d. amdgpu_pll_reduce_ratio 14850 2700 4 5 = Some (n, d) \<and> unat n * 2700 = 14850 * unat d"
  using pll_reduce_ratio_keeps [of 14850 2700 4 5] by auto

text \<open>
  For a post divider of 1 to 128 the feedback and the reference divider stay within their limits and
  the product of reference and post divider within 128. For a larger post divider the reference divider
  is 0 and the search of \<open>amdgpu_pll_compute\<close> divides by zero.
\<close>

theorem pll_divider_limits:
  assumes "0 < post_div" "den \<noteq> 0" "unat fb_div_max \<le> 2 ^ 24"
  shows "if post_div \<le> 128
    then \<exists>fb r. amdgpu_pll_get_fb_ref_div nom den post_div fb_div_max ref_div_max = Some (fb, r) \<and>
      fb \<le> fb_div_max \<and> r \<le> ref_div_max \<and> unat r * unat post_div \<le> 128
    else pll_diff pll clock nom den fb_div_max ref_div_max post_div = None"
  using fb_ref_div_limits [OF assms(1) _ assms(2,3)] diff_traps [OF _ assms(2)] by auto

theorem pll_divider_limits_witness: "pll_diff demo_pll 14850 33 6 0xFFF 0x3FF 200 = None"
  using pll_divider_limits [where post_div = 200 and den = 6 and fb_div_max = 4095 and nom = 33 and ref_div_max = 1023 and pll = demo_pll and clock = 14850] by simp

text \<open>
  Bit \<open>n\<close> of the use mask tells whether another display controller drives PLL \<open>n\<close>, and a PLL that
  the two lookups for sharing return is one of these.
\<close>

theorem pll_use_mask:
  assumes "amdgpu_pll_get_use_mask (crtc_id crtc) crtcs = Some m"
  shows "(\<forall>n < 32. bit m n \<longleftrightarrow> (\<exists>t \<in> set crtcs. crtc_id t \<noteq> crtc_id crtc \<and> pll_id t \<noteq> atom_ppll_invalid \<and> unat (pll_id t) = n)) \<and>
    (\<forall>p. p \<noteq> atom_ppll_invalid \<longrightarrow>
      p = amdgpu_pll_get_shared_dp_ppll (crtc_id crtc) crtcs \<or> p = amdgpu_pll_get_shared_nondp_ppll crtc crtcs \<longrightarrow>
      unat p < 32 \<longrightarrow> bit m (unat p))"
proof -
  have bits: "bit m n \<longleftrightarrow> (\<exists>t \<in> set crtcs. crtc_id t \<noteq> crtc_id crtc \<and> pll_id t \<noteq> atom_ppll_invalid \<and> unat (pll_id t) = n)" if "n < 32" for n
    using use_mask_bits [of "crtc_id crtc" crtcs 0 m n] assms that by (simp add: amdgpu_pll_get_use_mask_def)
  have shared: "\<exists>t \<in> set crtcs. crtc_id t \<noteq> crtc_id crtc \<and> pll_id t = p"
    if "p \<noteq> atom_ppll_invalid" "p = amdgpu_pll_get_shared_dp_ppll (crtc_id crtc) crtcs \<or> p = amdgpu_pll_get_shared_nondp_ppll crtc crtcs" for p
    using that shared_dp_in [of "crtc_id crtc" crtcs p] shared_nondp_in [of crtc crtcs p]
    by (auto simp: amdgpu_pll_get_shared_nondp_ppll_def split: if_splits)
  show ?thesis
  proof (intro conjI allI impI)
    fix p assume p: "p \<noteq> atom_ppll_invalid" "unat p < 32"
      "p = amdgpu_pll_get_shared_dp_ppll (crtc_id crtc) crtcs \<or> p = amdgpu_pll_get_shared_nondp_ppll crtc crtcs"
    obtain t where "t \<in> set crtcs" "crtc_id t \<noteq> crtc_id crtc" "pll_id t = p" using shared [OF p(1,3)] by blast
    then show "bit m (unat p)" unfolding bits [OF p(2)] using p(1) by blast
  qed (rule bits)
qed

theorem pll_use_mask_witness:
  "amdgpu_pll_get_use_mask (crtc_id (demo_crtcs ! 1)) demo_crtcs = Some 2 \<and> bit (2 :: u32) 1"
proof -
  have m: "amdgpu_pll_get_use_mask (crtc_id (demo_crtcs ! 1)) demo_crtcs = Some 2" by code_simp
  have "amdgpu_pll_get_shared_dp_ppll (crtc_id (demo_crtcs ! 1)) demo_crtcs = 1" by code_simp
  then have "bit (2 :: u32) (unat (1 :: u32))"
    using pll_use_mask [OF m] by (auto simp: atom_ppll_invalid_def)
  then show ?thesis using m by simp
qed

end
