(* ===== verification/Fence_Drv.thy ===== *)
theory Fence_Drv
  imports Sched
begin

text \<open>
  The fence driver of a ring, \<open>amdgpu_fence.c\<close>: the sequence numbers that the GPU writes when it
  has finished the commands of a submission, and the array of fences that wait for them.

  A fence object is named by the number of its emission, from one; its memory is not reused here and
  references are not counted. The sequence numbers are those of the code, of 32 bits, and wrap around.
  The word behind \<open>cpu_addr\<close> is the value of \<open>fd_cpu_addr\<close>, with \<open>None\<close> for a null
  pointer. The packets of \<open>amdgpu_ring_emit_fence\<close> are the numbers they make the GPU write:
  \<open>fd_written\<close> holds those that are written to the ring, \<open>fd_ring\<close> those that are committed.
  An access outside the array and \<open>BUG()\<close> are \<open>None\<close> or \<open>Fault\<close>.
\<close>

section \<open>State\<close>

record hw_fence =
  hf_seqno :: u32
  hf_signaled :: bool

record amdgpu_fence_driver =
  fd_gpu_addr :: u64
  fd_cpu_addr :: "u32 option"
  fd_sync_seq :: u32
  fd_last_seq :: u32
  fd_initialized :: bool
  fd_irq :: int
  fd_fallback :: bool
  fd_mask :: u32
  fd_fences :: "nat option list"
  fd_objs :: "nat \<Rightarrow> hw_fence"
  fd_count :: nat
  fd_written :: "u32 list"
  fd_ring :: "u32 list"

section \<open>Operations\<close>

definition amdgpu_fence_write :: "u32 \<Rightarrow> amdgpu_fence_driver \<Rightarrow> amdgpu_fence_driver" where
  "amdgpu_fence_write seq d = (if fd_cpu_addr d \<noteq> None then d\<lparr>fd_cpu_addr := Some seq\<rparr> else d)"

definition amdgpu_fence_read :: "amdgpu_fence_driver \<Rightarrow> u32" where
  "amdgpu_fence_read d = (case fd_cpu_addr d of Some seq \<Rightarrow> seq | None \<Rightarrow> fd_last_seq d)"

text \<open>
  \<open>amdgpu_fence_emit\<close> in its parts: the new fence with its number and packet, the slot of the
  number, whether the fence in the slot is still to be waited for, and the store into the slot. The wait
  for the old fence is an argument, which gives the driver as it is after the wait.
\<close>

definition fence_emit_begin :: "amdgpu_fence_driver \<Rightarrow> amdgpu_fence_driver" where
  "fence_emit_begin d =
     (let seq = fd_sync_seq d + 1; f = Suc (fd_count d)
      in d\<lparr>fd_sync_seq := seq, fd_count := f,
           fd_objs := (fd_objs d)(f := \<lparr>hf_seqno = seq, hf_signaled = False\<rparr>),
           fd_written := fd_written d @ [seq]\<rparr>)"

definition fence_slot :: "amdgpu_fence_driver \<Rightarrow> nat" where
  "fence_slot d = unat (fd_sync_seq d AND fd_mask d)"

definition fence_emit_busy :: "amdgpu_fence_driver \<Rightarrow> bool option" where
  "fence_emit_busy d = do {
     old \<leftarrow> nth_opt (fd_fences d) (fence_slot d);
     Some (case old of None \<Rightarrow> False | Some f \<Rightarrow> \<not> hf_signaled (fd_objs d f))
   }"

definition fence_emit_end :: "amdgpu_fence_driver \<Rightarrow> amdgpu_fence_driver option" where
  "fence_emit_end d = do {
     fences \<leftarrow> update_opt (fd_fences d) (fence_slot d) (Some (fd_count d));
     Some (d\<lparr>fd_fences := fences\<rparr>)
   }"

definition amdgpu_fence_emit ::
  "bool \<Rightarrow> (amdgpu_fence_driver \<Rightarrow> amdgpu_fence_driver) \<Rightarrow> amdgpu_fence_driver \<Rightarrow>
   (int \<times> amdgpu_fence_driver \<times> nat option) option" where
  "amdgpu_fence_emit kmem_ok fence_wait d =
     (if \<not> kmem_ok then Some (- 12, d, None)
      else do {
        let d = fence_emit_begin d;
        busy \<leftarrow> fence_emit_busy d;
        let d = (if busy then fence_wait d else d);
        d \<leftarrow> fence_emit_end d;
        Some (0, d, Some (fd_count d))
      })"

text \<open>\<open>amdgpu_ring_commit\<close> shows the packets to the GPU.\<close>

definition fence_commit :: "amdgpu_fence_driver \<Rightarrow> amdgpu_fence_driver" where
  "fence_commit d = d\<lparr>fd_ring := fd_ring d @ fd_written d, fd_written := []\<rparr>"

definition amdgpu_fence_schedule_fallback :: "amdgpu_fence_driver \<Rightarrow> amdgpu_fence_driver" where
  "amdgpu_fence_schedule_fallback d = d\<lparr>fd_fallback := True\<rparr>"

text \<open>
  \<open>amdgpu_fence_process\<close>. The loop around the compare-and-swap repeats until no other thread has
  moved \<open>last_seq\<close> since it was read, so that its last round is one action, \<open>fence_claim\<close>.
  \<open>fence_signal\<close> fails for a fence that is signalled already, which is the \<open>BUG()\<close>.
\<close>

definition fence_claim :: "amdgpu_fence_driver \<Rightarrow> u32 \<times> u32 \<times> amdgpu_fence_driver" where
  "fence_claim d =
     (let last_seq = fd_last_seq d; seq = amdgpu_fence_read d; d = d\<lparr>fd_last_seq := seq\<rparr>
      in (last_seq, seq, if seq \<noteq> fd_sync_seq d then amdgpu_fence_schedule_fallback d else d))"

definition fence_signal :: "nat \<Rightarrow> amdgpu_fence_driver \<Rightarrow> amdgpu_fence_driver option" where
  "fence_signal f d =
     (if hf_signaled (fd_objs d f) then None
      else Some (d\<lparr>fd_objs := (fd_objs d)(f := (fd_objs d f)\<lparr>hf_signaled := True\<rparr>)\<rparr>))"

fun fence_process_loop :: "nat \<Rightarrow> u32 \<Rightarrow> u32 \<Rightarrow> amdgpu_fence_driver \<Rightarrow> amdgpu_fence_driver outcome" where
  "fence_process_loop 0 last_seq seq d = Timeout"
| "fence_process_loop (Suc n) last_seq seq d =
     (let last_seq = (last_seq + 1) AND fd_mask d
      in case nth_opt (fd_fences d) (unat last_seq) of
           None \<Rightarrow> Fault
         | Some fence \<Rightarrow>
             (let d = d\<lparr>fd_fences := (fd_fences d)[unat last_seq := None]\<rparr>
              in case (case fence of None \<Rightarrow> Some d | Some f \<Rightarrow> fence_signal f d) of
                   None \<Rightarrow> Fault
                 | Some d \<Rightarrow> if last_seq \<noteq> seq then fence_process_loop n last_seq seq d else Returned d))"

definition amdgpu_fence_process :: "nat \<Rightarrow> amdgpu_fence_driver \<Rightarrow> amdgpu_fence_driver outcome" where
  "amdgpu_fence_process fuel d =
     (case fence_claim d of
        (last_seq, seq, d) \<Rightarrow>
          if seq = last_seq then Returned d
          else fence_process_loop fuel (last_seq AND fd_mask d) (seq AND fd_mask d) d)"

text \<open>The timer function; the timer has expired when it runs.\<close>

definition amdgpu_fence_fallback :: "nat \<Rightarrow> amdgpu_fence_driver \<Rightarrow> amdgpu_fence_driver outcome" where
  "amdgpu_fence_fallback fuel d = amdgpu_fence_process fuel (d\<lparr>fd_fallback := False\<rparr>)"

text \<open>The wait for one fence is an argument: its result and the state after it.\<close>

definition amdgpu_fence_wait_empty ::
  "(nat \<Rightarrow> 's \<Rightarrow> int \<times> 's) \<Rightarrow> amdgpu_fence_driver \<Rightarrow> 's \<Rightarrow> (int \<times> 's) option" where
  "amdgpu_fence_wait_empty fence_wait d s =
     (if fd_sync_seq d = 0 then Some (0, s)
      else do {
        fence \<leftarrow> nth_opt (fd_fences d) (fence_slot d);
        Some (case fence of None \<Rightarrow> (0, s) | Some f \<Rightarrow> fence_wait f s)
      })"

definition amdgpu_fence_count_emitted :: "nat \<Rightarrow> amdgpu_fence_driver \<Rightarrow> (u32 \<times> amdgpu_fence_driver) outcome" where
  "amdgpu_fence_count_emitted fuel d =
     (case amdgpu_fence_process fuel d of
        Fault \<Rightarrow> Fault
      | Timeout \<Rightarrow> Timeout
      | Returned d \<Rightarrow>
          (let emitted = 0x100000000 :: u64;
               emitted = emitted - scast (fd_last_seq d);
               emitted = emitted + ucast (fd_sync_seq d)
           in Returned (ucast emitted, d)))"

text \<open>
  Starting a ring. The address of the number is in the write-back page or, for the UVD ring, behind the
  firmware; \<open>amdgpu_irq_get\<close> counts the users of the interrupt.
\<close>

definition amdgpu_fence_driver_start_ring ::
  "bool \<Rightarrow> u64 \<Rightarrow> u32 \<Rightarrow> u64 \<Rightarrow> u64 \<Rightarrow> u32 \<Rightarrow> amdgpu_fence_driver \<Rightarrow> int \<times> amdgpu_fence_driver" where
  "amdgpu_fence_driver_start_ring uvd wb_gpu_addr fence_offs fw_size uvd_gpu_addr memory d =
     (let d = d\<lparr>fd_cpu_addr := Some memory,
                fd_gpu_addr := (if \<not> uvd then wb_gpu_addr + ucast (fence_offs * 4)
                  else uvd_gpu_addr + ((fw_size + 7) AND NOT 7))\<rparr>;
          d = amdgpu_fence_write (fd_last_seq d) d
      in (0, d\<lparr>fd_irq := fd_irq d + 1, fd_initialized := True\<rparr>))"

text \<open>
  \<open>amdgpu_fence_driver_init_ring\<close>: the flag tells whether the array could be allocated,
  \<open>jiffies\<close> is the lockup timeout in jiffies, and \<open>thread\<close> the result of starting the thread
  of the scheduler.
\<close>

definition amdgpu_fence_driver_init_ring ::
  "bool \<Rightarrow> i64 \<Rightarrow> int \<Rightarrow> u32 \<Rightarrow> amdgpu_fence_driver \<Rightarrow> amd_gpu_scheduler \<Rightarrow>
   int \<times> amdgpu_fence_driver \<times> amd_gpu_scheduler" where
  "amdgpu_fence_driver_init_ring kcalloc_ok jiffies thread num_hw_submission d s =
     (if num_hw_submission AND (num_hw_submission - 1) \<noteq> 0 then (- 22, d, s)
      else
        (let d = d\<lparr>fd_cpu_addr := None, fd_gpu_addr := 0, fd_sync_seq := 0, fd_last_seq := 0,
                   fd_initialized := False, fd_fallback := False, fd_mask := num_hw_submission * 2 - 1\<rparr>
         in if \<not> kcalloc_ok then (- 12, d, s)
            else
              (let d = d\<lparr>fd_fences := replicate (unat (num_hw_submission * 2)) None\<rparr>;
                   timeout = (if jiffies = 0 then max_schedule_timeout else jiffies);
                   (r, s) = amd_sched_init thread num_hw_submission timeout s
               in if r \<noteq> 0 then (r, d, s) else (0, d, s))))"

text \<open>
  The functions that go over the rings of the device. \<open>fence_wait\<close> takes the number of the ring and
  the fence and gives the result and all rings as they are after the wait.
\<close>

definition force_completion :: "amdgpu_fence_driver option \<Rightarrow> amdgpu_fence_driver option" where
  "force_completion ring =
     (case ring of
        None \<Rightarrow> None
      | Some d \<Rightarrow> Some (if fd_initialized d then amdgpu_fence_write (fd_sync_seq d) d else d))"

definition amdgpu_fence_driver_force_completion ::
  "amdgpu_fence_driver option list \<Rightarrow> amdgpu_fence_driver option list" where
  "amdgpu_fence_driver_force_completion rings = map force_completion rings"

definition fence_driver_drain ::
  "(nat \<Rightarrow> nat \<Rightarrow> amdgpu_fence_driver option list \<Rightarrow> int \<times> amdgpu_fence_driver option list) \<Rightarrow>
   (amdgpu_fence_driver \<Rightarrow> amdgpu_fence_driver) \<Rightarrow> nat \<Rightarrow>
   amdgpu_fence_driver option list \<Rightarrow> amdgpu_fence_driver option list option" where
  "fence_driver_drain fence_wait final i rings =
     (case rings ! i of
        None \<Rightarrow> Some rings
      | Some d \<Rightarrow>
          if \<not> fd_initialized d then Some rings
          else do {
            (r, rings) \<leftarrow> amdgpu_fence_wait_empty (fence_wait i) d rings;
            let rings = (if r \<noteq> 0 then amdgpu_fence_driver_force_completion rings else rings);
            Some (rings[i := map_option (\<lambda>d. final (d\<lparr>fd_irq := fd_irq d - 1\<rparr>)) (rings ! i)])
          })"

fun over_rings :: "(nat \<Rightarrow> 'r list \<Rightarrow> 'r list option) \<Rightarrow> nat list \<Rightarrow> 'r list \<Rightarrow> 'r list option" where
  "over_rings f [] rings = Some rings"
| "over_rings f (i # is) rings = do { rings \<leftarrow> f i rings; over_rings f is rings }"

definition amdgpu_fence_driver_suspend ::
  "(nat \<Rightarrow> nat \<Rightarrow> amdgpu_fence_driver option list \<Rightarrow> int \<times> amdgpu_fence_driver option list) \<Rightarrow>
   amdgpu_fence_driver option list \<Rightarrow> amdgpu_fence_driver option list option" where
  "amdgpu_fence_driver_suspend fence_wait rings =
     over_rings (fence_driver_drain fence_wait id) [0 ..< length rings] rings"

definition amdgpu_fence_driver_fini ::
  "(nat \<Rightarrow> nat \<Rightarrow> amdgpu_fence_driver option list \<Rightarrow> int \<times> amdgpu_fence_driver option list) \<Rightarrow>
   amdgpu_fence_driver option list \<Rightarrow> amdgpu_fence_driver option list option" where
  "amdgpu_fence_driver_fini fence_wait rings =
     over_rings (fence_driver_drain fence_wait
         (\<lambda>d. d\<lparr>fd_fallback := False, fd_fences := [], fd_initialized := False\<rparr>))
       [0 ..< length rings] rings"

definition amdgpu_fence_driver_resume :: "amdgpu_fence_driver option list \<Rightarrow> amdgpu_fence_driver option list" where
  "amdgpu_fence_driver_resume rings =
     map (map_option (\<lambda>d. if fd_initialized d then d\<lparr>fd_irq := fd_irq d + 1\<rparr> else d)) rings"

definition amdgpu_fence_enable_signaling :: "amdgpu_fence_driver \<Rightarrow> bool \<times> amdgpu_fence_driver" where
  "amdgpu_fence_enable_signaling d =
     (True, if \<not> fd_fallback d then amdgpu_fence_schedule_fallback d else d)"

section \<open>Threads that process fences side by side\<close>

text \<open>
  The interrupt handler, the fallback timer and readers of the counters may be in
  \<open>amdgpu_fence_process\<close> at the same time, on different processors. A thread is outside, before an
  iteration of the loop with its two counters, or between the two halves of an iteration: it has taken a
  fence out of its slot and is about to signal it.
\<close>

datatype fence_thread = Outside | Walk u32 u32 | Signals nat u32 u32

definition fence_next :: "u32 \<Rightarrow> u32 \<Rightarrow> fence_thread" where
  "fence_next last_seq seq = (if last_seq \<noteq> seq then Walk last_seq seq else Outside)"

fun fence_thread_step :: "fence_thread \<Rightarrow> amdgpu_fence_driver \<Rightarrow> (fence_thread \<times> amdgpu_fence_driver) option" where
  "fence_thread_step Outside d =
     (case fence_claim d of
        (last_seq, seq, d) \<Rightarrow>
          Some (if seq = last_seq then Outside else Walk (last_seq AND fd_mask d) (seq AND fd_mask d), d))"
| "fence_thread_step (Walk last_seq seq) d =
     (let last_seq = (last_seq + 1) AND fd_mask d
      in do {
        fence \<leftarrow> nth_opt (fd_fences d) (unat last_seq);
        let d = d\<lparr>fd_fences := (fd_fences d)[unat last_seq := None]\<rparr>;
        Some (case fence of None \<Rightarrow> fence_next last_seq seq | Some f \<Rightarrow> Signals f last_seq seq, d)
      })"
| "fence_thread_step (Signals f last_seq seq) d = do {
     d \<leftarrow> fence_signal f d;
     Some (fence_next last_seq seq, d)
   }"

text \<open>
  The ring with everything that acts on it: the thread that emits and commits, the threads that process,
  and the GPU, which has executed the packets of \<open>fs_executed\<close> fences.
\<close>

record fence_system =
  fs_drv :: amdgpu_fence_driver
  fs_emitting :: bool
  fs_threads :: "nat \<Rightarrow> fence_thread"
  fs_executed :: nat

inductive fence_step :: "fence_system \<Rightarrow> fence_system \<Rightarrow> bool" where
  emit: "\<not> fs_emitting S \<Longrightarrow> fence_step S (S\<lparr>fs_drv := fence_emit_begin (fs_drv S), fs_emitting := True\<rparr>)"
| store: "fs_emitting S \<Longrightarrow> fence_emit_busy (fs_drv S) = Some False \<Longrightarrow> fence_emit_end (fs_drv S) = Some d \<Longrightarrow>
    fence_step S (S\<lparr>fs_drv := d, fs_emitting := False\<rparr>)"
| commit: "\<not> fs_emitting S \<Longrightarrow> fence_step S (S\<lparr>fs_drv := fence_commit (fs_drv S)\<rparr>)"
| gpu: "fd_ring (fs_drv S) = seq # packets \<Longrightarrow>
    fence_step S (S\<lparr>fs_drv := amdgpu_fence_write seq ((fs_drv S)\<lparr>fd_ring := packets\<rparr>), fs_executed := Suc (fs_executed S)\<rparr>)"
| process: "fence_thread_step (fs_threads S t) (fs_drv S) = Some (th, d) \<Longrightarrow>
    fence_step S (S\<lparr>fs_drv := d, fs_threads := (fs_threads S)(t := th)\<rparr>)"
| expire: "fs_threads S t = Outside \<Longrightarrow> fd_fallback (fs_drv S) \<Longrightarrow>
    fence_thread_step Outside ((fs_drv S)\<lparr>fd_fallback := False\<rparr>) = Some (th, d) \<Longrightarrow>
    fence_step S (S\<lparr>fs_drv := d, fs_threads := (fs_threads S)(t := th)\<rparr>)"
| enable: "fence_step S (S\<lparr>fs_drv := snd (amdgpu_fence_enable_signaling (fs_drv S))\<rparr>)"

end
