(* ===== verification/Fence_Inv.thy ===== *)
theory Fence_Inv
  imports Fence_Drv Machine
begin

text \<open>
  The invariant of the fence driver under every interleaving of the emission, the GPU and the threads
  that process fences, and the properties that rest on it. The counters of the code are read as the
  numbers they stand for, without the wrap around: \<open>L\<close> fences are claimed by threads, \<open>P\<close> are
  committed, and thread \<open>t\<close> has to visit the fences after \<open>lo t\<close> up to \<open>hi t\<close>.
\<close>

section \<open>Numbers and slots\<close>

lemma mod_pow_less: "k \<le> m \<Longrightarrow> n mod 2 ^ k < (2::nat) ^ m"
  using power_increasing [of k m "2::nat"] mod_less_divisor [of "2 ^ k" n] by (meson less_le_trans one_le_numeral zero_less_numeral zero_less_power)

lemma unat_slot: "k \<le> 32 \<Longrightarrow> unat (of_nat (n mod 2 ^ k) :: u32) = n mod 2 ^ k"
  by (rule unat_of_nat_small) (use mod_pow_less [of k 32 n] in simp)

lemma and_mask_of_nat: "k \<le> 32 \<Longrightarrow> (of_nat n :: u32) AND mask k = of_nat (n mod 2 ^ k)"
proof -
  assume k: "k \<le> 32"
  then have "(2::nat) ^ k dvd 2 ^ 32" by (rule le_imp_power_dvd)
  then have "unat ((of_nat n :: u32) AND mask k) = n mod 2 ^ k"
    by (simp add: unat_and_mask unat_of_nat mod_mod_cancel)
  then show ?thesis using unat_slot [OF k] by (simp add: word_unat_eq_iff)
qed

lemma next_slot: "k \<le> 32 \<Longrightarrow> ((of_nat (n mod 2 ^ k) :: u32) + 1) AND mask k = of_nat (Suc n mod 2 ^ k)"
  using and_mask_of_nat [of k "Suc (n mod 2 ^ k)"] by (simp add: mod_Suc_eq add.commute)

lemma slot_eq: "k \<le> 32 \<Longrightarrow> (of_nat (m mod 2 ^ k) = (of_nat (n mod 2 ^ k) :: u32)) = (m mod 2 ^ k = n mod 2 ^ k)"
  by (metis unat_slot)

lemma mod_eq_close: "m mod N = n mod N \<Longrightarrow> m \<le> n \<Longrightarrow> n - m < N \<Longrightarrow> m = (n::nat)"
  by (metis dvd_imp_le le_antisym linorder_not_less mod_eq_dvd_iff_nat zero_less_diff)

lemma of_nat_u32_close: "m \<le> n \<Longrightarrow> n - m < 2 ^ 32 \<Longrightarrow> ((of_nat n :: u32) = of_nat m) = (n = m)"
proof -
  assume a: "m \<le> n" "n - m < 2 ^ 32"
  have "n = m" if "(of_nat n :: u32) = of_nat m"
  proof -
    have "m mod 2 ^ 32 = n mod 2 ^ 32" using arg_cong [OF that, of unat] by (simp add: unat_of_nat)
    then show ?thesis using mod_eq_close a by blast
  qed
  then show ?thesis by blast
qed

section \<open>The invariant\<close>

definition ranges :: "(nat \<Rightarrow> nat) \<Rightarrow> (nat \<Rightarrow> nat) \<Rightarrow> nat set" where
  "ranges lo hi = (\<Union>t. {lo t <.. hi t})"

definition stored :: "fence_system \<Rightarrow> nat" where
  "stored S = (if fs_emitting S then fd_count (fs_drv S) - 1 else fd_count (fs_drv S))"

text \<open>The fences in the array, and those a thread has taken out and not signalled yet.\<close>

definition in_array :: "nat \<Rightarrow> (nat \<Rightarrow> nat) \<Rightarrow> (nat \<Rightarrow> nat) \<Rightarrow> fence_system \<Rightarrow> nat set" where
  "in_array L lo hi S = {L <.. stored S} \<union> ranges lo hi"

fun holds :: "fence_thread \<Rightarrow> nat set" where
  "holds Outside = {}"
| "holds (Walk last_seq seq) = {}"
| "holds (Signals f last_seq seq) = {f}"

definition held :: "fence_system \<Rightarrow> nat set" where
  "held S = (\<Union>t. holds (fs_threads S t))"

fun thread_ok :: "nat \<Rightarrow> nat \<Rightarrow> nat \<Rightarrow> nat \<Rightarrow> fence_thread \<Rightarrow> bool" where
  "thread_ok L k lo hi Outside = (lo = hi)"
| "thread_ok L k lo hi (Walk last_seq seq) = (lo < hi \<and> hi \<le> L \<and> hi - lo \<le> 2 ^ k \<and>
     last_seq = of_nat (lo mod 2 ^ k) \<and> seq = of_nat (hi mod 2 ^ k))"
| "thread_ok L k lo hi (Signals f last_seq seq) = (lo \<le> hi \<and> hi \<le> L \<and> hi - lo < 2 ^ k \<and>
     last_seq = of_nat (lo mod 2 ^ k) \<and> seq = of_nat (hi mod 2 ^ k) \<and> 1 \<le> f \<and> f \<le> L)"

definition counters_ok :: "nat \<Rightarrow> nat \<Rightarrow> fence_system \<Rightarrow> bool" where
  "counters_ok L P S \<longleftrightarrow>
     fd_cpu_addr (fs_drv S) = Some (of_nat (fs_executed S)) \<and> fd_last_seq (fs_drv S) = of_nat L \<and>
     fd_sync_seq (fs_drv S) = of_nat (fd_count (fs_drv S)) \<and>
     L \<le> fs_executed S \<and> fs_executed S \<le> P \<and> P \<le> stored S \<and>
     (fs_emitting S \<longrightarrow> 0 < fd_count (fs_drv S)) \<and>
     fd_ring (fs_drv S) = map of_nat [Suc (fs_executed S) ..< Suc P] \<and>
     fd_written (fs_drv S) = map of_nat [Suc P ..< Suc (fd_count (fs_drv S))]"

definition array_ok :: "nat \<Rightarrow> nat set \<Rightarrow> nat option list \<Rightarrow> bool" where
  "array_ok k U fences \<longleftrightarrow> length fences = 2 ^ k \<and> (\<forall>n \<in> U. fences ! (n mod 2 ^ k) = Some n) \<and>
     (\<forall>j < 2 ^ k. \<forall>f. fences ! j = Some f \<longrightarrow> f \<in> U \<and> f mod 2 ^ k = j)"

definition objs_ok :: "nat set \<Rightarrow> fence_system \<Rightarrow> bool" where
  "objs_ok U S \<longleftrightarrow> (\<forall>n. 1 \<le> n \<and> n \<le> fd_count (fs_drv S) \<longrightarrow> hf_seqno (fd_objs (fs_drv S) n) = of_nat n \<and>
     (hf_signaled (fd_objs (fs_drv S) n) \<longleftrightarrow> n \<notin> U \<union> held S \<and> n \<le> stored S))"

definition threads_ok :: "nat \<Rightarrow> nat \<Rightarrow> (nat \<Rightarrow> nat) \<Rightarrow> (nat \<Rightarrow> nat) \<Rightarrow> fence_system \<Rightarrow> bool" where
  "threads_ok L k lo hi S \<longleftrightarrow>
     (\<forall>t. thread_ok L k (lo t) (hi t) (fs_threads S t)) \<and>
     (\<forall>t u. t \<noteq> u \<longrightarrow> {lo t <.. hi t} \<inter> {lo u <.. hi u} = {}) \<and>
     (\<forall>t u. t \<noteq> u \<longrightarrow> holds (fs_threads S t) \<inter> holds (fs_threads S u) = {}) \<and>
     held S \<inter> in_array L lo hi S = {}"

definition fence_ok :: "nat \<Rightarrow> nat \<Rightarrow> nat \<Rightarrow> (nat \<Rightarrow> nat) \<Rightarrow> (nat \<Rightarrow> nat) \<Rightarrow> fence_system \<Rightarrow> bool" where
  "fence_ok k L P lo hi S \<longleftrightarrow> k \<le> 31 \<and> fd_mask (fs_drv S) = mask k \<and> counters_ok L P S \<and>
     array_ok k (in_array L lo hi S) (fd_fences (fs_drv S)) \<and> objs_ok (in_array L lo hi S) S \<and>
     threads_ok L k lo hi S"

definition fence_inv :: "fence_system \<Rightarrow> bool" where
  "fence_inv S \<longleftrightarrow> (\<exists>k L P lo hi. fence_ok k L P lo hi S)"

lemmas fence_ok_defs = fence_ok_def counters_ok_def objs_ok_def threads_ok_def

lemma array_inj: "array_ok k U fences \<Longrightarrow> m \<in> U \<Longrightarrow> n \<in> U \<Longrightarrow> m mod 2 ^ k = n mod 2 ^ k \<Longrightarrow> m = n"
  unfolding array_ok_def by (metis option.inject)

lemma array_slot:
  assumes "array_ok k U fences" "fences ! (n mod 2 ^ k) = Some f"
  shows "f \<in> U \<and> f mod 2 ^ k = n mod 2 ^ k"
proof -
  have "n mod 2 ^ k < 2 ^ k" by simp
  then show ?thesis using assms unfolding array_ok_def by blast
qed

lemma array_span: "array_ok k U fences \<Longrightarrow> {a <.. b} \<subseteq> U \<Longrightarrow> b - a \<le> 2 ^ k"
proof (rule ccontr)
  assume a: "array_ok k U fences" "{a <.. b} \<subseteq> U" and "\<not> b - a \<le> 2 ^ k"
  then have "Suc a \<in> {a <.. b}" "Suc a + 2 ^ k \<in> {a <.. b}" by auto
  with a have "Suc a \<in> U" "Suc a + 2 ^ k \<in> U" by blast+
  then have "Suc a = Suc a + 2 ^ k" by (rule array_inj [OF a(1)]) (simp only: mod_add_self2)
  then show False by simp
qed

lemma pow_31: "k \<le> 31 \<Longrightarrow> (2::nat) ^ k < 2 ^ 32"
  by (rule power_strict_increasing) simp_all

lemma in_array_bounds:
  assumes "fence_ok k L P lo hi S" "n \<in> in_array L lo hi S"
  shows "1 \<le> n \<and> n \<le> stored S"
proof -
  have L: "L \<le> stored S" using assms(1) by (simp add: fence_ok_def counters_ok_def)
  have "hi t \<le> L" if "lo t < hi t" for t
    using assms(1) that by (cases "fs_threads S t") (auto simp: fence_ok_def threads_ok_def dest: spec [of _ t])
  note hi = this
  from assms(2) consider "L < n" "n \<le> stored S" | t where "lo t < n" "n \<le> hi t"
    by (auto simp: in_array_def ranges_def)
  then show ?thesis
  proof cases
    case 2
    then show ?thesis using hi [of t] L by linarith
  qed simp
qed

lemma held_bounds:
  assumes "fence_ok k L P lo hi S" "f \<in> held S"
  shows "1 \<le> f \<and> f \<le> L"
proof -
  obtain t where "f \<in> holds (fs_threads S t)" using assms(2) by (auto simp: held_def)
  moreover have "thread_ok L k (lo t) (hi t) (fs_threads S t)" using assms(1) by (simp add: fence_ok_def threads_ok_def)
  ultimately show ?thesis by (cases "fs_threads S t") auto
qed

lemma emit_begin_simps [simp]:
  "fd_sync_seq (fence_emit_begin d) = fd_sync_seq d + 1" "fd_count (fence_emit_begin d) = Suc (fd_count d)"
  "fd_objs (fence_emit_begin d) = (fd_objs d)(Suc (fd_count d) := \<lparr>hf_seqno = fd_sync_seq d + 1, hf_signaled = False\<rparr>)"
  "fd_written (fence_emit_begin d) = fd_written d @ [fd_sync_seq d + 1]"
  "fd_ring (fence_emit_begin d) = fd_ring d" "fd_fences (fence_emit_begin d) = fd_fences d"
  "fd_mask (fence_emit_begin d) = fd_mask d" "fd_cpu_addr (fence_emit_begin d) = fd_cpu_addr d"
  "fd_last_seq (fence_emit_begin d) = fd_last_seq d"
  by (simp_all add: fence_emit_begin_def Let_def)

lemma emit_ok:
  assumes "fence_ok k L P lo hi S" "\<not> fs_emitting S"
  shows "fence_ok k L P lo hi (S\<lparr>fs_drv := fence_emit_begin (fs_drv S), fs_emitting := True\<rparr>)" (is "fence_ok k L P lo hi ?S")
proof -
  have st: "stored ?S = stored S" using assms(2) by (simp add: stored_def)
  have c: "stored S = fd_count (fs_drv S)" using assms(2) by (simp add: stored_def)
  have same: "in_array L lo hi ?S = in_array L lo hi S" "held ?S = held S"
    by (simp_all add: in_array_def st held_def)
  have "P \<le> stored S" using assms(1) by (simp add: fence_ok_def counters_ok_def)
  then have "counters_ok L P ?S" using assms(1,2)
    unfolding fence_ok_def counters_ok_def st by (simp add: c add.commute)
  moreover have "objs_ok (in_array L lo hi ?S) ?S" using assms(1)
    unfolding fence_ok_def objs_ok_def same st c by (auto simp: fence_ok_def counters_ok_def add.commute le_Suc_eq)
  moreover have "threads_ok L k lo hi ?S" using assms(1) unfolding fence_ok_def threads_ok_def same by simp
  moreover have "array_ok k (in_array L lo hi ?S) (fd_fences (fs_drv ?S))" "fd_mask (fs_drv ?S) = mask k" "k \<le> 31"
    using assms(1) unfolding same fence_ok_def by simp_all
  ultimately show ?thesis by (simp add: fence_ok_def)
qed

lemma commit_ok:
  assumes "fence_ok k L P lo hi S" "\<not> fs_emitting S"
  shows "fence_ok k L (stored S) lo hi (S\<lparr>fs_drv := fence_commit (fs_drv S)\<rparr>)" (is "fence_ok k L _ lo hi ?S")
proof -
  have st: "stored ?S = stored S" by (simp add: stored_def fence_commit_def)
  have same: "in_array L lo hi ?S = in_array L lo hi S" "held ?S = held S"
    by (simp_all add: in_array_def st held_def)
  have c: "stored S = fd_count (fs_drv S)" using assms(2) by (simp add: stored_def)
  have le: "fs_executed S \<le> P" "P \<le> fd_count (fs_drv S)" using assms(1) c by (simp_all add: fence_ok_def counters_ok_def)
  then have "[Suc (fs_executed S) ..< Suc P] @ [Suc P ..< Suc (fd_count (fs_drv S))] =
      [Suc (fs_executed S) ..< Suc (fd_count (fs_drv S))]"
    using upt_add_eq_append [of "Suc (fs_executed S)" "Suc P" "fd_count (fs_drv S) - P"] by (simp del: upt_Suc)
  then have "counters_ok L (stored S) ?S" using assms(1) le
    unfolding fence_ok_def counters_ok_def st by (simp add: fence_commit_def c del: upt_Suc flip: map_append)
  moreover have "objs_ok (in_array L lo hi ?S) ?S" using assms(1)
    unfolding fence_ok_def objs_ok_def same st by (simp add: fence_commit_def)
  moreover have "threads_ok L k lo hi ?S" using assms(1) unfolding fence_ok_def threads_ok_def same by simp
  ultimately show ?thesis using assms(1) same by (simp add: fence_ok_def fence_commit_def)
qed

lemma gpu_ok:
  assumes "fence_ok k L P lo hi S" "fd_ring (fs_drv S) = seq # packets"
  shows "fence_ok k L P lo hi (S\<lparr>fs_drv := amdgpu_fence_write seq ((fs_drv S)\<lparr>fd_ring := packets\<rparr>),
    fs_executed := Suc (fs_executed S)\<rparr>)" (is "fence_ok k L P lo hi ?S")
proof -
  have cpu: "fd_cpu_addr (fs_drv S) \<noteq> None" using assms(1) by (simp add: fence_ok_def counters_ok_def)
  have st: "stored ?S = stored S" by (simp add: stored_def amdgpu_fence_write_def)
  have same: "in_array L lo hi ?S = in_array L lo hi S" "held ?S = held S"
    by (simp_all add: in_array_def st held_def)
  have ring: "seq # packets = map of_nat [Suc (fs_executed S) ..< Suc P]"
    using assms by (simp add: fence_ok_def counters_ok_def)
  then have lt: "fs_executed S < P" by (cases "fs_executed S < P") auto
  then have "[Suc (fs_executed S) ..< Suc P] = Suc (fs_executed S) # [Suc (Suc (fs_executed S)) ..< Suc P]"
    by (simp add: upt_conv_Cons del: upt_Suc)
  then have "seq = of_nat (Suc (fs_executed S))" "packets = map of_nat [Suc (Suc (fs_executed S)) ..< Suc P]"
    using ring by simp_all
  then have "counters_ok L P ?S" using assms(1) lt cpu
    unfolding fence_ok_def counters_ok_def st by (simp add: amdgpu_fence_write_def del: upt_Suc of_nat_Suc)
  moreover have "objs_ok (in_array L lo hi ?S) ?S" using assms(1)
    unfolding fence_ok_def objs_ok_def same st by (simp add: amdgpu_fence_write_def)
  moreover have "threads_ok L k lo hi ?S" using assms(1) unfolding fence_ok_def threads_ok_def same by simp
  ultimately show ?thesis using assms(1) same by (simp add: fence_ok_def amdgpu_fence_write_def)
qed

lemma array_not_signaled:
  assumes "fence_ok k L P lo hi S" "n \<in> in_array L lo hi S"
  shows "\<not> hf_signaled (fd_objs (fs_drv S) n)"
proof -
  have "1 \<le> n" "n \<le> stored S" using in_array_bounds [OF assms] by simp_all
  moreover from this have "n \<le> fd_count (fs_drv S)" by (simp add: stored_def split: if_splits)
  ultimately show ?thesis using assms by (simp add: fence_ok_def objs_ok_def)
qed

lemma slot_of_count:
  assumes "fence_ok k L P lo hi S"
  shows "fence_slot (fs_drv S) = fd_count (fs_drv S) mod 2 ^ k"
  using assms and_mask_of_nat [of k] unat_slot [of k]
  by (simp add: fence_slot_def fence_ok_def counters_ok_def)

lemma slot_lt:
  assumes "fence_ok k L P lo hi S"
  shows "fd_count (fs_drv S) mod 2 ^ k < length (fd_fences (fs_drv S))"
  using assms by (simp add: fence_ok_def array_ok_def)

lemma busy_iff:
  assumes "fence_ok k L P lo hi S"
  shows "fence_emit_busy (fs_drv S) = Some (fd_fences (fs_drv S) ! (fd_count (fs_drv S) mod 2 ^ k) \<noteq> None)"
proof (cases "fd_fences (fs_drv S) ! (fd_count (fs_drv S) mod 2 ^ k)")
  case (Some f)
  then have "f \<in> in_array L lo hi S" using assms array_slot by (auto simp: fence_ok_def)
  then show ?thesis using array_not_signaled [OF assms] Some slot_lt [OF assms]
    by (simp add: fence_emit_busy_def slot_of_count [OF assms] nth_opt_def)
qed (use slot_lt [OF assms] in \<open>simp add: fence_emit_busy_def slot_of_count [OF assms] nth_opt_def\<close>)

lemma array_ok_insert:
  assumes "array_ok k U fences" "fences ! (n mod 2 ^ k) = None"
  shows "array_ok k (insert n U) (fences[n mod 2 ^ k := Some n])"
proof -
  have "n mod 2 ^ k < length fences" using assms(1) by (simp add: array_ok_def)
  moreover have "m mod 2 ^ k \<noteq> n mod 2 ^ k" if "m \<in> U" for m using assms that by (auto simp: array_ok_def)
  ultimately show ?thesis using assms by (auto simp: array_ok_def nth_list_update)
qed

lemma array_ok_remove:
  assumes "array_ok k U fences" "n \<in> U"
  shows "array_ok k (U - {n}) (fences[n mod 2 ^ k := None])"
proof -
  have "n mod 2 ^ k < length fences" using assms(1) by (simp add: array_ok_def)
  moreover have "m mod 2 ^ k \<noteq> n mod 2 ^ k" if "m \<in> U" "m \<noteq> n" for m using array_inj [OF assms(1)] assms(2) that by blast
  ultimately show ?thesis using assms by (fastforce simp: array_ok_def nth_list_update)
qed

lemma store_ok:
  assumes ok: "fence_ok k L P lo hi S" and "fs_emitting S" "fence_emit_busy (fs_drv S) = Some False" "fence_emit_end (fs_drv S) = Some d"
  shows "fence_ok k L P lo hi (S\<lparr>fs_drv := d, fs_emitting := False\<rparr>)" (is "fence_ok k L P lo hi ?S")
proof -
  let ?n = "fd_count (fs_drv S)"
  have d: "d = (fs_drv S)\<lparr>fd_fences := (fd_fences (fs_drv S))[?n mod 2 ^ k := Some ?n]\<rparr>"
    using assms(4) slot_lt [OF ok] by (simp add: fence_emit_end_def slot_of_count [OF ok] update_opt_def)
  have cnt: "0 < ?n" "L \<le> stored S" "P \<le> stored S" using ok assms(2) by (simp_all add: fence_ok_def counters_ok_def)
  have st: "stored S = ?n - 1" "stored ?S = ?n" using assms(2) by (simp_all add: stored_def d)
  have arr: "in_array L lo hi ?S = insert ?n (in_array L lo hi S)"
    using cnt unfolding in_array_def st by auto
  have hd: "held ?S = held S" by (simp add: held_def)
  have "P \<le> ?n" using cnt(3) st(1) by simp
  then have "counters_ok L P ?S" using ok unfolding fence_ok_def counters_ok_def st by (simp add: d)
  moreover have "array_ok k (in_array L lo hi ?S) (fd_fences (fs_drv ?S))"
    using array_ok_insert [of k "in_array L lo hi S" _ ?n] ok assms(3) busy_iff [OF ok] unfolding arr by (simp add: d fence_ok_def)
  moreover have "objs_ok (in_array L lo hi ?S) ?S"
    using ok cnt unfolding fence_ok_def objs_ok_def arr hd st by (auto simp: d)
  moreover have "threads_ok L k lo hi ?S"
    using ok held_bounds [OF ok, of ?n] cnt(1,2) unfolding fence_ok_def threads_ok_def arr hd by (auto simp: st)
  ultimately show ?thesis using ok by (simp add: fence_ok_def d)
qed

section \<open>Threads\<close>

lemma thread_ok_mono: "thread_ok L k l h th \<Longrightarrow> L \<le> L' \<Longrightarrow> thread_ok L' k l h th"
  by (cases th) auto

lemma thread_at:
  assumes "fence_ok k L P lo hi S"
  shows "thread_ok L k (lo t) (hi t) (fs_threads S t)"
  using assms by (simp add: fence_ok_def threads_ok_def)

lemma range_le: "fence_ok k L P lo hi S \<Longrightarrow> lo t < hi t \<Longrightarrow> hi t \<le> L"
  using thread_at [of k L P lo hi S t] by (cases "fs_threads S t") auto

lemma ranges_upd:
  "ranges (lo(t := a)) (hi(t := b)) = {a <.. b} \<union> (\<Union>u \<in> - {t}. {lo u <.. hi u})"
  by (auto simp: ranges_def split: if_splits)

lemma ranges_split: "ranges lo hi = {lo t <.. hi t} \<union> (\<Union>u \<in> - {t}. {lo u <.. hi u})"
  using ranges_upd [of lo t "lo t" hi "hi t"] by simp

lemma held_upd:
  "held (S\<lparr>fs_drv := d, fs_threads := (fs_threads S)(t := th)\<rparr>) = holds th \<union> (\<Union>u \<in> - {t}. holds (fs_threads S u))"
  by (auto simp: held_def split: if_splits)

lemma held_split: "held S = holds (fs_threads S t) \<union> (\<Union>u \<in> - {t}. holds (fs_threads S u))"
  by (auto simp: held_def)

lemma claim_eq:
  assumes "fence_ok k L P lo hi S"
  shows "fence_claim (fs_drv S) = (of_nat L, of_nat (fs_executed S),
    (fs_drv S)\<lparr>fd_last_seq := of_nat (fs_executed S),
      fd_fallback := fd_fallback (fs_drv S) \<or> (of_nat (fs_executed S) :: u32) \<noteq> of_nat (fd_count (fs_drv S))\<rparr>)"
proof -
  have d: "fd_cpu_addr (fs_drv S) = Some (of_nat (fs_executed S))" "fd_last_seq (fs_drv S) = of_nat L"
    "fd_sync_seq (fs_drv S) = of_nat (fd_count (fs_drv S))"
    using assms by (simp_all add: fence_ok_def counters_ok_def)
  then show ?thesis
    by (cases "fd_fallback (fs_drv S)")
      (simp_all add: fence_claim_def amdgpu_fence_read_def amdgpu_fence_schedule_fallback_def Let_def)
qed

lemma fallback_ok:
  assumes "fence_ok k L P lo hi S"
  shows "fence_ok k L P lo hi (S\<lparr>fs_drv := (fs_drv S)\<lparr>fd_fallback := b\<rparr>\<rparr>)" (is "fence_ok k L P lo hi ?S")
proof -
  have st: "stored ?S = stored S" by (simp add: stored_def)
  have same: "in_array L lo hi ?S = in_array L lo hi S" "held ?S = held S"
    by (simp_all add: in_array_def st held_def)
  show ?thesis using assms unfolding fence_ok_defs same st by simp
qed

lemma executed_span: "fence_ok k L P lo hi S \<Longrightarrow> fs_executed S - L \<le> 2 ^ k"
  using array_span [of k "in_array L lo hi S" _ L "fs_executed S"]
  by (force simp: fence_ok_def counters_ok_def in_array_def)

lemma thread_claim_ok:
  assumes ok: "fence_ok k L P lo hi S" and t: "fs_threads S t = Outside"
    and step: "fence_thread_step Outside ((fs_drv S)\<lparr>fd_fallback := b\<rparr>) = Some (th, d)"
  shows "fence_ok k (fs_executed S) P (lo(t := L)) (hi(t := fs_executed S))
    (S\<lparr>fs_drv := d, fs_threads := (fs_threads S)(t := th)\<rparr>)" (is "fence_ok k ?X P ?lo ?hi ?S")
proof -
  have k: "k \<le> 31" "fd_mask (fs_drv S) = mask k" and cnt: "L \<le> ?X" "?X \<le> P" "P \<le> stored S"
    using ok by (simp_all add: fence_ok_def counters_ok_def)
  have span: "?X - L \<le> 2 ^ k" by (rule executed_span [OF ok])
  then have eq: "((of_nat ?X :: u32) = of_nat L) = (?X = L)"
    using of_nat_u32_close cnt(1) pow_31 [OF k(1)] by simp
  have ok': "fence_ok k L P lo hi (S\<lparr>fs_drv := (fs_drv S)\<lparr>fd_fallback := b\<rparr>\<rparr>)"
    by (rule fallback_ok [OF ok])
  obtain c where d: "d = (fs_drv S)\<lparr>fd_last_seq := of_nat ?X, fd_fallback := c\<rparr>"
    and th: "th = (if ?X = L then Outside else Walk (of_nat (L mod 2 ^ k)) (of_nat (?X mod 2 ^ k)))"
    using claim_eq [OF ok'] step k and_mask_of_nat [of k] by (auto simp: eq)
  have st: "stored ?S = stored S" by (simp add: stored_def d)
  have empty: "{lo t <.. hi t} = {}" using thread_at [OF ok, of t] t by simp
  have arr: "in_array ?X ?lo ?hi ?S = in_array L lo hi S"
    unfolding in_array_def st ranges_upd ranges_split [of lo hi t] empty using cnt by auto
  have hd: "held ?S = held S" unfolding held_upd held_split [of S t] by (simp add: t th)
  have "threads_ok ?X k ?lo ?hi ?S"
    unfolding threads_ok_def
  proof (intro conjI allI impI)
    show "thread_ok ?X k (?lo u) (?hi u) (fs_threads ?S u)" for u
      using thread_ok_mono [OF thread_at [OF ok, of u] cnt(1)] span cnt(1) by (auto simp: th)
    have "{L <.. ?X} \<inter> {lo u <.. hi u} = {}" for u using range_le [OF ok, of u] by (cases "lo u < hi u") auto
    then show "{?lo u <.. ?hi u} \<inter> {?lo v <.. ?hi v} = {}" if "u \<noteq> v" for u v
      using ok that by (auto simp: fence_ok_def threads_ok_def)
    show "holds (fs_threads ?S u) \<inter> holds (fs_threads ?S v) = {}" if "u \<noteq> v" for u v
      using ok that by (simp add: fence_ok_def threads_ok_def th)
    show "held ?S \<inter> in_array ?X ?lo ?hi ?S = {}" unfolding hd arr using ok by (simp add: fence_ok_def threads_ok_def)
  qed
  moreover have "counters_ok ?X P ?S" using ok cnt unfolding fence_ok_def counters_ok_def st by (simp add: d)
  moreover have "objs_ok (in_array ?X ?lo ?hi ?S) ?S" using ok unfolding fence_ok_def objs_ok_def arr hd st by (simp add: d)
  ultimately show ?thesis using ok unfolding fence_ok_def arr by (simp add: d)
qed

lemma fence_at_walk:
  assumes ok: "fence_ok k L P lo hi S" and t: "fs_threads S t = Walk last_seq seq"
  shows "Suc (lo t) \<in> in_array L lo hi S \<and> fd_fences (fs_drv S) ! (Suc (lo t) mod 2 ^ k) = Some (Suc (lo t)) \<and>
    (last_seq + 1) AND fd_mask (fs_drv S) = of_nat (Suc (lo t) mod 2 ^ k) \<and>
    unat (of_nat (Suc (lo t) mod 2 ^ k) :: u32) = Suc (lo t) mod 2 ^ k \<and>
    Suc (lo t) mod 2 ^ k < length (fd_fences (fs_drv S))"
proof -
  have th: "lo t < hi t" "last_seq = of_nat (lo t mod 2 ^ k)" using thread_at [OF ok, of t] t by simp_all
  then have m: "Suc (lo t) \<in> in_array L lo hi S" by (auto simp: in_array_def ranges_def)
  moreover have "(last_seq + 1) AND fd_mask (fs_drv S) = of_nat (Suc (lo t) mod 2 ^ k)"
    using next_slot [of k "lo t"] ok th(2) by (simp add: fence_ok_def)
  ultimately show ?thesis using ok unat_slot [of k "Suc (lo t)"] by (simp add: fence_ok_def array_ok_def)
qed

lemma thread_walk_ok:
  assumes ok: "fence_ok k L P lo hi S" and t: "fs_threads S t = Walk last_seq seq"
    and step: "fence_thread_step (Walk last_seq seq) (fs_drv S) = Some (th, d)"
  shows "fence_ok k L P (lo(t := Suc (lo t))) hi (S\<lparr>fs_drv := d, fs_threads := (fs_threads S)(t := th)\<rparr>)"
    (is "fence_ok k L P ?lo hi ?S")
proof -
  let ?n = "Suc (lo t)"
  note at = fence_at_walk [OF ok t]
  have th: "lo t < hi t" "hi t \<le> L" "hi t - lo t \<le> 2 ^ k" "seq = of_nat (hi t mod 2 ^ k)"
    using thread_at [OF ok, of t] t by simp_all
  have d: "d = (fs_drv S)\<lparr>fd_fences := (fd_fences (fs_drv S))[?n mod 2 ^ k := None]\<rparr>"
    and th': "th = Signals ?n (of_nat (?n mod 2 ^ k)) seq"
    using step at by (simp_all add: nth_opt_def Let_def)
  have st: "stored ?S = stored S" by (simp add: stored_def d)
  have dis: "?n \<notin> {lo u <.. hi u}" if "u \<noteq> t" for u
  proof -
    have "{lo u <.. hi u} \<inter> {lo t <.. hi t} = {}" using ok that by (simp add: fence_ok_def threads_ok_def)
    then show ?thesis using th(1) by auto
  qed
  have "ranges ?lo hi = ranges lo hi - {?n}"
  proof -
    have "ranges ?lo hi = {?n <.. hi t} \<union> (\<Union>u \<in> - {t}. {lo u <.. hi u})" using ranges_upd [of lo t ?n hi "hi t"] by simp
    moreover have "?n \<notin> (\<Union>u \<in> - {t}. {lo u <.. hi u})" using dis by blast
    moreover have "{?n <.. hi t} = {lo t <.. hi t} - {?n}" by auto
    ultimately show ?thesis unfolding ranges_split [of lo hi t] by blast
  qed
  moreover have "?n \<notin> {L <.. stored S}" using th(1,2) by simp
  ultimately have arr: "in_array L ?lo hi ?S = in_array L lo hi S - {?n}"
    unfolding in_array_def st by blast
  have hd: "held ?S = insert ?n (held S)" unfolding held_upd held_split [of S t] by (simp add: t th')
  have hn: "?n \<notin> held S" using ok at by (auto simp: fence_ok_def threads_ok_def)
  have "threads_ok L k ?lo hi ?S"
    unfolding threads_ok_def
  proof (intro conjI allI impI)
    show "thread_ok L k (?lo u) (hi u) (fs_threads ?S u)" for u
      using thread_at [OF ok, of u] th by (auto simp: th')
    show "{?lo u <.. hi u} \<inter> {?lo v <.. hi v} = {}" if "u \<noteq> v" for u v
    proof -
      have "{lo u <.. hi u} \<inter> {lo v <.. hi v} = {}" using ok that by (simp add: fence_ok_def threads_ok_def)
      then show ?thesis by (auto simp: disjoint_iff)
    qed
    show "holds (fs_threads ?S u) \<inter> holds (fs_threads ?S v) = {}" if "u \<noteq> v" for u v
      using ok that hn by (auto simp: fence_ok_def threads_ok_def th' held_def)
    show "held ?S \<inter> in_array L ?lo hi ?S = {}" unfolding hd arr using ok by (auto simp: fence_ok_def threads_ok_def)
  qed
  moreover have "objs_ok (in_array L ?lo hi ?S) ?S"
    using ok at unfolding fence_ok_def objs_ok_def arr hd st by (auto simp: d)
  moreover have "counters_ok L P ?S" using ok unfolding fence_ok_def counters_ok_def st by (simp add: d)
  moreover have "array_ok k (in_array L ?lo hi ?S) (fd_fences (fs_drv ?S))"
    unfolding arr using ok at array_ok_remove by (simp add: fence_ok_def d)
  ultimately show ?thesis using ok by (simp add: fence_ok_def d)
qed

lemma thread_signal_ok:
  assumes ok: "fence_ok k L P lo hi S" and t: "fs_threads S t = Signals f last_seq seq"
    and step: "fence_thread_step (Signals f last_seq seq) (fs_drv S) = Some (th, d)"
  shows "fence_ok k L P lo hi (S\<lparr>fs_drv := d, fs_threads := (fs_threads S)(t := th)\<rparr>)"
    (is "fence_ok k L P lo hi ?S")
proof -
  have to: "lo t \<le> hi t" "hi t \<le> L" "hi t - lo t < 2 ^ k" "last_seq = of_nat (lo t mod 2 ^ k)" "seq = of_nat (hi t mod 2 ^ k)"
    using thread_at [OF ok, of t] t by simp_all
  have k: "k \<le> 32" using ok by (simp add: fence_ok_def)
  have "(last_seq = seq) = (lo t = hi t)"
    using mod_eq_close [of "lo t" "2 ^ k" "hi t"] to slot_eq [OF k] by auto
  then have th: "th = (if lo t = hi t then Outside else Walk last_seq seq)"
    and d: "d = (fs_drv S)\<lparr>fd_objs := (fd_objs (fs_drv S))(f := (fd_objs (fs_drv S) f)\<lparr>hf_signaled := True\<rparr>)\<rparr>"
    using step by (auto simp: fence_next_def fence_signal_def split: if_splits)
  have st: "stored ?S = stored S" by (simp add: stored_def d)
  have arr: "in_array L lo hi ?S = in_array L lo hi S" by (simp add: in_array_def st)
  have f: "f \<in> held S" unfolding held_split [of S t] by (simp add: t)
  have "f \<notin> holds (fs_threads S u)" if "u \<noteq> t" for u
  proof -
    have "holds (fs_threads S t) \<inter> holds (fs_threads S u) = {}" using ok that by (simp add: fence_ok_def threads_ok_def)
    then show ?thesis by (simp add: t)
  qed
  then have "f \<notin> (\<Union>u \<in> - {t}. holds (fs_threads S u))" by blast
  then have hd: "held ?S = held S - {f}" unfolding held_upd held_split [of S t] by (simp add: t th)
  have fb: "1 \<le> f" "f \<le> stored S" "f \<notin> in_array L lo hi S"
    using held_bounds [OF ok f] ok f by (auto simp: fence_ok_def counters_ok_def threads_ok_def)
  have "threads_ok L k lo hi ?S"
    unfolding threads_ok_def
  proof (intro conjI allI impI)
    show "thread_ok L k (lo u) (hi u) (fs_threads ?S u)" for u
      using thread_at [OF ok, of u] to by (auto simp: th)
    show "{lo u <.. hi u} \<inter> {lo v <.. hi v} = {}" if "u \<noteq> v" for u v
      using ok that by (simp add: fence_ok_def threads_ok_def)
    show "holds (fs_threads ?S u) \<inter> holds (fs_threads ?S v) = {}" if "u \<noteq> v" for u v
      using ok that by (simp add: fence_ok_def threads_ok_def th)
    show "held ?S \<inter> in_array L lo hi ?S = {}" unfolding hd arr using ok by (auto simp: fence_ok_def threads_ok_def)
  qed
  moreover have "objs_ok (in_array L lo hi ?S) ?S"
    using ok fb unfolding fence_ok_def objs_ok_def arr hd st by (auto simp: d)
  moreover have "counters_ok L P ?S" using ok unfolding fence_ok_def counters_ok_def st by (simp add: d)
  ultimately show ?thesis using ok unfolding fence_ok_def arr by (simp add: d)
qed

lemma fence_step_inv: "fence_step S S' \<Longrightarrow> fence_inv S \<Longrightarrow> fence_inv S'"
proof (induction rule: fence_step.induct)
  case (process S t th d)
  obtain k L P lo hi where ok: "fence_ok k L P lo hi S" using process.prems by (auto simp: fence_inv_def)
  show ?case
  proof (cases "fs_threads S t")
    case Outside
    then have "fence_thread_step Outside ((fs_drv S)\<lparr>fd_fallback := fd_fallback (fs_drv S)\<rparr>) = Some (th, d)"
      using process.hyps by simp
    from thread_claim_ok [OF ok Outside this] show ?thesis unfolding fence_inv_def by blast
  next
    case (Walk l s)
    from thread_walk_ok [OF ok Walk process.hyps [unfolded Walk]] show ?thesis unfolding fence_inv_def by blast
  next
    case (Signals f l s)
    from thread_signal_ok [OF ok Signals process.hyps [unfolded Signals]] show ?thesis unfolding fence_inv_def by blast
  qed
next
  case (expire S t th d)
  obtain k L P lo hi where ok: "fence_ok k L P lo hi S" using expire.prems by (auto simp: fence_inv_def)
  from thread_claim_ok [OF ok expire.hyps(1,3)] show ?case unfolding fence_inv_def by blast
next
  case (enable S)
  obtain k L P lo hi where ok: "fence_ok k L P lo hi S" using enable.prems by (auto simp: fence_inv_def)
  have "snd (amdgpu_fence_enable_signaling (fs_drv S)) = (fs_drv S)\<lparr>fd_fallback := True\<rparr>"
    by (cases "fs_drv S") (simp add: amdgpu_fence_enable_signaling_def amdgpu_fence_schedule_fallback_def)
  then show ?case using fallback_ok [OF ok] unfolding fence_inv_def by metis
next
  case (emit S)
  then show ?case unfolding fence_inv_def using emit_ok by blast
next
  case (store S d)
  then show ?case unfolding fence_inv_def using store_ok by blast
next
  case (commit S)
  then show ?case unfolding fence_inv_def using commit_ok by blast
next
  case (gpu S seq packets)
  then show ?case unfolding fence_inv_def using gpu_ok by blast
qed

section \<open>A whole run of the processing\<close>

lemma held_not_signaled:
  assumes "fence_ok k L P lo hi S" "f \<in> held S"
  shows "\<not> hf_signaled (fd_objs (fs_drv S) f)"
proof -
  have "1 \<le> f" "f \<le> L" "L \<le> stored S" using held_bounds [OF assms] assms(1) by (simp_all add: fence_ok_def counters_ok_def)
  moreover from this have "f \<le> fd_count (fs_drv S)" by (simp add: stored_def split: if_splits)
  ultimately show ?thesis using assms by (simp add: fence_ok_def objs_ok_def)
qed

lemma thread_step_total:
  assumes "fence_ok k L P lo hi S"
  shows "\<exists>th d. fence_thread_step (fs_threads S t) (fs_drv S) = Some (th, d)"
proof (cases "fs_threads S t")
  case Outside
  then show ?thesis using claim_eq [OF assms] by simp
next
  case (Walk l s)
  then show ?thesis using fence_at_walk [OF assms Walk] by (simp add: nth_opt_def Let_def)
next
  case (Signals f l s)
  then have "f \<in> held S" unfolding held_split [of S t] by simp
  then show ?thesis using held_not_signaled [OF assms] Signals by (simp add: fence_signal_def)
qed

lemma process_loop_ok:
  assumes "fence_ok k L P lo hi S" "fs_threads S t = Walk l s" "hi t - lo t \<le> n"
  shows "\<exists>fences objs. fence_process_loop n l s (fs_drv S) = Returned ((fs_drv S)\<lparr>fd_fences := fences, fd_objs := objs\<rparr>) \<and>
    fence_ok k L P (lo(t := hi t)) hi
      (S\<lparr>fs_drv := (fs_drv S)\<lparr>fd_fences := fences, fd_objs := objs\<rparr>, fs_threads := (fs_threads S)(t := Outside)\<rparr>)"
  using assms
proof (induction n arbitrary: S l lo)
  case 0
  then show ?case using thread_at [OF 0(1), of t] by simp
next
  case (Suc n)
  note ok = Suc.prems(1) and t = Suc.prems(2)
  note at = fence_at_walk [OF ok t]
  let ?n = "Suc (lo t)" and ?l = "of_nat (Suc (lo t) mod 2 ^ k) :: u32"
  let ?d1 = "(fs_drv S)\<lparr>fd_fences := (fd_fences (fs_drv S))[?n mod 2 ^ k := None]\<rparr>"
  let ?S1 = "S\<lparr>fs_drv := ?d1, fs_threads := (fs_threads S)(t := Signals ?n ?l s)\<rparr>"
  have "fence_thread_step (Walk l s) (fs_drv S) = Some (Signals ?n ?l s, ?d1)" using at by (simp add: nth_opt_def Let_def)
  from thread_walk_ok [OF ok t this] have ok1: "fence_ok k L P (lo(t := ?n)) hi ?S1" .
  let ?d2 = "?d1\<lparr>fd_objs := (fd_objs ?d1)(?n := (fd_objs ?d1 ?n)\<lparr>hf_signaled := True\<rparr>)\<rparr>"
  have "?n \<in> held ?S1" unfolding held_split [of ?S1 t] by simp
  from held_not_signaled [OF ok1 this] have sig: "fence_signal ?n ?d1 = Some ?d2" by (simp add: fence_signal_def)
  let ?S2 = "S\<lparr>fs_drv := ?d2, fs_threads := (fs_threads S)(t := fence_next ?l s)\<rparr>"
  have ok2: "fence_ok k L P (lo(t := ?n)) hi ?S2"
    using thread_signal_ok [OF ok1, of t ?n ?l s "fence_next ?l s" ?d2] sig by simp
  have loop: "fence_process_loop (Suc n) l s (fs_drv S) =
      (if ?l \<noteq> s then fence_process_loop n ?l s ?d2 else Returned ?d2)"
    using at sig by (simp add: nth_opt_def Let_def)
  show ?case
  proof (cases "?l = s")
    case True
    then have "lo(t := ?n) = lo(t := hi t)" using thread_at [OF ok2, of t] by (simp add: fence_next_def)
    then show ?thesis using loop ok2 True
      by (intro exI [of _ "fd_fences ?d2"] exI [of _ "fd_objs ?d2"])
        (simp add: fence_next_def del: fun_upd_apply fence_process_loop.simps)
  next
    case False
    then have t2: "fs_threads ?S2 t = Walk ?l s" by (simp add: fence_next_def)
    have le: "hi t - (lo(t := ?n)) t \<le> n" using Suc.prems(3) by simp
    obtain fences objs where r: "fence_process_loop n ?l s (fs_drv ?S2) = Returned ((fs_drv ?S2)\<lparr>fd_fences := fences, fd_objs := objs\<rparr>)"
        "fence_ok k L P ((lo(t := ?n))(t := hi t)) hi (?S2\<lparr>fs_drv := (fs_drv ?S2)\<lparr>fd_fences := fences, fd_objs := objs\<rparr>,
          fs_threads := (fs_threads ?S2)(t := Outside)\<rparr>)"
      using Suc.IH [OF ok2 t2 le] by blast
    have "fence_process_loop (Suc n) l s (fs_drv S) = Returned ((fs_drv S)\<lparr>fd_fences := fences, fd_objs := objs\<rparr>)"
      using r(1) loop False by simp
    moreover have "fence_ok k L P (lo(t := hi t)) hi
      (S\<lparr>fs_drv := (fs_drv S)\<lparr>fd_fences := fences, fd_objs := objs\<rparr>, fs_threads := (fs_threads S)(t := Outside)\<rparr>)"
      using r(2) by simp
    ultimately show ?thesis by blast
  qed
qed

lemma process_ok:
  assumes ok: "fence_ok k L P lo hi S" and t: "fs_threads S t = Outside" and fuel: "length (fd_fences (fs_drv S)) \<le> fuel"
  shows "\<exists>fences objs b. amdgpu_fence_process fuel (fs_drv S) =
      Returned ((fs_drv S)\<lparr>fd_last_seq := of_nat (fs_executed S), fd_fallback := b, fd_fences := fences, fd_objs := objs\<rparr>) \<and>
    b = (fd_fallback (fs_drv S) \<or> (of_nat (fs_executed S) :: u32) \<noteq> of_nat (fd_count (fs_drv S))) \<and>
    fence_ok k (fs_executed S) P (lo(t := fs_executed S)) (hi(t := fs_executed S)) (S\<lparr>fs_drv := (fs_drv S)\<lparr>
      fd_last_seq := of_nat (fs_executed S), fd_fallback := b, fd_fences := fences, fd_objs := objs\<rparr>\<rparr>)"
proof -
  let ?X = "fs_executed S"
  define b where "b = (fd_fallback (fs_drv S) \<or> (of_nat ?X :: u32) \<noteq> of_nat (fd_count (fs_drv S)))"
  let ?d = "(fs_drv S)\<lparr>fd_last_seq := of_nat ?X, fd_fallback := b\<rparr>"
  have k: "k \<le> 31" "fd_mask (fs_drv S) = mask k" "L \<le> ?X" "length (fd_fences (fs_drv S)) = 2 ^ k"
    using ok by (simp_all add: fence_ok_def counters_ok_def array_ok_def)
  have span: "?X - L \<le> 2 ^ k" by (rule executed_span [OF ok])
  have eq: "((of_nat ?X :: u32) = of_nat L) = (?X = L)"
    using of_nat_u32_close [OF k(3)] span pow_31 [OF k(1)] by simp
  have claim: "fence_claim (fs_drv S) = (of_nat L, of_nat ?X, ?d)" using claim_eq [OF ok] by (simp add: b_def)
  define th where "th = (if ?X = L then Outside else Walk (of_nat (L mod 2 ^ k)) (of_nat (?X mod 2 ^ k)))"
  have "fence_thread_step Outside ((fs_drv S)\<lparr>fd_fallback := fd_fallback (fs_drv S)\<rparr>) = Some (th, ?d)"
    using claim k and_mask_of_nat [of k] by (simp add: eq th_def)
  from thread_claim_ok [OF ok t this]
  have ok1: "fence_ok k ?X P (lo(t := L)) (hi(t := ?X)) (S\<lparr>fs_drv := ?d, fs_threads := (fs_threads S)(t := th)\<rparr>)" .
  have same: "(fs_threads S)(t := Outside) = fs_threads S" using t by auto
  show ?thesis
  proof (cases "?X = L")
    case True
    then have "amdgpu_fence_process fuel (fs_drv S) = Returned ?d" using claim by (simp add: amdgpu_fence_process_def)
    moreover have "fence_ok k ?X P (lo(t := ?X)) (hi(t := ?X)) (S\<lparr>fs_drv := ?d\<rparr>)"
      using ok1 True same by (simp add: th_def)
    ultimately show ?thesis
      by (intro exI [of _ "fd_fences (fs_drv S)"] exI [of _ "fd_objs (fs_drv S)"] exI [of _ b]) (simp add: b_def)
  next
    case False
    then have t1: "fs_threads (S\<lparr>fs_drv := ?d, fs_threads := (fs_threads S)(t := th)\<rparr>) t =
        Walk (of_nat (L mod 2 ^ k)) (of_nat (?X mod 2 ^ k))" by (simp add: th_def)
    have le: "(hi(t := ?X)) t - (lo(t := L)) t \<le> fuel" using span fuel k(4) by simp
    let ?S1 = "S\<lparr>fs_drv := ?d, fs_threads := (fs_threads S)(t := th)\<rparr>"
    obtain fences objs where r0: "fence_process_loop fuel (of_nat (L mod 2 ^ k)) (of_nat (?X mod 2 ^ k)) (fs_drv ?S1) =
          Returned ((fs_drv ?S1)\<lparr>fd_fences := fences, fd_objs := objs\<rparr>)"
        "fence_ok k ?X P ((lo(t := L))(t := (hi(t := ?X)) t)) (hi(t := ?X)) (?S1\<lparr>
          fs_drv := (fs_drv ?S1)\<lparr>fd_fences := fences, fd_objs := objs\<rparr>, fs_threads := (fs_threads ?S1)(t := Outside)\<rparr>)"
      using process_loop_ok [OF ok1 t1 le] by blast
    then have r: "fence_process_loop fuel (of_nat (L mod 2 ^ k)) (of_nat (?X mod 2 ^ k)) ?d =
          Returned (?d\<lparr>fd_fences := fences, fd_objs := objs\<rparr>)"
        "fence_ok k ?X P (lo(t := ?X)) (hi(t := ?X)) (S\<lparr>fs_drv := ?d\<lparr>fd_fences := fences, fd_objs := objs\<rparr>,
          fs_threads := (fs_threads S)(t := Outside)\<rparr>)"
      by simp_all
    have "amdgpu_fence_process fuel (fs_drv S) = Returned (?d\<lparr>fd_fences := fences, fd_objs := objs\<rparr>)"
      using r(1) claim k and_mask_of_nat [of k] False by (simp add: amdgpu_fence_process_def eq)
    then show ?thesis using r(2) same
      by (intro exI [of _ fences] exI [of _ objs] exI [of _ b]) (simp add: b_def)
  qed
qed

section \<open>Start\<close>

lemma pow2_of_and: "0 < n \<Longrightarrow> n AND (n - 1) = 0 \<Longrightarrow> \<exists>j. n = (2::nat) ^ j"
proof (induction n rule: less_induct)
  case (less n)
  show ?case
  proof (cases "even n")
    case True
    then obtain m where m: "n = 2 * m" by blast
    with less.prems have "0 < m" by simp
    then have h: "n div 2 = m" "(n - 1) div 2 = m - 1" using m by presburger+
    have "n AND (n - 1) = of_bool (odd n \<and> odd (n - 1)) + 2 * (n div 2 AND (n - 1) div 2)" by (rule and_rec)
    then have "n AND (n - 1) = 2 * (m AND (m - 1))" using True h by simp
    then have "\<exists>j. m = 2 ^ j" using less m \<open>0 < m\<close> by simp
    then obtain j where "m = 2 ^ j" ..
    then have "n = 2 ^ Suc j" using m by simp
    then show ?thesis ..
  next
    case False
    then obtain m where m: "n = Suc (2 * m)" using oddE by fastforce
    then have h: "n div 2 = m" "(n - 1) div 2 = m" by presburger+
    have "n AND (n - 1) = of_bool (odd n \<and> odd (n - 1)) + 2 * (n div 2 AND (n - 1) div 2)" by (rule and_rec)
    then have "n AND (n - 1) = 2 * m" using False h by simp
    then have "n = 2 ^ 0" using less.prems m by simp
    then show ?thesis ..
  qed
qed

lemma pow2_word:
  fixes w :: u32
  assumes "w \<noteq> 0" "w AND (w - 1) = 0"
  shows "\<exists>j. j < 32 \<and> w = 2 ^ j"
proof -
  have "unat (w - 1) = unat w - 1" using assms(1) by (simp add: unat_minus_one)
  then have "unat w AND (unat w - 1) = 0" using arg_cong [OF assms(2), of unat] by (simp add: unsigned_and_eq)
  moreover have "0 < unat w" using assms(1) by (simp add: unat_gt_0)
  ultimately obtain j where j: "unat w = 2 ^ j" using pow2_of_and by blast
  then have "(2::nat) ^ j < 2 ^ 32" using unat_lt_len [of w] by simp
  then have lt: "j < 32" by (simp only: power_strict_increasing_iff)
  have "w = of_nat (unat w)" by simp
  then have "w = 2 ^ j" by (simp only: j) simp
  with lt show ?thesis by blast
qed

definition fence_blank :: amdgpu_fence_driver where
  "fence_blank = \<lparr>fd_gpu_addr = 0, fd_cpu_addr = None, fd_sync_seq = 0, fd_last_seq = 0, fd_initialized = False,
     fd_irq = 0, fd_fallback = False, fd_mask = 0, fd_fences = [], fd_objs = (\<lambda>_. \<lparr>hf_seqno = 0, hf_signaled = False\<rparr>),
     fd_count = 0, fd_written = [], fd_ring = []\<rparr>"

text \<open>A ring after its initialisation: nothing is emitted and no thread processes fences.\<close>

definition fence_start :: "u32 \<Rightarrow> fence_system \<Rightarrow> bool" where
  "fence_start num S \<longleftrightarrow> num \<noteq> 0 \<and> num \<noteq> 0x80000000 \<and>
     (\<exists>jiffies thread s d s' uvd wb offs size uvd_addr memory.
        amdgpu_fence_driver_init_ring True jiffies thread num fence_blank s = (0, d, s') \<and>
        S = \<lparr>fs_drv = snd (amdgpu_fence_driver_start_ring uvd wb offs size uvd_addr memory d), fs_emitting = False,
             fs_threads = (\<lambda>_. Outside), fs_executed = 0\<rparr>)"

lemma start_ok:
  assumes "fence_start num S"
  shows "\<exists>k. fence_ok k 0 0 (\<lambda>_. 0) (\<lambda>_. 0) S \<and> 2 ^ k = 2 * unat num \<and> fd_count (fs_drv S) = 0"
proof -
  from assms obtain jiffies thread s d s' uvd wb offs size uvd_addr memory where
    init: "amdgpu_fence_driver_init_ring True jiffies thread num fence_blank s = (0, d, s')"
    and S: "S = \<lparr>fs_drv = snd (amdgpu_fence_driver_start_ring uvd wb offs size uvd_addr memory d), fs_emitting = False,
             fs_threads = (\<lambda>_. Outside), fs_executed = 0\<rparr>"
    unfolding fence_start_def by blast
  from init have "num AND (num - 1) = 0" by (auto simp: amdgpu_fence_driver_init_ring_def split: if_splits)
  then obtain j where j: "j < 32" "num = 2 ^ j" using assms pow2_word by (auto simp: fence_start_def)
  have "j \<noteq> 31" using assms j(2) by (auto simp: fence_start_def)
  then have k: "Suc j \<le> 31" using j(1) by simp
  have n: "num * 2 = 2 ^ Suc j" using j(2) by simp
  have un: "unat (2 ^ Suc j :: u32) = 2 ^ Suc j"
    using unat_of_nat_small [of "2 ^ Suc j", where ?'a = 32] pow_31 [OF k] by simp
  have uj: "unat num = 2 ^ j"
    using unat_of_nat_small [of "2 ^ j", where ?'a = 32] power_strict_increasing [OF j(1), of "2::nat"] j(2) by simp
  from init have d: "d = fence_blank\<lparr>fd_mask := num * 2 - 1, fd_fences := replicate (unat (num * 2)) None\<rparr>"
    by (auto simp: amdgpu_fence_driver_init_ring_def Let_def fence_blank_def split: if_splits prod.splits)
  have m: "fd_mask (fs_drv S) = mask (Suc j)" "fd_fences (fs_drv S) = replicate (2 ^ Suc j) None"
    "fd_cpu_addr (fs_drv S) = Some 0" "fd_last_seq (fs_drv S) = 0" "fd_sync_seq (fs_drv S) = 0"
    "fd_count (fs_drv S) = 0" "fd_ring (fs_drv S) = []" "fd_written (fs_drv S) = []"
    using un by (simp_all add: S d n mask_eq_exp_minus_1 amdgpu_fence_driver_start_ring_def amdgpu_fence_write_def
      fence_blank_def Let_def del: power_Suc)
  have e: "fs_emitting S = False" "fs_threads S = (\<lambda>_. Outside)" "fs_executed S = 0" by (simp_all add: S)
  have U: "in_array 0 (\<lambda>_. 0) (\<lambda>_. 0) S = {}" "stored S = 0" "held S = {}"
    by (simp_all add: in_array_def stored_def ranges_def held_def m e)
  have "fence_ok (Suc j) 0 0 (\<lambda>_. 0) (\<lambda>_. 0) S"
    unfolding fence_ok_defs U array_ok_def using k by (simp add: m e)
  then show ?thesis using uj by (intro exI [of _ "Suc j"]) (simp add: m)
qed

section \<open>The abstract fences\<close>

text \<open>
  What the driver promises: of the fences that were emitted, numbered from one, the GPU finishes them in
  order, and each is signalled once and not before it is finished.
\<close>

type_synonym fences = "nat \<times> nat \<times> nat set"

inductive fences_step :: "fences \<Rightarrow> fences \<Rightarrow> bool" where
  fences_emit: "fences_step (e, x, done) (Suc e, x, done)"
| fences_finish: "x < e \<Longrightarrow> fences_step (e, x, done) (e, Suc x, done)"
| fences_signal: "1 \<le> n \<Longrightarrow> n \<le> x \<Longrightarrow> n \<notin> done \<Longrightarrow> fences_step (e, x, done) (e, x, insert n done)"

definition fence_abs :: "fence_system \<Rightarrow> fences" where
  "fence_abs S = (fd_count (fs_drv S), fs_executed S,
     {n. 1 \<le> n \<and> n \<le> fd_count (fs_drv S) \<and> hf_signaled (fd_objs (fs_drv S) n)})"

lemma fence_abs_same:
  "fd_count (fs_drv S') = fd_count (fs_drv S) \<Longrightarrow> fs_executed S' = fs_executed S \<Longrightarrow>
   fd_objs (fs_drv S') = fd_objs (fs_drv S) \<Longrightarrow> fences_step\<^sup>*\<^sup>* (fence_abs S) (fence_abs S')"
  by (simp add: fence_abs_def)

lemma claim_keeps: "fence_thread_step Outside d = Some (th, d') \<Longrightarrow> fd_count d' = fd_count d \<and> fd_objs d' = fd_objs d"
  by (auto simp: fence_claim_def amdgpu_fence_schedule_fallback_def Let_def split: if_splits)

lemma walk_keeps: "fence_thread_step (Walk l s) d = Some (th, d') \<Longrightarrow> fd_count d' = fd_count d \<and> fd_objs d' = fd_objs d"
  by (auto simp: Let_def elim!: bind_eq_SomeE)

lemma fence_step_abs: "fence_step S S' \<Longrightarrow> fence_inv S \<Longrightarrow> fences_step\<^sup>*\<^sup>* (fence_abs S) (fence_abs S')"
proof (induction rule: fence_step.induct)
  case (emit S)
  have "{n. 1 \<le> n \<and> n \<le> Suc (fd_count (fs_drv S)) \<and> hf_signaled (fd_objs (fence_emit_begin (fs_drv S)) n)} =
      {n. 1 \<le> n \<and> n \<le> fd_count (fs_drv S) \<and> hf_signaled (fd_objs (fs_drv S) n)}"
    by (auto simp: le_Suc_eq)
  then show ?case by (auto simp: fence_abs_def intro: fences_emit)
next
  case (store S d)
  then show ?case by (intro fence_abs_same) (auto simp: fence_emit_end_def elim!: bind_eq_SomeE)
next
  case (commit S)
  then show ?case by (intro fence_abs_same) (simp_all add: fence_commit_def)
next
  case (gpu S seq packets)
  obtain k L P lo hi where ok: "fence_ok k L P lo hi S" using gpu.prems by (auto simp: fence_inv_def)
  then have "fd_ring (fs_drv S) = map of_nat [Suc (fs_executed S) ..< Suc P]" "P \<le> fd_count (fs_drv S)"
    by (auto simp: fence_ok_def counters_ok_def stored_def split: if_splits)
  then have "fs_executed S < fd_count (fs_drv S)" using gpu.hyps by (cases "fs_executed S < P") auto
  then show ?case by (auto simp: fence_abs_def amdgpu_fence_write_def intro: fences_finish)
next
  case (process S t th d)
  obtain k L P lo hi where ok: "fence_ok k L P lo hi S" using process.prems by (auto simp: fence_inv_def)
  show ?case
  proof (cases "fs_threads S t")
    case Outside
    then show ?thesis using process.hyps claim_keeps [of "fs_drv S"] by (intro fence_abs_same) simp_all
  next
    case (Walk l s)
    then show ?thesis using process.hyps walk_keeps [of l s "fs_drv S"] by (intro fence_abs_same) simp_all
  next
    case (Signals f l s)
    let ?done = "{n. 1 \<le> n \<and> n \<le> fd_count (fs_drv S) \<and> hf_signaled (fd_objs (fs_drv S) n)}"
    have "f \<in> held S" unfolding held_split [of S t] by (simp add: Signals)
    then have f: "1 \<le> f" "f \<le> L" "\<not> hf_signaled (fd_objs (fs_drv S) f)"
      using held_bounds [OF ok] held_not_signaled [OF ok] by simp_all
    have L: "L \<le> fs_executed S" "fs_executed S \<le> fd_count (fs_drv S)"
      using ok by (auto simp: fence_ok_def counters_ok_def stored_def split: if_splits)
    have d: "fd_count d = fd_count (fs_drv S)"
        "fd_objs d = (fd_objs (fs_drv S))(f := (fd_objs (fs_drv S) f)\<lparr>hf_signaled := True\<rparr>)"
      using process.hyps Signals f(3) by (auto simp: fence_signal_def)
    then have "{n. 1 \<le> n \<and> n \<le> fd_count d \<and> hf_signaled (fd_objs d n)} = insert f ?done" using f L by auto
    then have "fence_abs (S\<lparr>fs_drv := d, fs_threads := (fs_threads S)(t := th)\<rparr>) =
        (fd_count (fs_drv S), fs_executed S, insert f ?done)"
      by (simp add: fence_abs_def d(1))
    moreover have "fences_step (fence_abs S) (fd_count (fs_drv S), fs_executed S, insert f ?done)"
      unfolding fence_abs_def using f L by (intro fences_signal) auto
    ultimately show ?thesis by simp
  qed
next
  case (expire S t th d)
  then show ?case using claim_keeps [of "(fs_drv S)\<lparr>fd_fallback := False\<rparr>"] by (intro fence_abs_same) simp_all
next
  case (enable S)
  show ?case
    by (intro fence_abs_same) (simp_all add: amdgpu_fence_enable_signaling_def amdgpu_fence_schedule_fallback_def)
qed

lemma fence_step_size: "fence_step S S' \<Longrightarrow> length (fd_fences (fs_drv S')) = length (fd_fences (fs_drv S))"
proof (induction rule: fence_step.induct)
  case (store S d)
  then show ?case by (auto simp: fence_emit_end_def update_opt_def elim!: bind_eq_SomeE split: if_splits)
next
  case (process S t th d)
  then show ?case by (cases "fs_threads S t")
    (auto simp: fence_claim_def amdgpu_fence_schedule_fallback_def fence_signal_def Let_def elim!: bind_eq_SomeE split: if_splits)
qed (auto simp: fence_commit_def amdgpu_fence_write_def fence_claim_def amdgpu_fence_enable_signaling_def
    amdgpu_fence_schedule_fallback_def Let_def split: if_splits)

interpretation fd: simulation "fence_start num" fence_step
    "\<lambda>S. fence_inv S \<and> length (fd_fences (fs_drv S)) = 2 * unat num" fence_abs fences_step for num
proof unfold_locales
  fix S assume "fence_start num S"
  then obtain k where k: "fence_ok k 0 0 (\<lambda>_. 0) (\<lambda>_. 0) S" "2 ^ k = 2 * unat num" using start_ok by blast
  then have "length (fd_fences (fs_drv S)) = 2 * unat num" by (simp add: fence_ok_def array_ok_def)
  with k(1) show "fence_inv S \<and> length (fd_fences (fs_drv S)) = 2 * unat num" unfolding fence_inv_def by blast
next
  fix S S' assume st: "fence_step S S'" and i: "fence_inv S \<and> length (fd_fences (fs_drv S)) = 2 * unat num"
  then show "fence_inv S' \<and> length (fd_fences (fs_drv S')) = 2 * unat num" using fence_step_inv fence_step_size by simp
  show "fences_step\<^sup>*\<^sup>* (fence_abs S) (fence_abs S')" using fence_step_abs [OF st] i by simp
qed

section \<open>States without a thread inside\<close>

definition quiet :: "fence_system \<Rightarrow> bool" where
  "quiet S \<longleftrightarrow> (\<forall>t. fs_threads S t = Outside)"

lemma quiet_sets:
  assumes "fence_ok k L P lo hi S" "quiet S"
  shows "in_array L lo hi S = {L <.. stored S}" "held S = {}"
proof -
  have "lo t = hi t" for t using thread_at [OF assms(1), of t] assms(2) by (simp add: quiet_def)
  then show "in_array L lo hi S = {L <.. stored S}" by (simp add: in_array_def ranges_def)
  show "held S = {}" using assms(2) by (simp add: held_def quiet_def)
qed

lemma quiet_signaled:
  assumes "fence_ok k L P lo hi S" "quiet S" "1 \<le> n" "n \<le> fd_count (fs_drv S)"
  shows "hf_signaled (fd_objs (fs_drv S) n) \<longleftrightarrow> n \<le> L"
proof -
  have "L \<le> stored S" using assms(1) by (simp add: fence_ok_def counters_ok_def)
  then show ?thesis using assms quiet_sets [OF assms(1,2)] by (auto simp: fence_ok_def objs_ok_def)
qed

lemma count_span:
  assumes "fence_ok k L P lo hi S"
  shows "L \<le> fs_executed S" "fs_executed S \<le> fd_count (fs_drv S)" "fd_count (fs_drv S) - L \<le> Suc (2 ^ k)" "2 ^ k < (2 ^ 32 :: nat) - 1"
proof -
  have "{L <.. stored S} \<subseteq> in_array L lo hi S" by (simp add: in_array_def)
  then have "stored S - L \<le> 2 ^ k" using assms array_span by (auto simp: fence_ok_def)
  moreover have "L \<le> fs_executed S" "fs_executed S \<le> stored S" "k \<le> 31" using assms by (simp_all add: fence_ok_def counters_ok_def)
  moreover have "(2::nat) ^ k \<le> 2 ^ 31" using \<open>k \<le> 31\<close> by (intro power_increasing) simp_all
  ultimately show "L \<le> fs_executed S" "fs_executed S \<le> fd_count (fs_drv S)" "fd_count (fs_drv S) - L \<le> Suc (2 ^ k)"
    "2 ^ k < (2 ^ 32 :: nat) - 1"
    by (auto simp: stored_def split: if_splits)
qed

lemma executed_word_eq:
  assumes "fence_ok k L P lo hi S"
  shows "((of_nat (fs_executed S) :: u32) = of_nat (fd_count (fs_drv S))) = (fs_executed S = fd_count (fs_drv S))"
proof -
  note c = count_span [OF assms]
  then have "fd_count (fs_drv S) - fs_executed S < 2 ^ 32" by linarith
  then show ?thesis using of_nat_u32_close [OF c(2)] by (metis (no_types))
qed

lemma process_quiet:
  assumes ok: "fence_ok k L P lo hi S" and q: "quiet S" and fuel: "length (fd_fences (fs_drv S)) \<le> fuel"
  shows "\<exists>d. amdgpu_fence_process fuel (fs_drv S) = Returned d \<and> fd_count d = fd_count (fs_drv S) \<and>
    fd_sync_seq d = of_nat (fd_count (fs_drv S)) \<and> fd_last_seq d = of_nat (fs_executed S) \<and>
    fd_fallback d = (fd_fallback (fs_drv S) \<or> fs_executed S \<noteq> fd_count (fs_drv S)) \<and>
    (\<forall>n. 1 \<le> n \<and> n \<le> fd_count d \<longrightarrow> hf_signaled (fd_objs d n) = (n \<le> fs_executed S))"
proof -
  have "fs_threads S 0 = Outside" using q by (simp add: quiet_def)
  from process_ok [OF ok this fuel] obtain fences objs b where
    run: "amdgpu_fence_process fuel (fs_drv S) =
      Returned ((fs_drv S)\<lparr>fd_last_seq := of_nat (fs_executed S), fd_fallback := b, fd_fences := fences, fd_objs := objs\<rparr>)"
    and b: "b = (fd_fallback (fs_drv S) \<or> (of_nat (fs_executed S) :: u32) \<noteq> of_nat (fd_count (fs_drv S)))"
    and ok': "fence_ok k (fs_executed S) P (lo(0 := fs_executed S)) (hi(0 := fs_executed S)) (S\<lparr>fs_drv := (fs_drv S)\<lparr>
      fd_last_seq := of_nat (fs_executed S), fd_fallback := b, fd_fences := fences, fd_objs := objs\<rparr>\<rparr>)"
    by blast
  have q': "quiet (S\<lparr>fs_drv := d\<rparr>)" for d using q by (simp add: quiet_def)
  have "fd_sync_seq (fs_drv S) = of_nat (fd_count (fs_drv S))" using ok by (simp add: fence_ok_def counters_ok_def)
  moreover have "b = (fd_fallback (fs_drv S) \<or> fs_executed S \<noteq> fd_count (fs_drv S))" using b executed_word_eq [OF ok] by simp
  ultimately show ?thesis
    using quiet_signaled [OF ok' q'] by (intro exI conjI) (rule run, simp_all)
qed

lemma thread_step_count: "fence_thread_step th d = Some (th', d') \<Longrightarrow> fd_count d' = fd_count d"
  using claim_keeps walk_keeps by (cases th) (auto simp: fence_signal_def split: if_splits)

section \<open>A run around the sequence numbers\<close>

text \<open>One fence is emitted, finished and signalled, with nothing else under way.\<close>

lemma round_store:
  assumes ok: "fence_ok k n n lo hi S" and q: "quiet S" and e: "\<not> fs_emitting S" "fs_executed S = n" "fd_count (fs_drv S) = n"
  shows "\<exists>S'. fence_step\<^sup>*\<^sup>* S S' \<and> fence_ok k n n lo hi S' \<and> quiet S' \<and> \<not> fs_emitting S' \<and>
    fs_executed S' = n \<and> fd_count (fs_drv S') = Suc n"
proof -
  let ?S1 = "S\<lparr>fs_drv := fence_emit_begin (fs_drv S), fs_emitting := True\<rparr>"
  have s1: "fence_step S ?S1" by (rule fence_step.emit [OF e(1)])
  have ok1: "fence_ok k n n lo hi ?S1" by (rule emit_ok [OF ok e(1)])
  have "quiet ?S1" using q by (simp add: quiet_def)
  then have "in_array n lo hi ?S1 = {}" using quiet_sets [OF ok1] e by (simp add: stored_def)
  then have free: "fence_emit_busy (fs_drv ?S1) = Some False"
    using busy_iff [OF ok1] ok1 array_slot [of k "in_array n lo hi ?S1"] by (cases "fd_fences (fs_drv ?S1) ! (Suc n mod 2 ^ k)") (auto simp: fence_ok_def e)
  obtain d2 where d2: "fence_emit_end (fs_drv ?S1) = Some d2"
    using slot_lt [OF ok1] slot_of_count [OF ok1] by (simp add: fence_emit_end_def update_opt_def)
  let ?S2 = "?S1\<lparr>fs_drv := d2, fs_emitting := False\<rparr>"
  have s2: "fence_step ?S1 ?S2" by (rule fence_step.store [OF _ free d2]) simp
  have ok2: "fence_ok k n n lo hi ?S2" by (rule store_ok [OF ok1 _ free d2]) simp
  have c2: "fd_count d2 = Suc n" using d2 e by (auto simp: fence_emit_end_def elim!: bind_eq_SomeE)
  have "fence_step\<^sup>*\<^sup>* S ?S2" using s1 s2 by (meson rtranclp.rtrancl_refl rtranclp.rtrancl_into_rtrancl)
  moreover have "quiet ?S2" using q by (simp add: quiet_def)
  moreover have "\<not> fs_emitting ?S2" "fs_executed ?S2 = n" "fd_count (fs_drv ?S2) = Suc n" using e c2 by simp_all
  ultimately show ?thesis using ok2 by blast
qed

lemma round_finish:
  assumes ok2: "fence_ok k n n lo hi S" and q: "quiet S" and e: "\<not> fs_emitting S" "fs_executed S = n" "fd_count (fs_drv S) = Suc n"
  shows "\<exists>S' lo' hi'. fence_step\<^sup>*\<^sup>* S S' \<and> fence_ok k (Suc n) (Suc n) lo' hi' S' \<and> quiet S' \<and> \<not> fs_emitting S' \<and>
    fs_executed S' = Suc n \<and> fd_count (fs_drv S') = Suc n"
proof -
  let ?S3 = "S\<lparr>fs_drv := fence_commit (fs_drv S)\<rparr>"
  have s3: "fence_step S ?S3" by (rule fence_step.commit [OF e(1)])
  have ok3: "fence_ok k n (Suc n) lo hi ?S3" using commit_ok [OF ok2 e(1)] e by (simp add: stored_def)
  have "fd_ring (fs_drv ?S3) = map of_nat [Suc n ..< Suc (Suc n)]" using ok3 e by (simp add: fence_ok_def counters_ok_def)
  then have ring: "fd_ring (fs_drv ?S3) = [of_nat (Suc n)]" by simp
  let ?S4 = "?S3\<lparr>fs_drv := amdgpu_fence_write (of_nat (Suc n)) ((fs_drv ?S3)\<lparr>fd_ring := []\<rparr>), fs_executed := Suc (fs_executed ?S3)\<rparr>"
  have s4: "fence_step ?S3 ?S4" by (rule fence_step.gpu [OF ring])
  have ok4: "fence_ok k n (Suc n) lo hi ?S4" by (rule gpu_ok [OF ok3 ring])
  have t4: "fs_threads ?S4 0 = Outside" using q by (simp add: quiet_def)
  obtain th5 d5 where p5: "fence_thread_step (fs_threads ?S4 0) (fs_drv ?S4) = Some (th5, d5)"
    using thread_step_total [OF ok4] by blast
  let ?S5 = "?S4\<lparr>fs_drv := d5, fs_threads := (fs_threads ?S4)(0 := th5)\<rparr>"
  have s5: "fence_step ?S4 ?S5" by (rule fence_step.process [OF p5])
  have "fence_thread_step Outside ((fs_drv ?S4)\<lparr>fd_fallback := fd_fallback (fs_drv ?S4)\<rparr>) = Some (th5, d5)" using p5 t4 by simp
  from thread_claim_ok [OF ok4 t4 this] have ok5: "fence_ok k (Suc n) (Suc n) (lo(0 := n)) (hi(0 := Suc n)) ?S5" using e by simp
  have th5: "th5 = Walk (of_nat (n mod 2 ^ k)) (of_nat (Suc n mod 2 ^ k))"
    using thread_at [OF ok5, of 0] p5 t4 by (cases th5) (auto split: if_splits prod.splits)
  obtain th6 d6 where p6: "fence_thread_step (fs_threads ?S5 0) (fs_drv ?S5) = Some (th6, d6)"
    using thread_step_total [OF ok5] by blast
  let ?S6 = "?S5\<lparr>fs_drv := d6, fs_threads := (fs_threads ?S5)(0 := th6)\<rparr>"
  have s6: "fence_step ?S5 ?S6" by (rule fence_step.process [OF p6])
  have ok6: "fence_ok k (Suc n) (Suc n) (lo(0 := Suc n)) (hi(0 := Suc n)) ?S6"
    using thread_walk_ok [OF ok5, of 0] p6 by (simp add: th5)
  have th6: "\<exists>f l s. th6 = Signals f l s"
    using p6 fence_at_walk [OF ok5, of 0] by (auto simp: th5 Let_def nth_opt_def split: if_splits)
  obtain th7 d7 where p7: "fence_thread_step (fs_threads ?S6 0) (fs_drv ?S6) = Some (th7, d7)"
    using thread_step_total [OF ok6] by blast
  let ?S7 = "?S6\<lparr>fs_drv := d7, fs_threads := (fs_threads ?S6)(0 := th7)\<rparr>"
  have s7: "fence_step ?S6 ?S7" by (rule fence_step.process [OF p7])
  have ok7: "fence_ok k (Suc n) (Suc n) (lo(0 := Suc n)) (hi(0 := Suc n)) ?S7"
    using thread_signal_ok [OF ok6, of 0] p7 th6 by auto
  have th7: "th7 = Outside"
    using thread_at [OF ok7, of 0] p7 th6 by (cases th7) (auto simp: fence_next_def elim!: bind_eq_SomeE split: if_splits)
  have "fence_step\<^sup>*\<^sup>* S ?S7" using s3 s4 s5 s6 s7 by (meson rtranclp.rtrancl_refl rtranclp.rtrancl_into_rtrancl)
  moreover have "quiet ?S7" using q by (simp add: quiet_def th7)
  moreover have "fd_count (fs_drv ?S7) = Suc n" 
    using thread_step_count [OF p5] thread_step_count [OF p6] thread_step_count [OF p7] e
    by (simp add: fence_commit_def amdgpu_fence_write_def)
  moreover have "\<not> fs_emitting ?S7" "fs_executed ?S7 = Suc n" using e by simp_all
  ultimately show ?thesis using ok7 by blast
qed

lemma rounds:
  assumes "fence_start num S"
  shows "\<exists>S' k lo hi. fence_step\<^sup>*\<^sup>* S S' \<and> fence_ok k n n lo hi S' \<and> quiet S' \<and> \<not> fs_emitting S' \<and>
    fs_executed S' = n \<and> fd_count (fs_drv S') = n"
proof (induction n)
  case 0
  obtain k where ok: "fence_ok k 0 0 (\<lambda>_. 0) (\<lambda>_. 0) S" using start_ok [OF assms] by blast
  have "quiet S" "\<not> fs_emitting S" "fs_executed S = 0" using assms by (auto simp: fence_start_def quiet_def)
  moreover have "fd_count (fs_drv S) = 0" using start_ok [OF assms] by blast
  ultimately show ?case using ok by blast
next
  case (Suc n)
  then obtain S' k lo hi where s: "fence_step\<^sup>*\<^sup>* S S'" "fence_ok k n n lo hi S'" "quiet S'" "\<not> fs_emitting S'"
    "fs_executed S' = n" "fd_count (fs_drv S') = n" by blast
  obtain S1 where s1: "fence_step\<^sup>*\<^sup>* S' S1" "fence_ok k n n lo hi S1" "quiet S1" "\<not> fs_emitting S1"
    "fs_executed S1 = n" "fd_count (fs_drv S1) = Suc n" using round_store [OF s(2-6)] by blast
  obtain S'' lo' hi' where "fence_step\<^sup>*\<^sup>* S1 S''" "fence_ok k (Suc n) (Suc n) lo' hi' S''" "quiet S''" "\<not> fs_emitting S''"
    "fs_executed S'' = Suc n" "fd_count (fs_drv S'') = Suc n" using round_finish [OF s1(2-6)] by blast
  then show ?case using rtranclp_trans [OF rtranclp_trans [OF s(1) s1(1)]] by blast
qed

lemma steps_ok:
  assumes "fence_start num S0" "fence_step\<^sup>*\<^sup>* S0 S"
  shows "\<exists>k L P lo hi. fence_ok k L P lo hi S \<and> 2 ^ k = 2 * unat num"
proof -
  from fd.reachable_inv [OF assms] obtain k L P lo hi where ok: "fence_ok k L P lo hi S"
    and len: "length (fd_fences (fs_drv S)) = 2 * unat num" by (auto simp: fence_inv_def)
  then have "2 ^ k = 2 * unat num" by (simp add: fence_ok_def array_ok_def)
  with ok show ?thesis by blast
qed

lemma take_bit_down: "take_bit 32 (take_bit 64 a + take_bit 64 b) = take_bit 32 (a + b)"
  "take_bit 32 (take_bit 64 a - take_bit 64 b) = take_bit 32 (a - b)" for a b :: int
  using take_bit_add [of 32 "take_bit 64 a" "take_bit 64 b"] take_bit_add [of 32 a b]
    take_bit_diff [of 32 "take_bit 64 a" "take_bit 64 b"] take_bit_diff [of 32 a b] by simp_all

lemma ucast_down: "(ucast (a + b :: u64) :: u32) = ucast a + ucast b" "(ucast (a - b :: u64) :: u32) = ucast a - ucast b"
  by (transfer, simp add: take_bit_down)+

lemma ucast_scast_down: "(ucast (scast (w :: u32) :: u64) :: u32) = w" "(ucast (ucast (w :: u32) :: u64) :: u32) = w"
  by (rule bit_word_eqI; auto simp: bit_simps dest: bit_imp_le_length)+

lemma lower_difference:
  "m \<le> n \<Longrightarrow> (ucast (0x100000000 - scast (of_nat m :: u32) + ucast (of_nat n :: u32) :: u64) :: u32) = of_nat (n - m)"
  by (simp add: ucast_down ucast_scast_down)
lemma emit_wait:
  assumes ok: "fence_ok k L P lo hi S" and e: "\<not> fs_emitting S"
  shows "((\<forall>n. 1 \<le> n \<and> n + 2 ^ k \<le> Suc (fd_count (fs_drv S)) \<longrightarrow> hf_signaled (fd_objs (fs_drv S) n)) \<longrightarrow>
      (\<exists>d. amdgpu_fence_emit True fence_wait (fs_drv S) = Some (0, d, Some (Suc (fd_count (fs_drv S)))))) \<and>
    (length (fd_written (fs_drv S)) < 2 ^ k \<longrightarrow> fence_emit_busy (fence_emit_begin (fs_drv S)) = Some True \<longrightarrow>
      (\<exists>f. nth_opt (fd_fences (fs_drv S)) (fence_slot (fence_emit_begin (fs_drv S))) = Some (Some f) \<and>
        f \<le> fs_executed S + length (fd_ring (fs_drv S))))"
proof -
  let ?n = "fd_count (fs_drv S)" and ?S = "S\<lparr>fs_drv := fence_emit_begin (fs_drv S), fs_emitting := True\<rparr>"
  have ok1: "fence_ok k L P lo hi ?S" by (rule emit_ok [OF ok e])
  have slot: "fence_slot (fence_emit_begin (fs_drv S)) = Suc ?n mod 2 ^ k" "Suc ?n mod 2 ^ k < length (fd_fences (fs_drv S))"
    using slot_of_count [OF ok1] slot_lt [OF ok1] by simp_all
  have busy: "fence_emit_busy (fence_emit_begin (fs_drv S)) = Some (fd_fences (fs_drv S) ! (Suc ?n mod 2 ^ k) \<noteq> None)"
    using busy_iff [OF ok1] by simp
  have old: "1 \<le> f \<and> f + 2 ^ k \<le> Suc ?n \<and> \<not> hf_signaled (fd_objs (fs_drv S) f)"
    if f: "fd_fences (fs_drv S) ! (Suc ?n mod 2 ^ k) = Some f" for f
  proof -
    have m: "f \<in> in_array L lo hi S" "f mod 2 ^ k = Suc ?n mod 2 ^ k" using ok array_slot [OF _ f] by (auto simp: fence_ok_def)
    then have b: "1 \<le> f" "f \<le> ?n" using in_array_bounds [OF ok] e by (auto simp: stored_def)
    then have "\<not> Suc ?n - f < 2 ^ k" using mod_eq_close [OF m(2)] by fastforce
    then show ?thesis using b array_not_signaled [OF ok m(1)] by auto
  qed
  have P: "P = fs_executed S + length (fd_ring (fs_drv S))" "?n = P + length (fd_written (fs_drv S))"
    using ok e by (auto simp: fence_ok_def counters_ok_def stored_def simp del: upt_Suc)
  have "\<exists>d. amdgpu_fence_emit True fence_wait (fs_drv S) = Some (0, d, Some (Suc ?n))"
    if "\<forall>n. 1 \<le> n \<and> n + 2 ^ k \<le> Suc ?n \<longrightarrow> hf_signaled (fd_objs (fs_drv S) n)"
  proof -
    have "fd_fences (fs_drv S) ! (Suc ?n mod 2 ^ k) = None" using old that by (cases "fd_fences (fs_drv S) ! (Suc ?n mod 2 ^ k)") auto
    then show ?thesis using busy slot by (simp add: amdgpu_fence_emit_def fence_emit_end_def update_opt_def Let_def)
  qed
  moreover have "\<exists>f. nth_opt (fd_fences (fs_drv S)) (fence_slot (fence_emit_begin (fs_drv S))) = Some (Some f) \<and>
      f \<le> fs_executed S + length (fd_ring (fs_drv S))"
    if "length (fd_written (fs_drv S)) < 2 ^ k" "fence_emit_busy (fence_emit_begin (fs_drv S)) = Some True"
  proof -
    note w = that
    obtain f where f: "fd_fences (fs_drv S) ! (Suc ?n mod 2 ^ k) = Some f" using w(2) busy by auto
    then show ?thesis using old [OF f] slot w(1) P by (intro exI [of _ f]) (auto simp: nth_opt_def)
  qed
  ultimately show ?thesis by blast
qed

section \<open>A ring of two fences\<close>

definition fdemo0 :: fence_system where
  "fdemo0 = \<lparr>fs_drv = fence_blank\<lparr>fd_cpu_addr := Some 0, fd_mask := 1, fd_fences := [None, None], fd_irq := 1,
     fd_initialized := True\<rparr>, fs_emitting = False, fs_threads = (\<lambda>_. Outside), fs_executed = 0\<rparr>"

definition fdemo1 :: fence_system where
  "fdemo1 = fdemo0\<lparr>fs_drv := (fs_drv fdemo0)\<lparr>fd_cpu_addr := Some 1, fd_sync_seq := 1, fd_fences := [None, Some 1],
     fd_objs := (fd_objs fence_blank)(1 := \<lparr>hf_seqno = 1, hf_signaled = False\<rparr>), fd_count := 1\<rparr>, fs_executed := 1\<rparr>"

lemmas fdemo_defs = fdemo0_def fdemo1_def fence_blank_def

lemma fdemo_start: "fence_start 1 fdemo0"
  unfolding fence_start_def
proof (intro conjI exI)
  fix s
  have "replicate 2 (None :: nat option) = [None, None]" by (simp add: numeral_2_eq_2)
  then show "amdgpu_fence_driver_init_ring True 1 0 1 fence_blank s =
      (0, fence_blank\<lparr>fd_mask := 1, fd_fences := [None, None]\<rparr>, snd (amd_sched_init 0 1 1 s))"
    by (simp add: amdgpu_fence_driver_init_ring_def amd_sched_init_def fence_blank_def Let_def)
  show "fdemo0 = \<lparr>fs_drv = snd (amdgpu_fence_driver_start_ring False 0 0 0 0 0
      (fence_blank\<lparr>fd_mask := 1, fd_fences := [None, None]\<rparr>)), fs_emitting = False, fs_threads = (\<lambda>_. Outside), fs_executed = 0\<rparr>"
    by (simp add: fdemo0_def amdgpu_fence_driver_start_ring_def amdgpu_fence_write_def fence_blank_def Let_def)
qed simp_all

lemma fdemo_steps: "fence_step\<^sup>*\<^sup>* fdemo0 fdemo1"
proof -
  let ?S1 = "fdemo0\<lparr>fs_drv := fence_emit_begin (fs_drv fdemo0), fs_emitting := True\<rparr>"
  let ?d2 = "(fence_emit_begin (fs_drv fdemo0))\<lparr>fd_fences := [None, Some 1]\<rparr>"
  let ?S2 = "?S1\<lparr>fs_drv := ?d2, fs_emitting := False\<rparr>"
  let ?S3 = "?S2\<lparr>fs_drv := fence_commit ?d2\<rparr>"
  have "fence_step fdemo0 ?S1" by (rule fence_step.emit) (simp add: fdemo_defs)
  moreover have "fence_step ?S1 ?S2"
    by (rule fence_step.store) (simp_all add: fdemo_defs fence_emit_busy_def fence_emit_end_def fence_slot_def nth_opt_def
        update_opt_def fence_emit_begin_def Let_def)
  moreover have "fence_step ?S2 ?S3" using fence_step.commit [of ?S2] by simp
  moreover have "fence_step ?S3 (?S3\<lparr>fs_drv := amdgpu_fence_write 1 ((fs_drv ?S3)\<lparr>fd_ring := []\<rparr>), fs_executed := Suc (fs_executed ?S3)\<rparr>)"
    by (rule fence_step.gpu) (simp add: fdemo_defs fence_commit_def fence_emit_begin_def Let_def)
  moreover have "?S3\<lparr>fs_drv := amdgpu_fence_write 1 ((fs_drv ?S3)\<lparr>fd_ring := []\<rparr>), fs_executed := Suc (fs_executed ?S3)\<rparr> = fdemo1"
    by (simp add: fdemo_defs fence_commit_def fence_emit_begin_def amdgpu_fence_write_def Let_def)
  ultimately show ?thesis by (metis (no_types, lifting) rtranclp.rtrancl_refl rtranclp.rtrancl_into_rtrancl)
qed

section \<open>Properties\<close>

text \<open>
  (C2) The fence driver implements the abstract fences, whatever the interleaving of the emission, the GPU and
  any number of threads that process fences, and around the wrap of the sequence numbers: every fence is
  signalled at most once, and only after the GPU has finished it.
\<close>

theorem fence_refines_abstract:
  assumes "fence_start num S0" "fence_step\<^sup>*\<^sup>* S0 S"
  shows "fences_step\<^sup>*\<^sup>* (0, 0, {}) (fence_abs S)"
proof -
  have "fence_abs S0 = (0, 0, {})" using start_ok [OF assms(1)] assms(1) by (auto simp: fence_abs_def fence_start_def)
  then show ?thesis using fd.reachable_abs [OF assms] by simp
qed

theorem fence_refines_abstract_witness: "fences_step\<^sup>*\<^sup>* (0, 0, {}) (fence_abs fdemo1) \<and> fence_abs fdemo1 = (1, 1, {})"
  using fence_refines_abstract [OF fdemo_start fdemo_steps] by (auto simp: fence_abs_def fdemo_defs)

text \<open>
  (C20) No thread that processes fences ever faults: the slots it visits are inside the array, it finds a fence in
  each of them, and the \<open>BUG()\<close> for a fence that was signalled before is not reached.
\<close>

theorem fence_process_no_bug:
  assumes "fence_start num S0" "fence_step\<^sup>*\<^sup>* S0 S"
  shows "\<exists>th d. fence_thread_step (fs_threads S t) (fs_drv S) = Some (th, d) \<and>
    (\<forall>l s. fs_threads S t = Walk l s \<longrightarrow> (\<exists>f l'. th = Signals f l' s))"
proof -
  obtain k L P lo hi where ok: "fence_ok k L P lo hi S" using steps_ok [OF assms] by blast
  obtain th d where st: "fence_thread_step (fs_threads S t) (fs_drv S) = Some (th, d)" using thread_step_total [OF ok] by blast
  have "\<exists>f l'. th = Signals f l' s" if w: "fs_threads S t = Walk l s" for l s
    using st fence_at_walk [OF ok w] by (auto simp: w Let_def nth_opt_def)
  with st show ?thesis by blast
qed

theorem fence_process_no_bug_witness: "\<exists>th d. fence_thread_step (fs_threads fdemo1 0) (fs_drv fdemo1) = Some (th, d)"
  using fence_process_no_bug [OF fdemo_start fdemo_steps, of 0] by blast

text \<open>
  (C19) One run of \<open>amdgpu_fence_process\<close> with no other thread inside returns, after as many iterations as
  the array has slots at most. Then exactly the fences that the GPU has finished are signalled, the
  fallback timer runs if there are others, and \<open>amdgpu_fence_count_emitted\<close> gives their number.
\<close>

theorem fence_process_exact:
  assumes "fence_start num S0" "fence_step\<^sup>*\<^sup>* S0 S" "quiet S" "2 * unat num \<le> fuel"
  shows "\<exists>d. amdgpu_fence_process fuel (fs_drv S) = Returned d \<and> fd_count d = fd_count (fs_drv S) \<and>
    (\<forall>n. 1 \<le> n \<and> n \<le> fd_count d \<longrightarrow> hf_signaled (fd_objs d n) = (n \<le> fs_executed S)) \<and>
    (fs_executed S \<noteq> fd_count d \<longrightarrow> fd_fallback d) \<and>
    (\<exists>c. amdgpu_fence_count_emitted fuel (fs_drv S) = Returned (c, d) \<and> unat c = fd_count d - fs_executed S)"
proof -
  obtain k L P lo hi where ok: "fence_ok k L P lo hi S" and k: "2 ^ k = 2 * unat num" using steps_ok [OF assms(1,2)] by blast
  then have "length (fd_fences (fs_drv S)) \<le> fuel" using assms(4) by (simp add: fence_ok_def array_ok_def)
  from process_quiet [OF ok assms(3) this] obtain d where
    run: "amdgpu_fence_process fuel (fs_drv S) = Returned d" and
    d: "fd_count d = fd_count (fs_drv S)" "fd_sync_seq d = of_nat (fd_count (fs_drv S))" "fd_last_seq d = of_nat (fs_executed S)"
      "fd_fallback d = (fd_fallback (fs_drv S) \<or> fs_executed S \<noteq> fd_count (fs_drv S))"
      "\<forall>n. 1 \<le> n \<and> n \<le> fd_count d \<longrightarrow> hf_signaled (fd_objs d n) = (n \<le> fs_executed S)"
    by blast
  note c = count_span [OF ok]
  have "(ucast (0x100000000 - scast (fd_last_seq d) + ucast (fd_sync_seq d) :: u64) :: u32) = of_nat (fd_count d - fs_executed S)"
    using c(2) by (simp add: lower_difference d)
  moreover have "unat (of_nat (fd_count d - fs_executed S) :: u32) = fd_count d - fs_executed S"
    using c d(1) by (intro unat_of_nat_small) simp
  ultimately have "\<exists>c. amdgpu_fence_count_emitted fuel (fs_drv S) = Returned (c, d) \<and> unat c = fd_count d - fs_executed S"
    using run by (simp add: amdgpu_fence_count_emitted_def Let_def)
  then show ?thesis using run d by auto
qed

theorem fence_process_exact_witness:
  "\<exists>d. amdgpu_fence_process 2 (fs_drv fdemo1) = Returned d \<and> hf_signaled (fd_objs d 1)"
proof -
  have e: "fd_count (fs_drv fdemo1) = 1" "fs_executed fdemo1 = 1" "quiet fdemo1" by (simp_all add: fdemo_defs quiet_def)
  have "2 * unat (1 :: u32) \<le> 2" by simp
  from fence_process_exact [OF fdemo_start fdemo_steps e(3) this] obtain d where
    d: "amdgpu_fence_process 2 (fs_drv fdemo1) = Returned d" "fd_count d = fd_count (fs_drv fdemo1)" and
    sig: "\<forall>n. 1 \<le> n \<and> n \<le> fd_count d \<longrightarrow> hf_signaled (fd_objs d n) = (n \<le> fs_executed fdemo1)"
    by blast
  have "hf_signaled (fd_objs d 1)" using spec [OF sig, of 1] d(2) e by simp
  with d(1) show ?thesis by blast
qed

text \<open>
  (C22) An emission waits only for a fence that is at least as many emissions old as the array has slots: if those
  are signalled, \<open>amdgpu_fence_emit\<close> returns the next fence at once. And with at most as many fences not
  yet committed as the array has slots, the fence it waits for is on the ring of the GPU, so that it cannot
  wait for its own commit.
\<close>

theorem fence_emit_waits_for_old:
  assumes "fence_start num S0" "fence_step\<^sup>*\<^sup>* S0 S" "\<not> fs_emitting S"
  shows "((\<forall>n. 1 \<le> n \<and> n + 2 * unat num \<le> Suc (fd_count (fs_drv S)) \<longrightarrow> hf_signaled (fd_objs (fs_drv S) n)) \<longrightarrow>
      (\<exists>d. amdgpu_fence_emit True fence_wait (fs_drv S) = Some (0, d, Some (Suc (fd_count (fs_drv S)))))) \<and>
    (length (fd_written (fs_drv S)) < 2 * unat num \<longrightarrow> fence_emit_busy (fence_emit_begin (fs_drv S)) = Some True \<longrightarrow>
      (\<exists>f. nth_opt (fd_fences (fs_drv S)) (fence_slot (fence_emit_begin (fs_drv S))) = Some (Some f) \<and>
        f \<le> fs_executed S + length (fd_ring (fs_drv S))))"
proof -
  obtain k L P lo hi where ok: "fence_ok k L P lo hi S" and k: "2 ^ k = 2 * unat num" using steps_ok [OF assms(1,2)] by blast
  show ?thesis by (rule emit_wait [OF ok assms(3), of fence_wait, unfolded k])
qed

theorem fence_emit_waits_for_old_witness:
  "\<exists>d. amdgpu_fence_emit True id (fs_drv fdemo1) = Some (0, d, Some 2)"
  using fence_emit_waits_for_old [OF fdemo_start fdemo_steps, of id] by (simp add: fdemo_defs eval_nat_numeral)

text \<open>
  (C27) \<open>amdgpu_fence_wait_empty\<close> takes the sequence number zero for a ring without fences. Every ring gets
  to a state in which the last fence, number 2 to the 32, has this number and is not signalled, and the
  function returns at once.
\<close>

theorem fence_wait_empty_wraps:
  assumes "fence_start num S0"
  shows "\<exists>S. fence_step\<^sup>*\<^sup>* S0 S \<and> quiet S \<and> fd_count (fs_drv S) = 2 ^ 32 \<and>
    \<not> hf_signaled (fd_objs (fs_drv S) (2 ^ 32)) \<and> (\<forall>s. amdgpu_fence_wait_empty fence_wait (fs_drv S) s = Some (0, s))"
proof -
  obtain S k lo hi where s: "fence_step\<^sup>*\<^sup>* S0 S" "fence_ok k (2 ^ 32 - 1) (2 ^ 32 - 1) lo hi S" "quiet S" "\<not> fs_emitting S"
    "fs_executed S = 2 ^ 32 - 1" "fd_count (fs_drv S) = 2 ^ 32 - 1" using rounds [OF assms, of "2 ^ 32 - 1"] by blast
  obtain S' where s': "fence_step\<^sup>*\<^sup>* S S'" "fence_ok k (2 ^ 32 - 1) (2 ^ 32 - 1) lo hi S'" "quiet S'"
    "fd_count (fs_drv S') = Suc (2 ^ 32 - 1)" using round_store [OF s(2-6)] by blast
  have "\<not> hf_signaled (fd_objs (fs_drv S') (2 ^ 32))" using quiet_signaled [OF s'(2,3), of "2 ^ 32"] s'(4) by simp
  moreover have "fd_sync_seq (fs_drv S') = 0" using s'(2,4) by (simp add: fence_ok_def counters_ok_def)
  ultimately show ?thesis using rtranclp_trans [OF s(1) s'(1)] s'(3,4)
    by (intro exI [of _ S']) (simp add: amdgpu_fence_wait_empty_def)
qed

theorem fence_wait_empty_wraps_witness:
  "\<exists>S. fence_step\<^sup>*\<^sup>* fdemo0 S \<and> \<not> hf_signaled (fd_objs (fs_drv S) (2 ^ 32)) \<and>
    amdgpu_fence_wait_empty (\<lambda>f s. (0, s)) (fs_drv S) () = Some (0, ())"
  using fence_wait_empty_wraps [OF fdemo_start, of "\<lambda>f s. (0, s :: unit)"] by (elim exE conjE) (intro exI conjI; simp)

end
