(* ===== verification/Kfd_Irq.thy ===== *)
theory Kfd_Irq
  imports Machine
begin

text \<open>
  The interrupt ring of the compute driver, \<open>kfd_interrupt.c\<close>, with \<open>kgd2kfd_interrupt\<close> of
  \<open>kfd_device.c\<close> that fills it and the handlers of \<open>cik_event_interrupt.c\<close>. The interrupt and the
  work queue share the ring without a lock: the actions between which the other side may run are
  functions of their own, and the C functions are their compositions.
\<close>

section \<open>State\<close>

text \<open>
  The ring is \<open>interrupt_ring_size\<close> bytes, the pointers are byte offsets. \<open>ki_work\<close> tells whether
  \<open>interrupt_work\<close> is pending.
\<close>

record kfd_irq =
  ih_ring_entry_size :: u64
  interrupt_ring :: "u8 list"
  interrupt_ring_size :: u64
  interrupt_ring_rptr :: u32
  interrupt_ring_wptr :: u32
  interrupts_active :: bool
  init_complete :: bool
  ki_work :: bool

text \<open>\<open>memcpy\<close> into and out of the ring.\<close>

definition ring_write :: "nat \<Rightarrow> u8 list \<Rightarrow> u8 list \<Rightarrow> u8 list option" where
  "ring_write off bytes ring =
     (if off + length bytes \<le> length ring then Some (take off ring @ bytes @ drop (off + length bytes) ring) else None)"

definition ring_read :: "nat \<Rightarrow> nat \<Rightarrow> u8 list \<Rightarrow> u8 list option" where
  "ring_read off n ring = (if off + n \<le> length ring then Some (take n (drop off ring)) else None)"

section \<open>Operations\<close>

text \<open>\<open>mem\<close> is the memory of \<open>kmalloc_array\<close>, with whatever it contains, if there is any.\<close>

definition kfd_interrupt_init :: "u8 list option \<Rightarrow> kfd_irq \<Rightarrow> int \<times> kfd_irq" where
  "kfd_interrupt_init mem kfd =
     (case mem of
        None \<Rightarrow> (- 12, kfd)
      | Some ring \<Rightarrow>
          (0, kfd\<lparr>interrupt_ring := ring, interrupt_ring_size := 1024 * ih_ring_entry_size kfd,
             interrupt_ring_wptr := 0, interrupt_ring_rptr := 0, ki_work := False, interrupts_active := True\<rparr>))"

text \<open>
  \<open>enqueue_ih_ring_entry\<close>: the test for a full ring, the copy, and the new write pointer. The pointers
  are of type \<open>unsigned int\<close>, the sizes of type \<open>size_t\<close>.
\<close>

definition enqueue_full :: "u32 \<Rightarrow> u32 \<Rightarrow> kfd_irq \<Rightarrow> bool option" where
  "enqueue_full rptr wptr kfd =
     (if interrupt_ring_size kfd = 0 then None
      else Some (ucast (rptr - wptr) mod interrupt_ring_size kfd = ih_ring_entry_size kfd))"

definition enqueue_copy :: "u32 \<Rightarrow> u8 list \<Rightarrow> kfd_irq \<Rightarrow> kfd_irq option" where
  "enqueue_copy wptr entry kfd = do {
     bytes \<leftarrow> ring_read 0 (unat (ih_ring_entry_size kfd)) entry;
     ring \<leftarrow> ring_write (unat wptr) bytes (interrupt_ring kfd);
     Some (kfd\<lparr>interrupt_ring := ring\<rparr>)
   }"

definition ring_next :: "u32 \<Rightarrow> kfd_irq \<Rightarrow> u32" where
  "ring_next ptr kfd = ucast ((ucast ptr + ih_ring_entry_size kfd) mod interrupt_ring_size kfd)"

definition enqueue_ih_ring_entry :: "u8 list \<Rightarrow> kfd_irq \<Rightarrow> (bool \<times> kfd_irq) option" where
  "enqueue_ih_ring_entry entry kfd =
     (let rptr = interrupt_ring_rptr kfd; wptr = interrupt_ring_wptr kfd
      in do {
        full \<leftarrow> enqueue_full rptr wptr kfd;
        if full then Some (False, kfd)
        else do {
          kfd \<leftarrow> enqueue_copy wptr entry kfd;
          Some (True, kfd\<lparr>interrupt_ring_wptr := ring_next wptr kfd\<rparr>)
        }
      })"

definition dequeue_copy :: "u32 \<Rightarrow> kfd_irq \<Rightarrow> u8 list option" where
  "dequeue_copy rptr kfd = ring_read (unat rptr) (unat (ih_ring_entry_size kfd)) (interrupt_ring kfd)"

definition dequeue_ih_ring_entry :: "kfd_irq \<Rightarrow> (u8 list option \<times> kfd_irq) option" where
  "dequeue_ih_ring_entry kfd =
     (let wptr = interrupt_ring_wptr kfd; rptr = interrupt_ring_rptr kfd
      in if rptr = wptr then Some (None, kfd)
         else do {
           entry \<leftarrow> dequeue_copy rptr kfd;
           Some (Some entry, kfd\<lparr>interrupt_ring_rptr := ring_next rptr kfd\<rparr>)
         })"

text \<open>
  The entries of the hardware: four little-endian words. The handlers hand them on to the events of the
  process, by the calls \<open>kfd_signal_event_interrupt\<close> and \<open>kfd_signal_hw_exception_event\<close>.
\<close>

definition le32 :: "u8 list \<Rightarrow> nat \<Rightarrow> u32 option" where
  "le32 bs i = do {
     a \<leftarrow> nth_opt bs i; b \<leftarrow> nth_opt bs (i + 1); c \<leftarrow> nth_opt bs (i + 2); d \<leftarrow> nth_opt bs (i + 3);
     Some (ucast a OR push_bit 8 (ucast b) OR push_bit 16 (ucast c) OR push_bit 24 (ucast d))
   }"

record cik_ih_ring_entry =
  source_id :: u32
  ih_data :: u32
  ring_id :: u32

definition cik_entry :: "u8 list \<Rightarrow> cik_ih_ring_entry option" where
  "cik_entry bs = do {
     s \<leftarrow> le32 bs 0; d \<leftarrow> le32 bs 4; r \<leftarrow> le32 bs 8;
     Some \<lparr>source_id = s, ih_data = d, ring_id = r\<rparr>
   }"

definition entry_pasid :: "cik_ih_ring_entry \<Rightarrow> u32" where
  "entry_pasid ihre = drop_bit 16 (ring_id ihre AND 0xffff0000)"

definition cik_event_interrupt_isr :: "u8 list \<Rightarrow> bool option" where
  "cik_event_interrupt_isr bs = do {
     ihre \<leftarrow> cik_entry bs;
     Some (entry_pasid ihre \<noteq> 0 \<and> (source_id ihre = 0xB5 \<or> source_id ihre = 0xEF \<or> source_id ihre = 0xB7))
   }"

datatype kfd_signal = Signal_event u32 u32 nat | Hw_exception u32

definition cik_event_interrupt_wq :: "u8 list \<Rightarrow> kfd_signal option option" where
  "cik_event_interrupt_wq bs = do {
     ihre \<leftarrow> cik_entry bs;
     let pasid = entry_pasid ihre;
     Some (if pasid = 0 then None
       else if source_id ihre = 0xB5 then Some (Signal_event pasid 0 0)
       else if source_id ihre = 0xEF then Some (Signal_event pasid (ih_data ihre AND 0xFF) 8)
       else if source_id ihre = 0xB7 then Some (Hw_exception pasid)
       else None)
   }"

definition interrupt_is_wanted :: "u8 list \<Rightarrow> bool option" where
  "interrupt_is_wanted bs = cik_event_interrupt_isr bs"

definition kgd2kfd_interrupt :: "u8 list \<Rightarrow> kfd_irq \<Rightarrow> kfd_irq option" where
  "kgd2kfd_interrupt entry kfd =
     (if \<not> init_complete kfd \<or> \<not> interrupts_active kfd then Some kfd
      else do {
        wanted \<leftarrow> interrupt_is_wanted entry;
        if \<not> wanted then Some kfd
        else do {
          (ok, kfd) \<leftarrow> enqueue_ih_ring_entry entry kfd;
          Some (if ok then kfd\<lparr>ki_work := True\<rparr> else kfd)
        }
      })"

text \<open>The work function, with fuel for its loop, and the calls it makes.\<close>

fun interrupt_wq :: "nat \<Rightarrow> kfd_irq \<Rightarrow> kfd_signal list \<Rightarrow> (kfd_signal list \<times> kfd_irq) outcome" where
  "interrupt_wq 0 kfd calls = Timeout"
| "interrupt_wq (Suc n) kfd calls =
     (case dequeue_ih_ring_entry kfd of
        None \<Rightarrow> Fault
      | Some (None, kfd) \<Rightarrow> Returned (calls, kfd)
      | Some (Some entry, kfd) \<Rightarrow>
          (case cik_event_interrupt_wq entry of
             None \<Rightarrow> Fault
           | Some call \<Rightarrow> interrupt_wq n kfd (calls @ (case call of None \<Rightarrow> [] | Some c \<Rightarrow> [c]))))"

definition kfd_interrupt_exit_begin :: "kfd_irq \<Rightarrow> kfd_irq" where
  "kfd_interrupt_exit_begin kfd = kfd\<lparr>interrupts_active := False\<rparr>"

section \<open>The two sides of the ring\<close>

text \<open>
  The interrupt is idle, about to copy an entry, about to move the write pointer, or about to schedule the
  work; its lock admits one at a time. The work is idle, about to test the ring, about to copy, about to
  move the read pointer, or has an entry in hand. \<open>is_taken\<close> and \<open>is_handled\<close> log the entries that the
  interrupt has put on the ring and those that the work has handled.
\<close>

datatype irq_thread = I_idle | I_copy "u8 list" u32 | I_publish "u8 list" u32 | I_schedule

datatype wq_thread = W_idle | W_check | W_copy u32 | W_publish u32 "u8 list" | W_handle "u8 list"

record irq_system =
  is_kfd :: kfd_irq
  is_irq :: irq_thread
  is_wq :: wq_thread
  is_taken :: "u8 list list"
  is_handled :: "u8 list list"

inductive irq_step :: "irq_system \<Rightarrow> irq_system \<Rightarrow> bool" where
  interrupt: "is_irq S = I_idle \<Longrightarrow> init_complete (is_kfd S) \<Longrightarrow> interrupts_active (is_kfd S) \<Longrightarrow>
    length e = unat (ih_ring_entry_size (is_kfd S)) \<Longrightarrow> interrupt_is_wanted e = Some True \<Longrightarrow> wptr = interrupt_ring_wptr (is_kfd S) \<Longrightarrow>
    enqueue_full (interrupt_ring_rptr (is_kfd S)) wptr (is_kfd S) = Some False \<Longrightarrow> irq_step S (S\<lparr>is_irq := I_copy e wptr\<rparr>)"
| copy: "is_irq S = I_copy e wptr \<Longrightarrow> enqueue_copy wptr e (is_kfd S) = Some kfd \<Longrightarrow>
    irq_step S (S\<lparr>is_kfd := kfd, is_irq := I_publish e wptr\<rparr>)"
| publish: "is_irq S = I_publish e wptr \<Longrightarrow>
    irq_step S (S\<lparr>is_kfd := (is_kfd S)\<lparr>interrupt_ring_wptr := ring_next wptr (is_kfd S)\<rparr>, is_irq := I_schedule, is_taken := is_taken S @ [e]\<rparr>)"
| schedule: "is_irq S = I_schedule \<Longrightarrow> irq_step S (S\<lparr>is_kfd := (is_kfd S)\<lparr>ki_work := True\<rparr>, is_irq := I_idle\<rparr>)"
| run: "is_wq S = W_idle \<Longrightarrow> ki_work (is_kfd S) \<Longrightarrow> irq_step S (S\<lparr>is_kfd := (is_kfd S)\<lparr>ki_work := False\<rparr>, is_wq := W_check\<rparr>)"
| check: "is_wq S = W_check \<Longrightarrow> rptr = interrupt_ring_rptr (is_kfd S) \<Longrightarrow>
    irq_step S (S\<lparr>is_wq := if rptr = interrupt_ring_wptr (is_kfd S) then W_idle else W_copy rptr\<rparr>)"
| read: "is_wq S = W_copy rptr \<Longrightarrow> dequeue_copy rptr (is_kfd S) = Some e \<Longrightarrow> irq_step S (S\<lparr>is_wq := W_publish rptr e\<rparr>)"
| release: "is_wq S = W_publish rptr e \<Longrightarrow>
    irq_step S (S\<lparr>is_kfd := (is_kfd S)\<lparr>interrupt_ring_rptr := ring_next rptr (is_kfd S)\<rparr>, is_wq := W_handle e\<rparr>)"
| handle: "is_wq S = W_handle e \<Longrightarrow> cik_event_interrupt_wq e = Some call \<Longrightarrow>
    irq_step S (S\<lparr>is_wq := W_check, is_handled := is_handled S @ [e]\<rparr>)"
| exit: "is_irq S = I_idle \<Longrightarrow> irq_step S (S\<lparr>is_kfd := kfd_interrupt_exit_begin (is_kfd S)\<rparr>)"

inductive_cases irq_stepE: "irq_step S S'"

text \<open>A device whose interrupts have just been initialised; entries are 16 bytes on every supported chip.\<close>

definition irq_start :: "irq_system \<Rightarrow> bool" where
  "irq_start S \<longleftrightarrow> is_irq S = I_idle \<and> is_wq S = W_idle \<and> is_taken S = [] \<and> is_handled S = [] \<and>
     (\<exists>ring kfd. ih_ring_entry_size kfd = 16 \<and> length ring = 1024 * 16 \<and> kfd_interrupt_init (Some ring) kfd = (0, is_kfd S))"

section \<open>Slots\<close>

definition slot :: "u8 list \<Rightarrow> nat \<Rightarrow> u8 list" where
  "slot ring k = take 16 (drop (16 * k) ring)"

lemma slot_read: "length ring = 16384 \<Longrightarrow> k < 1024 \<Longrightarrow> ring_read (16 * k) 16 ring = Some (slot ring k)"
  by (simp add: ring_read_def slot_def)

lemma length_slot: "length ring = 16384 \<Longrightarrow> k < 1024 \<Longrightarrow> length (slot ring k) = 16"
  by (simp add: slot_def)

lemma slot_nth: "length ring = 16384 \<Longrightarrow> k < 1024 \<Longrightarrow> i < 16 \<Longrightarrow> slot ring k ! i = ring ! (16 * k + i)"
  by (simp add: slot_def)

lemma slot_write:
  assumes "length ring = 16384" "k < 1024" "length e = 16"
  shows "\<exists>ring'. ring_write (16 * k) e ring = Some ring' \<and> length ring' = 16384 \<and> slot ring' k = e \<and>
    (\<forall>j < 1024. j \<noteq> k \<longrightarrow> slot ring' j = slot ring j)"
proof -
  let ?r = "take (16 * k) ring @ e @ drop (16 * k + 16) ring"
  have len: "length ?r = 16384" using assms by simp
  have "slot ?r j = slot ring j" if "j < 1024" "j \<noteq> k" for j
  proof (rule nth_equalityI)
    show "length (slot ?r j) = length (slot ring j)" using len assms(1) that(1) by (simp only: length_slot)
    fix i assume "i < length (slot ?r j)"
    then have i: "i < 16" using len that(1) by (simp only: length_slot)
    have "?r ! (16 * j + i) = ring ! (16 * j + i)"
    proof (cases "j < k")
      case True
      then show ?thesis using assms i by (simp add: nth_append)
    next
      case False
      then have "16 * k + 16 \<le> 16 * j" using that(2) by simp
      then have "\<not> 16 * j + i < 16 * k" "\<not> 16 * j + i - 16 * k < 16" "16 * k + 16 + (16 * j + i - 16 * k - 16) = 16 * j + i"
        by linarith+
      then show ?thesis using assms that(1) i by (simp add: nth_append)
    qed
    then show "slot ?r j ! i = slot ring j ! i" using len assms(1) that(1) i by (simp only: slot_nth)
  qed
  moreover have "slot ?r k = e" using assms by (simp add: slot_def)
  ultimately show ?thesis using assms by (intro exI [of _ ?r]) (simp add: ring_write_def)
qed

text \<open>The pointer of the entry number \<open>n\<close>.\<close>

definition ptr :: "nat \<Rightarrow> u32" where
  "ptr n = of_nat (16 * (n mod 1024))"

lemma entry_small: "m < 1024 \<Longrightarrow> 16 * m < (2 :: nat) ^ 32"
  by simp

lemma unat_ptr: "unat (ptr n) = 16 * (n mod 1024)"
proof -
  have "n mod 1024 < 1024" by simp
  then have "16 * (n mod 1024) < 2 ^ LENGTH(32)" by simp
  then show ?thesis unfolding ptr_def by (rule unat_of_nat_small)
qed

lemma ptr_eq_iff: "ptr a = ptr b \<longleftrightarrow> a mod 1024 = b mod 1024"
  using unat_ptr by (metis mult_cancel1 rel_simps(76) word_unat_eq_iff)

lemma ptr_next:
  assumes "ih_ring_entry_size kfd = 16" "interrupt_ring_size kfd = 16384"
  shows "ring_next (ptr n) kfd = ptr (Suc n)"
proof -
  have "unat (ucast (ptr n) :: u64) = 16 * (n mod 1024)" using unat_ptr [of n] by (simp add: unat_ucast)
  moreover have m: "n mod 1024 < 1024" by simp
  ultimately have "unat (ucast (ptr n) + 16 :: u64) = 16 * (n mod 1024) + 16"
    using unat_add_small [of "ucast (ptr n) :: u64" 16] by simp
  then have "unat ((ucast (ptr n) + 16 :: u64) mod 16384) = (16 * (n mod 1024) + 16) mod 16384"
    by (simp add: unat_mod)
  also have "\<dots> = 16 * (Suc n mod 1024)"
  proof -
    have "(16 * (n mod 1024) + 16) mod (16 * 1024) = 16 * ((n mod 1024 + 1) mod 1024)"
      by (metis add_mult_distrib2 mult.right_neutral mult_mod_right)
    then show ?thesis by (simp add: mod_Suc_eq)
  qed
  finally have "unat (ring_next (ptr n) kfd) = 16 * (Suc n mod 1024) mod 2 ^ 32"
    by (simp add: ring_next_def assms unat_ucast)
  moreover have "16 * (Suc n mod 1024) < 2 ^ 32" by (rule entry_small) simp
  ultimately show ?thesis by (simp add: word_unat_eq_iff unat_ptr)
qed

lemma full_iff:
  assumes "ih_ring_entry_size kfd = 16" "interrupt_ring_size kfd = 16384" "r \<le> w" "w \<le> r + 1023"
  shows "enqueue_full (ptr r) (ptr w) kfd = Some (w = r + 1023)"
proof -
  let ?d = "ptr r - ptr w"
  have "uint ?d = (uint (ptr r) - uint (ptr w)) mod 2 ^ 32" by (simp add: uint_word_ariths)
  then have "uint ?d mod 16384 = (uint (ptr r) - uint (ptr w)) mod 16384" by (simp add: mod_mod_cancel)
  also have "\<dots> = (16 * int (r mod 1024) - 16 * int (w mod 1024)) mod (16 * 1024)"
    using unat_ptr [of r] unat_ptr [of w] by (simp add: uint_nat)
  also have "\<dots> = 16 * ((int (r mod 1024) - int (w mod 1024)) mod 1024)"
    by (simp only: right_diff_distrib [symmetric] mult_mod_right)
  also have "(int (r mod 1024) - int (w mod 1024)) mod 1024 = (int r - int w) mod 1024"
    by (simp add: zmod_int mod_diff_eq)
  finally have d: "uint ?d mod 16384 = 16 * ((int r - int w) mod 1024)" .
  have "unat ?d < 2 ^ 32" using unat_lt_len [of ?d] by simp
  then have "unat (ucast ?d :: u64) = unat ?d" unfolding unat_ucast by (intro mod_less) simp
  then have "uint (ucast ?d :: u64) = uint ?d" by (simp only: uint_nat)
  then have "uint (ucast ?d mod 16384 :: u64) = uint ?d mod 16384" by (simp add: uint_mod)
  moreover have "(x = 16) = (uint x = 16)" for x :: u64 by (simp add: word_uint_eq_iff)
  ultimately have "(ucast ?d mod 16384 = (16 :: u64)) = (16 * ((int r - int w) mod 1024) = 16)" using d by presburger
  also have "\<dots> = (w = r + 1023)"
  proof (cases "w = r")
    case False
    then have "(int r - int w + 1024) mod 1024 = int r - int w + 1024"
      using assms(3,4) by (intro mod_pos_pos_trivial) linarith+
    then show ?thesis by (simp only: mod_add_self2) auto
  qed simp
  finally show ?thesis by (simp add: enqueue_full_def assms)
qed

section \<open>The invariant\<close>

text \<open>
  \<open>w\<close> entries were put and \<open>r\<close> taken out. The entries between lie in their slots, of which there are
  at most 1023, so that the slot that the interrupt fills is none of them.
\<close>

fun irq_side :: "irq_thread \<Rightarrow> nat \<Rightarrow> nat \<Rightarrow> u8 list \<Rightarrow> bool" where
  "irq_side I_idle r w ring = True"
| "irq_side (I_copy e p) r w ring = (p = ptr w \<and> length e = 16 \<and> w < r + 1023)"
| "irq_side (I_publish e p) r w ring = (p = ptr w \<and> length e = 16 \<and> w < r + 1023 \<and> slot ring (w mod 1024) = e)"
| "irq_side I_schedule r w ring = True"

fun wq_side :: "wq_thread \<Rightarrow> nat \<Rightarrow> u8 list list \<Rightarrow> u8 list list \<Rightarrow> bool" where
  "wq_side W_idle r taken handled = (handled = take r taken)"
| "wq_side W_check r taken handled = (handled = take r taken)"
| "wq_side (W_copy p) r taken handled = (handled = take r taken \<and> p = ptr r \<and> r < length taken)"
| "wq_side (W_publish p e) r taken handled = (handled = take r taken \<and> p = ptr r \<and> r < length taken \<and> e = taken ! r)"
| "wq_side (W_handle e) r taken handled = (\<exists>n. r = Suc n \<and> handled = take n taken \<and> e = taken ! n)"

definition ring_ok :: "nat \<Rightarrow> u8 list list \<Rightarrow> kfd_irq \<Rightarrow> bool" where
  "ring_ok r taken kfd \<longleftrightarrow> ih_ring_entry_size kfd = 16 \<and> interrupt_ring_size kfd = 16384 \<and> length (interrupt_ring kfd) = 16384 \<and>
     r \<le> length taken \<and> length taken \<le> r + 1023 \<and>
     interrupt_ring_rptr kfd = ptr r \<and> interrupt_ring_wptr kfd = ptr (length taken) \<and>
     (\<forall>i. r \<le> i \<and> i < length taken \<longrightarrow> slot (interrupt_ring kfd) (i mod 1024) = taken ! i) \<and>
     (\<forall>e \<in> set taken. length e = 16)"

definition irq_ok :: "nat \<Rightarrow> irq_system \<Rightarrow> bool" where
  "irq_ok r S \<longleftrightarrow> ring_ok r (is_taken S) (is_kfd S) \<and>
     irq_side (is_irq S) r (length (is_taken S)) (interrupt_ring (is_kfd S)) \<and>
     wq_side (is_wq S) r (is_taken S) (is_handled S) \<and>
     (is_wq S = W_idle \<and> r < length (is_taken S) \<longrightarrow> ki_work (is_kfd S) \<or> is_irq S = I_schedule)"

definition irq_inv :: "irq_system \<Rightarrow> bool" where
  "irq_inv S \<longleftrightarrow> (\<exists>r. irq_ok r S)"

lemma slot_apart: "r \<le> i \<Longrightarrow> i < w \<Longrightarrow> w < r + 1024 \<Longrightarrow> i mod 1024 \<noteq> w mod (1024 :: nat)"
proof
  assume a: "r \<le> i" "i < w" "w < r + 1024" and "i mod 1024 = w mod 1024"
  then have "(1024 :: nat) dvd w - i" using mod_eq_dvd_iff_nat [of i w 1024] by simp
  then have "1024 \<le> w - i" using a by (intro dvd_imp_le) simp_all
  with a show False by simp
qed

lemma ring_ok_copy:
  assumes "ring_ok r taken kfd" "length e = 16" "length taken < r + 1023"
  shows "\<exists>kfd'. enqueue_copy (ptr (length taken)) e kfd = Some kfd' \<and> ring_ok r taken kfd' \<and> ki_work kfd' = ki_work kfd \<and>
    slot (interrupt_ring kfd') (length taken mod 1024) = e"
proof -
  let ?w = "length taken"
  have ring: "length (interrupt_ring kfd) = 16384" using assms(1) by (simp add: ring_ok_def)
  have "?w mod 1024 < 1024" by simp
  from slot_write [OF ring this assms(2)] obtain ring' where
    wr: "ring_write (16 * (?w mod 1024)) e (interrupt_ring kfd) = Some ring'" and
    r': "length ring' = 16384" "slot ring' (?w mod 1024) = e"
      "\<forall>j < 1024. j \<noteq> ?w mod 1024 \<longrightarrow> slot ring' j = slot (interrupt_ring kfd) j" by blast
  have "slot ring' (i mod 1024) = taken ! i" if "r \<le> i" "i < ?w" for i
  proof -
    have "i mod 1024 \<noteq> ?w mod 1024" using slot_apart [OF that] assms(3) by simp
    moreover have "i mod 1024 < 1024" by simp
    ultimately have "slot ring' (i mod 1024) = slot (interrupt_ring kfd) (i mod 1024)" using r'(3) by blast
    then show ?thesis using assms(1) that by (simp add: ring_ok_def)
  qed
  then have "ring_ok r taken (kfd\<lparr>interrupt_ring := ring'\<rparr>)" using assms(1) r'(1) by (simp add: ring_ok_def)
  moreover have "enqueue_copy (ptr ?w) e kfd = Some (kfd\<lparr>interrupt_ring := ring'\<rparr>)"
    using assms(1,2) wr by (simp add: enqueue_copy_def ring_ok_def unat_ptr ring_read_def)
  ultimately show ?thesis using r'(2) by simp
qed

lemma ring_ok_publish:
  assumes "ring_ok r taken kfd" "length e = 16" "length taken < r + 1023" "slot (interrupt_ring kfd) (length taken mod 1024) = e"
  shows "ring_ok r (taken @ [e]) (kfd\<lparr>interrupt_ring_wptr := ring_next (ptr (length taken)) kfd\<rparr>)"
proof -
  have "ring_next (ptr (length taken)) kfd = ptr (Suc (length taken))" using assms(1) by (simp add: ptr_next ring_ok_def)
  moreover have "slot (interrupt_ring kfd) (i mod 1024) = (taken @ [e]) ! i" if "r \<le> i" "i < Suc (length taken)" for i
    using assms that by (cases "i = length taken") (auto simp: ring_ok_def nth_append)
  ultimately show ?thesis using assms by (simp add: ring_ok_def)
qed

lemma ring_ok_read:
  assumes "ring_ok r taken kfd" "r < length taken"
  shows "dequeue_copy (ptr r) kfd = Some (taken ! r)"
proof -
  have "length (interrupt_ring kfd) = 16384" "r mod 1024 < 1024" using assms(1) by (simp_all add: ring_ok_def)
  from slot_read [OF this] have "ring_read (16 * (r mod 1024)) 16 (interrupt_ring kfd) = Some (slot (interrupt_ring kfd) (r mod 1024))" .
  then show ?thesis using assms by (simp add: dequeue_copy_def ring_ok_def unat_ptr)
qed

lemma ring_ok_release:
  assumes "ring_ok r taken kfd" "r < length taken"
  shows "ring_ok (Suc r) taken (kfd\<lparr>interrupt_ring_rptr := ring_next (ptr r) kfd\<rparr>)"
  using assms by (simp add: ring_ok_def ptr_next)

lemma ring_ok_empty: "ring_ok r taken kfd \<Longrightarrow> (interrupt_ring_rptr kfd = interrupt_ring_wptr kfd) = (r = length taken)"
  using slot_apart [of r r "length taken"] by (cases "r = length taken") (auto simp: ring_ok_def ptr_eq_iff)

lemma cik_entry_total: "length e = 16 \<Longrightarrow> \<exists>ihre. cik_entry e = Some ihre"
  by (simp add: cik_entry_def le32_def nth_opt_def)

lemma wq_side_append: "wq_side t r taken handled \<Longrightarrow> r \<le> length taken \<Longrightarrow> wq_side t r (taken @ ys) handled"
proof (cases t)
  case (W_handle e)
  assume "wq_side t r taken handled" "r \<le> length taken"
  then obtain n where "r = Suc n" "handled = take n taken" "e = taken ! n" "n < length taken" using W_handle by auto
  then show ?thesis unfolding W_handle wq_side.simps by (intro exI [of _ n]) (simp add: nth_append)
qed (simp_all add: nth_append)

lemma irq_side_release: "irq_side t r w ring \<Longrightarrow> irq_side t (Suc r) w ring"
  by (cases t) auto

lemma irq_step_ok:
  assumes "irq_step S S'" "irq_ok r S"
  shows "\<exists>r'. irq_ok r' S'"
  using assms(1)
proof cases
  case (interrupt e wptr)
  have k: "ring_ok r (is_taken S) (is_kfd S)" using assms(2) by (simp add: irq_ok_def)
  then have "length (is_taken S) < r + 1023"
    using interrupt full_iff [of "is_kfd S" r "length (is_taken S)"] by (simp add: ring_ok_def)
  then have "irq_side (is_irq S') r (length (is_taken S)) (interrupt_ring (is_kfd S))" using k interrupt by (simp add: ring_ok_def)
  then have "irq_ok r S'" using assms(2) interrupt by (simp add: irq_ok_def)
  then show ?thesis by blast
next
  case (copy e wptr kfd)
  then have k: "ring_ok r (is_taken S) (is_kfd S)" "wptr = ptr (length (is_taken S))" "length e = 16" "length (is_taken S) < r + 1023"
    using assms(2) by (simp_all add: irq_ok_def)
  then have "ring_ok r (is_taken S) kfd \<and> ki_work kfd = ki_work (is_kfd S) \<and> slot (interrupt_ring kfd) (length (is_taken S) mod 1024) = e"
    using ring_ok_copy [OF k(1,3,4)] copy(3) by (metis option.inject)
  then have "irq_ok r S'" using assms(2) copy k by (simp add: irq_ok_def)
  then show ?thesis by blast
next
  case (publish e wptr)
  then have k: "ring_ok r (is_taken S) (is_kfd S)" "wptr = ptr (length (is_taken S))" "length e = 16" "length (is_taken S) < r + 1023"
    "slot (interrupt_ring (is_kfd S)) (length (is_taken S) mod 1024) = e"
    using assms(2) by (simp_all add: irq_ok_def)
  have le: "r \<le> length (is_taken S)" using k(1) by (simp only: ring_ok_def)
  have "wq_side (is_wq S) r (is_taken S) (is_handled S)" using assms(2) by (simp only: irq_ok_def)
  then have "wq_side (is_wq S) r (is_taken S @ [e]) (is_handled S)"
    using le by (rule wq_side_append)
  then have "irq_ok r S'" using ring_ok_publish [OF k(1,3,4,5)] publish k(2) by (simp add: irq_ok_def)
  then show ?thesis by blast
next
  case schedule
  then have "irq_ok r S'" using assms(2) by (simp add: irq_ok_def ring_ok_def)
  then show ?thesis by blast
next
  case run
  then have "irq_ok r S'" using assms(2) by (simp add: irq_ok_def ring_ok_def)
  then show ?thesis by blast
next
  case (check rptr)
  have k: "ring_ok r (is_taken S) (is_kfd S)" using assms(2) by (simp add: irq_ok_def)
  then have "r \<le> length (is_taken S)" "interrupt_ring_rptr (is_kfd S) = ptr r" by (simp_all add: ring_ok_def)
  then have "irq_ok r S'" using assms(2) check ring_ok_empty [OF k] by (auto simp: irq_ok_def)
  then show ?thesis by blast
next
  case (read rptr e)
  then have k: "ring_ok r (is_taken S) (is_kfd S)" "rptr = ptr r" "r < length (is_taken S)" using assms(2) by (simp_all add: irq_ok_def)
  then have "irq_ok r S'" using assms(2) read ring_ok_read [OF k(1,3)] by (simp add: irq_ok_def)
  then show ?thesis by blast
next
  case (release rptr e)
  then have k: "ring_ok r (is_taken S) (is_kfd S)" "rptr = ptr r" "r < length (is_taken S)" using assms(2) by (simp_all add: irq_ok_def)
  have "irq_side (is_irq S) (Suc r) (length (is_taken S)) (interrupt_ring (is_kfd S))"
    using assms(2) by (intro irq_side_release) (simp only: irq_ok_def)
  then have "irq_ok (Suc r) S'" using assms(2) release ring_ok_release [OF k(1,3)] k(2) by (simp add: irq_ok_def)
  then show ?thesis by blast
next
  case (handle e call)
  then obtain n where n: "r = Suc n" "is_handled S = take n (is_taken S)" "e = is_taken S ! n" "n < length (is_taken S)"
    using assms(2) by (auto simp: irq_ok_def ring_ok_def Suc_le_eq)
  then have "is_handled S @ [e] = take r (is_taken S)" by (simp add: take_Suc_conv_app_nth)
  then have "irq_ok r S'" using assms(2) handle by (simp add: irq_ok_def)
  then show ?thesis by blast
next
  case exit
  then have "irq_ok r S'" using assms(2) by (simp add: irq_ok_def ring_ok_def kfd_interrupt_exit_begin_def)
  then show ?thesis by blast
qed

section \<open>A bounded queue\<close>

text \<open>
  What the ring promises: a queue of at most 1024 entries, one of them in the hands of the work, and the
  log of what came out of it.
\<close>

type_synonym irq_queue = "u8 list list \<times> u8 list list"

inductive irq_queue_step :: "irq_queue \<Rightarrow> irq_queue \<Rightarrow> bool" where
  put: "length q < 1024 \<Longrightarrow> irq_queue_step (q, h) (q @ [e], h)"
| take: "irq_queue_step (e # q, h) (q, h @ [e])"

definition irq_abs :: "irq_system \<Rightarrow> irq_queue" where
  "irq_abs S = (drop (length (is_handled S)) (is_taken S), is_handled S)"

definition irq_in_hand :: "irq_system \<Rightarrow> nat" where
  "irq_in_hand S = (case is_wq S of W_handle e \<Rightarrow> 1 | _ \<Rightarrow> 0)"

definition irq_unread :: "irq_system \<Rightarrow> nat" where
  "irq_unread S = length (is_taken S) - (length (is_handled S) + irq_in_hand S)"

lemma irq_ok_handled:
  assumes "irq_ok r S"
  shows "r = length (is_handled S) + irq_in_hand S" "is_handled S = take (length (is_handled S)) (is_taken S)"
proof -
  have w: "wq_side (is_wq S) r (is_taken S) (is_handled S)" and le: "r \<le> length (is_taken S)"
    using assms by (simp_all add: irq_ok_def ring_ok_def)
  from w le have "r = length (is_handled S) + irq_in_hand S \<and> is_handled S = take (length (is_handled S)) (is_taken S)"
  proof (cases "is_wq S")
    case (W_handle e)
    then obtain n where "r = Suc n" "is_handled S = take n (is_taken S)" using w by auto
    then show ?thesis using le W_handle by (simp add: irq_in_hand_def)
  qed (simp_all add: irq_in_hand_def)
  then show "r = length (is_handled S) + irq_in_hand S" "is_handled S = take (length (is_handled S)) (is_taken S)" by simp_all
qed

lemma irq_step_abs:
  assumes "irq_step S S'" "irq_ok r S"
  shows "irq_queue_step\<^sup>*\<^sup>* (irq_abs S) (irq_abs S')"
  using assms(1)
proof cases
  case (publish e wptr)
  then have "length (is_taken S) < r + 1023" using assms(2) by (simp add: irq_ok_def)
  moreover have "irq_in_hand S \<le> 1" by (simp add: irq_in_hand_def split: wq_thread.split)
  ultimately have "length (drop (length (is_handled S)) (is_taken S)) < 1024" using irq_ok_handled(1) [OF assms(2)] by simp
  from irq_queue_step.put [OF this] have "irq_queue_step (irq_abs S) (drop (length (is_handled S)) (is_taken S) @ [e], is_handled S)"
    by (simp add: irq_abs_def)
  moreover have "length (is_handled S) \<le> length (is_taken S)" using arg_cong [OF irq_ok_handled(2) [OF assms(2)], of length] by simp
  ultimately show ?thesis using publish by (simp add: irq_abs_def r_into_rtranclp)
next
  case (handle e call)
  then obtain n where n: "r = Suc n" "is_handled S = take n (is_taken S)" "e = is_taken S ! n"
    using assms(2) by (auto simp: irq_ok_def)
  moreover have le: "r \<le> length (is_taken S)" using assms(2) by (simp add: irq_ok_def ring_ok_def)
  ultimately have "irq_abs S = (e # drop (Suc n) (is_taken S), is_handled S)" by (simp add: irq_abs_def Cons_nth_drop_Suc)
  moreover have "irq_abs S' = (drop (Suc n) (is_taken S), is_handled S @ [e])" using n le handle by (simp add: irq_abs_def)
  ultimately show ?thesis using irq_queue_step.take by (metis r_into_rtranclp)
qed (simp_all add: irq_abs_def)

lemma irq_start_ok:
  assumes "irq_start S"
  shows "irq_ok 0 S"
proof -
  obtain ring kfd where k: "ih_ring_entry_size kfd = 16" "length ring = 16384" "kfd_interrupt_init (Some ring) kfd = (0, is_kfd S)"
    using assms by (auto simp: irq_start_def)
  have "is_kfd S = snd (kfd_interrupt_init (Some ring) kfd)" using k(3) by simp
  then show ?thesis using assms k(1,2) by (simp add: irq_start_def irq_ok_def ring_ok_def kfd_interrupt_init_def ptr_def)
qed

interpretation iq: simulation irq_start irq_step irq_inv irq_abs irq_queue_step
proof unfold_locales
  show "irq_inv S" if "irq_start S" for S using irq_start_ok [OF that] by (auto simp: irq_inv_def)
  fix S S' assume s: "irq_step S S'" "irq_inv S"
  show "irq_inv S'" using irq_step_ok [OF s(1)] s(2) by (auto simp: irq_inv_def)
  show "irq_queue_step\<^sup>*\<^sup>* (irq_abs S) (irq_abs S')" using irq_step_abs [OF s(1)] s(2) by (auto simp: irq_inv_def)
qed

lemma irq_reachable: "irq_start S0 \<Longrightarrow> irq_step\<^sup>*\<^sup>* S0 S \<Longrightarrow> \<exists>r. irq_ok r S"
  using iq.reachable_inv by (auto simp: irq_inv_def)

section \<open>The functions as runs\<close>

text \<open>The calls of the handler for an entry.\<close>

definition calls_of :: "u8 list \<Rightarrow> kfd_signal list" where
  "calls_of e = (case cik_event_interrupt_wq e of Some (Some c) \<Rightarrow> [c] | _ \<Rightarrow> [])"

lemma wq_total: "length e = 16 \<Longrightarrow> \<exists>call. cik_event_interrupt_wq e = Some call"
  using cik_entry_total [of e] by (auto simp: cik_event_interrupt_wq_def Let_def)

lemma interrupt_wq_drains:
  assumes "ring_ok r taken kfd" "length taken - r < n"
  shows "interrupt_wq n kfd calls =
    Returned (calls @ concat (map calls_of (drop r taken)), kfd\<lparr>interrupt_ring_rptr := interrupt_ring_wptr kfd\<rparr>)"
  using assms
proof (induction n arbitrary: r kfd calls)
  case (Suc n)
  have ptrs: "interrupt_ring_rptr kfd = ptr r" "r \<le> length taken" using Suc.prems(1) by (simp_all add: ring_ok_def)
  show ?case
  proof (cases "r = length taken")
    case True
    then have "interrupt_ring_rptr kfd = interrupt_ring_wptr kfd" using ring_ok_empty [OF Suc.prems(1)] by simp
    then show ?thesis using True by (simp add: dequeue_ih_ring_entry_def)
  next
    case False
    then have lt: "r < length taken" using ptrs(2) by simp
    let ?k = "kfd\<lparr>interrupt_ring_rptr := ring_next (ptr r) kfd\<rparr>"
    have "length (taken ! r) = 16" using Suc.prems(1) lt by (simp add: ring_ok_def)
    then obtain call where call: "cik_event_interrupt_wq (taken ! r) = Some call" using wq_total by blast
    have "dequeue_ih_ring_entry kfd = Some (Some (taken ! r), ?k)"
      using ring_ok_read [OF Suc.prems(1) lt] ring_ok_empty [OF Suc.prems(1)] False ptrs(1)
      by (simp add: dequeue_ih_ring_entry_def)
    moreover have "interrupt_wq n ?k c = Returned (c @ concat (map calls_of (drop (Suc r) taken)), ?k\<lparr>interrupt_ring_rptr := interrupt_ring_wptr ?k\<rparr>)" for c
      using Suc.IH [OF ring_ok_release [OF Suc.prems(1) lt]] Suc.prems(2) lt by simp
    moreover have "drop r taken = taken ! r # drop (Suc r) taken" using lt by (simp add: Cons_nth_drop_Suc)
    moreover have "calls_of (taken ! r) = (case call of None \<Rightarrow> [] | Some c \<Rightarrow> [c])"
      using call by (simp add: calls_of_def split: option.split)
    ultimately show ?thesis using call by simp
  qed
qed simp

lemma kgd2kfd_interrupt_runs:
  assumes ok: "irq_ok r S" and idle: "is_irq S = I_idle" and on: "init_complete (is_kfd S)" "interrupts_active (is_kfd S)"
    and e: "length e = 16" "interrupt_is_wanted e = Some True" and room: "length (is_taken S) < r + 1023"
  shows "\<exists>kfd. kgd2kfd_interrupt e (is_kfd S) = Some kfd \<and> irq_step\<^sup>*\<^sup>* S (S\<lparr>is_kfd := kfd, is_taken := is_taken S @ [e]\<rparr>)"
proof -
  let ?w = "length (is_taken S)"
  have k: "ring_ok r (is_taken S) (is_kfd S)" using ok by (simp add: irq_ok_def)
  then have p: "interrupt_ring_rptr (is_kfd S) = ptr r" "interrupt_ring_wptr (is_kfd S) = ptr ?w" "ih_ring_entry_size (is_kfd S) = 16"
    by (simp_all add: ring_ok_def)
  have full: "enqueue_full (ptr r) (ptr ?w) (is_kfd S) = Some False"
    using full_iff [of "is_kfd S" r ?w] k room by (simp add: ring_ok_def)
  obtain kfd where c: "enqueue_copy (ptr ?w) e (is_kfd S) = Some kfd" using ring_ok_copy [OF k e(1) room] by blast
  let ?k2 = "kfd\<lparr>interrupt_ring_wptr := ring_next (ptr ?w) kfd\<rparr>"
  let ?S1 = "S\<lparr>is_irq := I_copy e (ptr ?w)\<rparr>" and ?S2 = "S\<lparr>is_kfd := kfd, is_irq := I_publish e (ptr ?w)\<rparr>"
  let ?S3 = "S\<lparr>is_kfd := ?k2, is_irq := I_schedule, is_taken := is_taken S @ [e]\<rparr>"
  have s1: "irq_step S ?S1" by (rule irq_step.interrupt) (use idle on e p full in simp_all)
  have s2: "irq_step ?S1 ?S2" using irq_step.copy [of ?S1 e "ptr ?w" kfd] c by simp
  have s3: "irq_step ?S2 ?S3" using irq_step.publish [of ?S2 e "ptr ?w"] by simp
  have s4: "irq_step ?S3 (S\<lparr>is_kfd := ?k2\<lparr>ki_work := True\<rparr>, is_taken := is_taken S @ [e]\<rparr>)"
  proof -
    have "?S3\<lparr>is_kfd := (is_kfd ?S3)\<lparr>ki_work := True\<rparr>, is_irq := I_idle\<rparr> = S\<lparr>is_kfd := ?k2\<lparr>ki_work := True\<rparr>, is_taken := is_taken S @ [e]\<rparr>"
      using idle by simp
    then show ?thesis using irq_step.schedule [of ?S3] by simp
  qed
  have "irq_step\<^sup>*\<^sup>* S (S\<lparr>is_kfd := ?k2\<lparr>ki_work := True\<rparr>, is_taken := is_taken S @ [e]\<rparr>)"
    by (rule converse_rtranclp_into_rtranclp [where r = irq_step, OF s1 converse_rtranclp_into_rtranclp [where r = irq_step, OF s2
          converse_rtranclp_into_rtranclp [where r = irq_step, OF s3 r_into_rtranclp [where r = irq_step, OF s4]]]])
  moreover have "kgd2kfd_interrupt e (is_kfd S) = Some (?k2\<lparr>ki_work := True\<rparr>)"
    using on e(2) p full c by (simp add: kgd2kfd_interrupt_def enqueue_ih_ring_entry_def Let_def)
  ultimately show ?thesis by blast
qed

lemma full_ring_drops:
  assumes ok: "irq_ok r S" and e: "interrupt_is_wanted e = Some True" and full: "length (is_taken S) = r + 1023"
  shows "kgd2kfd_interrupt e (is_kfd S) = Some (is_kfd S)"
proof -
  have "ring_ok r (is_taken S) (is_kfd S)" using ok by (simp add: irq_ok_def)
  then have "enqueue_full (interrupt_ring_rptr (is_kfd S)) (interrupt_ring_wptr (is_kfd S)) (is_kfd S) = Some True"
    using full_iff [of "is_kfd S" r "length (is_taken S)"] full by (simp add: ring_ok_def)
  then show ?thesis using e by (simp add: kgd2kfd_interrupt_def enqueue_ih_ring_entry_def Let_def)
qed

text \<open>Whenever an entry is not handled, the work can move or is about to be scheduled.\<close>

lemma worker_moves:
  assumes ok: "irq_ok r S" and some: "is_handled S \<noteq> is_taken S"
  shows "\<exists>S'. irq_step S S' \<and> (is_wq S' \<noteq> is_wq S \<or> is_irq S = I_schedule \<and> ki_work (is_kfd S'))"
proof -
  have move: ?thesis if "irq_step S S'" "is_wq S' \<noteq> is_wq S" for S' using that by blast
  show ?thesis
  proof (cases "is_wq S")
    case W_idle
    have k: "ring_ok r (is_taken S) (is_kfd S)" "is_handled S = take r (is_taken S)" using ok W_idle by (simp_all add: irq_ok_def)
    then have "r < length (is_taken S)" using some by (metis linorder_not_le take_all)
    then have "ki_work (is_kfd S) \<or> is_irq S = I_schedule" using ok W_idle by (simp add: irq_ok_def)
    then show ?thesis
    proof
      assume "ki_work (is_kfd S)"
      then show ?thesis by (intro move [OF irq_step.run [OF W_idle]]) (simp_all add: W_idle)
    next
      assume s: "is_irq S = I_schedule"
      have "ki_work (is_kfd (S\<lparr>is_kfd := (is_kfd S)\<lparr>ki_work := True\<rparr>, is_irq := I_idle\<rparr>))" by simp
      with irq_step.schedule [OF s] s show ?thesis by blast
    qed
  next
    case W_check
    show ?thesis by (rule move [OF irq_step.check [OF W_check refl]]) (simp add: W_check)
  next
    case (W_copy p)
    then have "dequeue_copy p (is_kfd S) = Some (is_taken S ! r)" using ok ring_ok_read by (simp add: irq_ok_def)
    then show ?thesis by (intro move [OF irq_step.read [OF W_copy]]) (simp_all add: W_copy)
  next
    case (W_publish p e)
    show ?thesis by (rule move [OF irq_step.release [OF W_publish]]) (simp add: W_publish)
  next
    case (W_handle e)
    have k: "ring_ok r (is_taken S) (is_kfd S)" using ok by (simp add: irq_ok_def)
    obtain n where n: "r = Suc n" "e = is_taken S ! n" using ok W_handle by (auto simp: irq_ok_def)
    then have "n < length (is_taken S)" using k by (simp add: ring_ok_def)
    then have "length e = 16" using k n(2) by (simp add: ring_ok_def)
    then obtain call where "cik_event_interrupt_wq e = Some call" using wq_total by blast
    then show ?thesis by (intro move [OF irq_step.handle [OF W_handle]]) (simp_all add: W_handle)
  qed
qed

section \<open>An end-of-pipe interrupt\<close>

definition idemo_entry :: "u8 list" where
  "idemo_entry = [0xB5, 0, 0, 0, 0, 0, 0, 0, 0, 0, 5, 0, 0, 0, 0, 0]"

definition idemo :: irq_system where
  "idemo = \<lparr>is_kfd = snd (kfd_interrupt_init (Some (replicate 16384 0))
       \<lparr>ih_ring_entry_size = 16, interrupt_ring = [], interrupt_ring_size = 0, interrupt_ring_rptr = 0, interrupt_ring_wptr = 0,
        interrupts_active = False, init_complete = True, ki_work = False\<rparr>),
     is_irq = I_idle, is_wq = W_idle, is_taken = [], is_handled = []\<rparr>"

lemma idemo_start: "irq_start idemo"
  unfolding irq_start_def
  by (intro conjI exI [of _ "replicate 16384 0"]
      exI [of _ "\<lparr>ih_ring_entry_size = 16, interrupt_ring = [], interrupt_ring_size = 0, interrupt_ring_rptr = 0, interrupt_ring_wptr = 0,
        interrupts_active = False, init_complete = True, ki_work = False\<rparr>"])
    (simp_all add: idemo_def kfd_interrupt_init_def)

lemma idemo_on: "is_irq idemo = I_idle" "init_complete (is_kfd idemo)" "interrupts_active (is_kfd idemo)" "is_taken idemo = []"
  "is_wq idemo = W_idle" "is_handled idemo = []"
  by (simp_all add: idemo_def kfd_interrupt_init_def)

lemma idemo_cik: "cik_entry idemo_entry = Some \<lparr>source_id = 0xB5, ih_data = 0, ring_id = 0x50000\<rparr>"
  by (simp add: cik_entry_def le32_def nth_opt_def idemo_entry_def)

lemma idemo_wanted: "length idemo_entry = 16" "interrupt_is_wanted idemo_entry = Some True" "calls_of idemo_entry = [Signal_event 5 0 0]"
  by (simp_all add: interrupt_is_wanted_def cik_event_interrupt_isr_def cik_event_interrupt_wq_def calls_of_def idemo_cik entry_pasid_def Let_def)
    (simp add: idemo_entry_def)

lemma idemo_taken: "\<exists>kfd. irq_step\<^sup>*\<^sup>* idemo (idemo\<lparr>is_kfd := kfd, is_taken := [idemo_entry]\<rparr>) \<and> ki_work kfd"
proof -
  have room: "length (is_taken idemo) < 0 + 1023" by (simp add: idemo_on)
  from kgd2kfd_interrupt_runs [OF irq_start_ok [OF idemo_start] idemo_on(1-3) idemo_wanted(1,2) room]
  obtain kfd where k: "kgd2kfd_interrupt idemo_entry (is_kfd idemo) = Some kfd" "irq_step\<^sup>*\<^sup>* idemo (idemo\<lparr>is_kfd := kfd, is_taken := [idemo_entry]\<rparr>)"
    by (auto simp: idemo_on)
  let ?S = "idemo\<lparr>is_kfd := kfd, is_taken := [idemo_entry]\<rparr>"
  obtain r where ok: "irq_ok r ?S" using irq_reachable [OF idemo_start k(2)] by blast
  moreover have "is_wq ?S = W_idle" "is_handled ?S = []" "is_irq ?S = I_idle" by (simp_all add: idemo_on)
  moreover from this irq_ok_handled(1) [OF ok] have "r = 0" by (simp add: irq_in_hand_def)
  ultimately have "ki_work kfd" by (simp add: irq_ok_def)
  with k(2) show ?thesis by blast
qed

section \<open>Properties\<close>

text \<open>
  (C7) However the interrupt and the work queue interleave, without a lock between them, the ring is a first-in
  first-out queue: every entry that was put on it is handled once, in the order of the interrupts and with
  the bytes it had.
\<close>

theorem irq_ring_fifo:
  assumes "irq_start S0" "irq_step\<^sup>*\<^sup>* S0 S"
  shows "irq_queue_step\<^sup>*\<^sup>* ([], []) (irq_abs S) \<and> is_taken S = is_handled S @ fst (irq_abs S)"
proof -
  have "irq_abs S0 = ([], [])" using assms(1) by (simp add: irq_abs_def irq_start_def)
  moreover obtain r where "irq_ok r S" using irq_reachable [OF assms] by blast
  from irq_ok_handled(2) [OF this] have "is_taken S = is_handled S @ fst (irq_abs S)"
    by (metis append_take_drop_id fst_conv irq_abs_def)
  ultimately show ?thesis using iq.reachable_abs [OF assms] by simp
qed

theorem irq_ring_fifo_witness: "\<exists>S. irq_step\<^sup>*\<^sup>* idemo S \<and> irq_queue_step\<^sup>*\<^sup>* ([], []) (irq_abs S) \<and> irq_abs S = ([idemo_entry], [])"
proof -
  obtain kfd where s: "irq_step\<^sup>*\<^sup>* idemo (idemo\<lparr>is_kfd := kfd, is_taken := [idemo_entry]\<rparr>)" using idemo_taken by blast
  show ?thesis using irq_ring_fifo [OF idemo_start s] s
    by (intro exI [of _ "idemo\<lparr>is_kfd := kfd, is_taken := [idemo_entry]\<rparr>"]) (simp add: irq_abs_def idemo_on)
qed

text \<open>
  (C23) An interrupt that is wanted is dropped exactly when 1023 entries wait on the ring; otherwise
  \<open>kgd2kfd_interrupt\<close> puts it on the ring without a fault.
\<close>

theorem irq_accepts_unless_full:
  assumes "irq_start S0" "irq_step\<^sup>*\<^sup>* S0 S" "is_irq S = I_idle" "init_complete (is_kfd S)" "interrupts_active (is_kfd S)"
    "length e = 16" "interrupt_is_wanted e = Some True"
  shows "irq_unread S \<le> 1023 \<and>
    (if irq_unread S = 1023 then kgd2kfd_interrupt e (is_kfd S) = Some (is_kfd S)
     else \<exists>kfd. kgd2kfd_interrupt e (is_kfd S) = Some kfd \<and> irq_step\<^sup>*\<^sup>* S (S\<lparr>is_kfd := kfd, is_taken := is_taken S @ [e]\<rparr>))"
proof -
  obtain r where ok: "irq_ok r S" using irq_reachable [OF assms(1,2)] by blast
  then have "r \<le> length (is_taken S)" "length (is_taken S) \<le> r + 1023" by (simp_all add: irq_ok_def ring_ok_def)
  moreover have "irq_unread S = length (is_taken S) - r" by (simp add: irq_unread_def irq_ok_handled(1) [OF ok])
  ultimately have u: "irq_unread S \<le> 1023" "irq_unread S = 1023 \<longleftrightarrow> length (is_taken S) = r + 1023" "length (is_taken S) \<le> r + 1023"
    by linarith+
  show ?thesis
  proof (cases "irq_unread S = 1023")
    case True
    then show ?thesis using u full_ring_drops [OF ok assms(7)] by simp
  next
    case False
    then have "length (is_taken S) < r + 1023" using u(2,3) by linarith
    from kgd2kfd_interrupt_runs [OF ok assms(3-7) this] show ?thesis using False u(1) by simp
  qed
qed

theorem irq_accepts_unless_full_witness:
  "\<exists>kfd. kgd2kfd_interrupt idemo_entry (is_kfd idemo) = Some kfd \<and> irq_step\<^sup>*\<^sup>* idemo (idemo\<lparr>is_kfd := kfd, is_taken := [idemo_entry]\<rparr>)"
proof -
  have "irq_unread idemo = 0" by (simp add: irq_unread_def idemo_on)
  then show ?thesis
    using irq_accepts_unless_full [OF idemo_start rtranclp.rtrancl_refl idemo_on(1-3) idemo_wanted(1,2)] by (simp add: idemo_on)
qed

text \<open>
  (C11) No wake-up is lost: as long as an entry on the ring has not been handled, the work can take its next step,
  or it is pending, or the interrupt is about to schedule it. None of its steps faults.
\<close>

theorem irq_no_lost_work:
  assumes "irq_start S0" "irq_step\<^sup>*\<^sup>* S0 S" "is_handled S \<noteq> is_taken S"
  shows "\<exists>S'. irq_step S S' \<and> (is_wq S' \<noteq> is_wq S \<or> is_irq S = I_schedule \<and> ki_work (is_kfd S'))"
proof -
  obtain r where "irq_ok r S" using irq_reachable [OF assms(1,2)] by blast
  then show ?thesis using assms(3) by (rule worker_moves)
qed

theorem irq_no_lost_work_witness:
  "\<exists>S S'. irq_step\<^sup>*\<^sup>* idemo S \<and> is_taken S = [idemo_entry] \<and> irq_step S S' \<and> is_wq S' \<noteq> W_idle"
proof -
  obtain kfd where s: "irq_step\<^sup>*\<^sup>* idemo (idemo\<lparr>is_kfd := kfd, is_taken := [idemo_entry]\<rparr>)" using idemo_taken by blast
  have "is_handled (idemo\<lparr>is_kfd := kfd, is_taken := [idemo_entry]\<rparr>) \<noteq> is_taken (idemo\<lparr>is_kfd := kfd, is_taken := [idemo_entry]\<rparr>)"
    by (simp add: idemo_on)
  from irq_no_lost_work [OF idemo_start s this] show ?thesis using s by (auto simp: idemo_on)
qed

text \<open>
  The loop of the work ends after at most 1023 entries when no interrupt comes in between, and calls the
  event handlers for exactly the entries that wait, in their order.
\<close>

theorem irq_wq_drains:
  assumes "irq_start S0" "irq_step\<^sup>*\<^sup>* S0 S" "is_wq S = W_check"
  shows "interrupt_wq 1024 (is_kfd S) [] = Returned (concat (map calls_of (drop (length (is_handled S)) (is_taken S))),
    (is_kfd S)\<lparr>interrupt_ring_rptr := interrupt_ring_wptr (is_kfd S)\<rparr>)"
proof -
  obtain r where ok: "irq_ok r S" using irq_reachable [OF assms(1,2)] by blast
  have r: "r = length (is_handled S)" using irq_ok_handled(1) [OF ok] assms(3) by (simp add: irq_in_hand_def)
  have k: "ring_ok r (is_taken S) (is_kfd S)" using ok by (simp add: irq_ok_def)
  then have "length (is_taken S) \<le> r + 1023" by (simp only: ring_ok_def)
  then have "length (is_taken S) - r < 1024" by linarith
  from interrupt_wq_drains [OF k this] show ?thesis by (simp add: r)
qed

theorem irq_wq_drains_witness:
  "\<exists>S kfd. irq_step\<^sup>*\<^sup>* idemo S \<and> interrupt_wq 1024 (is_kfd S) [] = Returned ([Signal_event 5 0 0], kfd)"
proof -
  obtain kfd where s: "irq_step\<^sup>*\<^sup>* idemo (idemo\<lparr>is_kfd := kfd, is_taken := [idemo_entry]\<rparr>)" and w: "ki_work kfd" using idemo_taken by blast
  let ?S = "idemo\<lparr>is_kfd := kfd, is_taken := [idemo_entry]\<rparr>"
  let ?T = "?S\<lparr>is_kfd := (is_kfd ?S)\<lparr>ki_work := False\<rparr>, is_wq := W_check\<rparr>"
  have "irq_step ?S ?T" by (rule irq_step.run) (use w in \<open>simp_all add: idemo_on\<close>)
  with s have t: "irq_step\<^sup>*\<^sup>* idemo ?T" by (rule rtranclp.rtrancl_into_rtrancl)
  have "is_wq ?T = W_check" by simp
  from irq_wq_drains [OF idemo_start t this] show ?thesis
    using t idemo_wanted(3) idemo_on(6) by (intro exI [of _ ?T] exI) (simp del: interrupt_wq.simps)
qed

end
