(* ===== verification/Bitmap.thy ===== *)
theory Bitmap
  imports Prelude
begin

text \<open>
  The bitmaps of the kernel, as lists of bits: an access outside the memory of a bitmap has no result.
  The allocators of the compute driver keep chunks of memory, process ids, queue ids and doorbells in them.
\<close>

text \<open>
  \<open>find_next_zero_bit\<close> and \<open>find_next_bit\<close>: the first position from \<open>start\<close> on with
  the bit, or the size when there is none.
\<close>

fun scan_bits :: "bool list \<Rightarrow> bool \<Rightarrow> nat list \<Rightarrow> nat \<Rightarrow> nat option" where
  "scan_bits bm v [] sz = Some sz"
| "scan_bits bm v (i # is) sz =
     (if i < length bm then (if bm ! i = v then Some i else scan_bits bm v is sz) else None)"

definition find_next_zero_bit :: "bool list \<Rightarrow> nat \<Rightarrow> nat \<Rightarrow> nat option" where
  "find_next_zero_bit bm sz start = scan_bits bm False [start ..< sz] sz"

definition find_next_bit :: "bool list \<Rightarrow> nat \<Rightarrow> nat \<Rightarrow> nat option" where
  "find_next_bit bm sz start = scan_bits bm True [start ..< sz] sz"

definition set_bit_at :: "nat \<Rightarrow> bool \<Rightarrow> bool list \<Rightarrow> bool list option" where
  "set_bit_at i v bm = update_opt bm i v"

lemma scan_bits_ok:
  assumes "n \<le> length bm" "a \<le> n"
  shows "\<exists>i. scan_bits bm v [a ..< n] n = Some i \<and> a \<le> i \<and> i \<le> n \<and> (\<forall>j. a \<le> j \<and> j < i \<longrightarrow> bm ! j \<noteq> v) \<and> (i < n \<longrightarrow> bm ! i = v)"
  using assms(2)
proof (induction "n - a" arbitrary: a)
  case (Suc m)
  then have [simp]: "[a ..< n] = a # [Suc a ..< n]" by (simp add: upt_conv_Cons)
  have a: "a < length bm" using Suc assms(1) by simp
  show ?case
  proof (cases "bm ! a = v")
    case True
    then show ?thesis using Suc a by auto
  next
    case False
    from Suc have "m = n - Suc a" "Suc a \<le> n" by simp_all
    from Suc(1) [OF this] obtain i where "scan_bits bm v [Suc a ..< n] n = Some i" "Suc a \<le> i" "i \<le> n"
      "\<forall>j. Suc a \<le> j \<and> j < i \<longrightarrow> bm ! j \<noteq> v" "i < n \<longrightarrow> bm ! i = v" by blast
    moreover from this have "bm ! j \<noteq> v" if "a \<le> j" "j < i" for j using that False by (cases "j = a") auto
    ultimately show ?thesis using a False by (intro exI [of _ i]) auto
  qed
qed auto

lemma find_zero_ok:
  assumes "n \<le> length bm" "a \<le> n"
  shows "\<exists>i. find_next_zero_bit bm n a = Some i \<and> a \<le> i \<and> i \<le> n \<and> (\<forall>j. a \<le> j \<and> j < i \<longrightarrow> bm ! j) \<and> (i < n \<longrightarrow> \<not> bm ! i)"
  using scan_bits_ok [OF assms, of False] by (simp add: find_next_zero_bit_def)

lemma find_one_ok:
  assumes "n \<le> length bm" "a \<le> n"
  shows "\<exists>i. find_next_bit bm n a = Some i \<and> a \<le> i \<and> i \<le> n \<and> (\<forall>j. a \<le> j \<and> j < i \<longrightarrow> \<not> bm ! j) \<and> (i < n \<longrightarrow> bm ! i)"
  using scan_bits_ok [OF assms, of True] by (simp add: find_next_bit_def)

lemma scan_bits_le: "scan_bits bm v [a ..< n] n = Some i \<Longrightarrow> i \<le> n \<and> (i = n \<or> a \<le> i)"
proof (induction "n - a" arbitrary: a)
  case (Suc m)
  then have [simp]: "[a ..< n] = a # [Suc a ..< n]" by (simp add: upt_conv_Cons)
  from Suc have "m = n - Suc a" by simp
  from Suc(1) [OF this] Suc(2,3) show ?case by (auto split: if_splits)
qed simp

lemma find_zero_here: "i < n \<Longrightarrow> i < length bm \<Longrightarrow> \<not> bm ! i \<Longrightarrow> find_next_zero_bit bm n i = Some i"
  by (simp add: find_next_zero_bit_def upt_conv_Cons)

end
