(* ===== verification/Id_Pool.thy ===== *)
theory Id_Pool
  imports Machine Bitmap
begin

text \<open>
  The contract of an allocator of small numbers. The compute driver has three of them, each on a bitmap:
  the ids of processes (PASIDs), the ids of the queues of a process, and the doorbells of the kernel. A
  client takes ids and gives back those it holds; what it can rely on follows from the laws of one call.
\<close>

inductive pool_step ::
  "('s \<Rightarrow> (nat option \<times> 's) option) \<Rightarrow> (nat \<Rightarrow> 's \<Rightarrow> 's option) \<Rightarrow> 's \<times> nat list \<Rightarrow> 's \<times> nat list \<Rightarrow> bool"
  for get put where
  grab: "get s = Some (Some i, s') \<Longrightarrow> pool_step get put (s, ids) (s', i # ids)"
| refuse: "get s = Some (None, s') \<Longrightarrow> pool_step get put (s, ids) (s', ids)"
| give: "i \<in> set ids \<Longrightarrow> put i s = Some s' \<Longrightarrow> pool_step get put (s, ids) (s', remove1 i ids)"

text \<open>The abstract pool: a set of ids in use, below a limit.\<close>

inductive ids_step :: "nat \<Rightarrow> nat set \<Rightarrow> nat set \<Rightarrow> bool" for n where
  take: "i \<notin> A \<Longrightarrow> i < n \<Longrightarrow> ids_step n A (insert i A)"
| drop: "i \<in> A \<Longrightarrow> ids_step n A (A - {i})"

text \<open>
  \<open>used\<close> are the ids in use, among them \<open>reserved\<close> ones that are never given out. A call with all ids in
  use is not covered: \<open>total_pool\<close> adds that it is refused.
\<close>

locale id_pool =
  fixes ok :: "'s \<Rightarrow> bool" and used :: "'s \<Rightarrow> nat set" and limit :: "'s \<Rightarrow> nat" and reserved :: "nat set"
    and get :: "'s \<Rightarrow> (nat option \<times> 's) option" and put :: "nat \<Rightarrow> 's \<Rightarrow> 's option"
  assumes get_free: "ok s \<Longrightarrow> i < limit s \<Longrightarrow> i \<notin> used s \<Longrightarrow>
      \<exists>j s'. get s = Some (Some j, s') \<and> ok s' \<and> limit s' = limit s \<and> j < limit s \<and> j \<notin> used s \<and> used s' = insert j (used s)"
    and get_only_free: "ok s \<Longrightarrow> {..< limit s} \<subseteq> used s \<Longrightarrow> get s = Some (r, s') \<Longrightarrow> r = None \<and> s' = s"
    and put_used: "ok s \<Longrightarrow> i \<in> used s \<Longrightarrow> i \<notin> reserved \<Longrightarrow>
      \<exists>s'. put i s = Some s' \<and> ok s' \<and> limit s' = limit s \<and> used s' = used s - {i}"
    and used_limit: "ok s \<Longrightarrow> used s \<subseteq> {..< limit s}"
begin

definition pool_inv :: "nat \<Rightarrow> 's \<times> nat list \<Rightarrow> bool" where
  "pool_inv n p \<longleftrightarrow> ok (fst p) \<and> limit (fst p) = n \<and> distinct (snd p) \<and> set (snd p) \<inter> reserved = {} \<and>
     used (fst p) = reserved \<union> set (snd p)"

definition pool_start :: "nat \<Rightarrow> 's \<times> nat list \<Rightarrow> bool" where
  "pool_start n p \<longleftrightarrow> ok (fst p) \<and> limit (fst p) = n \<and> used (fst p) = reserved \<and> snd p = []"

lemma pool_step_ok:
  assumes "pool_step get put p p'" "pool_inv n p"
  shows "pool_inv n p' \<and> (ids_step n)\<^sup>*\<^sup>* (set (snd p)) (set (snd p'))"
  using assms(1)
proof cases
  case (grab s i s' ids)
  have inv: "ok s" "limit s = n" "distinct ids" "set ids \<inter> reserved = {}" "used s = reserved \<union> set ids"
    using assms(2) grab by (simp_all add: pool_inv_def)
  have "\<not> {..< limit s} \<subseteq> used s" using get_only_free [OF inv(1) _ grab(3)] by auto
  then obtain k where "k < limit s" "k \<notin> used s" by auto
  from get_free [OF inv(1) this] grab(3) have i: "ok s'" "limit s' = limit s" "i < limit s" "i \<notin> used s" "used s' = insert i (used s)"
    by auto
  then have "pool_inv n p'" using grab inv by (auto simp: pool_inv_def)
  moreover have "ids_step n (set ids) (insert i (set ids))" using i inv by (intro ids_step.take) auto
  ultimately show ?thesis using grab by (simp add: r_into_rtranclp)
next
  case (refuse s s' ids)
  then have "ok s" using assms(2) by (simp add: pool_inv_def)
  have "{..< limit s} \<subseteq> used s" using get_free [OF \<open>ok s\<close>] refuse(3) by fastforce
  from get_only_free [OF \<open>ok s\<close> this refuse(3)] show ?thesis using assms(2) refuse by simp
next
  case (give i ids s s')
  have inv: "ok s" "limit s = n" "distinct ids" "set ids \<inter> reserved = {}" "used s = reserved \<union> set ids"
    using assms(2) give by (simp_all add: pool_inv_def)
  then have "i \<in> used s" "i \<notin> reserved" using give(3) by auto
  from put_used [OF inv(1) this] give(4) have "ok s'" "limit s' = limit s" "used s' = used s - {i}" by auto
  then have "pool_inv n p'" using give inv by (auto simp: pool_inv_def)
  moreover have "ids_step n (set ids) (set ids - {i})" using give(3) by (rule ids_step.drop)
  ultimately show ?thesis using give inv(3) by (simp add: r_into_rtranclp)
qed

end

text \<open>Every pool simulates the abstract one.\<close>

sublocale id_pool \<subseteq> runs: simulation "pool_start n" "pool_step get put" "pool_inv n" "\<lambda>p. set (snd p)" "ids_step n" for n
proof unfold_locales
  show "pool_inv n p" if "pool_start n p" for p using that by (simp add: pool_start_def pool_inv_def)
qed (use pool_step_ok in blast)+

context id_pool
begin

lemma held_ids:
  assumes "pool_start n p" "(pool_step get put)\<^sup>*\<^sup>* p p'"
  shows "ok (fst p') \<and> limit (fst p') = n \<and> distinct (snd p') \<and> set (snd p') \<inter> reserved = {} \<and> set (snd p') \<subseteq> {..< n} \<and>
    used (fst p') = reserved \<union> set (snd p')"
proof -
  have "pool_inv n p'" using assms by (rule runs.reachable_inv)
  then show ?thesis using used_limit [of "fst p'"] by (auto simp: pool_inv_def)
qed

end

text \<open>A pool that refuses when all ids are in use.\<close>

locale total_pool = id_pool +
  assumes get_full: "ok s \<Longrightarrow> {..< limit s} \<subseteq> used s \<Longrightarrow> get s = Some (None, s)"
begin

lemma get_total:
  assumes "ok s"
  shows "\<exists>r s'. get s = Some (r, s') \<and> ok s' \<and> (r = None) = ({..< limit s} \<subseteq> used s)"
proof (cases "{..< limit s} \<subseteq> used s")
  case True
  then show ?thesis using get_full [OF assms] assms by simp
next
  case False
  then obtain i where "i < limit s" "i \<notin> used s" by auto
  from get_free [OF assms this] show ?thesis using False by auto
qed

end

section \<open>A bitmap as a pool\<close>

definition bits_set :: "bool list \<Rightarrow> nat set" where
  "bits_set bm = {i. i < length bm \<and> bm ! i}"

lemma bits_set_update: "i < length bm \<Longrightarrow> bits_set (bm[i := v]) = (if v then insert i (bits_set bm) else bits_set bm - {i})"
  by (auto simp: bits_set_def nth_list_update)

lemma bits_set_replicate [simp]: "bits_set (replicate n False) = {}"
  by (auto simp: bits_set_def)

text \<open>The first bit that is not set, or the limit when there is none.\<close>

lemma first_zero:
  assumes "n \<le> length bm"
  shows "\<exists>i. find_next_zero_bit bm n 0 = Some i \<and> i \<le> n \<and> (i < n \<longrightarrow> i \<notin> bits_set bm) \<and> (i = n \<longleftrightarrow> {..< n} \<subseteq> bits_set bm)"
proof -
  obtain i where i: "find_next_zero_bit bm n 0 = Some i" "i \<le> n" "\<forall>j. 0 \<le> j \<and> j < i \<longrightarrow> bm ! j" "i < n \<longrightarrow> \<not> bm ! i"
    using find_zero_ok [OF assms, of 0] by auto
  moreover have "i = n \<longleftrightarrow> {..< n} \<subseteq> bits_set bm"
  proof
    assume "i = n"
    then show "{..< n} \<subseteq> bits_set bm" using i(3) assms by (auto simp: bits_set_def)
  next
    assume "{..< n} \<subseteq> bits_set bm"
    then have "\<not> i < n" using i(4) by (auto simp: bits_set_def)
    then show "i = n" using i(2) by simp
  qed
  ultimately show ?thesis by (auto simp: bits_set_def)
qed

end
