(* ===== verification/Kfd_Ids.thy ===== *)
theory Kfd_Ids
  imports Id_Pool
begin

text \<open>
  PASIDs and doorbells of the compute driver: \<open>kfd_pasid.c\<close>, \<open>kfd_doorbell.c\<close>, the part of
  \<open>kfd_device.c\<close> that bounds the PASIDs, and the part of \<open>amdgpu_device.c\<close> that sets up the doorbell
  aperture. PASIDs and positions in bitmaps are natural numbers; they stay below 1024. Addresses and sizes
  are words of 64 bits, of the types \<open>phys_addr_t\<close> and \<open>size_t\<close>. A page has 4096 bytes.
\<close>

section \<open>PASIDs\<close>

record pasid_state =
  pasid_bitmap :: "bool list"
  pasid_limit :: nat

definition kfd_pasid_init :: "bool \<Rightarrow> pasid_state \<Rightarrow> int \<times> pasid_state" where
  "kfd_pasid_init kcalloc_ok s =
     (let s = s\<lparr>pasid_limit := 512\<rparr>
      in if \<not> kcalloc_ok then (- 12, s)
         else (0, s\<lparr>pasid_bitmap := (replicate 512 False)[0 := True]\<rparr>))"

definition kfd_set_pasid_limit :: "nat \<Rightarrow> pasid_state \<Rightarrow> (bool \<times> pasid_state) option" where
  "kfd_set_pasid_limit new_limit s =
     (if new_limit < pasid_limit s then do {
        found \<leftarrow> find_next_bit (pasid_bitmap s) (pasid_limit s) new_limit;
        Some (if found = pasid_limit s then (True, s\<lparr>pasid_limit := new_limit\<rparr>) else (False, s))
      }
      else Some (True, s))"

definition kfd_pasid_alloc :: "pasid_state \<Rightarrow> (nat \<times> pasid_state) option" where
  "kfd_pasid_alloc s = do {
     found \<leftarrow> find_next_zero_bit (pasid_bitmap s) (pasid_limit s) 0;
     if found = pasid_limit s then Some (0, s)
     else do {
       bm \<leftarrow> set_bit_at found True (pasid_bitmap s);
       Some (found, s\<lparr>pasid_bitmap := bm\<rparr>)
     }
   }"

definition kfd_pasid_free :: "nat \<Rightarrow> pasid_state \<Rightarrow> pasid_state option" where
  "kfd_pasid_free pasid s =
     (if pasid = 0 \<or> pasid \<ge> pasid_limit s then None
      else do {
        bm \<leftarrow> set_bit_at pasid False (pasid_bitmap s);
        Some (s\<lparr>pasid_bitmap := bm\<rparr>)
      })"

section \<open>Doorbells\<close>

text \<open>
  The doorbell aperture is a BAR of the device. The graphics driver keeps its first doorbells and tells
  the compute driver where the rest begins.
\<close>

record amdgpu_doorbell =
  db_base :: u64
  db_size :: u64
  num_doorbells :: u32

definition amdgpu_doorbell_init :: "bool \<Rightarrow> u64 \<Rightarrow> u64 \<Rightarrow> amdgpu_doorbell \<Rightarrow> int \<times> amdgpu_doorbell" where
  "amdgpu_doorbell_init ioremap_ok bar_start bar_len db =
     (let db = db\<lparr>db_base := bar_start, db_size := bar_len, num_doorbells := min (ucast (bar_len div 4)) 0x400\<rparr>
      in if num_doorbells db = 0 then (- 22, db) else if \<not> ioremap_ok then (- 12, db) else (0, db))"

text \<open>The base, the size and the start offset, in bytes.\<close>

definition amdgpu_doorbell_get_kfd_info :: "amdgpu_doorbell \<Rightarrow> u64 \<times> u64 \<times> u64" where
  "amdgpu_doorbell_get_kfd_info db =
     (if db_size db > ucast (num_doorbells db) * 4 then (db_base db, db_size db, ucast (num_doorbells db) * 4) else (0, 0, 0))"

record kfd_doorbells =
  doorbell_physical_address :: u64
  doorbell_aperture_size :: u64
  doorbell_start_offset :: u64
  doorbell_base :: u64
  doorbell_id_offset :: u64
  doorbell_process_limit :: u64
  doorbell_kernel_ptr :: u64
  doorbell_available_index :: "bool list"

definition roundup :: "u64 \<Rightarrow> u64 \<Rightarrow> u64" where
  "roundup x y = (x + (y - 1)) div y * y"

definition rounddown :: "u64 \<Rightarrow> u64 \<Rightarrow> u64" where
  "rounddown x y = x - x mod y"

definition doorbell_process_allocation :: u64 where
  "doorbell_process_allocation = roundup (4 * 1024) 4096"

text \<open>
  \<open>kfd_doorbell_init\<close>: \<open>ioremap\<close> gives the kernel's address of the first page, or 0, which is a
  \<open>BUG\<close>.
\<close>

definition kfd_doorbell_init :: "(u64 \<Rightarrow> u64) \<Rightarrow> kfd_doorbells \<Rightarrow> kfd_doorbells option" where
  "kfd_doorbell_init ioremap kfd =
     (let start_offset = roundup (doorbell_start_offset kfd) doorbell_process_allocation;
          aperture_size = rounddown (doorbell_aperture_size kfd) doorbell_process_allocation;
          process_limit = (if aperture_size > start_offset then (aperture_size - start_offset) div doorbell_process_allocation else 0);
          kfd = kfd\<lparr>doorbell_base := doorbell_physical_address kfd + start_offset,
            doorbell_id_offset := start_offset div 4, doorbell_process_limit := process_limit - 1\<rparr>;
          kfd = kfd\<lparr>doorbell_kernel_ptr := ioremap (doorbell_base kfd)\<rparr>
      in if doorbell_kernel_ptr kfd = 0 then None else Some kfd)"

definition kfd_get_process_doorbells :: "kfd_doorbells \<Rightarrow> nat \<Rightarrow> u64" where
  "kfd_get_process_doorbells kfd pasid = doorbell_base kfd + of_nat pasid * doorbell_process_allocation"

text \<open>
  \<open>kfd_doorbell_mmap\<close>: the device is looked up by its id; the result is the range of physical memory that
  is mapped, as a page number and a size.
\<close>

definition kfd_doorbell_mmap :: "kfd_doorbells option \<Rightarrow> nat \<Rightarrow> u64 \<Rightarrow> u64 \<Rightarrow> int + u64 \<times> u64" where
  "kfd_doorbell_mmap dev pasid vm_start vm_end =
     (if vm_end - vm_start \<noteq> doorbell_process_allocation then Inl (- 22)
      else case dev of
        None \<Rightarrow> Inl (- 22)
      | Some kfd \<Rightarrow> Inr (drop_bit 12 (kfd_get_process_doorbells kfd pasid), doorbell_process_allocation))"

text \<open>
  A doorbell for a queue of the kernel: the address and the offset, which uses the PASID 1 in place of a
  process. The bit is set before the test whether there was one.
\<close>

definition kfd_get_kernel_doorbell :: "kfd_doorbells \<Rightarrow> ((u64 \<times> u32) option \<times> kfd_doorbells) option" where
  "kfd_get_kernel_doorbell kfd = do {
     inx \<leftarrow> find_next_zero_bit (doorbell_available_index kfd) 1024 0;
     bm \<leftarrow> set_bit_at inx True (doorbell_available_index kfd);
     let kfd = kfd\<lparr>doorbell_available_index := bm\<rparr>;
     Some (if inx \<ge> 1024 then None
       else Some (doorbell_kernel_ptr kfd + 4 * of_nat inx, ucast (1 * (doorbell_process_allocation div 4) + of_nat inx)), kfd)
   }"

definition kfd_release_kernel_doorbell :: "u64 \<Rightarrow> kfd_doorbells \<Rightarrow> kfd_doorbells option" where
  "kfd_release_kernel_doorbell db_addr kfd =
     (if db_addr = 0 then None
      else do {
        bm \<leftarrow> set_bit_at (unat (ucast ((db_addr - doorbell_kernel_ptr kfd) div 4) :: u32)) False (doorbell_available_index kfd);
        Some (kfd\<lparr>doorbell_available_index := bm\<rparr>)
      })"

definition kfd_queue_id_to_doorbell :: "kfd_doorbells \<Rightarrow> nat \<Rightarrow> u32 \<Rightarrow> u32" where
  "kfd_queue_id_to_doorbell kfd pasid queue_id =
     ucast (doorbell_id_offset kfd + of_nat pasid * (doorbell_process_allocation div 4) + ucast queue_id)"

definition kfd_get_number_elems :: "kfd_doorbells \<Rightarrow> u64" where
  "kfd_get_number_elems kfd = (doorbell_aperture_size kfd - doorbell_start_offset kfd) div doorbell_process_allocation + 1"

section \<open>The limit of the PASIDs\<close>

text \<open>
  \<open>device_iommu_pasid_init\<close>: the IOMMU gives an error, its flags and its number of PASIDs; the flags
  required are those of ATS, PRI and PASID support.
\<close>

record iommu_info =
  ii_err :: int
  ii_flags :: u32
  ii_max_pasids :: u32
  ii_init_err :: int

definition device_pasid_limit :: "u32 \<Rightarrow> kfd_doorbells \<Rightarrow> u32 \<Rightarrow> u32" where
  "device_pasid_limit max_pasid_bits kfd max_pasids =
     min (min (push_bit (unat max_pasid_bits) 1) max_pasids) (ucast (doorbell_process_limit kfd - 1))"

definition device_iommu_pasid_init ::
  "iommu_info \<Rightarrow> u32 \<Rightarrow> u32 \<Rightarrow> kfd_doorbells \<Rightarrow> pasid_state \<Rightarrow> (bool \<times> pasid_state) option" where
  "device_iommu_pasid_init iommu required_flags max_pasid_bits kfd s =
     (if ii_err iommu < 0 then Some (False, s)
      else if ii_flags iommu AND required_flags \<noteq> required_flags then Some (False, s)
      else if ii_init_err iommu < 0 then Some (False, s)
      else kfd_set_pasid_limit (unat (device_pasid_limit max_pasid_bits kfd (ii_max_pasids iommu))) s)"

section \<open>PASIDs are a pool\<close>

definition pasid_ok :: "pasid_state \<Rightarrow> bool" where
  "pasid_ok s \<longleftrightarrow> length (pasid_bitmap s) = 512 \<and> pasid_limit s \<le> 512 \<and> 0 \<in> bits_set (pasid_bitmap s) \<and>
     bits_set (pasid_bitmap s) \<subseteq> {..< pasid_limit s}"

definition pasid_get :: "pasid_state \<Rightarrow> (nat option \<times> pasid_state) option" where
  "pasid_get s = do { (pasid, s) \<leftarrow> kfd_pasid_alloc s; Some (if pasid = 0 then None else Some pasid, s) }"

lemma pasid_get_cases:
  assumes "pasid_ok s"
  shows "if {..< pasid_limit s} \<subseteq> bits_set (pasid_bitmap s) then pasid_get s = Some (None, s)
    else \<exists>i s'. pasid_get s = Some (Some i, s') \<and> pasid_ok s' \<and> pasid_limit s' = pasid_limit s \<and> i < pasid_limit s \<and>
      i \<notin> bits_set (pasid_bitmap s) \<and> bits_set (pasid_bitmap s') = insert i (bits_set (pasid_bitmap s))"
proof -
  have len: "length (pasid_bitmap s) = 512" "pasid_limit s \<le> length (pasid_bitmap s)" "0 \<in> bits_set (pasid_bitmap s)"
    using assms by (simp_all add: pasid_ok_def)
  obtain i where i: "find_next_zero_bit (pasid_bitmap s) (pasid_limit s) 0 = Some i" "i \<le> pasid_limit s"
      "i < pasid_limit s \<longrightarrow> i \<notin> bits_set (pasid_bitmap s)" "i = pasid_limit s \<longleftrightarrow> {..< pasid_limit s} \<subseteq> bits_set (pasid_bitmap s)"
    using first_zero [OF len(2)] by blast
  show ?thesis
  proof (cases "i = pasid_limit s")
    case True
    then show ?thesis using i by (simp add: pasid_get_def kfd_pasid_alloc_def)
  next
    case False
    then have lt: "i < pasid_limit s" "i \<notin> bits_set (pasid_bitmap s)" "i < length (pasid_bitmap s)" using i(2,3) len(2) by auto
    then have "i \<noteq> 0" using len(3) by metis
    let ?s = "s\<lparr>pasid_bitmap := (pasid_bitmap s)[i := True]\<rparr>"
    have "pasid_get s = Some (Some i, ?s)"
      using i(1) False lt(3) \<open>i \<noteq> 0\<close> by (simp add: pasid_get_def kfd_pasid_alloc_def set_bit_at_def update_opt_def)
    moreover have "pasid_ok ?s" using assms lt by (auto simp: pasid_ok_def bits_set_update)
    ultimately show ?thesis using False i(4) lt by (simp add: bits_set_update)
  qed
qed

interpretation pa: total_pool pasid_ok "\<lambda>s. bits_set (pasid_bitmap s)" pasid_limit "{0}" pasid_get kfd_pasid_free
proof unfold_locales
  fix s assume ok: "pasid_ok s"
  show "bits_set (pasid_bitmap s) \<subseteq> {..< pasid_limit s}" using ok by (simp add: pasid_ok_def)
  show "pasid_get s = Some (None, s)" if "{..< pasid_limit s} \<subseteq> bits_set (pasid_bitmap s)"
    using pasid_get_cases [OF ok] that by simp
  show "r = None \<and> s' = s" if "{..< pasid_limit s} \<subseteq> bits_set (pasid_bitmap s)" "pasid_get s = Some (r, s')" for r s'
    using pasid_get_cases [OF ok] that by simp
  fix i
  show "\<exists>j s'. pasid_get s = Some (Some j, s') \<and> pasid_ok s' \<and> pasid_limit s' = pasid_limit s \<and> j < pasid_limit s \<and>
      j \<notin> bits_set (pasid_bitmap s) \<and> bits_set (pasid_bitmap s') = insert j (bits_set (pasid_bitmap s))"
    if "i < pasid_limit s" "i \<notin> bits_set (pasid_bitmap s)"
  proof -
    have "\<not> {..< pasid_limit s} \<subseteq> bits_set (pasid_bitmap s)" using that by auto
    then show ?thesis using pasid_get_cases [OF ok] by simp
  qed
  show "\<exists>s'. kfd_pasid_free i s = Some s' \<and> pasid_ok s' \<and> pasid_limit s' = pasid_limit s \<and>
      bits_set (pasid_bitmap s') = bits_set (pasid_bitmap s) - {i}"
    if i: "i \<in> bits_set (pasid_bitmap s)" "i \<notin> {0}"
  proof -
    have "i < pasid_limit s" "i < length (pasid_bitmap s)" using ok i(1) by (auto simp: pasid_ok_def bits_set_def)
    then show ?thesis using ok i
      by (auto simp: kfd_pasid_free_def set_bit_at_def update_opt_def bits_set_update pasid_ok_def)
  qed
qed

lemma pasid_init_start: "kfd_pasid_init True s0 = (0, s) \<Longrightarrow> pa.pool_start 512 (s, [])"
proof -
  assume "kfd_pasid_init True s0 = (0, s)"
  then have s: "s = s0\<lparr>pasid_limit := 512, pasid_bitmap := (replicate 512 False)[0 := True]\<rparr>" by (simp add: kfd_pasid_init_def Let_def)
  have "bits_set ((replicate 512 False)[0 := True]) = {0}" by (simp add: bits_set_update)
  then show ?thesis by (simp add: s pa.pool_start_def pasid_ok_def)
qed

lemma set_limit_cases:
  assumes "pasid_ok s"
  shows "\<exists>b s'. kfd_set_pasid_limit n s = Some (b, s') \<and> pasid_ok s' \<and> bits_set (pasid_bitmap s') = bits_set (pasid_bitmap s) \<and>
    b = (pasid_limit s \<le> n \<or> bits_set (pasid_bitmap s) \<subseteq> {..< n}) \<and> pasid_limit s' = (if b then min n (pasid_limit s) else pasid_limit s)"
proof (cases "n < pasid_limit s")
  case True
  have "pasid_limit s \<le> length (pasid_bitmap s)" using assms by (simp add: pasid_ok_def)
  from find_one_ok [OF this, of n] True obtain i where i: "find_next_bit (pasid_bitmap s) (pasid_limit s) n = Some i"
      "i \<le> pasid_limit s" "n \<le> i" "\<forall>j. n \<le> j \<and> j < i \<longrightarrow> \<not> pasid_bitmap s ! j" "i < pasid_limit s \<longrightarrow> pasid_bitmap s ! i" by auto
  have sub: "i = pasid_limit s \<longleftrightarrow> bits_set (pasid_bitmap s) \<subseteq> {..< n}"
  proof
    assume "i = pasid_limit s"
    show "bits_set (pasid_bitmap s) \<subseteq> {..< n}"
    proof
      fix j assume "j \<in> bits_set (pasid_bitmap s)"
      then have "pasid_bitmap s ! j" "j < i" using assms \<open>i = pasid_limit s\<close> by (auto simp: pasid_ok_def bits_set_def)
      then show "j \<in> {..< n}" using i(4) by (metis lessThan_iff linorder_not_le)
    qed
  next
    assume a: "bits_set (pasid_bitmap s) \<subseteq> {..< n}"
    show "i = pasid_limit s"
    proof (rule ccontr)
      assume "i \<noteq> pasid_limit s"
      then have "i \<in> bits_set (pasid_bitmap s)" using i assms by (simp add: bits_set_def pasid_ok_def)
      then show False using a i(3) by auto
    qed
  qed
  show ?thesis
  proof (cases "i = pasid_limit s")
    case eq: True
    then have "bits_set (pasid_bitmap s) \<subseteq> {..< n}" using sub by simp
    then show ?thesis using True i(1) eq assms
      by (intro exI [of _ True] exI [of _ "s\<lparr>pasid_limit := n\<rparr>"]) (simp add: kfd_set_pasid_limit_def pasid_ok_def)
  next
    case False
    then show ?thesis using True i(1) sub assms
      by (intro exI [of _ False] exI [of _ s]) (simp add: kfd_set_pasid_limit_def)
  qed
next
  case False
  then show ?thesis using assms by (intro exI [of _ True] exI [of _ s]) (simp add: kfd_set_pasid_limit_def)
qed

section \<open>The doorbells of the kernel are a pool\<close>

text \<open>The pool in terms of positions; the client has addresses and offsets.\<close>

definition kernel_doorbell_ok :: "kfd_doorbells \<Rightarrow> bool" where
  "kernel_doorbell_ok kfd \<longleftrightarrow> length (doorbell_available_index kfd) = 1024 \<and> doorbell_kernel_ptr kfd \<noteq> 0 \<and>
     unat (doorbell_kernel_ptr kfd) + 4096 \<le> 2 ^ 64"

definition kernel_doorbell_get :: "kfd_doorbells \<Rightarrow> (nat option \<times> kfd_doorbells) option" where
  "kernel_doorbell_get kfd = do {
     (db, kfd) \<leftarrow> kfd_get_kernel_doorbell kfd;
     Some (map_option (\<lambda>(db_addr, doorbell_off). unat doorbell_off - 1024) db, kfd)
   }"

definition kernel_doorbell_put :: "nat \<Rightarrow> kfd_doorbells \<Rightarrow> kfd_doorbells option" where
  "kernel_doorbell_put inx kfd = kfd_release_kernel_doorbell (doorbell_kernel_ptr kfd + 4 * of_nat inx) kfd"

lemma process_allocation: "doorbell_process_allocation = 4096"
  by (simp add: doorbell_process_allocation_def roundup_def)

lemma kernel_off: "inx < 1024 \<Longrightarrow> unat (ucast (1024 + of_nat inx :: u64) :: u32) = 1024 + inx"
proof -
  assume i: "inx < 1024"
  then have "unat (of_nat inx :: u64) = inx" by (intro unat_of_nat_small) simp
  then have "unat (1024 + of_nat inx :: u64) = 1024 + inx" using i unat_add_small [of "1024 :: u64" "of_nat inx"] by simp
  then show ?thesis using i by (simp add: unat_ucast)
qed

lemma kernel_doorbell_cases:
  assumes "kernel_doorbell_ok kfd"
  shows "if bits_set (doorbell_available_index kfd) = {..< 1024} then kfd_get_kernel_doorbell kfd = None
    else \<exists>inx < 1024. inx \<notin> bits_set (doorbell_available_index kfd) \<and>
      kfd_get_kernel_doorbell kfd = Some (Some (doorbell_kernel_ptr kfd + 4 * of_nat inx, ucast (1024 + of_nat inx :: u64)),
        kfd\<lparr>doorbell_available_index := (doorbell_available_index kfd)[inx := True]\<rparr>)"
proof -
  have len: "length (doorbell_available_index kfd) = 1024" using assms by (simp add: kernel_doorbell_ok_def)
  then have sub: "bits_set (doorbell_available_index kfd) \<subseteq> {..< 1024}" by (auto simp: bits_set_def)
  from len first_zero [of 1024 "doorbell_available_index kfd"] obtain i where
    i: "find_next_zero_bit (doorbell_available_index kfd) 1024 0 = Some i" "i \<le> 1024"
      "i < 1024 \<longrightarrow> i \<notin> bits_set (doorbell_available_index kfd)" "i = 1024 \<longleftrightarrow> {..< 1024} \<subseteq> bits_set (doorbell_available_index kfd)" by auto
  show ?thesis
  proof (cases "i = 1024")
    case True
    then have "bits_set (doorbell_available_index kfd) = {..< 1024}" using sub i(4) by blast
    moreover have "kfd_get_kernel_doorbell kfd = None"
      using i(1) True len by (simp add: kfd_get_kernel_doorbell_def set_bit_at_def update_opt_def)
    ultimately show ?thesis by simp
  next
    case False
    then have lt: "i < 1024" "i \<notin> bits_set (doorbell_available_index kfd)" using i(2,3) by auto
    moreover have "kfd_get_kernel_doorbell kfd = Some (Some (doorbell_kernel_ptr kfd + 4 * of_nat i, ucast (1024 + of_nat i :: u64)),
        kfd\<lparr>doorbell_available_index := (doorbell_available_index kfd)[i := True]\<rparr>)"
      using i(1) lt(1) len by (simp add: kfd_get_kernel_doorbell_def set_bit_at_def update_opt_def process_allocation)
    moreover have "bits_set (doorbell_available_index kfd) \<noteq> {..< 1024}" using lt by auto
    ultimately show ?thesis by (simp only: if_False) blast
  qed
qed

lemma kernel_doorbell_release:
  assumes "kernel_doorbell_ok kfd" "inx < 1024"
  shows "kernel_doorbell_put inx kfd = Some (kfd\<lparr>doorbell_available_index := (doorbell_available_index kfd)[inx := False]\<rparr>)"
proof -
  let ?p = "doorbell_kernel_ptr kfd"
  have o: "unat (4 * of_nat inx :: u64) = 4 * inx"
    using assms(2) unat_of_nat_small [of "4 * inx", where ?'a = 64] by simp
  then have "unat (?p + 4 * of_nat inx) = unat ?p + 4 * inx"
    using assms unat_add_small [of ?p "4 * of_nat inx"] by (simp add: kernel_doorbell_ok_def)
  moreover have "0 < unat ?p" using assms(1) by (simp add: kernel_doorbell_ok_def unat_gt_0)
  ultimately have "?p + 4 * of_nat inx \<noteq> 0" by (metis add_gr_0 unat_0 less_numeral_extra(3))
  moreover have "unat ((4 * of_nat inx :: u64) div 4) = inx" using o by (simp add: unat_div)
  then have "unat (ucast ((4 * of_nat inx :: u64) div 4) :: u32) = inx" using assms(2) by (simp add: unat_ucast)
  ultimately show ?thesis using assms
    by (simp add: kernel_doorbell_put_def kfd_release_kernel_doorbell_def set_bit_at_def update_opt_def kernel_doorbell_ok_def)
qed

lemma kernel_doorbell_get_cases:
  assumes "kernel_doorbell_ok kfd"
  shows "if bits_set (doorbell_available_index kfd) = {..< 1024} then kernel_doorbell_get kfd = None
    else \<exists>inx < 1024. inx \<notin> bits_set (doorbell_available_index kfd) \<and>
      kernel_doorbell_get kfd = Some (Some inx, kfd\<lparr>doorbell_available_index := (doorbell_available_index kfd)[inx := True]\<rparr>)"
proof (cases "bits_set (doorbell_available_index kfd) = {..< 1024}")
  case True
  then show ?thesis using kernel_doorbell_cases [OF assms] by (simp add: kernel_doorbell_get_def)
next
  case False
  from kernel_doorbell_cases [OF assms, unfolded if_not_P [OF False]] obtain inx where
    i: "inx < 1024" "inx \<notin> bits_set (doorbell_available_index kfd)" and
    g: "kfd_get_kernel_doorbell kfd = Some (Some (doorbell_kernel_ptr kfd + 4 * of_nat inx, ucast (1024 + of_nat inx :: u64)),
        kfd\<lparr>doorbell_available_index := (doorbell_available_index kfd)[inx := True]\<rparr>)" by blast
  then show ?thesis using False by (intro if_not_P [THEN iffD2] exI [of _ inx]) (simp_all add: kernel_doorbell_get_def kernel_off)
qed

interpretation kd: id_pool kernel_doorbell_ok "\<lambda>kfd. bits_set (doorbell_available_index kfd)" "\<lambda>kfd. 1024" "{}"
    kernel_doorbell_get kernel_doorbell_put
proof unfold_locales
  fix kfd assume ok: "kernel_doorbell_ok kfd"
  have len: "length (doorbell_available_index kfd) = 1024" using ok by (simp add: kernel_doorbell_ok_def)
  then show sub: "bits_set (doorbell_available_index kfd) \<subseteq> {..< 1024}" by (auto simp: bits_set_def)
  show "r = None \<and> kfd' = kfd" if full: "{..< 1024} \<subseteq> bits_set (doorbell_available_index kfd)" "kernel_doorbell_get kfd = Some (r, kfd')" for r kfd'
  proof -
    have "bits_set (doorbell_available_index kfd) = {..< 1024}" using full(1) sub by blast
    then show ?thesis using kernel_doorbell_get_cases [OF ok] full(2) by simp
  qed
  fix i
  show "\<exists>j kfd'. kernel_doorbell_get kfd = Some (Some j, kfd') \<and> kernel_doorbell_ok kfd' \<and> (1024 :: nat) = 1024 \<and> j < 1024 \<and>
      j \<notin> bits_set (doorbell_available_index kfd) \<and> bits_set (doorbell_available_index kfd') = insert j (bits_set (doorbell_available_index kfd))"
    if "i < 1024" "i \<notin> bits_set (doorbell_available_index kfd)"
  proof -
    have ne: "bits_set (doorbell_available_index kfd) \<noteq> {..< 1024}" using that by auto
    from kernel_doorbell_get_cases [OF ok, unfolded if_not_P [OF ne]] obtain inx where
      "inx < 1024" "inx \<notin> bits_set (doorbell_available_index kfd)"
      "kernel_doorbell_get kfd = Some (Some inx, kfd\<lparr>doorbell_available_index := (doorbell_available_index kfd)[inx := True]\<rparr>)" by blast
    then show ?thesis using ok len by (simp add: kernel_doorbell_ok_def bits_set_update)
  qed
  show "\<exists>kfd'. kernel_doorbell_put i kfd = Some kfd' \<and> kernel_doorbell_ok kfd' \<and> (1024 :: nat) = 1024 \<and>
      bits_set (doorbell_available_index kfd') = bits_set (doorbell_available_index kfd) - {i}"
    if "i \<in> bits_set (doorbell_available_index kfd)" "i \<notin> {}"
  proof -
    have "i < 1024" using that(1) sub by auto
    then show ?thesis using ok len kernel_doorbell_release [OF ok] by (simp add: kernel_doorbell_ok_def bits_set_update)
  qed
qed

section \<open>The pages of the processes\<close>

text \<open>The set-up of a device: the graphics driver maps the BAR, the compute driver takes over what is left of it.\<close>

definition doorbell_setup :: "u64 \<Rightarrow> u64 \<Rightarrow> (u64 \<Rightarrow> u64) \<Rightarrow> kfd_doorbells \<Rightarrow> bool" where
  "doorbell_setup bar_start bar_len ioremap kfd \<longleftrightarrow>
     (\<exists>db0 db kfd0. amdgpu_doorbell_init True bar_start bar_len db0 = (0, db) \<and>
        amdgpu_doorbell_get_kfd_info db = (doorbell_physical_address kfd0, doorbell_aperture_size kfd0, doorbell_start_offset kfd0) \<and>
        kfd_doorbell_init ioremap kfd0 = Some kfd)"

lemma rounddown_page: "unat (rounddown x 4096) = unat x div 4096 * 4096"
proof -
  have m: "unat (x mod 4096) = unat x mod 4096" by (simp add: unat_mod)
  then have "x mod 4096 \<le> x" by (simp add: word_le_nat_alt)
  then show ?thesis using m by (simp add: rounddown_def unat_sub minus_mod_eq_div_mult [symmetric])
qed

lemma kfd_info_large:
  assumes "amdgpu_doorbell_init True bar_start bar_len db0 = (0, db)" "8192 \<le> unat bar_len" "unat bar_len < 2 ^ 34"
  shows "amdgpu_doorbell_get_kfd_info db = (bar_start, bar_len, 4096)"
proof -
  have d: "unat (bar_len div 4) = unat bar_len div 4" by (simp add: unat_div)
  moreover have "unat bar_len div 4 < 2 ^ 32" using assms(3) by simp
  ultimately have u: "unat (ucast (bar_len div 4) :: u32) = unat bar_len div 4" by (simp add: unat_ucast)
  moreover have "1024 \<le> unat bar_len div 4" using assms(2) by linarith
  ultimately have "(0x400 :: u32) \<le> ucast (bar_len div 4)" by (simp add: word_le_nat_alt)
  then have "min (ucast (bar_len div 4)) (0x400 :: u32) = 0x400" by (rule min_absorb2)
  then have db: "db = db0\<lparr>db_base := bar_start, db_size := bar_len, num_doorbells := 0x400\<rparr>"
    using assms(1) by (simp add: amdgpu_doorbell_init_def Let_def split: if_splits)
  have "(4096 :: u64) < bar_len" using assms(2) by (simp add: word_less_nat_alt)
  then show ?thesis by (simp add: amdgpu_doorbell_get_kfd_info_def db)
qed

lemma doorbell_setup_pages:
  assumes "doorbell_setup bar_start bar_len ioremap kfd" "8192 \<le> unat bar_len" "unat bar_len < 2 ^ 34"
  shows "doorbell_base kfd = bar_start + 4096" "doorbell_id_offset kfd = 1024" "doorbell_kernel_ptr kfd = ioremap (bar_start + 4096)"
    "unat (doorbell_process_limit kfd) = unat bar_len div 4096 - 2"
proof -
  obtain db0 db kfd0 where init: "amdgpu_doorbell_init True bar_start bar_len db0 = (0, db)"
      "amdgpu_doorbell_get_kfd_info db = (doorbell_physical_address kfd0, doorbell_aperture_size kfd0, doorbell_start_offset kfd0)"
    and kfd: "kfd_doorbell_init ioremap kfd0 = Some kfd" using assms(1) unfolding doorbell_setup_def by blast
  have shared: "doorbell_physical_address kfd0 = bar_start" "doorbell_aperture_size kfd0 = bar_len" "doorbell_start_offset kfd0 = 4096"
    using kfd_info_large [OF init(1) assms(2,3)] init(2) by simp_all
  have start: "roundup 4096 4096 = 4096" by (simp add: roundup_def)
  let ?a = "rounddown bar_len 4096" and ?n = "unat bar_len div 4096"
  have a: "unat ?a = ?n * 4096" by (rule rounddown_page)
  have n: "2 \<le> ?n" using assms(2) by linarith
  then have gt: "4096 < ?a" using a by (simp add: word_less_nat_alt)
  then have "unat (?a - 4096) = ?n * 4096 - 4096" using a by (simp add: unat_sub)
  then have l: "unat ((?a - 4096) div 4096) = ?n - 1" by (simp add: unat_div diff_mult_distrib [symmetric])
  then have "(1 :: u64) \<le> (?a - 4096) div 4096" using n by (simp add: word_le_nat_alt)
  then have "unat ((?a - 4096) div 4096 - 1) = ?n - 2" using l by (simp add: unat_sub)
  moreover have "doorbell_process_limit kfd = (?a - 4096) div 4096 - 1" "doorbell_base kfd = bar_start + 4096" "doorbell_id_offset kfd = 1024"
      "doorbell_kernel_ptr kfd = ioremap (bar_start + 4096)"
    using kfd gt by (auto simp: kfd_doorbell_init_def Let_def start shared process_allocation split: if_splits)
  ultimately show "doorbell_base kfd = bar_start + 4096" "doorbell_id_offset kfd = 1024" "doorbell_kernel_ptr kfd = ioremap (bar_start + 4096)"
    "unat (doorbell_process_limit kfd) = unat bar_len div 4096 - 2" by simp_all
qed

text \<open>Numbers of doorbells and addresses of pages do not wrap within the aperture.\<close>

lemma queue_doorbell:
  assumes "doorbell_id_offset kfd = 1024" "pasid < 2 ^ 16" "q < 1024"
  shows "unat (kfd_queue_id_to_doorbell kfd pasid (of_nat q)) = 1024 + pasid * 1024 + q"
proof -
  have u: "unat (ucast (of_nat q :: u32) :: u64) = q" using assms(3) by (simp add: unat_ucast unat_of_nat_small)
  have m: "unat (of_nat pasid * 1024 :: u64) = pasid * 1024"
    using unat_of_nat_small [of "pasid * 1024", where ?'a = 64] assms(2) by simp
  then have "unat (1024 + of_nat pasid * 1024 :: u64) = 1024 + pasid * 1024"
    using unat_add_small [of "1024 :: u64" "of_nat pasid * 1024"] assms(2) by simp
  then have "unat (1024 + of_nat pasid * 1024 + ucast (of_nat q :: u32) :: u64) = 1024 + pasid * 1024 + q"
    using unat_add_small [of "1024 + of_nat pasid * 1024 :: u64" "ucast (of_nat q :: u32)"] u assms(2,3) by simp
  then show ?thesis using assms by (simp add: kfd_queue_id_to_doorbell_def process_allocation unat_ucast)
qed

lemma process_page:
  assumes "doorbell_base kfd = bar_start + 4096" "unat bar_start + 4096 + pasid * 4096 + 4096 \<le> 2 ^ 64"
  shows "unat (kfd_get_process_doorbells kfd pasid) = unat bar_start + 4096 + pasid * 4096"
proof -
  have m: "unat (of_nat pasid * 4096 :: u64) = pasid * 4096"
    using unat_of_nat_small [of "pasid * 4096", where ?'a = 64] assms(2) by simp
  have "unat (bar_start + 4096) = unat bar_start + 4096" using unat_add_small [of bar_start 4096] assms(2) by simp
  then show ?thesis
    using unat_add_small [of "bar_start + 4096" "of_nat pasid * 4096"] m assms by (simp add: kfd_get_process_doorbells_def process_allocation)
qed

text \<open>The PASIDs after the device has set their limit.\<close>

lemma pasid_limit_start:
  assumes "kfd_pasid_init True s00 = (0, s0)" "device_iommu_pasid_init iommu flags bits kfd s0 = Some (True, s)"
  shows "pa.pool_start (min (unat (device_pasid_limit bits kfd (ii_max_pasids iommu))) 512) (s, [])"
    "0 < device_pasid_limit bits kfd (ii_max_pasids iommu)"
proof -
  let ?n = "unat (device_pasid_limit bits kfd (ii_max_pasids iommu))"
  have s0: "pasid_ok s0" "pasid_limit s0 = 512" "bits_set (pasid_bitmap s0) = {0}"
    using pasid_init_start [OF assms(1)] by (simp_all add: pa.pool_start_def)
  have "kfd_set_pasid_limit ?n s0 = Some (True, s)" using assms(2) by (simp add: device_iommu_pasid_init_def split: if_splits)
  then have s: "pasid_ok s" "bits_set (pasid_bitmap s) = {0}" "pasid_limit s = min ?n 512" "512 \<le> ?n \<or> {0} \<subseteq> {..< ?n}"
    using set_limit_cases [OF s0(1), of ?n] s0(2,3) by auto
  then show "pa.pool_start (min ?n 512) (s, [])" by (simp add: pa.pool_start_def)
  show "0 < device_pasid_limit bits kfd (ii_max_pasids iommu)"   proof -
    have "0 < ?n" using s(4) by auto
    then show ?thesis by (simp add: word_less_nat_alt)
  qed
qed

section \<open>A device with sixteen pages of doorbells\<close>

definition db_demo :: kfd_doorbells where
  "db_demo = \<lparr>doorbell_physical_address = 0x10000, doorbell_aperture_size = 0x10000, doorbell_start_offset = 0x1000,
     doorbell_base = 0x11000, doorbell_id_offset = 1024, doorbell_process_limit = 14, doorbell_kernel_ptr = 0x90000,
     doorbell_available_index = replicate 1024 False\<rparr>"

definition iommu_demo :: iommu_info where
  "iommu_demo = \<lparr>ii_err = 0, ii_flags = 7, ii_max_pasids = 65536, ii_init_err = 0\<rparr>"

definition pasid_demo :: "nat \<Rightarrow> pasid_state" where
  "pasid_demo n = \<lparr>pasid_bitmap = (replicate 512 False)[0 := True], pasid_limit = n\<rparr>"

lemma db_demo_setup: "doorbell_setup 0x10000 0x10000 (\<lambda>_. 0x90000) db_demo"
  unfolding doorbell_setup_def
  by (intro conjI exI [of _ "\<lparr>db_base = 0, db_size = 0, num_doorbells = 0\<rparr>"]
      exI [of _ "\<lparr>db_base = 0x10000, db_size = 0x10000, num_doorbells = 0x400\<rparr>"]
      exI [of _ "db_demo\<lparr>doorbell_base := 0, doorbell_id_offset := 0, doorbell_process_limit := 0, doorbell_kernel_ptr := 0\<rparr>"])
    (simp_all add: amdgpu_doorbell_init_def amdgpu_doorbell_get_kfd_info_def kfd_doorbell_init_def db_demo_def
      doorbell_process_allocation_def roundup_def rounddown_def Let_def)

lemma pasid_demo_init: "kfd_pasid_init True (pasid_demo 0) = (0, pasid_demo 512)"
  by (simp add: kfd_pasid_init_def pasid_demo_def Let_def)

lemma pasid_demo_limit: "device_iommu_pasid_init iommu_demo 7 16 db_demo (pasid_demo 512) = Some (True, pasid_demo 13)"
proof -
  have l: "device_pasid_limit 16 db_demo 65536 = 13" by (simp add: device_pasid_limit_def db_demo_def)
  have ok: "pasid_ok (pasid_demo 512)" and b: "bits_set (pasid_bitmap (pasid_demo 512)) = {0}" "pasid_limit (pasid_demo 512) = 512"
    using pasid_init_start [OF pasid_demo_init] by (simp_all add: pa.pool_start_def)
  have "find_next_bit (pasid_bitmap (pasid_demo 512)) 512 13 = Some 512"
  proof -
    have len: "512 \<le> length (pasid_bitmap (pasid_demo 512))" by (simp add: pasid_demo_def)
    from find_one_ok [OF this, of 13] obtain i where i: "find_next_bit (pasid_bitmap (pasid_demo 512)) 512 13 = Some i"
      "13 \<le> i" "i \<le> 512" "i < 512 \<longrightarrow> pasid_bitmap (pasid_demo 512) ! i" by auto
    have "\<not> i < 512" using i(2,4) by (auto simp: pasid_demo_def)
    then show ?thesis using i(1,3) by simp
  qed
  then have "kfd_set_pasid_limit 13 (pasid_demo 512) = Some (True, pasid_demo 13)"
    by (simp add: kfd_set_pasid_limit_def pasid_demo_def)
  then show ?thesis by (simp add: device_iommu_pasid_init_def iommu_demo_def l)
qed

lemma pasid_demo_run:
  "\<exists>i s'. i \<noteq> 0 \<and> (pool_step pasid_get kfd_pasid_free)\<^sup>*\<^sup>* (pasid_demo 13, []) (s', [i])"
proof -
  have p: "pa.pool_start 13 (pasid_demo 13, [])" using pasid_limit_start(1) [OF pasid_demo_init pasid_demo_limit]
    by (simp add: device_pasid_limit_def iommu_demo_def db_demo_def)
  then have s: "pasid_ok (pasid_demo 13)" "pasid_limit (pasid_demo 13) = 13" "bits_set (pasid_bitmap (pasid_demo 13)) = {0}"
    by (simp_all add: pa.pool_start_def)
  then obtain j s' where "pasid_get (pasid_demo 13) = Some (Some j, s')" "j \<notin> {0}" using pa.get_free [OF s(1), of 1] by auto
  then show ?thesis using pool_step.grab [of pasid_get "pasid_demo 13" j s' kfd_pasid_free "[]"] by auto
qed

section \<open>Properties\<close>

text \<open>
  (C8) Doorbells isolate the processes. With a doorbell BAR of at least three pages, the doorbell number that a
  queue of a process gets names the place of its queue id in the page that is mapped into that process.
  This page lies inside the BAR and behind the page of the kernel; queues of different processes, and
  different queues of a process, have different doorbells, and none is a doorbell of a kernel queue.
\<close>

theorem doorbells_isolated:
  assumes "doorbell_setup bar_start bar_len ioremap kfd" "3 * 4096 \<le> unat bar_len" "unat bar_len < 2 ^ 34"
    "unat bar_start + unat bar_len \<le> 2 ^ 64"
    and "kfd_pasid_init True s00 = (0, s0)" "device_iommu_pasid_init iommu flags bits kfd s0 = Some (True, s)"
    and "(pool_step pasid_get kfd_pasid_free)\<^sup>*\<^sup>* (s, []) (s', pasids)" "p \<in> set pasids" "p' \<in> set pasids" "q < 1024" "q' < 1024"
    and "kernel_doorbell_ok (kfd\<lparr>doorbell_available_index := bm\<rparr>)"
      "kfd_get_kernel_doorbell (kfd\<lparr>doorbell_available_index := bm\<rparr>) = Some (Some (db_addr, off), kfd')"
  shows "unat bar_start + 4 * unat (kfd_queue_id_to_doorbell kfd p (of_nat q)) = unat (kfd_get_process_doorbells kfd p) + 4 * q \<and>
    unat bar_start + 2 * 4096 \<le> unat (kfd_get_process_doorbells kfd p) \<and>
    unat (kfd_get_process_doorbells kfd p) + 4096 \<le> unat bar_start + unat bar_len \<and>
    ((p, q) \<noteq> (p', q') \<longrightarrow> kfd_queue_id_to_doorbell kfd p (of_nat q) \<noteq> kfd_queue_id_to_doorbell kfd p' (of_nat q')) \<and>
    kfd_queue_id_to_doorbell kfd p (of_nat q) \<noteq> off"
proof -
  define n where "n = unat (device_pasid_limit bits kfd (ii_max_pasids iommu))"
  define pages where "pages = unat bar_len div 4096"
  have "8192 \<le> unat bar_len" using assms(2) by simp
  note su = doorbell_setup_pages [OF assms(1) this assms(3), folded pages_def]
  have held: "set pasids \<inter> {0} = {}" "set pasids \<subseteq> {..< min n 512}"
    using pa.held_ids [OF pasid_limit_start(1) [OF assms(5,6), folded n_def] assms(7)] by auto
  have pg: "3 \<le> pages" "pages * 4096 \<le> unat bar_len" "pages < 2 ^ 32"
    using assms(2,3) by (simp_all add: pages_def div_less_iff_less_mult)
  have lim: "n \<le> pages - 3"
  proof -
    have "unat (doorbell_process_limit kfd - 1) = pages - 3" using su(4) pg(1) by (simp add: unat_sub word_le_nat_alt)
    then have "unat (ucast (doorbell_process_limit kfd - 1) :: u32) = pages - 3" using pg(3) by (simp add: unat_ucast)
    then show ?thesis by (simp add: n_def device_pasid_limit_def min_def word_le_nat_alt)
  qed
  have bound: "0 < x \<and> x + 3 < pages \<and> x < 2 ^ 16" if "x \<in> set pasids" for x
  proof -
    have "0 \<notin> set pasids" using held(1) by simp
    then have "x \<noteq> 0" using that by metis
    moreover have "x < n" "x < 512" using subsetD [OF held(2) that] by simp_all
    ultimately show ?thesis using lim by simp
  qed
  have id: "unat (kfd_queue_id_to_doorbell kfd x (of_nat y)) = 1024 + x * 1024 + y" if "x \<in> set pasids" "y < 1024" for x y
    using queue_doorbell [OF su(2)] bound [OF that(1)] that(2) by simp
  have fits: "p * 4096 + 3 * 4096 \<le> unat bar_len" using bound [OF assms(8)] pg(2) by simp
  then have page: "unat (kfd_get_process_doorbells kfd p) = unat bar_start + 4096 + p * 4096"
    using process_page [OF su(1)] assms(4) by simp
  have off: "unat off < 2048"
  proof -
    from kernel_doorbell_cases [OF assms(12)] assms(13) obtain inx where "inx < 1024" "off = ucast (1024 + of_nat inx :: u64)"
      by (auto split: if_splits)
    then show ?thesis using kernel_off by simp
  qed
  have "kfd_queue_id_to_doorbell kfd p (of_nat q) \<noteq> kfd_queue_id_to_doorbell kfd p' (of_nat q')" if "(p, q) \<noteq> (p', q')"
  proof
    assume "kfd_queue_id_to_doorbell kfd p (of_nat q) = kfd_queue_id_to_doorbell kfd p' (of_nat q')"
    then have e: "q + p * 1024 = q' + p' * 1024" using id [OF assms(8,10)] id [OF assms(9,11)] by simp
    have "q = (q + p * 1024) mod 1024" "q' = (q' + p' * 1024) mod 1024" using assms(10,11) by simp_all
    then have "q = q'" by (simp only: e)
    then show False using e that by simp
  qed
  moreover have "unat (kfd_queue_id_to_doorbell kfd p (of_nat q)) \<noteq> unat off"
    using off id [OF assms(8,10)] bound [OF assms(8)] by simp
  ultimately show ?thesis using page id [OF assms(8,10)] fits bound [OF assms(8)] assms(4) by auto
qed

theorem doorbells_isolated_witness:
  "\<exists>p s' off kfd'. (pool_step pasid_get kfd_pasid_free)\<^sup>*\<^sup>* (pasid_demo 13, []) (s', [p]) \<and>
    kfd_get_kernel_doorbell db_demo = Some (Some (0x90000, off), kfd') \<and>
    kfd_queue_id_to_doorbell db_demo p 7 \<noteq> kfd_queue_id_to_doorbell db_demo p 8 \<and> kfd_queue_id_to_doorbell db_demo p 7 \<noteq> off"
proof -
  obtain p s' where run: "(pool_step pasid_get kfd_pasid_free)\<^sup>*\<^sup>* (pasid_demo 13, []) (s', [p])" using pasid_demo_run by blast
  have same: "db_demo\<lparr>doorbell_available_index := replicate 1024 False\<rparr> = db_demo" by (simp add: db_demo_def)
  have ok: "kernel_doorbell_ok (db_demo\<lparr>doorbell_available_index := replicate 1024 False\<rparr>)"
    by (simp add: kernel_doorbell_ok_def db_demo_def)
  have "find_next_zero_bit (doorbell_available_index db_demo) 1024 0 = Some 0"
    by (rule find_zero_here) (simp_all add: db_demo_def)
  then obtain off kfd' where g: "kfd_get_kernel_doorbell (db_demo\<lparr>doorbell_available_index := replicate 1024 False\<rparr>) = Some (Some (0x90000, off), kfd')"
    unfolding same by (simp add: kfd_get_kernel_doorbell_def set_bit_at_def update_opt_def db_demo_def)
  have "kfd_queue_id_to_doorbell db_demo p (of_nat 7) \<noteq> kfd_queue_id_to_doorbell db_demo p (of_nat 8) \<and>
      kfd_queue_id_to_doorbell db_demo p (of_nat 7) \<noteq> off"
    using doorbells_isolated [OF db_demo_setup _ _ _ pasid_demo_init pasid_demo_limit run _ _ _ _ ok g, of p p 7 8] by simp
  then show ?thesis using run g [unfolded same] by auto
qed

text \<open>
  (C30) A doorbell BAR of two pages leaves no page for processes. The number of processes is computed as zero
  and then decremented, so that it does not limit the PASIDs: the first process gets a doorbell page that
  begins at the end of the BAR or behind it.
\<close>

theorem doorbell_two_page_bar:
  assumes "doorbell_setup bar_start (2 * 4096) ioremap kfd" "unat bar_start + 1024 * 4096 \<le> 2 ^ 64"
    and "kfd_pasid_init True s00 = (0, s0)" "ii_err iommu = 0" "ii_init_err iommu = 0" "ii_flags iommu AND flags = flags"
      "1 < ii_max_pasids iommu"
  shows "\<exists>s pasid s'. device_iommu_pasid_init iommu flags 16 kfd s0 = Some (True, s) \<and> kfd_pasid_alloc s = Some (pasid, s') \<and>
    pasid \<noteq> 0 \<and> unat bar_start + 2 * 4096 \<le> unat (kfd_get_process_doorbells kfd pasid)"
proof -
  let ?l = "device_pasid_limit 16 kfd (ii_max_pasids iommu)"
  have su: "doorbell_base kfd = bar_start + 4096" "doorbell_process_limit kfd = 0"
    using doorbell_setup_pages [OF assms(1)] by (simp_all add: word_unat_eq_iff)
  have l: "?l = min 65536 (ii_max_pasids iommu)"
  proof -
    have "min 65536 (ii_max_pasids iommu) \<le> (0xFFFFFFFF :: u32)" by (simp add: word_le_nat_alt) (use unat_lt_len [of "min 65536 (ii_max_pasids iommu)"] in simp)
    moreover have "ucast (- 1 :: u64) = (0xFFFFFFFF :: u32)"
    proof -
      have "(- 1 :: u64) = 0xFFFFFFFFFFFFFFFF" by simp
      then show ?thesis by (simp only: unsigned_numeral) simp
    qed
    ultimately show ?thesis by (simp add: device_pasid_limit_def su(2) min_absorb1)
  qed
  have l1: "1 < unat ?l" using assms(7) by (simp add: l min_def word_less_nat_alt)
  have s0: "pasid_ok s0" "pasid_limit s0 = 512" "bits_set (pasid_bitmap s0) = {0}"
    using pasid_init_start [OF assms(3)] by (simp_all add: pa.pool_start_def)
  have "{0} \<subseteq> {..< unat ?l}" using l1 by simp
  then obtain s where s: "kfd_set_pasid_limit (unat ?l) s0 = Some (True, s)" "pasid_ok s" "bits_set (pasid_bitmap s) = {0}" "pasid_limit s = min (unat ?l) 512"
    using set_limit_cases [OF s0(1), of "unat ?l"] s0 by auto
  have "device_iommu_pasid_init iommu flags 16 kfd s0 = Some (True, s)" using s(1) assms(4-6) by (simp add: device_iommu_pasid_init_def)
  moreover have "1 < pasid_limit s" "1 \<notin> bits_set (pasid_bitmap s)" using s l1 by simp_all
  from pa.get_free [OF s(2) this] obtain j s' where j: "pasid_get s = Some (Some j, s')" "j < pasid_limit s" by blast
  then have a: "kfd_pasid_alloc s = Some (j, s')" "j \<noteq> 0"
    by (auto simp: pasid_get_def Option.bind_eq_Some_conv split: if_splits)
  moreover have "unat (kfd_get_process_doorbells kfd j) = unat bar_start + 4096 + j * 4096"
    using process_page [OF su(1)] j(2) s(4) assms(2) by simp
  moreover have "4096 \<le> j * 4096" using a(2) by simp
  ultimately show ?thesis by auto
qed

theorem doorbell_two_page_bar_witness:
  "\<exists>kfd s pasid s'. doorbell_setup 0x10000 0x2000 (\<lambda>_. 0x90000) kfd \<and> kfd_pasid_alloc s = Some (pasid, s') \<and>
    0x12000 \<le> unat (kfd_get_process_doorbells kfd pasid)"
proof -
  let ?kfd = "db_demo\<lparr>doorbell_aperture_size := 0x2000, doorbell_process_limit := 0\<rparr>"
  have su: "doorbell_setup 0x10000 (2 * 4096) (\<lambda>_. 0x90000) ?kfd"
    unfolding doorbell_setup_def
    by (intro conjI exI [of _ "\<lparr>db_base = 0, db_size = 0, num_doorbells = 0\<rparr>"]
        exI [of _ "\<lparr>db_base = 0x10000, db_size = 0x2000, num_doorbells = 0x400\<rparr>"]
        exI [of _ "?kfd\<lparr>doorbell_base := 0, doorbell_id_offset := 0, doorbell_process_limit := 5, doorbell_kernel_ptr := 0\<rparr>"])
      (simp_all add: amdgpu_doorbell_init_def amdgpu_doorbell_get_kfd_info_def kfd_doorbell_init_def db_demo_def
        doorbell_process_allocation_def roundup_def rounddown_def Let_def)
  from doorbell_two_page_bar [OF this _ pasid_demo_init, of iommu_demo 7] obtain s pasid s' where
    "kfd_pasid_alloc s = Some (pasid, s')" "0x12000 \<le> unat (kfd_get_process_doorbells ?kfd pasid)"
    by (auto simp: iommu_demo_def)
  with su show ?thesis by auto
qed

text \<open>
  PASIDs are unique: whatever sequence of allocations and frees, those in use are different, not zero and
  below the limit. An allocation fails exactly when all of them are in use, a PASID in use can be freed, and
  the limit can be lowered to \<open>n\<close> exactly when no PASID from \<open>n\<close> on is in use.
\<close>

theorem pasids_unique:
  assumes "kfd_pasid_init True s00 = (0, s0)" "(pool_step pasid_get kfd_pasid_free)\<^sup>*\<^sup>* (s0, []) (s, pasids)"
  shows "distinct pasids \<and> set pasids \<subseteq> {1 ..< 512} \<and>
    (\<exists>pasid s'. kfd_pasid_alloc s = Some (pasid, s') \<and> (pasid = 0 \<longleftrightarrow> {1 ..< 512} \<subseteq> set pasids) \<and> pasid \<notin> set pasids) \<and>
    (\<forall>pasid \<in> set pasids. \<exists>s'. kfd_pasid_free pasid s = Some s') \<and>
    (n < 512 \<longrightarrow> (\<exists>b s'. kfd_set_pasid_limit n s = Some (b, s') \<and> (b \<longleftrightarrow> insert 0 (set pasids) \<subseteq> {..< n})))"
proof -
  have h: "pasid_ok s" "pasid_limit s = 512" "distinct pasids" "0 \<notin> set pasids" "set pasids \<subseteq> {..< 512}"
      "bits_set (pasid_bitmap s) = insert 0 (set pasids)"
    using pa.held_ids [OF pasid_init_start [OF assms(1)] assms(2)] by simp_all
  have full: "{..< 512} \<subseteq> insert 0 (set pasids) \<longleftrightarrow> {1 ..< 512} \<subseteq> set pasids"
  proof -
    have "{..< 512} = insert 0 {1 ..< 512 :: nat}" by auto
    then show ?thesis by (simp add: subset_insert)
  qed
  have "\<exists>pasid s'. kfd_pasid_alloc s = Some (pasid, s') \<and> (pasid = 0 \<longleftrightarrow> {1 ..< 512} \<subseteq> set pasids) \<and> pasid \<notin> set pasids"
  proof (cases "{1 ..< 512} \<subseteq> set pasids")
    case True
    then have "pasid_get s = Some (None, s)" using pa.get_full [OF h(1)] full h by simp
    then have "kfd_pasid_alloc s = Some (0, s)" by (auto simp: pasid_get_def Option.bind_eq_Some_conv split: if_splits)
    then show ?thesis using True h(4) by blast
  next
    case False
    then have "\<not> {..< pasid_limit s} \<subseteq> bits_set (pasid_bitmap s)" using full h by simp
    from pasid_get_cases [OF h(1), unfolded if_not_P [OF this]] obtain i s' where i: "pasid_get s = Some (Some i, s')" "i \<notin> bits_set (pasid_bitmap s)"
      by blast
    then have "kfd_pasid_alloc s = Some (i, s')" by (auto simp: pasid_get_def Option.bind_eq_Some_conv split: if_splits)
    then show ?thesis using False i(2) h(6) by auto
  qed
  moreover have "\<exists>s'. kfd_pasid_free pasid s = Some s'" if "pasid \<in> set pasids" for pasid
  proof -
    have "pasid \<in> bits_set (pasid_bitmap s)" "pasid \<notin> {0}" using that h(4,6) by (blast, metis singletonD)
    then show ?thesis using pa.put_used [OF h(1)] by blast
  qed
  moreover have "n < 512 \<longrightarrow> (\<exists>b s'. kfd_set_pasid_limit n s = Some (b, s') \<and> (b \<longleftrightarrow> insert 0 (set pasids) \<subseteq> {..< n}))"
    using set_limit_cases [OF h(1), of n] h(2,6) by auto
  moreover have "set pasids \<subseteq> {1 ..< 512}"
  proof
    fix x assume x: "x \<in> set pasids"
    then have "x \<noteq> 0" using h(4) by metis
    then show "x \<in> {1 ..< 512}" using subsetD [OF h(5) x] by simp
  qed
  ultimately show ?thesis using h(3) by blast
qed

theorem pasids_unique_witness: "\<exists>pasid s'. kfd_pasid_alloc (pasid_demo 512) = Some (pasid, s') \<and> pasid \<noteq> 0"
proof -
  have "\<not> {1 ..< 512 :: nat} \<subseteq> {}" by auto
  then show ?thesis using pasids_unique [OF pasid_demo_init rtranclp.rtrancl_refl, of 0] by (metis list.set(1))
qed

text \<open>
  Kernel queues get different doorbells. But when all 1024 are in use, the next call sets a bit behind the end
  of the bitmap before it notices that there is none left.
\<close>

theorem kernel_doorbells_unique:
  assumes "kernel_doorbell_ok kfd0" "doorbell_available_index kfd0 = replicate 1024 False"
    and "(pool_step kernel_doorbell_get kernel_doorbell_put)\<^sup>*\<^sup>* (kfd0, []) (kfd, held)"
  shows "distinct held \<and> set held \<subseteq> {..< 1024} \<and>
    (if length held = 1024 then kfd_get_kernel_doorbell kfd = None
     else \<exists>inx. inx < 1024 \<and> inx \<notin> set held \<and>
       (\<exists>kfd'. kfd_get_kernel_doorbell kfd = Some (Some (doorbell_kernel_ptr kfd + 4 * of_nat inx, of_nat (1024 + inx)), kfd')))"
proof -
  have "kd.pool_start 1024 (kfd0, [])" using assms(1,2) by (simp add: kd.pool_start_def)
  from kd.held_ids [OF this assms(3)] have h: "kernel_doorbell_ok kfd" "distinct held" "set held \<subseteq> {..< 1024}"
      "bits_set (doorbell_available_index kfd) = set held" by simp_all
  have "card (set held) = length held" using h(2) by (rule distinct_card)
  then have full: "length held = 1024 \<longleftrightarrow> set held = {..< 1024}" using h(3) card_subset_eq [of "{..< 1024 :: nat}" "set held"] by auto
  have "(of_nat (1024 + inx) :: u32) = ucast (1024 + of_nat inx :: u64)" if "inx < 1024" for inx
    using kernel_off [OF that] unat_of_nat_small [of "1024 + inx", where ?'a = 32] that by (simp add: word_unat_eq_iff)
  then show ?thesis using kernel_doorbell_cases [OF h(1)] h full by (auto split: if_splits)
qed

theorem kernel_doorbells_unique_witness:
  "\<exists>inx kfd'. inx < 1024 \<and> kfd_get_kernel_doorbell db_demo = Some (Some (0x90000 + 4 * of_nat inx, of_nat (1024 + inx)), kfd')"
proof -
  have d: "kernel_doorbell_ok db_demo" "doorbell_available_index db_demo = replicate 1024 False" "doorbell_kernel_ptr db_demo = 0x90000"
    by (simp_all add: kernel_doorbell_ok_def db_demo_def)
  show ?thesis using kernel_doorbells_unique [OF d(1,2) rtranclp.rtrancl_refl] d(3) by auto
qed

end
