(* ===== verification/Kfd_Mem.thy ===== *)
theory Kfd_Mem
  imports Prelude
begin

text \<open>
  The memory set-up of a process of the compute driver on a device: the apertures of
  \<open>kfd_flat_memory.c\<close>, and the values for the shader memory registers, computed in
  \<open>kfd_device_queue_manager.c\<close>, \<open>kfd_device_queue_manager.h\<close> and the files for the two chip families,
  \<open>kfd_device_queue_manager_cik.c\<close> and \<open>kfd_device_queue_manager_vi.c\<close>.
\<close>

section \<open>State\<close>

text \<open>
  \<open>struct kfd_process_device\<close> with the \<open>struct qcm_process_device\<close> inside it. Queues are named by
  numbers; their objects are in the model of the queue manager.
\<close>

record kfd_process_device =
  lds_base :: u64
  lds_limit :: u64
  gpuvm_base :: u64
  gpuvm_limit :: u64
  scratch_base :: u64
  scratch_limit :: u64
  bound :: bool
  reset_wavefronts :: bool
  queues_list :: "nat list"
  priv_queue_list :: "nat list"
  qpd_vmid :: u32
  is_debug :: bool
  sh_mem_config :: u32
  sh_mem_bases :: u32
  sh_mem_ape1_base :: u32
  sh_mem_ape1_limit :: u32

definition kfd_create_process_device_data :: kfd_process_device where
  "kfd_create_process_device_data = \<lparr>lds_base = 0, lds_limit = 0, gpuvm_base = 0, gpuvm_limit = 0, scratch_base = 0, scratch_limit = 0,
     bound = False, reset_wavefronts = False, queues_list = [], priv_queue_list = [], qpd_vmid = 0, is_debug = False,
     sh_mem_config = 0, sh_mem_bases = 0, sh_mem_ape1_base = 0, sh_mem_ape1_limit = 0\<rparr>"

section \<open>Apertures\<close>

definition make_gpuvm_app_base :: "u64 \<Rightarrow> u64" where
  "make_gpuvm_app_base gpu_num = push_bit 61 gpu_num + 0x1000000000000"

definition make_gpuvm_app_limit :: "u64 \<Rightarrow> u64" where
  "make_gpuvm_app_limit base = (base AND 0xFFFFFF0000000000) OR 0xFFFFFFFFFF"

definition make_scratch_app_base :: "u64 \<Rightarrow> u64" where
  "make_scratch_app_base gpu_num = push_bit 61 gpu_num + 0x100000000"

definition make_scratch_app_limit :: "u64 \<Rightarrow> u64" where
  "make_scratch_app_limit base = (base AND 0xFFFFFFFF00000000) OR 0xFFFFFFFF"

definition make_lds_app_base :: "u64 \<Rightarrow> u64" where
  "make_lds_app_base gpu_num = push_bit 61 gpu_num + 0"

definition make_lds_app_limit :: "u64 \<Rightarrow> u64" where
  "make_lds_app_limit base = (base AND 0xFFFFFFFF00000000) OR 0xFFFFFFFF"

text \<open>
  One round of \<open>kfd_init_apertures\<close>, and the loop over the devices: each flag tells whether there is memory
  for the data of the process on the device. \<open>NUM_OF_SUPPORTED_GPUS\<close>, a constant of a kernel header, is
  an argument.
\<close>

definition init_aperture :: "bool \<Rightarrow> nat \<Rightarrow> kfd_process_device \<Rightarrow> kfd_process_device" where
  "init_aperture is_32bit_user_mode node pdd =
     (if is_32bit_user_mode then
        pdd\<lparr>lds_base := 0, lds_limit := 0, gpuvm_base := 0, gpuvm_limit := 0, scratch_base := 0, scratch_limit := 0\<rparr>
      else
        (let n = of_nat (node + 1)
         in pdd\<lparr>lds_base := make_lds_app_base n, lds_limit := make_lds_app_limit (make_lds_app_base n),
              gpuvm_base := make_gpuvm_app_base n, gpuvm_limit := make_gpuvm_app_limit (make_gpuvm_app_base n),
              scratch_base := make_scratch_app_base n, scratch_limit := make_scratch_app_limit (make_scratch_app_base n)\<rparr>))"

fun init_apertures_loop ::
  "nat \<Rightarrow> bool \<Rightarrow> nat \<Rightarrow> bool list \<Rightarrow> kfd_process_device list \<Rightarrow> int \<times> kfd_process_device list" where
  "init_apertures_loop num_gpus is_32bit node [] pdds = (0, pdds)"
| "init_apertures_loop num_gpus is_32bit node (kzalloc_ok # devs) pdds =
     (if \<not> node < num_gpus then (0, pdds)
      else if \<not> kzalloc_ok then (- 1, pdds)
      else init_apertures_loop num_gpus is_32bit (Suc node) devs (pdds @ [init_aperture is_32bit node kfd_create_process_device_data]))"

definition kfd_init_apertures :: "nat \<Rightarrow> bool \<Rightarrow> bool list \<Rightarrow> int \<times> kfd_process_device list" where
  "kfd_init_apertures num_gpus is_32bit devs = init_apertures_loop num_gpus is_32bit 0 devs []"

section \<open>Shader memory registers\<close>

datatype cache_policy = Cache_policy_coherent | Cache_policy_noncoherent

datatype asic_family = Chip_kaveri | Chip_carrizo

definition get_sh_mem_bases_32 :: "kfd_process_device \<Rightarrow> u32" where
  "get_sh_mem_bases_32 pdd = ucast (drop_bit 16 (lds_base pdd)) AND 0xFF"

definition get_sh_mem_bases_nybble_64 :: "kfd_process_device \<Rightarrow> u32" where
  "get_sh_mem_bases_nybble_64 pdd = ucast (drop_bit 60 (lds_base pdd)) AND 0x0E"

text \<open>The same function in the files of both chips; \<open>BUG_ON\<close> is \<open>None\<close>.\<close>

definition compute_sh_mem_bases_64bit :: "u32 \<Rightarrow> u32 option" where
  "compute_sh_mem_bases_64bit nybble =
     (if nybble AND 1 \<noteq> 0 \<or> nybble > 0xE \<or> nybble = 0 then None
      else Some (push_bit 12 nybble OR push_bit 16 (push_bit 12 nybble)))"

definition set_cache_memory_policy_cik :: "cache_policy \<Rightarrow> cache_policy \<Rightarrow> kfd_process_device \<Rightarrow> kfd_process_device" where
  "set_cache_memory_policy_cik default_policy alternate_policy qpd =
     (let default_mtype = (if default_policy = Cache_policy_coherent then 3 else 0);
          ape1_mtype = (if alternate_policy = Cache_policy_coherent then 3 else 0)
      in qpd\<lparr>sh_mem_config := (sh_mem_config qpd AND 1) OR push_bit 2 3 OR push_bit 4 default_mtype OR push_bit 7 ape1_mtype\<rparr>)"

definition set_cache_memory_policy_vi :: "cache_policy \<Rightarrow> cache_policy \<Rightarrow> kfd_process_device \<Rightarrow> kfd_process_device" where
  "set_cache_memory_policy_vi default_policy alternate_policy qpd =
     (let default_mtype = (if default_policy = Cache_policy_coherent then 2 else 1);
          ape1_mtype = (if alternate_policy = Cache_policy_coherent then 2 else 1)
      in qpd\<lparr>sh_mem_config := (sh_mem_config qpd AND 3) OR push_bit 3 3 OR push_bit 5 default_mtype OR push_bit 8 ape1_mtype OR 4\<rparr>)"

definition register_process_cik :: "bool \<Rightarrow> kfd_process_device \<Rightarrow> kfd_process_device option" where
  "register_process_cik is_32bit qpd =
     (let qpd = (if sh_mem_config qpd = 0
            then qpd\<lparr>sh_mem_config := push_bit 2 3 OR push_bit 4 3 OR push_bit 7 3, sh_mem_ape1_limit := 0, sh_mem_ape1_base := 0\<rparr>
            else qpd)
      in if is_32bit
         then Some (qpd\<lparr>sh_mem_bases := push_bit 16 (get_sh_mem_bases_32 qpd), sh_mem_config := sh_mem_config qpd OR 1\<rparr>)
         else do {
           bases \<leftarrow> compute_sh_mem_bases_64bit (get_sh_mem_bases_nybble_64 qpd);
           Some (qpd\<lparr>sh_mem_bases := bases\<rparr>)
         })"

definition register_process_vi :: "bool \<Rightarrow> kfd_process_device \<Rightarrow> kfd_process_device option" where
  "register_process_vi is_32bit qpd =
     (let qpd = (if sh_mem_config qpd = 0
            then qpd\<lparr>sh_mem_config := push_bit 3 3 OR push_bit 5 2 OR push_bit 8 2 OR 4, sh_mem_ape1_limit := 0, sh_mem_ape1_base := 0\<rparr>
            else qpd)
      in if is_32bit
         then Some (qpd\<lparr>sh_mem_bases := push_bit 16 (get_sh_mem_bases_32 qpd), sh_mem_config := sh_mem_config qpd OR 3\<rparr>)
         else do {
           bases \<leftarrow> compute_sh_mem_bases_64bit (get_sh_mem_bases_nybble_64 qpd);
           Some (qpd\<lparr>sh_mem_bases := bases, sh_mem_config := sh_mem_config qpd OR 2\<rparr>)
         })"

text \<open>The same function in the files of both chips: the value for \<open>sdma_vm_addr\<close> of a queue.\<close>

definition init_sdma_vm :: "bool \<Rightarrow> kfd_process_device \<Rightarrow> u32" where
  "init_sdma_vm is_32bit qpd =
     (if is_32bit then 1 OR (push_bit 4 1 OR get_sh_mem_bases_32 qpd)
      else 1 OR (push_bit 8 (get_sh_mem_bases_nybble_64 qpd) AND 0x700))"

text \<open>
  \<open>set_cache_memory_policy\<close> without the write of the registers, which is in the model of the queue
  manager: \<open>None\<close> when it returns false.
\<close>

definition ape1_policy :: "asic_family \<Rightarrow> cache_policy \<Rightarrow> cache_policy \<Rightarrow> u64 \<Rightarrow> u64 \<Rightarrow> kfd_process_device \<Rightarrow> kfd_process_device option" where
  "ape1_policy family default_policy alternate_policy alternate_aperture_base alternate_aperture_size qpd =
     (let apply_policy = (case family of Chip_kaveri \<Rightarrow> set_cache_memory_policy_cik | Chip_carrizo \<Rightarrow> set_cache_memory_policy_vi)
      in if alternate_aperture_size = 0
         then Some (apply_policy default_policy alternate_policy (qpd\<lparr>sh_mem_ape1_base := 1, sh_mem_ape1_limit := 0\<rparr>))
         else
           (let base = alternate_aperture_base; limit = base + alternate_aperture_size - 1
            in if limit \<le> base then None
               else if base AND 0xFFFF80000000FFFF \<noteq> 0 then None
               else if limit AND 0xFFFF80000000FFFF \<noteq> 0xFFFF then None
               else Some (apply_policy default_policy alternate_policy
                 (qpd\<lparr>sh_mem_ape1_base := ucast (drop_bit 16 base), sh_mem_ape1_limit := ucast (drop_bit 16 limit)\<rparr>))))"

section \<open>Apertures are disjoint\<close>

lemma app_values:
  assumes "1 \<le> n" "n \<le> 7"
  shows "unat (make_lds_app_base (of_nat n)) = n * 2 ^ 61"
    "unat (make_lds_app_limit (make_lds_app_base (of_nat n))) = n * 2 ^ 61 + (2 ^ 32 - 1)"
    "unat (make_scratch_app_base (of_nat n)) = n * 2 ^ 61 + 2 ^ 32"
    "unat (make_scratch_app_limit (make_scratch_app_base (of_nat n))) = n * 2 ^ 61 + (2 ^ 33 - 1)"
    "unat (make_gpuvm_app_base (of_nat n)) = n * 2 ^ 61 + 2 ^ 48"
    "unat (make_gpuvm_app_limit (make_gpuvm_app_base (of_nat n))) = n * 2 ^ 61 + (2 ^ 48 + 2 ^ 40 - 1)"
    "(ucast (drop_bit 60 (make_lds_app_base (of_nat n))) AND 0x0E :: u32) = of_nat (2 * n)"
    "compute_sh_mem_bases_64bit (of_nat (2 * n)) = Some (of_nat (2 * n) * 0x10001000)"
proof -
  have "n = 1 \<or> n = 2 \<or> n = 3 \<or> n = 4 \<or> n = 5 \<or> n = 6 \<or> n = 7" using assms by linarith
  then show "unat (make_lds_app_base (of_nat n)) = n * 2 ^ 61"
    "unat (make_lds_app_limit (make_lds_app_base (of_nat n))) = n * 2 ^ 61 + (2 ^ 32 - 1)"
    "unat (make_scratch_app_base (of_nat n)) = n * 2 ^ 61 + 2 ^ 32"
    "unat (make_scratch_app_limit (make_scratch_app_base (of_nat n))) = n * 2 ^ 61 + (2 ^ 33 - 1)"
    "unat (make_gpuvm_app_base (of_nat n)) = n * 2 ^ 61 + 2 ^ 48"
    "unat (make_gpuvm_app_limit (make_gpuvm_app_base (of_nat n))) = n * 2 ^ 61 + (2 ^ 48 + 2 ^ 40 - 1)"
    "(ucast (drop_bit 60 (make_lds_app_base (of_nat n))) AND 0x0E :: u32) = of_nat (2 * n)"
    "compute_sh_mem_bases_64bit (of_nat (2 * n)) = Some (of_nat (2 * n) * 0x10001000)"
    by (elim disjE; simp add: make_lds_app_base_def make_lds_app_limit_def make_scratch_app_base_def make_scratch_app_limit_def
        make_gpuvm_app_base_def make_gpuvm_app_limit_def compute_sh_mem_bases_64bit_def)+
qed

lemma init_apertures_loop_nth:
  assumes "init_apertures_loop num_gpus is_32bit node devs pdds = (r, pdds')" "length pdds = node" "node \<le> num_gpus"
    "\<forall>i < length pdds. pdds ! i = init_aperture is_32bit i kfd_create_process_device_data"
  shows "length pdds' \<le> num_gpus \<and> (\<forall>i < length pdds'. pdds' ! i = init_aperture is_32bit i kfd_create_process_device_data)"
  using assms
proof (induction devs arbitrary: node pdds)
  case (Cons ok devs)
  let ?p = "pdds @ [init_aperture is_32bit node kfd_create_process_device_data]"
  show ?case
  proof (cases "node < num_gpus \<and> ok")
    case True
    then have "init_apertures_loop num_gpus is_32bit (Suc node) devs ?p = (r, pdds')" using Cons.prems(1) by simp
    from Cons.IH [OF this] True Cons.prems show ?thesis by (auto simp: nth_append less_Suc_eq)
  next
    case False
    then show ?thesis using Cons.prems by (auto split: if_splits)
  qed
qed auto

text \<open>The three apertures of a process on a device, as first and last address.\<close>

definition apertures :: "kfd_process_device \<Rightarrow> (u64 \<times> u64) list" where
  "apertures pdd = [(lds_base pdd, lds_limit pdd), (scratch_base pdd, scratch_limit pdd), (gpuvm_base pdd, gpuvm_limit pdd)]"

lemma aperture_range:
  assumes "i < 7" "k < 3" "pdd = init_aperture False i kfd_create_process_device_data" "apertures pdd ! k = (b, l)"
  shows "unat b = Suc i * 2 ^ 61 + [0, 2 ^ 32, 2 ^ 48] ! k" "unat l = Suc i * 2 ^ 61 + [2 ^ 32 - 1, 2 ^ 33 - 1, 2 ^ 48 + 2 ^ 40 - 1] ! k"
proof -
  have n: "1 \<le> Suc i" "Suc i \<le> 7" using assms(1) by simp_all
  note v = app_values(1-6) [OF n]
  have "k = 0 \<or> k = 1 \<or> k = 2" using assms(2) by linarith
  then show "unat b = Suc i * 2 ^ 61 + [0, 2 ^ 32, 2 ^ 48] ! k" "unat l = Suc i * 2 ^ 61 + [2 ^ 32 - 1, 2 ^ 33 - 1, 2 ^ 48 + 2 ^ 40 - 1] ! k"
    using assms(3,4) v by (auto simp: apertures_def init_aperture_def Let_def)
qed

section \<open>The registers of the second aperture\<close>

text \<open>
  The address that the hardware makes of a register value: 16 copies of its sign, its 32 bits, and 16
  zeros for the base or ones for the limit.
\<close>

definition fsa64 :: "u32 \<Rightarrow> u64 \<Rightarrow> u64" where
  "fsa64 reg low = push_bit 16 (scast reg) OR low"

lemma ape1_mask: "(0xFFFF80000000FFFF :: u64) = mask 16 OR NOT (mask 47)" "(0xFFFF :: u64) = mask 16"
  by (simp_all add: mask_eq_exp_minus_1)

lemma bit_fsa64: "bit (fsa64 r low) n = (n < 64 \<and> (16 \<le> n \<and> bit r (min 31 (n - 16)) \<or> bit low n))"
  by (auto simp: fsa64_def bit_or_iff bit_push_bit_iff bit_signed_iff bit_imp_le_length min_def dest: bit_imp_le_length)

text \<open>The bits that a register can hold are 16 to 46 of a user-mode address.\<close>

lemma fsa64_fits:
  assumes "\<And>n. bit a n \<longleftrightarrow> bit low n \<and> n < 16 \<or> 16 \<le> n \<and> n < 47 \<and> bit a n" "\<And>n. bit low n \<Longrightarrow> n < 16"
  shows "fsa64 (ucast (drop_bit 16 a)) low = a" "\<not> bit (ucast (drop_bit 16 a) :: u32) 31"
proof -
  have b: "bit (ucast (drop_bit 16 a) :: u32) k = (k < 31 \<and> bit a (16 + k))" for k
    using assms(1) [of "16 + k"] by (auto simp: bit_unsigned_iff bit_drop_bit_eq)
  then show "\<not> bit (ucast (drop_bit 16 a) :: u32) 31" by simp
  show "fsa64 (ucast (drop_bit 16 a)) low = a"
  proof (rule bit_word_eqI)
    fix n assume "n < LENGTH(64)"
    then show "bit (fsa64 (ucast (drop_bit 16 a)) low) n = bit a n"
      using assms(1) [of n] assms(2) [of n] by (auto simp: bit_fsa64 b min_def split: if_splits)
  qed
qed

lemma ape1_base_fits:
  "(a AND 0xFFFF80000000FFFF = 0) = (\<exists>r. \<not> bit r 31 \<and> fsa64 r 0 = a)"
  "a AND 0xFFFF80000000FFFF = 0 \<Longrightarrow> fsa64 (ucast (drop_bit 16 a)) 0 = a"
proof -
  have d: "fsa64 (ucast (drop_bit 16 a)) 0 = a \<and> \<not> bit (ucast (drop_bit 16 a) :: u32) 31" if "a AND 0xFFFF80000000FFFF = 0"
  proof -
    have "\<not> bit (a AND 0xFFFF80000000FFFF) n" for n using that by simp
    then have nb: "\<not> (bit a n \<and> n < 64 \<and> (n < 16 \<or> \<not> n < 47))" for n unfolding ape1_mask by (simp add: bit_simps)
    have "bit a n \<longleftrightarrow> bit (0 :: u64) n \<and> n < 16 \<or> 16 \<le> n \<and> n < 47 \<and> bit a n" for n
      using nb [of n] bit_imp_le_length [of a n] by auto
    from fsa64_fits [OF this] show ?thesis by simp
  qed
  then show "a AND 0xFFFF80000000FFFF = 0 \<Longrightarrow> fsa64 (ucast (drop_bit 16 a)) 0 = a" by blast
  have "fsa64 r 0 AND 0xFFFF80000000FFFF = 0" if "\<not> bit r 31" for r
    unfolding ape1_mask
  proof (rule bit_word_eqI)
    fix n assume n: "n < LENGTH(64)"
    have "n < 47 \<or> min 31 (n - 16) = 31" by auto
    then show "bit (fsa64 r 0 AND (mask 16 OR NOT (mask 47))) n = bit (0 :: u64) n" using that n by (elim disjE) (auto simp: bit_simps bit_fsa64)
  qed
  then show "(a AND 0xFFFF80000000FFFF = 0) = (\<exists>r. \<not> bit r 31 \<and> fsa64 r 0 = a)" using d by blast
qed

lemma ape1_limit_fits:
  "(a AND 0xFFFF80000000FFFF = 0xFFFF) = (\<exists>r. \<not> bit r 31 \<and> fsa64 r 0xFFFF = a)"
  "a AND 0xFFFF80000000FFFF = 0xFFFF \<Longrightarrow> fsa64 (ucast (drop_bit 16 a)) 0xFFFF = a"
proof -
  have d: "fsa64 (ucast (drop_bit 16 a)) 0xFFFF = a \<and> \<not> bit (ucast (drop_bit 16 a) :: u32) 31" if "a AND 0xFFFF80000000FFFF = 0xFFFF"
  proof -
    have "bit (a AND 0xFFFF80000000FFFF) n = bit (0xFFFF :: u64) n" for n using that by simp
    then have nb: "bit (a AND (mask 16 OR NOT (mask 47))) n = bit (mask 16 :: u64) n" for n by (simp only: ape1_mask)
    have "bit a n \<longleftrightarrow> bit (0xFFFF :: u64) n \<and> n < 16 \<or> 16 \<le> n \<and> n < 47 \<and> bit a n" for n
      using nb [of n] bit_imp_le_length [of a n] unfolding ape1_mask by (auto simp: bit_simps)
    from fsa64_fits [OF this] show ?thesis by (simp add: ape1_mask bit_simps)
  qed
  then show "a AND 0xFFFF80000000FFFF = 0xFFFF \<Longrightarrow> fsa64 (ucast (drop_bit 16 a)) 0xFFFF = a" by blast
  have "fsa64 r 0xFFFF AND 0xFFFF80000000FFFF = 0xFFFF" if "\<not> bit r 31" for r
    unfolding ape1_mask
  proof (rule bit_word_eqI)
    fix n assume n: "n < LENGTH(64)"
    have "n < 47 \<or> min 31 (n - 16) = 31" by auto
    then show "bit (fsa64 r (mask 16) AND (mask 16 OR NOT (mask 47))) n = bit (mask 16 :: u64) n" using that n by (elim disjE) (auto simp: bit_simps bit_fsa64)
  qed
  then show "(a AND 0xFFFF80000000FFFF = 0xFFFF) = (\<exists>r. \<not> bit r 31 \<and> fsa64 r 0xFFFF = a)" using d by blast
qed

text \<open>The places of the apertures inside the part of a device.\<close>

lemma aperture_offsets:
  assumes "k < 3"
  shows "[0, 2 ^ 32, 2 ^ 48] ! k \<le> [2 ^ 32 - 1, 2 ^ 33 - 1, 2 ^ 48 + 2 ^ 40 - 1 :: nat] ! k"
    "[2 ^ 32 - 1, 2 ^ 33 - 1, 2 ^ 48 + 2 ^ 40 - 1 :: nat] ! k < 2 ^ 61"
proof -
  have "k = 0 \<or> k = 1 \<or> k = 2" using assms by linarith
  then show "[0, 2 ^ 32, 2 ^ 48] ! k \<le> [2 ^ 32 - 1, 2 ^ 33 - 1, 2 ^ 48 + 2 ^ 40 - 1 :: nat] ! k"
    "[2 ^ 32 - 1, 2 ^ 33 - 1, 2 ^ 48 + 2 ^ 40 - 1 :: nat] ! k < 2 ^ 61" by (elim disjE; simp)+
qed

lemma aperture_offsets_apart:
  assumes "k < 3" "m < 3" "k \<noteq> m"
  shows "[2 ^ 32 - 1, 2 ^ 33 - 1, 2 ^ 48 + 2 ^ 40 - 1 :: nat] ! k < [0, 2 ^ 32, 2 ^ 48] ! m \<or>
    [2 ^ 32 - 1, 2 ^ 33 - 1, 2 ^ 48 + 2 ^ 40 - 1 :: nat] ! m < [0, 2 ^ 32, 2 ^ 48] ! k"
proof -
  have "k = 0 \<or> k = 1 \<or> k = 2" "m = 0 \<or> m = 1 \<or> m = 2" using assms(1,2) by linarith+
  then show ?thesis using assms(3) by (elim disjE) simp_all
qed

lemma aperture_apart:
  assumes "k < 3" "m < 3" "(i, k) \<noteq> (j, m)"
  shows "Suc i * 2 ^ 61 + [2 ^ 32 - 1, 2 ^ 33 - 1, 2 ^ 48 + 2 ^ 40 - 1] ! k < Suc j * 2 ^ 61 + [0, 2 ^ 32, 2 ^ 48 :: nat] ! m \<or>
    Suc j * 2 ^ 61 + [2 ^ 32 - 1, 2 ^ 33 - 1, 2 ^ 48 + 2 ^ 40 - 1] ! m < Suc i * 2 ^ 61 + [0, 2 ^ 32, 2 ^ 48 :: nat] ! k"
proof (cases "i = j")
  case True
  then show ?thesis using aperture_offsets_apart [OF assms(1,2)] assms(3) by (simp only: nat_add_left_cancel_less) blast
next
  case False
  have below: "Suc a * 2 ^ 61 + x < Suc b * 2 ^ 61 + y" if "a < b" "x < 2 ^ 61" for a b x y :: nat
  proof -
    have "Suc a * 2 ^ 61 + 2 ^ 61 \<le> Suc b * (2 :: nat) ^ 61" using that(1) by simp
    then show ?thesis using that(2) by linarith
  qed
  from False have "i < j \<or> j < i" by linarith
  then show ?thesis using below aperture_offsets(2) [OF assms(1)] aperture_offsets(2) [OF assms(2)] by blast
qed

section \<open>Properties\<close>

text \<open>
  (C17) The apertures that a 64-bit process gets for its local, scratch and video memory are not empty and do not
  overlap, on one device and between devices. On every device, of the older and of the newer generation, the
  registration of the process succeeds, and the base register it computes holds the upper four bits of the
  local aperture in both of its halves.
\<close>

theorem apertures_disjoint:
  assumes "num_gpus \<le> 7" "kfd_init_apertures num_gpus False devs = (r, pdds)" "i < length pdds" "j < length pdds" "k < 3" "m < 3"
    "apertures (pdds ! i) ! k = (b, l)" "apertures (pdds ! j) ! m = (b', l')"
  shows "b \<le> l \<and> ((i, k) \<noteq> (j, m) \<longrightarrow> l < b' \<or> l' < b) \<and>
    (\<forall>register \<in> {register_process_cik, register_process_vi}. \<exists>qpd. register False (pdds ! i) = Some qpd \<and>
      (\<forall>s \<in> {12, 28}. drop_bit s (sh_mem_bases qpd) AND 0xF = ucast (drop_bit 60 (lds_base (pdds ! i)))))"
proof -
  have "length pdds \<le> num_gpus \<and> (\<forall>i < length pdds. pdds ! i = init_aperture False i kfd_create_process_device_data)"
    using init_apertures_loop_nth [of num_gpus False 0 devs "[]" r pdds] assms(2) by (simp add: kfd_init_apertures_def)
  then have p: "i < 7" "j < 7" "pdds ! i = init_aperture False i kfd_create_process_device_data"
      "pdds ! j = init_aperture False j kfd_create_process_device_data" using assms(1,3,4) by auto
  note x = aperture_range [OF p(1) assms(5) p(3) assms(7)] aperture_range [OF p(2) assms(6) p(4) assms(8)]
  have le: "b \<le> l" using x(1,2) aperture_offsets(1) [OF assms(5)] by (simp add: word_le_nat_alt)
  have dis: "l < b' \<or> l' < b" if "(i, k) \<noteq> (j, m)"
    using aperture_apart [OF assms(5,6) that] x by (simp only: word_less_nat_alt)
  have n: "1 \<le> Suc i" "Suc i \<le> 7" using p(1) by simp_all
  have nyb: "get_sh_mem_bases_nybble_64 (pdds ! i) = of_nat (2 * Suc i)" "lds_base (pdds ! i) = make_lds_app_base (of_nat (Suc i))"
      "sh_mem_config (pdds ! i) = 0"
    using app_values(7) [OF n] by (simp_all add: p(3) get_sh_mem_bases_nybble_64_def init_aperture_def kfd_create_process_device_data_def Let_def)
  have "\<exists>qpd. register False (pdds ! i) = Some qpd \<and> sh_mem_bases qpd = of_nat (2 * Suc i) * 0x10001000"
    if "register \<in> {register_process_cik, register_process_vi}" for register
    using that app_values(8) [OF n] nyb by (auto simp: register_process_cik_def register_process_vi_def get_sh_mem_bases_nybble_64_def Let_def)
  moreover have "drop_bit s (of_nat (2 * Suc i) * 0x10001000 :: u32) AND 0xF = ucast (drop_bit 60 (make_lds_app_base (of_nat (Suc i))))"
    if "s \<in> {12, 28}" for s
  proof -
    have "i = 0 \<or> i = 1 \<or> i = 2 \<or> i = 3 \<or> i = 4 \<or> i = 5 \<or> i = 6" using p(1) by linarith
    then show ?thesis using that by (elim disjE) (auto simp: make_lds_app_base_def)
  qed
  ultimately show ?thesis using le dis nyb(2) by metis
qed

theorem apertures_disjoint_witness:
  "\<exists>p q. kfd_init_apertures 7 False [True, True] = (0, [p, q]) \<and> lds_base p \<le> lds_limit p \<and> (lds_limit p < gpuvm_base q \<or> gpuvm_limit q < lds_base p)"
proof -
  obtain p q where pq: "kfd_init_apertures 7 False [True, True] = (0, [p, q])" by (simp add: kfd_init_apertures_def)
  have "apertures ([p, q] ! 0) ! 0 = (lds_base p, lds_limit p)" "apertures ([p, q] ! 1) ! 2 = (gpuvm_base q, gpuvm_limit q)"
    by (simp_all add: apertures_def)
  from apertures_disjoint [OF _ pq _ _ _ _ this] show ?thesis using pq by simp
qed

lemma policy_keeps [simp]:
  "sh_mem_ape1_base (set_cache_memory_policy_cik dp ap q) = sh_mem_ape1_base q" "sh_mem_ape1_limit (set_cache_memory_policy_cik dp ap q) = sh_mem_ape1_limit q"
  "sh_mem_ape1_base (set_cache_memory_policy_vi dp ap q) = sh_mem_ape1_base q" "sh_mem_ape1_limit (set_cache_memory_policy_vi dp ap q) = sh_mem_ape1_limit q"
  by (simp_all add: set_cache_memory_policy_cik_def set_cache_memory_policy_vi_def Let_def)

lemma ape1_user_mode:
  assumes "(a :: u64) AND 0xFFFF80000000FFFF = w" "\<not> bit w 47"
  shows "\<not> bit (ucast (drop_bit 16 a) :: u32) 31"
proof -
  have "bit (a AND 0xFFFF80000000FFFF) 47 = bit a 47" by (simp add: bit_and_iff)
  then have "\<not> bit a 47" using assms by simp
  then show ?thesis by (simp add: bit_simps)
qed

text \<open>
  (C18) The second aperture of a process: a policy of size zero disables it. Otherwise the policy is accepted exactly
  when its range has more than one byte and the two registers can express its first and its last address with
  their sign bits clear, which makes it a range of user-mode addresses; and then the registers hold this range.
\<close>

theorem ape1_policy_roundtrip:
  "case ape1_policy family dp ap base sz qpd of
     Some q \<Rightarrow> (if sz = 0 then sh_mem_ape1_limit q < sh_mem_ape1_base q
       else fsa64 (sh_mem_ape1_base q) 0 = base \<and> fsa64 (sh_mem_ape1_limit q) 0xFFFF = base + sz - 1 \<and> base < base + sz - 1 \<and>
         \<not> bit (sh_mem_ape1_base q) 31 \<and> \<not> bit (sh_mem_ape1_limit q) 31)
   | None \<Rightarrow> sz \<noteq> 0 \<and> \<not> (base < base + sz - 1 \<and> (\<exists>b. \<not> bit b 31 \<and> fsa64 b 0 = base) \<and> (\<exists>l. \<not> bit l 31 \<and> fsa64 l 0xFFFF = base + sz - 1))"
proof -
  let ?l = "base + sz - 1"
  consider (zero) "sz = 0" | (bad) "sz \<noteq> 0" "\<not> (base < ?l \<and> base AND 0xFFFF80000000FFFF = 0 \<and> ?l AND 0xFFFF80000000FFFF = 0xFFFF)"
    | (good) "sz \<noteq> 0" "base < ?l" "base AND 0xFFFF80000000FFFF = 0" "?l AND 0xFFFF80000000FFFF = 0xFFFF" by blast
  then show ?thesis
  proof cases
    case zero
    then show ?thesis by (simp add: ape1_policy_def Let_def split: asic_family.split)
  next
    case bad
    have "ape1_policy family dp ap base sz qpd = None" using bad by (auto simp: ape1_policy_def Let_def not_le)
    then show ?thesis using bad by (simp add: ape1_base_fits(1) [symmetric] ape1_limit_fits(1) [symmetric])
  next
    case good
    let ?q = "qpd\<lparr>sh_mem_ape1_base := ucast (drop_bit 16 base), sh_mem_ape1_limit := ucast (drop_bit 16 ?l)\<rparr>"
    have "ape1_policy family dp ap base sz qpd =
        Some (case family of Chip_kaveri \<Rightarrow> set_cache_memory_policy_cik dp ap ?q | Chip_carrizo \<Rightarrow> set_cache_memory_policy_vi dp ap ?q)"
      using good by (simp add: ape1_policy_def Let_def split: asic_family.split)
    then show ?thesis using good ape1_base_fits(2) [OF good(3)] ape1_limit_fits(2) [OF good(4)] ape1_user_mode [OF good(3)] ape1_user_mode [OF good(4)]
      by (simp split: asic_family.split)
  qed
qed

end
