(* ===== verification/Kfd_Gtt.thy ===== *)
theory Kfd_Gtt
  imports Machine Bitmap
begin

text \<open>
  The sub-allocator of the compute driver for memory of the graphics aperture, \<open>kfd_gtt_sa\<close> in
  \<open>kfd_device.c\<close>: a buffer in chunks with one bit per chunk. An access outside the bitmap is
  \<open>None\<close> or \<open>Fault\<close>, and so is \<open>BUG_ON\<close>. Numbers of chunks are natural numbers: they
  are at most \<open>gtt_sa_num_of_chunks\<close>, an \<open>unsigned int\<close>, and never wrap.
\<close>

section \<open>State\<close>

record kfd_mem_obj =
  mo_range_start :: nat
  mo_range_end :: nat
  mo_gpu_addr :: u64
  mo_cpu_ptr :: u64

record kfd_gtt =
  gtt_start_gpu_addr :: u64
  gtt_start_cpu_ptr :: u64
  gtt_sa_bitmap :: "bool list"
  gtt_sa_chunk_size :: u32
  gtt_sa_num_of_chunks :: u32

section \<open>Operations\<close>

text \<open>
  The flag tells whether \<open>kzalloc\<close> succeeds; it gets the number of whole bytes that the chunks fill.
\<close>

definition kfd_gtt_sa_init :: "bool \<Rightarrow> u32 \<Rightarrow> u32 \<Rightarrow> kfd_gtt \<Rightarrow> (int \<times> kfd_gtt) option" where
  "kfd_gtt_sa_init kzalloc_ok buf_size chunk_size kfd =
     (if buf_size < chunk_size \<or> buf_size = 0 \<or> chunk_size = 0 then None
      else
        (let kfd = kfd\<lparr>gtt_sa_chunk_size := chunk_size, gtt_sa_num_of_chunks := buf_size div chunk_size\<rparr>;
             num_of_bits = gtt_sa_num_of_chunks kfd div 8
         in if num_of_bits = 0 then None
            else if \<not> kzalloc_ok then Some (- 12, kfd\<lparr>gtt_sa_bitmap := []\<rparr>)
            else Some (0, kfd\<lparr>gtt_sa_bitmap := replicate (8 * unat num_of_bits) False\<rparr>)))"

definition kfd_gtt_sa_calc_gpu_addr :: "u64 \<Rightarrow> nat \<Rightarrow> u32 \<Rightarrow> u64" where
  "kfd_gtt_sa_calc_gpu_addr start_addr bit_num chunk_size = start_addr + ucast (of_nat bit_num * chunk_size)"

definition kfd_gtt_sa_calc_cpu_addr :: "u64 \<Rightarrow> nat \<Rightarrow> u32 \<Rightarrow> u64" where
  "kfd_gtt_sa_calc_cpu_addr start_addr bit_num chunk_size = start_addr + ucast (of_nat bit_num * chunk_size)"

text \<open>
  The search of \<open>kfd_gtt_sa_allocate\<close>. The inner loop looks for contiguous chunks after \<open>found\<close>:
  it finds the last one, has to restart at a chunk, or reaches the end of the buffer.
\<close>

datatype gtt_found = Range nat | Restart nat | No_free_chunk

function gtt_extend :: "kfd_gtt \<Rightarrow> nat \<Rightarrow> u32 \<Rightarrow> gtt_found option" where
  "gtt_extend kfd found cur_size =
     (let found = Suc found; num = unat (gtt_sa_num_of_chunks kfd)
      in case find_next_zero_bit (gtt_sa_bitmap kfd) num found of
           None \<Rightarrow> None
         | Some range_end \<Rightarrow>
             if range_end \<noteq> found then Some (Restart found)
             else if found = num then Some No_free_chunk
             else
               (let cur_size = (if cur_size \<le> gtt_sa_chunk_size kfd then 0 else cur_size - gtt_sa_chunk_size kfd)
                in if cur_size > 0 then gtt_extend kfd found cur_size else Some (Range range_end)))"
  by pat_completeness auto
termination
  by (relation "measure (\<lambda>(kfd, found, cur_size). unat (gtt_sa_num_of_chunks kfd) - found)")
    (auto simp: find_next_zero_bit_def dest: scan_bits_le)

declare gtt_extend.simps [simp del]

lemma extend_restart: "gtt_extend kfd found cur_size = Some (Restart r) \<Longrightarrow> found < r"
proof (induction kfd found cur_size rule: gtt_extend.induct)
  case (1 kfd found cur_size)
  from 1(2) show ?case
    unfolding gtt_extend.simps [of kfd found cur_size]
    using 1(1) [OF refl refl _ _ _ refl] by (auto simp: Let_def split: option.splits if_splits dest: Suc_lessD)
qed

text \<open>The outer search from \<open>start_search\<close>, for the first and the last chunk.\<close>

function gtt_search :: "kfd_gtt \<Rightarrow> u32 \<Rightarrow> nat \<Rightarrow> (nat \<times> nat) option option" where
  "gtt_search kfd sz start_search =
     (case find_next_zero_bit (gtt_sa_bitmap kfd) (unat (gtt_sa_num_of_chunks kfd)) start_search of
        None \<Rightarrow> None
      | Some found \<Rightarrow>
          if found = unat (gtt_sa_num_of_chunks kfd) then Some None
          else if sz \<le> gtt_sa_chunk_size kfd then Some (Some (found, found))
          else
            (case gtt_extend kfd found (sz - gtt_sa_chunk_size kfd) of
               None \<Rightarrow> None
             | Some No_free_chunk \<Rightarrow> Some None
             | Some (Restart r) \<Rightarrow> gtt_search kfd sz r
             | Some (Range e) \<Rightarrow> Some (Some (found, e))))"
  by pat_completeness auto
termination
  by (relation "measure (\<lambda>(kfd, sz, start). unat (gtt_sa_num_of_chunks kfd) - start)")
    (auto simp: find_next_zero_bit_def dest!: scan_bits_le extend_restart)

declare gtt_search.simps [simp del]

text \<open>
  \<open>kfd_gtt_sa_allocate\<close>: the flag tells whether \<open>kmalloc\<close> succeeds. The chunks of the range are
  marked one by one. When no run of free chunks is long enough the code calls \<open>kfree\<close> on \<open>mem_obj\<close>, the
  address of the caller's variable, instead of on the object it allocated: this is undefined behaviour.
\<close>

fun mark_chunks :: "bool \<Rightarrow> nat list \<Rightarrow> bool list \<Rightarrow> bool list option" where
  "mark_chunks v [] bm = Some bm"
| "mark_chunks v (i # is) bm = do { bm \<leftarrow> set_bit_at i v bm; mark_chunks v is bm }"

definition gtt_mem_obj :: "kfd_gtt \<Rightarrow> nat \<Rightarrow> nat \<Rightarrow> kfd_mem_obj" where
  "gtt_mem_obj kfd s e = \<lparr>mo_range_start = s, mo_range_end = e,
     mo_gpu_addr = kfd_gtt_sa_calc_gpu_addr (gtt_start_gpu_addr kfd) s (gtt_sa_chunk_size kfd),
     mo_cpu_ptr = kfd_gtt_sa_calc_cpu_addr (gtt_start_cpu_ptr kfd) s (gtt_sa_chunk_size kfd)\<rparr>"

definition kfd_gtt_sa_allocate :: "bool \<Rightarrow> u32 \<Rightarrow> kfd_gtt \<Rightarrow> (int \<times> kfd_gtt \<times> kfd_mem_obj option) option" where
  "kfd_gtt_sa_allocate kmalloc_ok sz kfd =
     (if sz = 0 then Some (- 22, kfd, None)
      else if sz > gtt_sa_num_of_chunks kfd * gtt_sa_chunk_size kfd then Some (- 12, kfd, None)
      else if \<not> kmalloc_ok then Some (- 12, kfd, None)
      else
        (case gtt_search kfd sz 0 of
           None \<Rightarrow> None
         | Some None \<Rightarrow> None
         | Some (Some (s, e)) \<Rightarrow>
             do {
               bm \<leftarrow> mark_chunks True [s ..< Suc e] (gtt_sa_bitmap kfd);
               Some (0, kfd\<lparr>gtt_sa_bitmap := bm\<rparr>, Some (gtt_mem_obj kfd s e))
             }))"

definition kfd_gtt_sa_free :: "kfd_mem_obj option \<Rightarrow> kfd_gtt \<Rightarrow> (int \<times> kfd_gtt) option" where
  "kfd_gtt_sa_free mem_obj kfd =
     (case mem_obj of
        None \<Rightarrow> Some (0, kfd)
      | Some ob \<Rightarrow> do {
          bm \<leftarrow> mark_chunks False [mo_range_start ob ..< Suc (mo_range_end ob)] (gtt_sa_bitmap kfd);
          Some (0, kfd\<lparr>gtt_sa_bitmap := bm\<rparr>)
        })"

section \<open>The search is a first fit\<close>

text \<open>The chunks that a request needs, and a run of free chunks.\<close>

definition chunks_needed :: "kfd_gtt \<Rightarrow> u32 \<Rightarrow> nat" where
  "chunks_needed kfd sz = (unat sz + unat (gtt_sa_chunk_size kfd) - 1) div unat (gtt_sa_chunk_size kfd)"

definition free_run :: "kfd_gtt \<Rightarrow> nat \<Rightarrow> nat \<Rightarrow> bool" where
  "free_run kfd s k \<longleftrightarrow> s + k \<le> unat (gtt_sa_num_of_chunks kfd) \<and> (\<forall>j. s \<le> j \<and> j < s + k \<longrightarrow> \<not> gtt_sa_bitmap kfd ! j)"

definition gtt_ok :: "kfd_gtt \<Rightarrow> bool" where
  "gtt_ok kfd \<longleftrightarrow> 0 < unat (gtt_sa_chunk_size kfd) \<and> unat (gtt_sa_num_of_chunks kfd) \<le> length (gtt_sa_bitmap kfd) \<and>
     unat (gtt_sa_num_of_chunks kfd) * unat (gtt_sa_chunk_size kfd) < 2 ^ 32"

lemma needed_small: "gtt_ok kfd \<Longrightarrow> 0 < sz \<Longrightarrow> sz \<le> gtt_sa_chunk_size kfd \<Longrightarrow> chunks_needed kfd sz = 1"
  by (auto simp: chunks_needed_def gtt_ok_def word_le_nat_alt word_less_nat_alt intro!: div_nat_eqI)

lemma needed_step:
  assumes "gtt_ok kfd" "gtt_sa_chunk_size kfd < sz"
  shows "chunks_needed kfd sz = Suc (chunks_needed kfd (sz - gtt_sa_chunk_size kfd))"
proof -
  let ?c = "unat (gtt_sa_chunk_size kfd)"
  have "unat (sz - gtt_sa_chunk_size kfd) = unat sz - ?c" using assms(2) by (intro unat_sub) simp
  moreover have "?c < unat sz" using assms(2) by (simp add: word_less_nat_alt)
  moreover have "0 < ?c" using assms(1) by (simp add: gtt_ok_def)
  ultimately show ?thesis
    using le_div_geq [of ?c "unat sz + ?c - 1"] by (simp add: chunks_needed_def)
qed

lemma needed_pos: "gtt_ok kfd \<Longrightarrow> 0 < sz \<Longrightarrow> 0 < chunks_needed kfd sz"
  using needed_small [of kfd sz] needed_step [of kfd sz] by (cases "sz \<le> gtt_sa_chunk_size kfd") auto

lemma free_run_Suc: "free_run kfd s (Suc k) \<longleftrightarrow> s < unat (gtt_sa_num_of_chunks kfd) \<and> \<not> gtt_sa_bitmap kfd ! s \<and> free_run kfd (Suc s) k"
proof -
  have eq: "(s \<le> j \<and> j < s + Suc k) = (j = s \<or> Suc s \<le> j \<and> j < Suc s + k)" for j by auto
  show ?thesis unfolding free_run_def eq by auto
qed

lemma free_run_0: "free_run kfd s 0 \<longleftrightarrow> s \<le> unat (gtt_sa_num_of_chunks kfd)"
  by (auto simp: free_run_def)

fun extended :: "kfd_gtt \<Rightarrow> nat \<Rightarrow> nat \<Rightarrow> gtt_found option \<Rightarrow> bool" where
  "extended kfd found k None = False"
| "extended kfd found k (Some (Range e)) = (e = found + k \<and> free_run kfd (Suc found) k)"
| "extended kfd found k (Some (Restart r)) =
     (found < r \<and> r \<le> found + k \<and> r < unat (gtt_sa_num_of_chunks kfd) \<and> gtt_sa_bitmap kfd ! r)"
| "extended kfd found k (Some No_free_chunk) = (unat (gtt_sa_num_of_chunks kfd) \<le> found + k)"

lemma extended_step:
  "extended kfd (Suc found) k r \<Longrightarrow> Suc found < unat (gtt_sa_num_of_chunks kfd) \<Longrightarrow> \<not> gtt_sa_bitmap kfd ! Suc found \<Longrightarrow>
   extended kfd found (Suc k) r"
  by (cases r; cases "the r") (auto simp: free_run_Suc)

lemma extend_ok:
  "gtt_ok kfd \<Longrightarrow> found < unat (gtt_sa_num_of_chunks kfd) \<Longrightarrow> 0 < cur_size \<Longrightarrow>
   extended kfd found (chunks_needed kfd cur_size) (gtt_extend kfd found cur_size)"
proof (induction kfd found cur_size rule: gtt_extend.induct)
  case (1 kfd found cur_size)
  let ?n = "unat (gtt_sa_num_of_chunks kfd)" and ?bm = "gtt_sa_bitmap kfd" and ?c = "gtt_sa_chunk_size kfd"
  have "?n \<le> length ?bm" using 1 by (simp add: gtt_ok_def)
  then obtain e where e: "find_next_zero_bit ?bm ?n (Suc found) = Some e" "Suc found \<le> e" "e \<le> ?n"
    "\<forall>j. Suc found \<le> j \<and> j < e \<longrightarrow> ?bm ! j" "e < ?n \<longrightarrow> \<not> ?bm ! e"
    using find_zero_ok [of ?n ?bm "Suc found"] 1 by auto
  have pos: "0 < chunks_needed kfd cur_size" using 1 needed_pos by simp
  note run = gtt_extend.simps [of kfd found cur_size]
  consider "e \<noteq> Suc found" | "e = Suc found" "e = ?n" | "e = Suc found" "e < ?n" "cur_size \<le> ?c"
    | "e = Suc found" "e < ?n" "?c < cur_size" using e(3) by fastforce
  then show ?case
  proof cases
    case 1
    then have "Suc found < e" using e(2) by simp
    then show ?thesis unfolding run using e pos by (simp add: Let_def)
  next
    case 2
    then show ?thesis unfolding run using e pos by (simp add: Let_def)
  next
    case 3
    then have "chunks_needed kfd cur_size = 1" using needed_small 1 by blast
    then show ?thesis unfolding run using e 3 by (auto simp: Let_def free_run_Suc free_run_0)
  next
    case 4
    then have k: "chunks_needed kfd cur_size = Suc (chunks_needed kfd (cur_size - ?c))" using needed_step 1 by blast
    have pos': "0 < cur_size - ?c" using 4 by (simp add: word_less_nat_alt unat_sub word_le_nat_alt)
    have big: "\<not> cur_size \<le> ?c" using 4(3) by simp
    then have "extended kfd (Suc found) (chunks_needed kfd (cur_size - ?c)) (gtt_extend kfd (Suc found) (cur_size - ?c))"
      using 1(1) [OF refl refl e(1) _ _ refl] 4 1(2-4) pos' by simp
    then show ?thesis unfolding run k using e 4 pos' big extended_step by (simp add: Let_def)
  qed
qed

fun searched_gtt :: "kfd_gtt \<Rightarrow> nat \<Rightarrow> nat \<Rightarrow> (nat \<times> nat) option option \<Rightarrow> bool" where
  "searched_gtt kfd start k None = False"
| "searched_gtt kfd start k (Some None) = (\<forall>s \<ge> start. \<not> free_run kfd s k)"
| "searched_gtt kfd start k (Some (Some (s, e))) =
     (start \<le> s \<and> Suc e = s + k \<and> free_run kfd s k \<and> (\<forall>s'. start \<le> s' \<and> s' < s \<longrightarrow> \<not> free_run kfd s' k))"

lemma searched_skip:
  assumes "searched_gtt kfd b k r" "a \<le> b" "\<And>s. a \<le> s \<Longrightarrow> s < b \<Longrightarrow> \<not> free_run kfd s k"
  shows "searched_gtt kfd a k r"
proof -
  have "\<not> free_run kfd s k" if "b \<le> s \<longrightarrow> \<not> free_run kfd s k" "a \<le> s" for s
    using assms(3) that by (cases "s < b") auto
  then show ?thesis using assms(1,2) by (cases "(kfd, b, k, r)" rule: searched_gtt.cases) auto
qed

lemma run_blocked: "free_run kfd s k \<Longrightarrow> s \<le> j \<Longrightarrow> j < s + k \<Longrightarrow> \<not> gtt_sa_bitmap kfd ! j"
  by (simp add: free_run_def)

lemma search_extend:
  assumes ok: "gtt_ok kfd" and sz: "gtt_sa_chunk_size kfd < sz"
    and f: "f < unat (gtt_sa_num_of_chunks kfd)" "\<not> gtt_sa_bitmap kfd ! f"
    and IH: "\<And>r. gtt_extend kfd f (sz - gtt_sa_chunk_size kfd) = Some (Restart r) \<Longrightarrow> r < unat (gtt_sa_num_of_chunks kfd) \<Longrightarrow>
      searched_gtt kfd r (chunks_needed kfd sz) (gtt_search kfd sz r)"
  shows "searched_gtt kfd f (chunks_needed kfd sz)
    (case gtt_extend kfd f (sz - gtt_sa_chunk_size kfd) of None \<Rightarrow> None | Some No_free_chunk \<Rightarrow> Some None
     | Some (Restart r) \<Rightarrow> gtt_search kfd sz r | Some (Range e) \<Rightarrow> Some (Some (f, e)))"
proof -
  let ?n = "unat (gtt_sa_num_of_chunks kfd)" and ?c = "gtt_sa_chunk_size kfd" and ?k = "chunks_needed kfd sz"
  have k: "?k = Suc (chunks_needed kfd (sz - ?c))" by (rule needed_step [OF ok sz])
  have "0 < sz - ?c" using sz by (simp add: word_less_nat_alt unat_sub word_le_nat_alt)
  then have ext: "extended kfd f (chunks_needed kfd (sz - ?c)) (gtt_extend kfd f (sz - ?c))"
    by (rule extend_ok [OF ok f(1)])
  show ?thesis
  proof (cases "gtt_extend kfd f (sz - ?c)")
    case None
    then show ?thesis using ext by simp
  next
    case (Some x)
    show ?thesis
    proof (cases x)
      case (Restart r)
      have r: "f < r" "r < f + ?k" "r < ?n" "gtt_sa_bitmap kfd ! r" using ext Some Restart k by auto
      have "\<not> free_run kfd s ?k" if "f \<le> s" "s < r" for s using run_blocked [of kfd s ?k r] that r by auto
      then show ?thesis using searched_skip [OF IH [OF _ r(3)]] r(1) Some Restart by simp
    qed (use ext k f Some in \<open>auto simp: free_run_Suc\<close>, simp add: free_run_def)
  qed
qed

lemma search_ok:
  "gtt_ok kfd \<Longrightarrow> 0 < sz \<Longrightarrow> start \<le> unat (gtt_sa_num_of_chunks kfd) \<Longrightarrow>
   searched_gtt kfd start (chunks_needed kfd sz) (gtt_search kfd sz start)"
proof (induction kfd sz start rule: gtt_search.induct)
  case (1 kfd sz start)
  let ?n = "unat (gtt_sa_num_of_chunks kfd)" and ?bm = "gtt_sa_bitmap kfd" and ?c = "gtt_sa_chunk_size kfd"
  let ?k = "chunks_needed kfd sz"
  have "?n \<le> length ?bm" using 1 by (simp add: gtt_ok_def)
  then obtain f where f: "find_next_zero_bit ?bm ?n start = Some f" "start \<le> f" "f \<le> ?n"
    "\<forall>j. start \<le> j \<and> j < f \<longrightarrow> ?bm ! j" "f < ?n \<longrightarrow> \<not> ?bm ! f"
    using find_zero_ok [of ?n ?bm start] 1 by auto
  have pos: "0 < ?k" using 1 needed_pos by simp
  have skip: "\<not> free_run kfd s ?k" if "start \<le> s" "s < f" for s
    using run_blocked [of kfd s ?k s] f(4) that pos by auto
  note run = gtt_search.simps [of kfd sz start]
  have "searched_gtt kfd f ?k (gtt_search kfd sz start)"
  proof -
    consider "f = ?n" | "f < ?n" "sz \<le> ?c" | "f < ?n" "?c < sz" using f(3) by fastforce
    then show ?thesis
    proof cases
      case 1
      then show ?thesis unfolding run using f pos by (simp add: free_run_def)
    next
      case 2
      then have "?k = 1" using needed_small 1(2,3) by blast
      then show ?thesis unfolding run using f 2 by (simp add: free_run_Suc free_run_0)
    next
      case 3
      then have n: "f \<noteq> ?n" "\<not> sz \<le> ?c" by auto
      have eq: "gtt_search kfd sz start = (case gtt_extend kfd f (sz - ?c) of None \<Rightarrow> None | Some No_free_chunk \<Rightarrow> Some None
          | Some (Restart r) \<Rightarrow> gtt_search kfd sz r | Some (Range e) \<Rightarrow> Some (Some (f, e)))"
        unfolding run using f(1) n by simp
      show ?thesis
        unfolding eq
      proof (rule search_extend [OF 1(2) 3(2,1)])
        show "\<not> ?bm ! f" using f(5) 3(1) by simp
        show "searched_gtt kfd r ?k (gtt_search kfd sz r)" if "gtt_extend kfd f (sz - ?c) = Some (Restart r)" "r < ?n" for r
          using 1(1) [OF f(1) n that(1) refl] 1(2,3) that(2) by simp
      qed
    qed
  qed
  then show ?case by (rule searched_skip [OF _ f(2) skip])
qed

section \<open>Allocations over time\<close>

lemma mark_chunks_ok:
  "b \<le> length bm \<Longrightarrow> \<exists>bm'. mark_chunks v [a ..< b] bm = Some bm' \<and> length bm' = length bm \<and>
    (\<forall>j < length bm. bm' ! j = (if a \<le> j \<and> j < b then v else bm ! j))"
proof (induction "b - a" arbitrary: a bm)
  case (Suc m)
  then have [simp]: "[a ..< b] = a # [Suc a ..< b]" by (simp add: upt_conv_Cons)
  have "a < length bm" "m = b - Suc a" "b \<le> length (bm[a := v])" using Suc by simp_all
  from Suc(1) [OF this(2,3)] obtain bm' where "mark_chunks v [Suc a ..< b] (bm[a := v]) = Some bm'"
    "length bm' = length (bm[a := v])" "\<forall>j < length (bm[a := v]). bm' ! j = (if Suc a \<le> j \<and> j < b then v else bm[a := v] ! j)"
    by blast
  then show ?case using Suc \<open>a < length bm\<close>
    by (intro exI [of _ bm']) (auto simp: set_bit_at_def update_opt_def nth_list_update)
qed auto

text \<open>What an allocation does to the bitmap, with the smallest possible first chunk.\<close>

lemma allocate_cases:
  assumes ok: "gtt_ok kfd" and sz: "0 < sz" "unat sz \<le> unat (gtt_sa_num_of_chunks kfd) * unat (gtt_sa_chunk_size kfd)"
  shows "if \<exists>s. free_run kfd s (chunks_needed kfd sz)
    then \<exists>bm s e. kfd_gtt_sa_allocate True sz kfd = Some (0, kfd\<lparr>gtt_sa_bitmap := bm\<rparr>, Some (gtt_mem_obj kfd s e)) \<and>
      Suc e = s + chunks_needed kfd sz \<and> free_run kfd s (chunks_needed kfd sz) \<and>
      (\<forall>s' < s. \<not> free_run kfd s' (chunks_needed kfd sz)) \<and> length bm = length (gtt_sa_bitmap kfd) \<and>
      (\<forall>j < length bm. bm ! j = (s \<le> j \<and> j \<le> e \<or> gtt_sa_bitmap kfd ! j))
    else kfd_gtt_sa_allocate True sz kfd = None"
proof -
  let ?k = "chunks_needed kfd sz"
  have "unat (gtt_sa_num_of_chunks kfd * gtt_sa_chunk_size kfd) = unat (gtt_sa_num_of_chunks kfd) * unat (gtt_sa_chunk_size kfd)"
    using ok by (intro unat_mult_small) (simp add: gtt_ok_def)
  then have guard: "sz \<noteq> 0" "\<not> sz > gtt_sa_num_of_chunks kfd * gtt_sa_chunk_size kfd"
    using sz by (auto simp: word_less_nat_alt)
  have se: "searched_gtt kfd 0 ?k (gtt_search kfd sz 0)" using search_ok [OF ok sz(1)] by simp
  show ?thesis
  proof (cases "gtt_search kfd sz 0")
    case None
    then show ?thesis using se by simp
  next
    case (Some r)
    show ?thesis
    proof (cases r)
      case None
      then show ?thesis using se Some guard by (simp add: kfd_gtt_sa_allocate_def)
    next
      case (Some p)
      obtain s e where p: "p = (s, e)" by (cases p)
      with se Some \<open>gtt_search kfd sz 0 = Some r\<close> have
        f: "Suc e = s + ?k" "free_run kfd s ?k" "\<forall>s' < s. \<not> free_run kfd s' ?k" by simp_all
      have "Suc e \<le> length (gtt_sa_bitmap kfd)" using f(1,2) ok by (simp add: free_run_def gtt_ok_def)
      from mark_chunks_ok [OF this, of True s] obtain bm where
        bm: "mark_chunks True [s ..< Suc e] (gtt_sa_bitmap kfd) = Some bm" "length bm = length (gtt_sa_bitmap kfd)"
          "\<forall>j < length (gtt_sa_bitmap kfd). bm ! j = (if s \<le> j \<and> j < Suc e then True else gtt_sa_bitmap kfd ! j)"
        by blast
      have "kfd_gtt_sa_allocate True sz kfd = Some (0, kfd\<lparr>gtt_sa_bitmap := bm\<rparr>, Some (gtt_mem_obj kfd s e))"
        using guard p Some \<open>gtt_search kfd sz 0 = Some r\<close> bm(1) by (simp add: kfd_gtt_sa_allocate_def del: upt_Suc)
      moreover have "\<forall>j < length bm. bm ! j = (s \<le> j \<and> j \<le> e \<or> gtt_sa_bitmap kfd ! j)" using bm(2,3) by auto
      moreover have found: "(\<exists>s. free_run kfd s ?k) = True" using f(2) by blast
      ultimately show ?thesis unfolding found if_True using f bm(2) by blast
    qed
  qed
qed

text \<open>The buffer with the objects that were allocated and not freed yet.\<close>

record gtt_system =
  gs_kfd :: kfd_gtt
  gs_live :: "kfd_mem_obj list"

inductive gtt_step :: "gtt_system \<Rightarrow> gtt_system \<Rightarrow> bool" where
  gtt_allocate: "kfd_gtt_sa_allocate kmalloc_ok sz (gs_kfd S) = Some (r, kfd, ob) \<Longrightarrow>
    gtt_step S (S\<lparr>gs_kfd := kfd, gs_live := (case ob of None \<Rightarrow> gs_live S | Some ob \<Rightarrow> ob # gs_live S)\<rparr>)"
| gtt_free: "ob \<in> set (gs_live S) \<Longrightarrow> kfd_gtt_sa_free (Some ob) (gs_kfd S) = Some (r, kfd) \<Longrightarrow>
    gtt_step S (S\<lparr>gs_kfd := kfd, gs_live := remove1 ob (gs_live S)\<rparr>)"

definition chunks_of :: "kfd_mem_obj \<Rightarrow> nat set" where
  "chunks_of ob = {mo_range_start ob .. mo_range_end ob}"

definition gtt_inv :: "gtt_system \<Rightarrow> bool" where
  "gtt_inv S \<longleftrightarrow> gtt_ok (gs_kfd S) \<and>
     (\<forall>j < unat (gtt_sa_num_of_chunks (gs_kfd S)). gtt_sa_bitmap (gs_kfd S) ! j \<longleftrightarrow> (\<exists>ob \<in> set (gs_live S). j \<in> chunks_of ob)) \<and>
     (\<forall>ob \<in> set (gs_live S). mo_range_start ob \<le> mo_range_end ob \<and> mo_range_end ob < unat (gtt_sa_num_of_chunks (gs_kfd S)) \<and>
        mo_gpu_addr ob = gtt_start_gpu_addr (gs_kfd S) + of_nat (mo_range_start ob * unat (gtt_sa_chunk_size (gs_kfd S)))) \<and>
     distinct (gs_live S) \<and> (\<forall>a \<in> set (gs_live S). \<forall>b \<in> set (gs_live S). a \<noteq> b \<longrightarrow> chunks_of a \<inter> chunks_of b = {})"

lemma chunk_addr:
  assumes "gtt_ok kfd" "s < unat (gtt_sa_num_of_chunks kfd)"
  shows "kfd_gtt_sa_calc_gpu_addr a s (gtt_sa_chunk_size kfd) = a + of_nat (s * unat (gtt_sa_chunk_size kfd))"
proof -
  let ?c = "gtt_sa_chunk_size kfd"
  have s: "s < 2 ^ 32" using assms(2) unat_lt_len [of "gtt_sa_num_of_chunks kfd"] by simp
  have "s * unat ?c \<le> unat (gtt_sa_num_of_chunks kfd) * unat ?c" using assms(2) by (intro mult_right_mono) simp_all
  then have lt: "s * unat ?c < 2 ^ 32" using assms(1) unfolding gtt_ok_def by (elim conjE) (rule le_less_trans)
  have us: "unat (of_nat s :: u32) = s" using s by (intro unat_of_nat_small) simp
  have "unat (of_nat s * ?c) = s * unat ?c" using unat_mult_small [of "of_nat s" ?c] lt by (simp add: us)
  then have "unat (ucast (of_nat s * ?c) :: u64) = unat (of_nat (s * unat ?c) :: u64)"
    by (simp only: unat_ucast unat_of_nat take_bit_eq_mod)
  then have "(ucast (of_nat s * ?c) :: u64) = of_nat (s * unat ?c)" by (simp only: word_unat_eq_iff)
  then show ?thesis by (simp add: kfd_gtt_sa_calc_gpu_addr_def)
qed

text \<open>Either nothing changes, or one object is added whose chunks were free.\<close>

lemma allocate_result:
  assumes ok: "gtt_ok kfd" and run: "kfd_gtt_sa_allocate kmalloc_ok sz kfd = Some (r, kfd', ob)"
  shows "ob = None \<and> kfd' = kfd \<or>
    (\<exists>bm s e. ob = Some (gtt_mem_obj kfd s e) \<and> kfd' = kfd\<lparr>gtt_sa_bitmap := bm\<rparr> \<and> s \<le> e \<and> e < unat (gtt_sa_num_of_chunks kfd) \<and>
       Suc e = s + chunks_needed kfd sz \<and> (\<forall>j. s \<le> j \<and> j \<le> e \<longrightarrow> \<not> gtt_sa_bitmap kfd ! j) \<and> length bm = length (gtt_sa_bitmap kfd) \<and>
       (\<forall>j < length bm. bm ! j = (s \<le> j \<and> j \<le> e \<or> gtt_sa_bitmap kfd ! j)))"
proof (cases "sz = 0 \<or> sz > gtt_sa_num_of_chunks kfd * gtt_sa_chunk_size kfd \<or> \<not> kmalloc_ok")
  case True
  then show ?thesis using run by (auto simp: kfd_gtt_sa_allocate_def split: if_splits)
next
  case False
  have "unat (gtt_sa_num_of_chunks kfd * gtt_sa_chunk_size kfd) = unat (gtt_sa_num_of_chunks kfd) * unat (gtt_sa_chunk_size kfd)"
    using ok by (intro unat_mult_small) (simp add: gtt_ok_def)
  then have sz: "0 < sz" "unat sz \<le> unat (gtt_sa_num_of_chunks kfd) * unat (gtt_sa_chunk_size kfd)"
    using False by (auto simp: word_less_nat_alt word_neq_0_conv)
  note cases = allocate_cases [OF ok sz]
  show ?thesis
  proof (cases "\<exists>s. free_run kfd s (chunks_needed kfd sz)")
    case True
    with cases run False obtain bm s e where b: "kfd' = kfd\<lparr>gtt_sa_bitmap := bm\<rparr>" "ob = Some (gtt_mem_obj kfd s e)"
      "Suc e = s + chunks_needed kfd sz" "free_run kfd s (chunks_needed kfd sz)" "length bm = length (gtt_sa_bitmap kfd)"
      "\<forall>j < length bm. bm ! j = (s \<le> j \<and> j \<le> e \<or> gtt_sa_bitmap kfd ! j)" by auto
    moreover have "s \<le> e" using b(3) needed_pos [OF ok sz(1)] by simp
    moreover have "e < unat (gtt_sa_num_of_chunks kfd)" "\<forall>j. s \<le> j \<and> j \<le> e \<longrightarrow> \<not> gtt_sa_bitmap kfd ! j"
      using b(3,4) by (auto simp: free_run_def less_Suc_eq_le [symmetric])
    ultimately show ?thesis by blast
  next
    case False
    then show ?thesis using cases run \<open>\<not> (sz = 0 \<or> _ \<or> _)\<close> by simp
  qed
qed

lemma allocate_size:
  assumes ok: "gtt_ok kfd" and run: "kfd_gtt_sa_allocate kmalloc_ok sz kfd = Some (r, kfd', Some ob)"
  shows "unat sz \<le> (Suc (mo_range_end ob) - mo_range_start ob) * unat (gtt_sa_chunk_size kfd)"
    "(mo_range_end ob - mo_range_start ob) * unat (gtt_sa_chunk_size kfd) < unat sz"
proof -
  let ?c = "unat (gtt_sa_chunk_size kfd)" and ?k = "chunks_needed kfd sz"
  have c: "0 < ?c" using ok by (simp add: gtt_ok_def)
  have "sz \<noteq> 0" using run by (auto simp: kfd_gtt_sa_allocate_def)
  then have sz: "0 < unat sz" by (simp add: unat_gt_0)
  obtain s e where "ob = gtt_mem_obj kfd s e" "Suc e = s + ?k" using allocate_result [OF ok run] by auto
  then have k: "Suc (mo_range_end ob) - mo_range_start ob = ?k" "mo_range_end ob - mo_range_start ob = ?k - 1" by (simp_all add: gtt_mem_obj_def)
  have q: "?k * ?c + (unat sz + ?c - 1) mod ?c = unat sz + ?c - 1" "(unat sz + ?c - 1) mod ?c < ?c" using c by (simp_all add: chunks_needed_def)
  have "unat sz \<le> ?k * ?c" using q sz c by linarith
  moreover have "(?k - 1) * ?c < unat sz" using q(1) sz c by (simp add: diff_mult_distrib)
  ultimately show "unat sz \<le> (Suc (mo_range_end ob) - mo_range_start ob) * ?c" "(mo_range_end ob - mo_range_start ob) * ?c < unat sz"
    unfolding k by simp_all
qed

lemma gtt_ok_bitmap: "gtt_ok kfd \<Longrightarrow> length bm = length (gtt_sa_bitmap kfd) \<Longrightarrow> gtt_ok (kfd\<lparr>gtt_sa_bitmap := bm\<rparr>)"
  by (simp add: gtt_ok_def)

lemma allocate_inv:
  assumes inv: "gtt_inv S" and run: "kfd_gtt_sa_allocate kmalloc_ok sz (gs_kfd S) = Some (r, kfd, Some ob)"
  shows "gtt_inv (S\<lparr>gs_kfd := kfd, gs_live := ob # gs_live S\<rparr>) \<and> (\<forall>b \<in> set (gs_live S). chunks_of ob \<inter> chunks_of b = {}) \<and>
    mo_range_start ob \<le> mo_range_end ob \<and> mo_range_end ob < unat (gtt_sa_num_of_chunks (gs_kfd S)) \<and>
    gtt_sa_num_of_chunks kfd = gtt_sa_num_of_chunks (gs_kfd S)"
proof -
  let ?k = "gs_kfd S" and ?n = "unat (gtt_sa_num_of_chunks (gs_kfd S))"
  have ok: "gtt_ok ?k" using inv by (simp add: gtt_inv_def)
  from allocate_result [OF ok run] obtain bm s e where
    ob: "ob = gtt_mem_obj ?k s e" "kfd = ?k\<lparr>gtt_sa_bitmap := bm\<rparr>" and
    se: "s \<le> e" "e < ?n" "\<forall>j. s \<le> j \<and> j \<le> e \<longrightarrow> \<not> gtt_sa_bitmap ?k ! j" and
    bm: "length bm = length (gtt_sa_bitmap ?k)" "\<forall>j < length bm. bm ! j = (s \<le> j \<and> j \<le> e \<or> gtt_sa_bitmap ?k ! j)" by auto
  have n: "?n \<le> length bm" using ok bm(1) by (simp add: gtt_ok_def)
  have c: "chunks_of ob = {s .. e}" by (simp add: chunks_of_def ob gtt_mem_obj_def)
  have bit: "gtt_sa_bitmap ?k ! j \<longleftrightarrow> (\<exists>b \<in> set (gs_live S). j \<in> chunks_of b)" if "j < ?n" for j
    using inv that by (simp add: gtt_inv_def)
  have dis: "chunks_of ob \<inter> chunks_of b = {}" if "b \<in> set (gs_live S)" for b
    using se bit that unfolding c by (auto simp: disjoint_iff)
  have new: "ob \<notin> set (gs_live S)" using dis [of ob] se(1) c by auto
  have "mo_gpu_addr ob = gtt_start_gpu_addr ?k + of_nat (s * unat (gtt_sa_chunk_size ?k))"
    using chunk_addr [OF ok, of s] se by (simp add: ob gtt_mem_obj_def)
  moreover have "gtt_ok kfd" using gtt_ok_bitmap [OF ok bm(1)] ob(2) by simp
  moreover have "\<forall>j < ?n. bm ! j \<longleftrightarrow> (\<exists>b \<in> set (ob # gs_live S). j \<in> chunks_of b)"
    using bm(2) n bit c by auto
  ultimately have "gtt_inv (S\<lparr>gs_kfd := kfd, gs_live := ob # gs_live S\<rparr>)"
    using inv dis new se unfolding gtt_inv_def by (auto simp: ob gtt_mem_obj_def Int_commute)
  then show ?thesis using dis se by (simp add: ob gtt_mem_obj_def)
qed

lemma free_inv_gtt:
  assumes inv: "gtt_inv S" and ob: "ob \<in> set (gs_live S)" and run: "kfd_gtt_sa_free (Some ob) (gs_kfd S) = Some (r, kfd)"
  shows "gtt_inv (S\<lparr>gs_kfd := kfd, gs_live := remove1 ob (gs_live S)\<rparr>) \<and> gtt_sa_num_of_chunks kfd = gtt_sa_num_of_chunks (gs_kfd S)"
proof -
  let ?k = "gs_kfd S" and ?n = "unat (gtt_sa_num_of_chunks (gs_kfd S))"
  have ok: "gtt_ok ?k" and d: "distinct (gs_live S)" using inv by (simp_all add: gtt_inv_def)
  have e: "Suc (mo_range_end ob) \<le> length (gtt_sa_bitmap ?k)" using inv ob by (fastforce simp: gtt_inv_def gtt_ok_def)
  obtain bm where bm: "kfd = ?k\<lparr>gtt_sa_bitmap := bm\<rparr>" "length bm = length (gtt_sa_bitmap ?k)"
    "\<forall>j < length (gtt_sa_bitmap ?k). bm ! j = (if mo_range_start ob \<le> j \<and> j < Suc (mo_range_end ob) then False else gtt_sa_bitmap ?k ! j)"
    using mark_chunks_ok [OF e, of False "mo_range_start ob"] run by (auto simp: kfd_gtt_sa_free_def simp del: upt_Suc)
  have n: "?n \<le> length bm" using ok bm(2) by (simp add: gtt_ok_def)
  have dis: "chunks_of ob \<inter> chunks_of b = {}" if "b \<in> set (gs_live S)" "b \<noteq> ob" for b
    using inv ob that by (simp add: gtt_inv_def)
  have rest: "set (remove1 ob (gs_live S)) = set (gs_live S) - {ob}" using d by simp
  have "bm ! j \<longleftrightarrow> (\<exists>b \<in> set (gs_live S) - {ob}. j \<in> chunks_of b)" if j: "j < ?n" for j
  proof -
    have "gtt_sa_bitmap ?k ! j \<longleftrightarrow> (\<exists>b \<in> set (gs_live S). j \<in> chunks_of b)" using inv j by (simp add: gtt_inv_def)
    moreover have "j \<notin> chunks_of ob" if "b \<in> set (gs_live S) - {ob}" "j \<in> chunks_of b" for b
      using dis [of b] that by blast
    moreover have "bm ! j = (j \<notin> chunks_of ob \<and> gtt_sa_bitmap ?k ! j)" using bm j n by (auto simp: chunks_of_def)
    ultimately show ?thesis by blast
  qed
  moreover have "gtt_ok kfd" using gtt_ok_bitmap [OF ok bm(2)] bm(1) by simp
  ultimately show ?thesis using inv d unfolding gtt_inv_def rest by (auto simp: bm(1) rest)
qed

section \<open>The abstract pool of ranges\<close>

inductive ranges_step :: "nat \<Rightarrow> (nat \<times> nat) set \<Rightarrow> (nat \<times> nat) set \<Rightarrow> bool" for n where
  ranges_add: "s \<le> e \<Longrightarrow> e < n \<Longrightarrow> (\<forall>(s', e') \<in> R. {s .. e} \<inter> {s' .. e'} = {}) \<Longrightarrow> ranges_step n R (insert (s, e) R)"
| ranges_drop: "(s, e) \<in> R \<Longrightarrow> ranges_step n R (R - {(s, e)})"

definition gtt_range :: "kfd_mem_obj \<Rightarrow> nat \<times> nat" where
  "gtt_range ob = (mo_range_start ob, mo_range_end ob)"

definition gtt_abs :: "gtt_system \<Rightarrow> (nat \<times> nat) set" where
  "gtt_abs S = gtt_range ` set (gs_live S)"

lemma gtt_range_inj: "gtt_inv S \<Longrightarrow> inj_on gtt_range (set (gs_live S))"
proof (rule inj_onI, rule ccontr)
  fix a b assume a: "gtt_inv S" "a \<in> set (gs_live S)" "b \<in> set (gs_live S)" "gtt_range a = gtt_range b" "a \<noteq> b"
  then have "chunks_of a \<inter> chunks_of b = {}" "mo_range_start a \<le> mo_range_end a" by (simp_all add: gtt_inv_def)
  then show False using a(4) by (simp add: chunks_of_def gtt_range_def)
qed

lemma gtt_step_ok:
  assumes "gtt_step S S'" "gtt_inv S"
  shows "gtt_inv S' \<and> gtt_sa_num_of_chunks (gs_kfd S') = gtt_sa_num_of_chunks (gs_kfd S) \<and>
    (ranges_step (unat (gtt_sa_num_of_chunks (gs_kfd S))))\<^sup>*\<^sup>* (gtt_abs S) (gtt_abs S')"
  using assms
proof (induction rule: gtt_step.induct)
  case (gtt_allocate kmalloc_ok sz S r kfd ob)
  show ?case
  proof (cases ob)
    case None
    have "gtt_ok (gs_kfd S)" using gtt_allocate.prems by (simp add: gtt_inv_def)
    then have "kfd = gs_kfd S" using allocate_result [OF _ gtt_allocate.hyps] None by auto
    then show ?thesis using None gtt_allocate.prems by (cases S) (simp add: gtt_abs_def)
  next
    case (Some ob)
    note a = allocate_inv [OF gtt_allocate.prems gtt_allocate.hyps [unfolded Some]]
    then have "ranges_step (unat (gtt_sa_num_of_chunks (gs_kfd S))) (gtt_abs S) (insert (gtt_range ob) (gtt_abs S))"
      unfolding gtt_range_def by (intro ranges_add) (auto simp: gtt_abs_def gtt_range_def chunks_of_def)
    then show ?thesis using a Some by (auto simp: gtt_abs_def)
  qed
next
  case (gtt_free ob S r kfd)
  have d: "distinct (gs_live S)" using gtt_free.prems by (simp add: gtt_inv_def)
  have "gtt_range ` (set (gs_live S) - {ob}) = gtt_range ` set (gs_live S) - {gtt_range ob}"
    using inj_on_image_set_diff [OF gtt_range_inj [OF gtt_free.prems], of "set (gs_live S)" "{ob}"] gtt_free.hyps(1) by auto
  moreover have "ranges_step (unat (gtt_sa_num_of_chunks (gs_kfd S))) (gtt_abs S) (gtt_abs S - {gtt_range ob})"
    unfolding gtt_range_def using gtt_free.hyps(1) by (intro ranges_drop) (auto simp: gtt_abs_def gtt_range_def)
  ultimately show ?case using free_inv_gtt [OF gtt_free.prems gtt_free.hyps] d by (auto simp: gtt_abs_def)
qed

text \<open>A buffer after its initialisation.\<close>

definition gtt_start :: "u32 \<Rightarrow> gtt_system \<Rightarrow> bool" where
  "gtt_start num S \<longleftrightarrow> gs_live S = [] \<and> gtt_sa_num_of_chunks (gs_kfd S) = num \<and>
     (\<exists>buf chunk kfd. kfd_gtt_sa_init True buf chunk kfd = Some (0, gs_kfd S))"

lemma gtt_start_inv:
  assumes "gtt_start num S" "8 dvd unat num"
  shows "gtt_inv S"
proof -
  obtain buf chunk kfd where init: "kfd_gtt_sa_init True buf chunk kfd = Some (0, gs_kfd S)" using assms(1) by (auto simp: gtt_start_def)
  then have k: "gs_kfd S = kfd\<lparr>gtt_sa_chunk_size := chunk, gtt_sa_num_of_chunks := buf div chunk,
      gtt_sa_bitmap := replicate (8 * unat (buf div chunk div 8)) False\<rparr>" and c: "chunk \<noteq> 0"
    by (auto simp: kfd_gtt_sa_init_def Let_def split: if_splits)
  have n: "unat (buf div chunk) = unat buf div unat chunk" by (simp add: unat_div)
  have "8 dvd unat (buf div chunk)" using assms k by (simp add: gtt_start_def)
  then have len: "8 * unat (buf div chunk div 8) = unat (buf div chunk)" by (simp add: unat_div)
  have "unat buf div unat chunk * unat chunk \<le> unat buf" by simp
  also have "unat buf < 2 ^ 32" using unat_lt_len [of buf] by simp
  finally have "gtt_ok (gs_kfd S)" using c len by (simp add: gtt_ok_def k n unat_gt_0)
  then show ?thesis using assms len by (simp add: gtt_inv_def gtt_start_def k)
qed

text \<open>The chunks are assumed to fill whole bytes of the bitmap.\<close>

interpretation gt: simulation "\<lambda>S. gtt_start num S \<and> 8 dvd unat num" gtt_step "\<lambda>S. gtt_inv S \<and> gtt_sa_num_of_chunks (gs_kfd S) = num" gtt_abs
    "ranges_step (unat num)" for num
proof unfold_locales
  show "gtt_inv S \<and> gtt_sa_num_of_chunks (gs_kfd S) = num" if "gtt_start num S \<and> 8 dvd unat num" for S
    using gtt_start_inv [of num S] that by (simp add: gtt_start_def)
  fix S S' assume "gtt_step S S'" "gtt_inv S \<and> gtt_sa_num_of_chunks (gs_kfd S) = num"
  then show "gtt_inv S' \<and> gtt_sa_num_of_chunks (gs_kfd S') = num" "(ranges_step (unat num))\<^sup>*\<^sup>* (gtt_abs S) (gtt_abs S')"
    using gtt_step_ok by auto
qed

section \<open>A bitmap that is too short\<close>

lemma extend_fault:
  assumes "\<forall>j < length (gtt_sa_bitmap kfd). \<not> gtt_sa_bitmap kfd ! j" "length (gtt_sa_bitmap kfd) < unat (gtt_sa_num_of_chunks kfd)"
  shows "found < length (gtt_sa_bitmap kfd) \<Longrightarrow>
    unat (gtt_sa_chunk_size kfd) * (length (gtt_sa_bitmap kfd) - Suc found) < unat cur_size \<Longrightarrow> 0 < unat (gtt_sa_chunk_size kfd) \<Longrightarrow>
    gtt_extend kfd found cur_size = None"
proof (induction "length (gtt_sa_bitmap kfd) - found" arbitrary: found cur_size)
  case (Suc m)
  let ?l = "length (gtt_sa_bitmap kfd)" and ?n = "unat (gtt_sa_num_of_chunks kfd)" and ?c = "gtt_sa_chunk_size kfd"
  note run = gtt_extend.simps [of kfd found cur_size]
  have upt: "[Suc found ..< ?n] = Suc found # [Suc (Suc found) ..< ?n]" using Suc assms(2) by (simp add: upt_conv_Cons)
  show ?case
  proof (cases "Suc found < ?l")
    case True
    then have find: "find_next_zero_bit (gtt_sa_bitmap kfd) ?n (Suc found) = Some (Suc found)"
      using assms(1) by (simp add: find_next_zero_bit_def upt)
    have "?l - Suc found = Suc (?l - Suc (Suc found))" using True by simp
    then have big: "unat ?c + unat ?c * (?l - Suc (Suc found)) < unat cur_size" using Suc.prems(2) by simp
    then have c: "\<not> cur_size \<le> ?c" by (simp add: word_le_nat_alt)
    then have "unat (cur_size - ?c) = unat cur_size - unat ?c" by (intro unat_sub) simp
    moreover from this big have "0 < cur_size - ?c" by (simp add: word_less_nat_alt)
    moreover have "gtt_extend kfd (Suc found) (cur_size - ?c) = None"
      using Suc.hyps(1) [of "Suc found" "cur_size - ?c"] Suc.hyps(2) Suc.prems(3) True big calculation(1) by simp
    ultimately show ?thesis unfolding run using find c True assms(2) by (simp add: Let_def)
  next
    case False
    then show ?thesis unfolding run by (simp add: find_next_zero_bit_def upt)
  qed
qed simp

lemma short_bitmap_fault:
  assumes "kfd_gtt_sa_init True buf chunk kfd0 = Some (0, kfd)" "\<not> 8 dvd unat (buf div chunk)"
  shows "gtt_search kfd (gtt_sa_num_of_chunks kfd * gtt_sa_chunk_size kfd) 0 = None \<and>
    kfd_gtt_sa_allocate True (gtt_sa_num_of_chunks kfd * gtt_sa_chunk_size kfd) kfd = None"
proof -
  let ?n = "gtt_sa_num_of_chunks kfd" and ?c = "gtt_sa_chunk_size kfd" and ?bm = "gtt_sa_bitmap kfd"
  from assms(1) have k: "?n = buf div chunk" "?c = chunk" "?bm = replicate (8 * unat (buf div chunk div 8)) False"
    and nz: "chunk \<noteq> 0" "buf div chunk div 8 \<noteq> 0"
    by (auto simp: kfd_gtt_sa_init_def Let_def split: if_splits)
  have l: "length ?bm = 8 * (unat ?n div 8)" by (simp add: k unat_div)
  then have short: "length ?bm < unat ?n" using assms(2) k(1) by (metis dvd_triv_left le_neq_implies_less div_times_less_eq_dividend mult.commute)
  have "unat (buf div chunk div 8) \<noteq> 0" using nz(2) by (simp only: unat_eq_0 not_False_eq_True)
  then have pos: "0 < length ?bm" using l k(1) by (simp add: unat_div)
  have c: "0 < unat ?c" using nz(1) k(2) by (simp add: unat_gt_0)
  have "unat ?n * unat ?c \<le> unat buf" by (simp add: k unat_div)
  moreover have "unat buf < 2 ^ 32" using unat_lt_len [of buf] by simp
  ultimately have "unat ?n * unat ?c < 2 ^ 32" by (rule le_less_trans)
  then have m: "unat (?n * ?c) = unat ?n * unat ?c" using unat_mult_small [of ?n ?c] by simp
  have "2 \<le> unat ?n" using pos short by linarith
  then have big: "unat ?c < unat ?n * unat ?c" using c by simp
  then have sub: "unat (?n * ?c - ?c) = unat ?n * unat ?c - unat ?c" using m by (simp add: unat_sub word_le_nat_alt)
  have "length ?bm - Suc 0 < unat ?n - 1" using short pos by linarith
  then have "unat ?c * (length ?bm - Suc 0) < unat ?c * (unat ?n - 1)" using c by simp
  then have cur: "unat ?c * (length ?bm - Suc 0) < unat (?n * ?c - ?c)" using sub by (simp add: diff_mult_distrib2 mult.commute)
  have free: "\<forall>j < length ?bm. \<not> ?bm ! j" by (simp add: k)
  have ext: "gtt_extend kfd 0 (?n * ?c - ?c) = None" by (rule extend_fault [OF free short pos cur c])
  have "find_next_zero_bit ?bm (unat ?n) 0 = Some 0"
    using pos short free by (simp add: find_next_zero_bit_def upt_conv_Cons)
  then have "gtt_search kfd (?n * ?c) 0 = None"
    using ext big m short by (simp add: gtt_search.simps [of kfd _ 0] word_le_nat_alt)
  moreover have "?n * ?c \<noteq> 0" using big m by (metis not_less0 unat_0)
  ultimately show ?thesis by (simp add: kfd_gtt_sa_allocate_def)
qed

section \<open>A buffer of eight chunks\<close>

definition gdemo0 :: gtt_system where
  "gdemo0 = \<lparr>gs_kfd = \<lparr>gtt_start_gpu_addr = 0x1000, gtt_start_cpu_ptr = 0x9000, gtt_sa_bitmap = [False, False, False, False, False, False, False, False],
     gtt_sa_chunk_size = 512, gtt_sa_num_of_chunks = 8\<rparr>, gs_live = []\<rparr>"

definition gdemo1 :: gtt_system where
  "gdemo1 = gdemo0\<lparr>gs_kfd := (gs_kfd gdemo0)\<lparr>gtt_sa_bitmap := [True, True, False, False, False, False, False, False]\<rparr>,
     gs_live := [\<lparr>mo_range_start = 0, mo_range_end = 1, mo_gpu_addr = 0x1000, mo_cpu_ptr = 0x9000\<rparr>]\<rparr>"

lemma eight_chunks: "replicate 8 v = [v, v, v, v, v, v, v, v]"
  by (simp add: numeral_eq_Suc)

lemma gdemo_start: "gtt_start 8 gdemo0"
  unfolding gtt_start_def
  by (intro conjI exI [of _ 4096] exI [of _ 512] exI [of _ "gs_kfd gdemo0"])
    (simp_all add: gdemo0_def kfd_gtt_sa_init_def Let_def eight_chunks)

lemma gdemo_allocate:
  "kfd_gtt_sa_allocate True 1000 (gs_kfd gdemo0) = Some (0, gs_kfd gdemo1, Some (hd (gs_live gdemo1)))"
proof -
  have "gtt_extend (gs_kfd gdemo0) 0 488 = Some (Range 1)"
    by (simp add: gtt_extend.simps gdemo0_def find_zero_here Let_def)
  then have "gtt_search (gs_kfd gdemo0) 1000 0 = Some (Some (0, 1))"
    by (simp add: gtt_search.simps gdemo0_def find_zero_here)
  moreover have "mark_chunks True [0, 1] (gtt_sa_bitmap (gs_kfd gdemo0)) = Some (gtt_sa_bitmap (gs_kfd gdemo1))"
    by (simp add: gdemo0_def gdemo1_def set_bit_at_def update_opt_def)
  moreover have "[0 ..< Suc 1] = [0, 1]" by simp
  ultimately show ?thesis
    by (simp add: kfd_gtt_sa_allocate_def gdemo0_def gdemo1_def gtt_mem_obj_def kfd_gtt_sa_calc_gpu_addr_def
        kfd_gtt_sa_calc_cpu_addr_def del: upt_Suc)
qed

lemma gdemo_steps: "gtt_step\<^sup>*\<^sup>* gdemo0 gdemo1"
proof -
  have "gtt_step gdemo0 (gdemo0\<lparr>gs_kfd := gs_kfd gdemo1, gs_live := hd (gs_live gdemo1) # gs_live gdemo0\<rparr>)"
    using gtt_allocate [OF gdemo_allocate] by simp
  then show ?thesis by (simp add: gdemo0_def gdemo1_def)
qed

section \<open>Properties\<close>

text \<open>
  (C6) Whatever sequence of allocations and frees the buffer of the compute driver goes through, provided that
  its number of chunks is a multiple of eight and that no allocation is tried without room, which is undefined
  behaviour: the objects that are alive lie inside the buffer, at the address their first chunk has, and no
  two of them have a chunk in common; an allocation gets as few chunks as hold the bytes asked for; and the
  buffer implements a pool of disjoint ranges.
\<close>

theorem gtt_live_disjoint:
  assumes "gtt_start num S0" "8 dvd unat num" "gtt_step\<^sup>*\<^sup>* S0 S"
  shows "(\<forall>a \<in> set (gs_live S). mo_range_start a \<le> mo_range_end a \<and> mo_range_end a < unat num \<and>
      mo_gpu_addr a = gtt_start_gpu_addr (gs_kfd S) + of_nat (mo_range_start a * unat (gtt_sa_chunk_size (gs_kfd S))) \<and>
      (\<forall>b \<in> set (gs_live S). a \<noteq> b \<longrightarrow> {mo_range_start a .. mo_range_end a} \<inter> {mo_range_start b .. mo_range_end b} = {})) \<and>
    (\<forall>kmalloc_ok sz r kfd ob. kfd_gtt_sa_allocate kmalloc_ok sz (gs_kfd S) = Some (r, kfd, Some ob) \<longrightarrow>
      unat sz \<le> (Suc (mo_range_end ob) - mo_range_start ob) * unat (gtt_sa_chunk_size (gs_kfd S)) \<and>
      (mo_range_end ob - mo_range_start ob) * unat (gtt_sa_chunk_size (gs_kfd S)) < unat sz) \<and>
    (ranges_step (unat num))\<^sup>*\<^sup>* {} (gtt_abs S)"
proof -
  have "gtt_abs S0 = {}" using assms(1) by (simp add: gtt_abs_def gtt_start_def)
  moreover have inv: "gtt_inv S" "gtt_sa_num_of_chunks (gs_kfd S) = num" using gt.reachable_inv [OF conjI [OF assms(1,2)] assms(3)] by simp_all
  moreover have "gtt_ok (gs_kfd S)" using inv(1) by (simp add: gtt_inv_def)
  moreover note gt.reachable_abs [OF conjI [OF assms(1,2)] assms(3)]
  ultimately show ?thesis using allocate_size by (simp add: gtt_inv_def chunks_of_def [symmetric])
qed

theorem gtt_live_disjoint_witness:
  "(ranges_step 8)\<^sup>*\<^sup>* {} (gtt_abs gdemo1) \<and> gtt_abs gdemo1 = {(0, 1)} \<and> mo_gpu_addr (hd (gs_live gdemo1)) = 0x1000 \<and> unat (1000 :: u32) \<le> 2 * 512"
proof -
  note t = gtt_live_disjoint [OF gdemo_start _ gdemo_steps]
  have "(ranges_step 8)\<^sup>*\<^sup>* {} (gtt_abs gdemo1)" "\<forall>a \<in> set (gs_live gdemo1). mo_gpu_addr a =
      gtt_start_gpu_addr (gs_kfd gdemo1) + of_nat (mo_range_start a * unat (gtt_sa_chunk_size (gs_kfd gdemo1)))" using t by auto
  then show ?thesis by (simp add: gdemo1_def gdemo0_def gtt_abs_def gtt_range_def)
qed

text \<open>
  The search for free chunks is a complete first fit: an allocation within the size of the buffer succeeds
  exactly when there is a run of free chunks that is long enough, takes the first such run and marks its
  chunks and no others; without such a run the behaviour is undefined. Requests for nothing get -EINVAL,
  requests beyond the buffer -ENOMEM.
\<close>

theorem gtt_allocate_first_fit:
  assumes "gtt_start num S0" "8 dvd unat num" "gtt_step\<^sup>*\<^sup>* S0 S" "kfd = gs_kfd S"
  shows "if sz = 0 then kfd_gtt_sa_allocate True sz kfd = Some (- 22, kfd, None)
    else if unat num * unat (gtt_sa_chunk_size kfd) < unat sz then kfd_gtt_sa_allocate True sz kfd = Some (- 12, kfd, None)
    else if \<nexists>s. free_run kfd s (chunks_needed kfd sz) then kfd_gtt_sa_allocate True sz kfd = None
    else \<exists>bm s e. kfd_gtt_sa_allocate True sz kfd = Some (0, kfd\<lparr>gtt_sa_bitmap := bm\<rparr>, Some (gtt_mem_obj kfd s e)) \<and>
      Suc e = s + chunks_needed kfd sz \<and> free_run kfd s (chunks_needed kfd sz) \<and>
      (\<forall>s' < s. \<not> free_run kfd s' (chunks_needed kfd sz)) \<and>
      (\<forall>j < unat num. bm ! j = (s \<le> j \<and> j \<le> e \<or> gtt_sa_bitmap kfd ! j))"
proof -
  have i: "gtt_ok kfd" "gtt_sa_num_of_chunks kfd = num" using gt.reachable_inv [OF conjI [OF assms(1,2)] assms(3)] assms(4) by (auto simp: gtt_inv_def)
  then have n: "unat num \<le> length (gtt_sa_bitmap kfd)" "unat (num * gtt_sa_chunk_size kfd) = unat num * unat (gtt_sa_chunk_size kfd)"
    using unat_mult_small [of num "gtt_sa_chunk_size kfd"] by (auto simp: gtt_ok_def)
  show ?thesis
  proof (cases "sz = 0 \<or> unat num * unat (gtt_sa_chunk_size kfd) < unat sz")
    case True
    then show ?thesis using i(2) n(2) by (auto simp: kfd_gtt_sa_allocate_def word_less_nat_alt)
  next
    case False
    then have "0 < sz" "unat sz \<le> unat (gtt_sa_num_of_chunks kfd) * unat (gtt_sa_chunk_size kfd)"
      using i(2) by (auto simp: word_neq_0_conv)
    note cases = allocate_cases [OF i(1) this]
    show ?thesis
    proof (cases "\<exists>s. free_run kfd s (chunks_needed kfd sz)")
      case True
      from cases [unfolded if_P [OF True]] obtain bm s e where b: "kfd_gtt_sa_allocate True sz kfd = Some (0, kfd\<lparr>gtt_sa_bitmap := bm\<rparr>, Some (gtt_mem_obj kfd s e))"
          "Suc e = s + chunks_needed kfd sz" "free_run kfd s (chunks_needed kfd sz)"
          "\<forall>s' < s. \<not> free_run kfd s' (chunks_needed kfd sz)" "length bm = length (gtt_sa_bitmap kfd)"
          "\<forall>j < length bm. bm ! j = (s \<le> j \<and> j \<le> e \<or> gtt_sa_bitmap kfd ! j)" by blast
      have "\<forall>j < unat num. bm ! j = (s \<le> j \<and> j \<le> e \<or> gtt_sa_bitmap kfd ! j)" using b(5,6) n(1) by auto
      moreover have "sz \<noteq> 0" "\<not> unat num * unat (gtt_sa_chunk_size kfd) < unat sz" "\<not> (\<nexists>s. free_run kfd s (chunks_needed kfd sz))"
        using True False by blast+
      ultimately show ?thesis using b by (simp only: if_False) blast
    next
      case no_run: False
      with cases False show ?thesis by simp
    qed
  qed
qed

theorem gtt_allocate_first_fit_witness:
  "\<exists>bm s e. kfd_gtt_sa_allocate True 1000 (gs_kfd gdemo0) = Some (0, (gs_kfd gdemo0)\<lparr>gtt_sa_bitmap := bm\<rparr>, Some (gtt_mem_obj (gs_kfd gdemo0) s e))"
proof -
  have n: "unat (gtt_sa_num_of_chunks (gs_kfd gdemo0)) = 8" "unat (gtt_sa_chunk_size (gs_kfd gdemo0)) = 512" by (simp_all add: gdemo0_def)
  have "\<not> gtt_sa_bitmap (gs_kfd gdemo0) ! j" if "j < 2" for j
  proof -
    have "j = 0 \<or> j = 1" using that by linarith
    then show ?thesis by (auto simp: gdemo0_def)
  qed
  then have "free_run (gs_kfd gdemo0) 0 2" by (simp add: free_run_def n)
  moreover have k: "chunks_needed (gs_kfd gdemo0) 1000 = 2" by (simp add: chunks_needed_def n)
  ultimately have "\<not> unat (8 :: u32) * unat (gtt_sa_chunk_size (gs_kfd gdemo0)) < unat (1000 :: u32)"
      "\<not> (\<nexists>s. free_run (gs_kfd gdemo0) s (chunks_needed (gs_kfd gdemo0) 1000))" by (auto simp: n)
  moreover have "(1000 :: u32) \<noteq> 0" and d: "8 dvd unat (8 :: u32)" by simp_all
  ultimately show ?thesis
    using gtt_allocate_first_fit [OF gdemo_start d rtranclp.rtrancl_refl refl, of 1000] by (simp only: if_False) blast
qed

text \<open>
  (C28) \<open>kfd_gtt_sa_init\<close> gives the bitmap the whole bytes that the chunks fill and drops the rest: when the
  number of chunks is not a multiple of eight, the search for the whole buffer leaves the bitmap.
\<close>

theorem gtt_bitmap_too_short:
  assumes "kfd_gtt_sa_init True buf chunk kfd0 = Some (0, kfd)" "\<not> 8 dvd unat (buf div chunk)"
  shows "gtt_search kfd (gtt_sa_num_of_chunks kfd * gtt_sa_chunk_size kfd) 0 = None \<and>
    kfd_gtt_sa_allocate True (gtt_sa_num_of_chunks kfd * gtt_sa_chunk_size kfd) kfd = None"
  using assms by (rule short_bitmap_fault)

theorem gtt_bitmap_too_short_witness:
  "\<exists>kfd. kfd_gtt_sa_init True 5120 512 (gs_kfd gdemo0) = Some (0, kfd) \<and> kfd_gtt_sa_allocate True 5120 kfd = None"
proof -
  have init: "kfd_gtt_sa_init True 5120 512 (gs_kfd gdemo0) = Some (0, (gs_kfd gdemo0)\<lparr>gtt_sa_num_of_chunks := 10\<rparr>)"
    by (simp add: kfd_gtt_sa_init_def gdemo0_def Let_def eight_chunks)
  show ?thesis using gtt_bitmap_too_short [OF init] init by (simp add: gdemo0_def)
qed

end
