(* ===== verification/Kfd_Mqd.thy ===== *)
theory Kfd_Mqd
  imports Kfd_Gtt Kfd_Mem
begin

text \<open>
  Memory queue descriptors (MQDs): what the compute driver writes for a user queue into the memory that the
  hardware reads. \<open>kfd_mqd_manager_cik.c\<close> and \<open>kfd_mqd_manager_vi.c\<close> for compute queues, the queues of
  the driver and SDMA queues, and the checks of \<open>kfd_chardev.c\<close> on what the user asks for. The records of descriptors have
  the fields that the code writes; the rest of a descriptor is zero.
\<close>

section \<open>Queues\<close>

datatype kfd_queue_type = Type_compute | Type_sdma | Type_hiq | Type_diq

datatype kfd_queue_format = Format_pm4 | Format_aql

datatype kfd_mqd_type = Mqd_compute | Mqd_hiq | Mqd_cp | Mqd_sdma

record queue_properties =
  qp_type :: kfd_queue_type
  qp_format :: kfd_queue_format
  queue_id :: u32
  queue_address :: u64
  queue_size :: u64
  priority :: u32
  queue_percent :: u32
  read_ptr :: u64
  write_ptr :: u64
  doorbell_ptr :: u64
  doorbell_off :: u32
  is_active :: bool
  qp_vmid :: u32
  sdma_engine_id :: u32
  sdma_queue_id :: u32
  sdma_vm_addr :: u32
  eop_ring_buffer_address :: u64
  eop_ring_buffer_size :: u32

text \<open>\<open>ffs\<close> of the kernel, on an \<open>int\<close>: the position of the lowest bit that is set, from one.\<close>

definition ffs :: "u32 \<Rightarrow> u32" where
  "ffs x = (case find (bit x) [0 ..< 32] of None \<Rightarrow> 0 | Some i \<Rightarrow> of_nat (Suc i))"

section \<open>Descriptors of compute queues\<close>

text \<open>\<open>struct cik_mqd\<close> and \<open>struct vi_mqd\<close>; the last four fields are written for the newer chip only.\<close>

record compute_mqd =
  header :: u32
  compute_pipelinestat_enable :: u32
  compute_static_thread_mgmt :: u32
  cp_mqd_base_addr_lo :: u32
  cp_mqd_base_addr_hi :: u32
  cp_hqd_active :: u32
  cp_hqd_vmid :: u32
  cp_hqd_persistent_state :: u32
  cp_hqd_pipe_priority :: u32
  cp_hqd_queue_priority :: u32
  cp_hqd_quantum :: u32
  cp_hqd_pq_base_lo :: u32
  cp_hqd_pq_base_hi :: u32
  cp_hqd_pq_rptr_report_addr_lo :: u32
  cp_hqd_pq_rptr_report_addr_hi :: u32
  cp_hqd_pq_doorbell_control :: u32
  cp_hqd_pq_control :: u32
  cp_hqd_ib_control :: u32
  cp_hqd_iq_rptr :: u32
  cp_mqd_control :: u32
  cp_hqd_iq_timer :: u32
  cp_hqd_eop_control :: u32
  cp_hqd_eop_rptr :: u32
  cp_hqd_eop_base_addr :: "u32 \<times> u32"

definition zero_mqd :: compute_mqd where
  "zero_mqd = \<lparr>header = 0, compute_pipelinestat_enable = 0, compute_static_thread_mgmt = 0, cp_mqd_base_addr_lo = 0,
     cp_mqd_base_addr_hi = 0, cp_hqd_active = 0, cp_hqd_vmid = 0, cp_hqd_persistent_state = 0, cp_hqd_pipe_priority = 0,
     cp_hqd_queue_priority = 0, cp_hqd_quantum = 0, cp_hqd_pq_base_lo = 0, cp_hqd_pq_base_hi = 0,
     cp_hqd_pq_rptr_report_addr_lo = 0, cp_hqd_pq_rptr_report_addr_hi = 0, cp_hqd_pq_doorbell_control = 0,
     cp_hqd_pq_control = 0, cp_hqd_ib_control = 0, cp_hqd_iq_rptr = 0, cp_mqd_control = 0, cp_hqd_iq_timer = 0,
     cp_hqd_eop_control = 0, cp_hqd_eop_rptr = 0, cp_hqd_eop_base_addr = (0, 0)\<rparr>"

text \<open>The end of all update functions: whether the queue is active.\<close>

definition queue_wants_active :: "queue_properties \<Rightarrow> bool" where
  "queue_wants_active q \<longleftrightarrow> queue_size q > 0 \<and> queue_address q \<noteq> 0 \<and> queue_percent q > 0"

definition ring_log2 :: "u64 \<Rightarrow> u32" where
  "ring_log2 sz = ffs (ucast (sz div 4)) - 1 - 1"

definition update_mqd_cik :: "queue_properties \<Rightarrow> compute_mqd \<Rightarrow> compute_mqd \<times> queue_properties" where
  "update_mqd_cik q m =
     (let m = m\<lparr>cp_hqd_pq_control := (push_bit 8 5 OR push_bit 20 3 OR push_bit 23 1) OR ring_log2 (queue_size q),
            cp_hqd_pq_base_lo := lower_32_bits (drop_bit 8 (queue_address q)),
            cp_hqd_pq_base_hi := upper_32_bits (drop_bit 8 (queue_address q)),
            cp_hqd_pq_rptr_report_addr_lo := lower_32_bits (read_ptr q),
            cp_hqd_pq_rptr_report_addr_hi := upper_32_bits (read_ptr q),
            cp_hqd_pq_doorbell_control := push_bit 30 1 OR push_bit 2 (doorbell_off q),
            cp_hqd_vmid := qp_vmid q\<rparr>;
          m = (if qp_format q = Format_aql then m\<lparr>cp_hqd_pq_control := cp_hqd_pq_control m OR push_bit 27 1\<rparr> else m)
      in (m\<lparr>cp_hqd_active := of_bool (queue_wants_active q)\<rparr>, q\<lparr>is_active := queue_wants_active q\<rparr>))"

definition init_mqd_cik :: "u64 \<Rightarrow> queue_properties \<Rightarrow> compute_mqd \<times> queue_properties" where
  "init_mqd_cik addr q =
     (let m = zero_mqd\<lparr>header := 0xC0310800, compute_pipelinestat_enable := 1, compute_static_thread_mgmt := 0xFFFFFFFF,
            cp_hqd_persistent_state := push_bit 8 0x33 OR 1, cp_mqd_control := push_bit 8 1,
            cp_mqd_base_addr_lo := lower_32_bits addr, cp_mqd_base_addr_hi := upper_32_bits addr,
            cp_hqd_ib_control := push_bit 23 1 OR push_bit 20 3, cp_hqd_quantum := 1 OR push_bit 4 1 OR push_bit 8 10,
            cp_hqd_pipe_priority := 1, cp_hqd_queue_priority := 15\<rparr>;
          m = (if qp_format q = Format_aql then m\<lparr>cp_hqd_iq_rptr := 1\<rparr> else m)
      in update_mqd_cik q m)"

definition update_mqd_vi_with :: "u32 \<Rightarrow> u32 \<Rightarrow> queue_properties \<Rightarrow> compute_mqd \<Rightarrow> compute_mqd \<times> queue_properties" where
  "update_mqd_vi_with mtype atc_bit q m =
     (let m = m\<lparr>cp_hqd_pq_control := (push_bit 8 5 OR push_bit 0x17 atc_bit OR push_bit 0xf mtype) OR ring_log2 (queue_size q),
            cp_hqd_pq_base_lo := lower_32_bits (drop_bit 8 (queue_address q)),
            cp_hqd_pq_base_hi := upper_32_bits (drop_bit 8 (queue_address q)),
            cp_hqd_pq_rptr_report_addr_lo := lower_32_bits (read_ptr q),
            cp_hqd_pq_rptr_report_addr_hi := upper_32_bits (read_ptr q),
            cp_hqd_pq_doorbell_control := push_bit 0x1e 1 OR push_bit 2 (doorbell_off q),
            cp_hqd_ib_control := push_bit 0x17 atc_bit OR push_bit 0x14 3 OR push_bit 0x1b mtype,
            cp_hqd_eop_control := (push_bit 0x17 atc_bit OR push_bit 0xf mtype) OR ring_log2 (ucast (eop_ring_buffer_size q)),
            cp_hqd_eop_base_addr := (lower_32_bits (drop_bit 8 (eop_ring_buffer_address q)), upper_32_bits (drop_bit 8 (eop_ring_buffer_address q))),
            cp_hqd_iq_timer := push_bit 0x17 atc_bit OR push_bit 0x1b mtype,
            cp_hqd_vmid := qp_vmid q\<rparr>;
          m = (if qp_format q = Format_aql then m\<lparr>cp_hqd_pq_control := cp_hqd_pq_control m OR (0x8000000 OR push_bit 0x19 2)\<rparr> else m)
      in (m\<lparr>cp_hqd_active := of_bool (queue_wants_active q)\<rparr>, q\<lparr>is_active := queue_wants_active q\<rparr>))"

definition update_mqd_vi :: "queue_properties \<Rightarrow> compute_mqd \<Rightarrow> compute_mqd \<times> queue_properties" where
  "update_mqd_vi = update_mqd_vi_with 2 1"

text \<open>\<open>init_mqd\<close> calls the update function of its manager, which differs between user queues and the queue of the driver.\<close>

definition init_mqd_vi_with :: "(queue_properties \<Rightarrow> compute_mqd \<Rightarrow> compute_mqd \<times> queue_properties) \<Rightarrow> u64 \<Rightarrow> queue_properties \<Rightarrow> compute_mqd \<times> queue_properties" where
  "init_mqd_vi_with update addr q =
     (let m = zero_mqd\<lparr>header := 0xC0310800, compute_pipelinestat_enable := 1, compute_static_thread_mgmt := 0xFFFFFFFF,
            cp_hqd_persistent_state := 1 OR push_bit 8 0x53, cp_mqd_control := push_bit 8 1 OR push_bit 0x1b 3,
            cp_mqd_base_addr_lo := lower_32_bits addr, cp_mqd_base_addr_hi := upper_32_bits addr,
            cp_hqd_quantum := 1 OR push_bit 4 1 OR push_bit 8 10,
            cp_hqd_pipe_priority := 1, cp_hqd_queue_priority := 15, cp_hqd_eop_rptr := push_bit 0x1f 1\<rparr>;
          m = (if qp_format q = Format_aql then m\<lparr>cp_hqd_iq_rptr := 1\<rparr> else m)
      in update q m)"

definition init_mqd_vi :: "u64 \<Rightarrow> queue_properties \<Rightarrow> compute_mqd \<times> queue_properties" where
  "init_mqd_vi = init_mqd_vi_with update_mqd_vi"

section \<open>Descriptors of the queues of the driver\<close>

definition update_mqd_hiq_cik :: "queue_properties \<Rightarrow> compute_mqd \<Rightarrow> compute_mqd \<times> queue_properties" where
  "update_mqd_hiq_cik q m =
     (let m = m\<lparr>cp_hqd_pq_control := (push_bit 8 5 OR push_bit 20 3 OR push_bit 30 1 OR push_bit 31 1) OR ring_log2 (queue_size q),
            cp_hqd_pq_base_lo := lower_32_bits (drop_bit 8 (queue_address q)),
            cp_hqd_pq_base_hi := upper_32_bits (drop_bit 8 (queue_address q)),
            cp_hqd_pq_rptr_report_addr_lo := lower_32_bits (read_ptr q),
            cp_hqd_pq_rptr_report_addr_hi := upper_32_bits (read_ptr q),
            cp_hqd_pq_doorbell_control := push_bit 30 1 OR push_bit 2 (doorbell_off q),
            cp_hqd_vmid := qp_vmid q\<rparr>
      in (m\<lparr>cp_hqd_active := of_bool (queue_wants_active q)\<rparr>, q\<lparr>is_active := queue_wants_active q\<rparr>))"

definition init_mqd_hiq_cik :: "u64 \<Rightarrow> queue_properties \<Rightarrow> compute_mqd \<times> queue_properties" where
  "init_mqd_hiq_cik addr q =
     update_mqd_hiq_cik q
       (zero_mqd\<lparr>header := 0xC0310800, compute_pipelinestat_enable := 1, compute_static_thread_mgmt := 0xFFFFFFFF,
          cp_hqd_persistent_state := push_bit 8 0x33 OR 1, cp_hqd_quantum := 1 OR push_bit 4 1 OR push_bit 8 10,
          cp_mqd_control := push_bit 8 1, cp_mqd_base_addr_lo := lower_32_bits addr, cp_mqd_base_addr_hi := upper_32_bits addr,
          cp_hqd_ib_control := push_bit 20 3, cp_hqd_pipe_priority := 1, cp_hqd_queue_priority := 15\<rparr>)"

definition update_mqd_hiq_vi :: "queue_properties \<Rightarrow> compute_mqd \<Rightarrow> compute_mqd \<times> queue_properties" where
  "update_mqd_hiq_vi q m = (let (m, q) = update_mqd_vi_with 3 0 q m in (m\<lparr>cp_hqd_vmid := qp_vmid q\<rparr>, q))"

definition init_mqd_hiq_vi :: "u64 \<Rightarrow> queue_properties \<Rightarrow> compute_mqd \<times> queue_properties" where
  "init_mqd_hiq_vi addr q =
     (let (m, q) = init_mqd_vi_with update_mqd_hiq_vi addr q
      in (m\<lparr>cp_hqd_pq_control := cp_hqd_pq_control m OR (push_bit 0x1e 1 OR push_bit 0x1f 1)\<rparr>, q))"

section \<open>Descriptors of SDMA queues\<close>

record sdma_mqd =
  sdma_rlc_rb_cntl :: u32
  sdma_rlc_rb_base :: u32
  sdma_rlc_rb_base_hi :: u32
  sdma_rlc_rb_rptr_addr_lo :: u32
  sdma_rlc_rb_rptr_addr_hi :: u32
  sdma_rlc_doorbell :: u32
  sdma_rlc_virtual_addr :: u32
  mqd_engine_id :: u32
  mqd_queue_id :: u32

definition update_mqd_sdma :: "queue_properties \<Rightarrow> sdma_mqd \<times> queue_properties" where
  "update_mqd_sdma q =
     (let m = \<lparr>sdma_rlc_rb_cntl = push_bit 1 (ffs (ucast (queue_size q div 4))) OR push_bit 0x18 (qp_vmid q) OR push_bit 0xc 1 OR push_bit 0x10 6,
            sdma_rlc_rb_base = lower_32_bits (drop_bit 8 (queue_address q)),
            sdma_rlc_rb_base_hi = upper_32_bits (drop_bit 8 (queue_address q)),
            sdma_rlc_rb_rptr_addr_lo = lower_32_bits (read_ptr q), sdma_rlc_rb_rptr_addr_hi = upper_32_bits (read_ptr q),
            sdma_rlc_doorbell = push_bit 0 (doorbell_off q) OR push_bit 0x1c 1,
            sdma_rlc_virtual_addr = sdma_vm_addr q, mqd_engine_id = sdma_engine_id q, mqd_queue_id = sdma_queue_id q\<rparr>;
          m = (if queue_wants_active q then m\<lparr>sdma_rlc_rb_cntl := sdma_rlc_rb_cntl m OR 1\<rparr> else m)
      in (m, q\<lparr>is_active := queue_wants_active q\<rparr>))"

section \<open>The managers\<close>

text \<open>
  \<open>mqd_manager_init_cik\<close> and \<open>mqd_manager_init_vi\<close> choose the functions for a type of queue. The newer chip
  has none for SDMA queues: a call is one of a NULL pointer. \<open>init_mqd\<close> of a manager allocates the memory of
  the descriptor, with \<open>kmalloc_ok\<close> for its object; \<open>load_mqd\<close> and \<open>destroy_mqd\<close> are calls of the graphics
  driver.
\<close>

datatype mqd = Compute_mqd compute_mqd | Sdma_mqd sdma_mqd

definition mqd_size :: "asic_family \<Rightarrow> kfd_mqd_type \<Rightarrow> u32" where
  "mqd_size family type = (case family of Chip_kaveri \<Rightarrow> if type = Mqd_sdma then 520 else 512 | Chip_carrizo \<Rightarrow> 1024)"

definition mqd_manager_init :: "asic_family \<Rightarrow> kfd_mqd_type \<Rightarrow> u64 \<Rightarrow> queue_properties \<Rightarrow> (mqd \<times> queue_properties) option" where
  "mqd_manager_init family type addr q =
     (case (family, type) of
        (Chip_kaveri, Mqd_hiq) \<Rightarrow> (let (m, q) = init_mqd_hiq_cik addr q in Some (Compute_mqd m, q))
      | (Chip_kaveri, Mqd_sdma) \<Rightarrow> (let (m, q) = update_mqd_sdma q in Some (Sdma_mqd m, q))
      | (Chip_kaveri, _) \<Rightarrow> (let (m, q) = init_mqd_cik addr q in Some (Compute_mqd m, q))
      | (Chip_carrizo, Mqd_hiq) \<Rightarrow> (let (m, q) = init_mqd_hiq_vi addr q in Some (Compute_mqd m, q))
      | (Chip_carrizo, Mqd_sdma) \<Rightarrow> None
      | (Chip_carrizo, _) \<Rightarrow> (let (m, q) = init_mqd_vi addr q in Some (Compute_mqd m, q)))"

definition init_mqd :: "asic_family \<Rightarrow> kfd_mqd_type \<Rightarrow> bool \<Rightarrow> kfd_gtt \<Rightarrow> queue_properties \<Rightarrow>
    (int \<times> kfd_gtt \<times> (mqd \<times> kfd_mem_obj) option \<times> queue_properties) option" where
  "init_mqd family type kmalloc_ok gtt q = do {
     mqd_manager_init family type 0 q;
     (r, gtt, ob) \<leftarrow> kfd_gtt_sa_allocate kmalloc_ok (mqd_size family type) gtt;
     case ob of
       None \<Rightarrow> Some (- 12, gtt, None, q)
     | Some ob \<Rightarrow> do {
         (m, q) \<leftarrow> mqd_manager_init family type (mo_gpu_addr ob) q;
         Some (0, gtt, Some (m, ob), q)
       }
   }"

definition uninit_mqd :: "kfd_mem_obj \<Rightarrow> kfd_gtt \<Rightarrow> kfd_gtt option" where
  "uninit_mqd ob gtt = map_option snd (kfd_gtt_sa_free (Some ob) gtt)"

text \<open>\<open>update_mqd\<close> of a manager, on the descriptor of the queue.\<close>

definition update_mqd :: "asic_family \<Rightarrow> kfd_mqd_type \<Rightarrow> queue_properties \<Rightarrow> mqd \<Rightarrow> (mqd \<times> queue_properties) option" where
  "update_mqd family type q m =
     (case (family, type, m) of
        (Chip_kaveri, Mqd_sdma, _) \<Rightarrow> (let (m, q) = update_mqd_sdma q in Some (Sdma_mqd m, q))
      | (Chip_kaveri, Mqd_hiq, Compute_mqd m) \<Rightarrow> (let (m, q) = update_mqd_hiq_cik q m in Some (Compute_mqd m, q))
      | (Chip_kaveri, _, Compute_mqd m) \<Rightarrow> (let (m, q) = update_mqd_cik q m in Some (Compute_mqd m, q))
      | (Chip_carrizo, Mqd_sdma, _) \<Rightarrow> None
      | (Chip_carrizo, Mqd_hiq, Compute_mqd m) \<Rightarrow> (let (m, q) = update_mqd_hiq_vi q m in Some (Compute_mqd m, q))
      | (Chip_carrizo, _, Compute_mqd m) \<Rightarrow> (let (m, q) = update_mqd_vi q m in Some (Compute_mqd m, q))
      | _ \<Rightarrow> None)"

section \<open>What the user may ask for\<close>

text \<open>
  The arguments of the ioctl that creates a queue; \<open>access_ok\<close> of the kernel and the limits of the
  percentage and the priority, which are in a kernel header, are arguments of the check.
\<close>

datatype ioc_queue_type = Ioc_compute | Ioc_compute_aql | Ioc_sdma | Ioc_other

record create_queue_args =
  ring_base_address :: u64
  ring_size :: u32
  queue_percentage :: u32
  queue_priority :: u32
  ioc_type :: ioc_queue_type
  read_pointer_address :: u64
  write_pointer_address :: u64
  eop_buffer_address :: u64
  eop_buffer_size :: u64
  ctx_save_restore_address :: u64

definition is_power_of_2 :: "u64 \<Rightarrow> bool" where
  "is_power_of_2 n \<longleftrightarrow> n \<noteq> 0 \<and> n AND (n - 1) = 0"

definition set_queue_properties_from_user ::
  "(u64 \<Rightarrow> u64 \<Rightarrow> bool) \<Rightarrow> u32 \<Rightarrow> u32 \<Rightarrow> create_queue_args \<Rightarrow> queue_properties \<Rightarrow> int + queue_properties" where
  "set_queue_properties_from_user access_ok max_percentage max_priority args q =
     (if queue_percentage args > max_percentage then Inl (- 22)
      else if queue_priority args > max_priority then Inl (- 22)
      else if ring_base_address args \<noteq> 0 \<and> \<not> access_ok (ring_base_address args) 8 then Inl (- 14)
      else if \<not> is_power_of_2 (ucast (ring_size args)) \<and> ring_size args \<noteq> 0 then Inl (- 22)
      else if \<not> access_ok (read_pointer_address args) 4 then Inl (- 14)
      else if \<not> access_ok (write_pointer_address args) 4 then Inl (- 14)
      else if eop_buffer_address args \<noteq> 0 \<and> \<not> access_ok (eop_buffer_address args) 4 then Inl (- 14)
      else if ctx_save_restore_address args \<noteq> 0 \<and> \<not> access_ok (ctx_save_restore_address args) 4 then Inl (- 14)
      else
        (let q = q\<lparr>queue_percent := queue_percentage args, priority := queue_priority args, queue_address := ring_base_address args,
               queue_size := ucast (ring_size args), read_ptr := read_pointer_address args, write_ptr := write_pointer_address args,
               eop_ring_buffer_address := eop_buffer_address args, eop_ring_buffer_size := ucast (eop_buffer_size args)\<rparr>;
             fmt = (if ioc_type args = Ioc_compute_aql then Format_aql else Format_pm4)
         in case ioc_type args of
              Ioc_compute \<Rightarrow> Inr (q\<lparr>qp_type := Type_compute, qp_format := fmt\<rparr>)
            | Ioc_compute_aql \<Rightarrow> Inr (q\<lparr>qp_type := Type_compute, qp_format := fmt\<rparr>)
            | Ioc_sdma \<Rightarrow> Inr (q\<lparr>qp_type := Type_sdma, qp_format := fmt\<rparr>)
            | Ioc_other \<Rightarrow> Inl (- 524)))"

section \<open>Ring sizes\<close>

lemma power_of_2_cases:
  assumes "is_power_of_2 n" "unat n < 2 ^ 32"
  shows "\<exists>k < 32. unat n = 2 ^ k"
proof -
  have n: "1 \<le> unat n" "n AND (n - 1) = 0" using assms(1) by (auto simp: is_power_of_2_def Suc_le_eq unat_gt_0)
  obtain k where k: "2 ^ k \<le> unat n" "unat n < 2 ^ (k + 1)" using ex_power_ivl1 [of 2 "unat n"] n(1) by auto
  have top: "bit w k" if "2 ^ k \<le> unat w" "unat w < 2 ^ (k + 1)" for w :: u64
  proof -
    have "unat w div 2 ^ k = 1" using that by (intro div_nat_eqI) simp_all
    then have "bit (unat w) k" by (simp add: bit_iff_odd)
    then show ?thesis by (simp add: bit_unsigned_iff)
  qed
  have "unat n = 2 ^ k"
  proof (rule ccontr)
    assume ne: "unat n \<noteq> 2 ^ k"
    have "unat (n - 1) = unat n - 1" using n(1) by (simp add: unat_sub word_le_nat_alt)
    then have "bit (n - 1) k" using k ne by (intro top) simp_all
    moreover have "bit n k" using k by (rule top)
    ultimately have "bit (n AND (n - 1)) k" by (simp add: bit_and_iff)
    then show False by (simp add: n(2))
  qed
  moreover have "(2 :: nat) ^ k < 2 ^ 32" using k(1) assms(2) by (rule le_less_trans)
  then have "k < 32" by (rule power_less_imp_less_exp [rotated]) simp
  ultimately show ?thesis by blast
qed

lemma ffs_power:
  assumes "unat w = 2 ^ k" "k < 32"
  shows "ffs w = of_nat (Suc k)"
proof -
  have b: "bit w i = (i = k)" for i
  proof -
    have "bit (unat w) i = (i = k)" by (simp add: assms(1) bit_exp_iff)
    then show ?thesis using assms(2) by (auto simp: bit_unsigned_iff dest: bit_imp_le_length)
  qed
  have "find (bit w) [0 ..< 32] = Some k"
    unfolding find_Some_iff using assms(2) by (intro exI [of _ k]) (auto simp: b)
  then show ?thesis by (simp add: ffs_def)
qed

lemma ring_log2_power:
  assumes "unat sz = 2 ^ k" "3 \<le> k" "k < 32"
  shows "ring_log2 sz = of_nat (k - 3)"
proof -
  have "unat (sz div 4) = 2 ^ (k - 2)" using assms(1,2) by (simp add: unat_div power_diff)
  moreover have "(2 :: nat) ^ (k - 2) < 2 ^ 32" using assms(3) by (intro power_strict_increasing) simp_all
  ultimately have "unat (ucast (sz div 4) :: u32) = 2 ^ (k - 2)" by (simp add: unat_ucast)
  then have "ffs (ucast (sz div 4)) = of_nat (Suc (k - 2))" using assms(3) by (intro ffs_power) simp_all
  also have "Suc (k - 2) = k - 3 + 2" using assms(2) by simp
  finally show ?thesis by (simp add: ring_log2_def)
qed

text \<open>The sizes below eight bytes.\<close>

lemma ring_log2_tiny: "sz \<in> {1, 2, 4} \<Longrightarrow> ring_log2 sz = (if sz = 4 then - 1 else - 2)"
proof -
  assume "sz \<in> {1, 2, 4}"
  moreover have "ffs 0 = 0" by (simp add: ffs_def find_None_iff [THEN iffD2])
  moreover have "ffs 1 = 1" using ffs_power [of 1 0] by simp
  ultimately show ?thesis by (auto simp: ring_log2_def)
qed

lemma small_field:
  assumes "x < 64" "c AND 0x3F = 0" "\<not> bit c 30" "\<not> bit c 31"
  shows "(c OR of_nat x) AND 0x3F = (of_nat x :: u32)" "\<not> bit (c OR of_nat x :: u32) 30" "\<not> bit (c OR of_nat x :: u32) 31"
proof -
  have m: "(0x3F :: u32) = mask 6" by (simp add: mask_numeral)
  have u: "unat (of_nat x :: u32) = x" using assms(1) by (intro unat_of_nat_small) simp
  then have "unat ((of_nat x :: u32) AND mask 6) = x" using assms(1) by (simp add: unat_and_mask)
  then have x: "(of_nat x :: u32) AND 0x3F = of_nat x" unfolding m using u by (simp add: word_unat_eq_iff)
  then show "(c OR of_nat x) AND 0x3F = (of_nat x :: u32)" using assms(2) by (simp add: bit.conj_disj_distrib2)
  have "\<not> bit (of_nat x :: u32) i" if "6 \<le> i" for i
  proof
    assume "bit (of_nat x :: u32) i"
    then have "bit ((of_nat x :: u32) AND mask 6) i" using x m by simp
    then show False using that by (simp add: bit_simps)
  qed
  then show "\<not> bit (c OR of_nat x :: u32) 30" "\<not> bit (c OR of_nat x :: u32) 31" using assms(3,4) by (simp_all add: bit_or_iff)
qed

text \<open>How the hardware puts an address together from the two registers of the ring base.\<close>

definition ring_base :: "compute_mqd \<Rightarrow> u64" where
  "ring_base m = push_bit 8 (push_bit 32 (ucast (cp_hqd_pq_base_hi m)) OR ucast (cp_hqd_pq_base_lo m))"

lemma halves: "push_bit 32 (ucast (upper_32_bits a)) OR ucast (lower_32_bits a) = a"
  by (rule bit_word_eqI) (auto simp: upper_32_bits_def lower_32_bits_def bit_simps)

lemma page_of_address: "push_bit 8 (drop_bit 8 a) = (a AND NOT (mask 8) :: u64)"
  by (rule bit_word_eqI) (auto simp: bit_simps)

lemma doorbell_field:
  assumes "unat d < 2 ^ 21"
  shows "drop_bit 2 (push_bit 30 1 OR push_bit 2 d) AND mask 21 = (d :: u32)" "bit (push_bit 30 1 OR push_bit 2 d :: u32) 30"
proof -
  have "d = take_bit 21 d" using assms by (simp add: word_unat_eq_iff unat_take_bit)
  then have d: "bit d i = (i < 21 \<and> bit d i)" for i by (metis bit_take_bit_iff)
  have t: "bit (push_bit 30 1 :: u32) i = (i = 30)" for i by (simp only: bit_push_bit_iff bit_1_iff) auto
  show "drop_bit 2 (push_bit 30 1 OR push_bit 2 d) AND mask 21 = d"
  proof (rule bit_word_eqI)
    fix i assume "i < LENGTH(32)"
    then show "bit (drop_bit 2 (push_bit 30 1 OR push_bit 2 d) AND mask 21) i = bit d i"
      using d [of i] by (simp only: bit_and_iff bit_drop_bit_eq bit_or_iff o_apply t bit_push_bit_iff bit_mask_iff) auto
  qed
  show "bit (push_bit 30 1 OR push_bit 2 d :: u32) 30" by (simp only: bit_or_iff t) simp
qed

text \<open>The fields of both descriptors that depend on the queue.\<close>

lemmas init_mqd_defs = init_mqd_cik_def init_mqd_vi_def init_mqd_vi_with_def update_mqd_cik_def update_mqd_vi_def update_mqd_vi_with_def Let_def

lemma init_mqd_fields:
  assumes "m \<in> {fst (init_mqd_cik addr q), fst (init_mqd_vi addr q)}"
  shows "\<exists>c. cp_hqd_pq_control m = c OR ring_log2 (queue_size q) \<and> c AND 0x3F = 0 \<and> \<not> bit c 30 \<and> \<not> bit c 31"
    "ring_base m = queue_address q AND NOT (mask 8)" "cp_hqd_pq_doorbell_control m = push_bit 30 1 OR push_bit 2 (doorbell_off q)"
    "cp_hqd_vmid m = qp_vmid q" "cp_hqd_active m = of_bool (queue_wants_active q)"
    "push_bit 32 (ucast (cp_mqd_base_addr_hi m)) OR ucast (cp_mqd_base_addr_lo m) = addr"
proof -
  have swap: "(a OR r) OR b = (a OR b) OR r" for a b r :: u32 by (simp only: or.assoc or.commute [of b])
  have merged: "(0x00B00500 OR r) OR 0x08000000 = 0x08B00500 OR r" "(0x00810500 OR r) OR 0x0C000000 = 0x0C810500 OR r" for r :: u32
    by (subst swap, simp)+
  have "cp_hqd_pq_control m = (if qp_format q = Format_aql then 0x08B00500 else 0x00B00500) OR ring_log2 (queue_size q) \<or>
      cp_hqd_pq_control m = (if qp_format q = Format_aql then 0x0C810500 else 0x00810500) OR ring_log2 (queue_size q)"
    using assms by (auto simp: init_mqd_defs merged)
  then show "\<exists>c. cp_hqd_pq_control m = c OR ring_log2 (queue_size q) \<and> c AND 0x3F = 0 \<and> \<not> bit c 30 \<and> \<not> bit c 31"
    by (elim disjE) (intro exI, rule conjI, assumption, simp)+
next
  have "cp_hqd_pq_base_lo m = lower_32_bits (drop_bit 8 (queue_address q))" "cp_hqd_pq_base_hi m = upper_32_bits (drop_bit 8 (queue_address q))"
    using assms by (auto simp: init_mqd_defs)
  then show "ring_base m = queue_address q AND NOT (mask 8)" by (simp only: ring_base_def halves page_of_address)
qed (use assms in \<open>auto simp: init_mqd_defs halves\<close>)

text \<open>What \<open>init_mqd\<close> of a manager returns, and that it changes nothing of a queue but its activity.\<close>

lemma mqd_manager_init_some:
  assumes "type \<noteq> Mqd_sdma \<or> family = Chip_kaveri"
  shows "mqd_manager_init family type a q \<noteq> None"
  using assms by (cases family; cases type) (auto simp: mqd_manager_init_def split: prod.split)

lemma mqd_manager_init_properties:
  assumes "mqd_manager_init family type a q = Some (m, q')"
  obtains b where "q' = q\<lparr>is_active := b\<rparr>"
  using assms by (cases family; cases type) (auto simp: mqd_manager_init_def init_mqd_defs update_mqd_sdma_def
    init_mqd_hiq_cik_def update_mqd_hiq_cik_def init_mqd_hiq_vi_def update_mqd_hiq_vi_def)

lemma mqd_manager_init_total:
  assumes "type \<noteq> Mqd_sdma \<or> family = Chip_kaveri"
  obtains m b where "mqd_manager_init family type a q = Some (m, q\<lparr>is_active := b\<rparr>)"
proof -
  obtain m q' where m: "mqd_manager_init family type a q = Some (m, q')" using mqd_manager_init_some [OF assms] by (metis option.exhaust surj_pair)
  from mqd_manager_init_properties [OF m] obtain b where "q' = q\<lparr>is_active := b\<rparr>" .
  with m that show thesis by blast
qed

lemma init_mqd_result:
  assumes "type \<noteq> Mqd_sdma \<or> family = Chip_kaveri" "kfd_gtt_sa_allocate kmalloc_ok (mqd_size family type) gtt = Some (r, gtt', ob)"
  shows "\<exists>m b. init_mqd family type kmalloc_ok gtt q =
    (case ob of None \<Rightarrow> Some (- 12, gtt', None, q) | Some ob \<Rightarrow> Some (0, gtt', Some (m, ob), q\<lparr>is_active := b\<rparr>))"
proof -
  obtain m0 b0 where m0: "mqd_manager_init family type 0 q = Some (m0, q\<lparr>is_active := b0\<rparr>)" by (rule mqd_manager_init_total [OF assms(1)])
  show ?thesis
  proof (cases ob)
    case None
    then show ?thesis using m0 assms(2) by (simp add: init_mqd_def)
  next
    case (Some ob)
    obtain m b where "mqd_manager_init family type (mo_gpu_addr ob) q = Some (m, q\<lparr>is_active := b\<rparr>)"
      by (rule mqd_manager_init_total [OF assms(1)])
    then show ?thesis using m0 assms(2) Some by (intro exI [of _ m] exI [of _ b]) (simp add: init_mqd_def)
  qed
qed

lemma queue_from_user_fields:
  assumes "set_queue_properties_from_user access_ok max_percentage max_priority args q0 = Inr q"
  shows "is_power_of_2 (ucast (ring_size args)) \<or> ring_size args = 0" "queue_size q = ucast (ring_size args)"
    "queue_address q = ring_base_address args" "queue_percent q = queue_percentage args"
    "qp_vmid q = qp_vmid q0" "doorbell_off q = doorbell_off q0"
  using assms unfolding set_queue_properties_from_user_def Let_def
  by (simp_all split: if_split_asm ioc_queue_type.split_asm) (hypsubst, simp)+

section \<open>Properties\<close>

text \<open>
  (C12) The hardware sees the queue the user asked for. For every queue that the ioctl accepts with a ring
  of at least eight bytes, the descriptor written by either generation decodes to that queue: the size
  field gives the ring size, the two base registers give the ring address up to its low eight bits, the
  doorbell field gives the doorbell offset and the doorbell is enabled, the VMID is the queue's, the queue
  is active exactly when it has a ring and a share of the hardware, and the privileged bits of the control
  word stay clear.
\<close>

theorem mqd_describes_queue:
  assumes "set_queue_properties_from_user access_ok max_percentage max_priority args q0 = Inr q"
    and "8 \<le> ring_size args" and "unat (doorbell_off q0) < 2 ^ 21"
    and "m \<in> {fst (init_mqd_cik addr q), fst (init_mqd_vi addr q)}"
  shows "4 * 2 ^ (unat (cp_hqd_pq_control m AND 0x3F) + 1) = unat (ring_size args) \<and>
    ring_base m = ring_base_address args AND NOT (mask 8) \<and>
    drop_bit 2 (cp_hqd_pq_doorbell_control m) AND mask 21 = doorbell_off q0 \<and> bit (cp_hqd_pq_doorbell_control m) 30 \<and>
    cp_hqd_vmid m = qp_vmid q0 \<and>
    cp_hqd_active m = of_bool (ring_base_address args \<noteq> 0 \<and> queue_percentage args > 0) \<and>
    \<not> bit (cp_hqd_pq_control m) 30 \<and> \<not> bit (cp_hqd_pq_control m) 31"
proof -
  note q = queue_from_user_fields [OF assms(1)] and m = init_mqd_fields [OF assms(4)]
  have big: "8 \<le> unat (ring_size args)" using assms(2) by (simp add: word_le_nat_alt)
  then have ne: "ring_size args \<noteq> 0" by auto
  have small: "unat (ring_size args) < 2 ^ 32" using unsigned_less [of "ring_size args"] by simp
  have sz: "unat (queue_size q) = unat (ring_size args)" unfolding q(2) using small by (simp add: unsigned_ucast_eq take_bit_nat_eq_self_iff)
  with small obtain k where k: "k < 32" "unat (queue_size q) = 2 ^ k" using power_of_2_cases [of "queue_size q"] q(1,2) ne by auto
  have "(2 :: nat) ^ 3 \<le> 2 ^ k" using big sz k(2) by simp
  then have k3: "3 \<le> k" by (rule power_le_imp_le_exp [rotated]) simp
  obtain c where c: "cp_hqd_pq_control m = c OR of_nat (k - 3)" "c AND 0x3F = 0" "\<not> bit c 30" "\<not> bit c 31"
    using m(1) ring_log2_power [OF k(2) k3 k(1)] by auto
  have "k - 3 < 64" using k(1) by simp
  note f = small_field [OF this c(2-4)]
  have "unat (of_nat (k - 3) :: u32) = k - 3" using k(1) by (intro unat_of_nat_small) simp
  moreover have "4 * 2 ^ (k - 3 + 1) = (2 :: nat) ^ k" using power_add [of "2 :: nat" 3 "k - 3"] k3 by simp
  ultimately have "4 * 2 ^ (unat (cp_hqd_pq_control m AND 0x3F) + 1) = unat (ring_size args)" using c(1) f(1) k(2) sz by simp
  moreover have "queue_wants_active q \<longleftrightarrow> ring_base_address args \<noteq> 0 \<and> queue_percentage args > 0"
    using big sz q(3,4) by (simp add: queue_wants_active_def word_less_nat_alt)
  ultimately show ?thesis using m(2-5) q doorbell_field [of "doorbell_off q"] assms(3) f(2,3) c(1) by simp
qed

definition example_args :: create_queue_args where
  "example_args = \<lparr>ring_base_address = 0x10000, ring_size = 8, queue_percentage = 100, queue_priority = 7, ioc_type = Ioc_compute,
     read_pointer_address = 0x20000, write_pointer_address = 0x20008, eop_buffer_address = 0, eop_buffer_size = 0,
     ctx_save_restore_address = 0\<rparr>"

definition example_queue :: queue_properties where
  "example_queue = \<lparr>qp_type = Type_compute, qp_format = Format_pm4, queue_id = 0, queue_address = 0, queue_size = 0, priority = 0,
     queue_percent = 0, read_ptr = 0, write_ptr = 0, doorbell_ptr = 0, doorbell_off = 0x800, is_active = False, qp_vmid = 8, sdma_engine_id = 0, sdma_queue_id = 0,
     sdma_vm_addr = 0, eop_ring_buffer_address = 0, eop_ring_buffer_size = 0\<rparr>"

theorem mqd_describes_queue_witness:
  "\<exists>q. set_queue_properties_from_user (\<lambda>_ _. True) 100 15 example_args example_queue = Inr q \<and>
     4 * 2 ^ (unat (cp_hqd_pq_control (fst (init_mqd_vi 0x1000 q)) AND 0x3F) + 1) = (8 :: nat) \<and>
     ring_base (fst (init_mqd_vi 0x1000 q)) = 0x10000"
proof -
  have p: "is_power_of_2 8" by (simp add: is_power_of_2_def)
  obtain q where q: "set_queue_properties_from_user (\<lambda>_ _. True) 100 15 example_args example_queue = Inr q"
    by (simp add: set_queue_properties_from_user_def example_args_def p Let_def)
  have a: "ring_size example_args = 8" "ring_base_address example_args = 0x10000" "doorbell_off example_queue = 0x800"
    by (simp_all add: example_args_def example_queue_def)
  have n: "(0x10000 :: u64) AND NOT (mask 8) = 0x10000" by (simp add: mask_numeral)
  from mqd_describes_queue [OF q, of "fst (init_mqd_vi 0x1000 q)" "0x1000"] show ?thesis using q by (simp add: a n)
qed

text \<open>
  (C31) The ioctl accepts rings of one, two and four bytes, which are powers of two. For such a ring the
  logarithm that goes into the size field is negative, and in both generations its sign bits set the whole
  upper part of the control word: the privileged-state bit 30 and the kernel-queue bit 31 are set, in the
  descriptor of a queue that is active.
\<close>

theorem mqd_tiny_ring:
  assumes "set_queue_properties_from_user access_ok max_percentage max_priority args q0 = Inr q"
    and "ring_size args \<in> {1, 2, 4}" and "ring_base_address args \<noteq> 0" and "queue_percentage args > 0"
    and "m \<in> {fst (init_mqd_cik addr q), fst (init_mqd_vi addr q)}"
  shows "bit (cp_hqd_pq_control m) 30 \<and> bit (cp_hqd_pq_control m) 31 \<and> cp_hqd_active m = 1"
proof -
  note q = queue_from_user_fields [OF assms(1)] and m = init_mqd_fields [OF assms(5)]
  have sz: "queue_size q \<in> {1, 2, 4}" using assms(2) q(2) by auto
  then have "ring_log2 (queue_size q) \<in> {- 1, - 2}" using ring_log2_tiny [OF sz] by simp
  then have "bit (ring_log2 (queue_size q)) 30" "bit (ring_log2 (queue_size q)) 31" by auto
  moreover have "queue_wants_active q" using sz assms(3,4) q(3,4) by (auto simp: queue_wants_active_def)
  ultimately show ?thesis using m(1,5) by (auto simp: bit_or_iff)
qed

theorem mqd_tiny_ring_witness:
  "\<exists>q. set_queue_properties_from_user (\<lambda>_ _. True) 100 15 (example_args\<lparr>ring_size := 4\<rparr>) example_queue = Inr q \<and>
     bit (cp_hqd_pq_control (fst (init_mqd_cik 0x1000 q))) 31 \<and> cp_hqd_active (fst (init_mqd_cik 0x1000 q)) = 1"
proof -
  have p: "is_power_of_2 4" by (simp add: is_power_of_2_def)
  obtain q where q: "set_queue_properties_from_user (\<lambda>_ _. True) 100 15 (example_args\<lparr>ring_size := 4\<rparr>) example_queue = Inr q"
    by (simp add: set_queue_properties_from_user_def example_args_def p Let_def)
  from mqd_tiny_ring [OF q, of "fst (init_mqd_cik 0x1000 q)" "0x1000"] show ?thesis using q by (simp add: example_args_def)
qed

end
