(* ===== verification/Kfd_Gtt_Use.thy ===== *)
theory Kfd_Gtt_Use
  imports Kfd_Gtt
begin

text \<open>
  What a client of the chunk allocator relies on when it takes several objects and gives them back, in any
  order, as the set-up and the error paths of the queues do: the allocator ends in the state it started from.
\<close>

text \<open>\<open>gtt\<close> is \<open>gtt0\<close> with the chunks of the objects taken in addition.\<close>

definition taken :: "kfd_gtt \<Rightarrow> kfd_mem_obj list \<Rightarrow> kfd_gtt \<Rightarrow> bool" where
  "taken gtt0 obs gtt \<longleftrightarrow> gtt_ok gtt0 \<and> distinct obs \<and>
     (\<exists>bm. gtt = gtt0\<lparr>gtt_sa_bitmap := bm\<rparr> \<and> length bm = length (gtt_sa_bitmap gtt0) \<and>
       (\<forall>j < length bm. bm ! j \<longleftrightarrow> gtt_sa_bitmap gtt0 ! j \<or> (\<exists>ob \<in> set obs. j \<in> chunks_of ob))) \<and>
     (\<forall>ob \<in> set obs. mo_range_start ob \<le> mo_range_end ob \<and> mo_range_end ob < unat (gtt_sa_num_of_chunks gtt0) \<and>
        (\<forall>j \<in> chunks_of ob. \<not> gtt_sa_bitmap gtt0 ! j)) \<and>
     (\<forall>a \<in> set obs. \<forall>b \<in> set obs. a \<noteq> b \<longrightarrow> chunks_of a \<inter> chunks_of b = {})"

lemma takenI:
  assumes "gtt_ok gtt0" "distinct obs" "gtt = gtt0\<lparr>gtt_sa_bitmap := bm\<rparr>" "length bm = length (gtt_sa_bitmap gtt0)"
    "\<And>j. j < length bm \<Longrightarrow> bm ! j \<longleftrightarrow> gtt_sa_bitmap gtt0 ! j \<or> (\<exists>ob \<in> set obs. j \<in> chunks_of ob)"
    "\<And>ob. ob \<in> set obs \<Longrightarrow> mo_range_start ob \<le> mo_range_end ob \<and> mo_range_end ob < unat (gtt_sa_num_of_chunks gtt0) \<and>
        (\<forall>j \<in> chunks_of ob. \<not> gtt_sa_bitmap gtt0 ! j)"
    "\<And>a b. a \<in> set obs \<Longrightarrow> b \<in> set obs \<Longrightarrow> a \<noteq> b \<Longrightarrow> chunks_of a \<inter> chunks_of b = {}"
  shows "taken gtt0 obs gtt"
  unfolding taken_def using assms by blast

lemma takenD:
  assumes "taken gtt0 obs gtt"
  shows "gtt_ok gtt0" "distinct obs"
    "\<exists>bm. gtt = gtt0\<lparr>gtt_sa_bitmap := bm\<rparr> \<and> length bm = length (gtt_sa_bitmap gtt0) \<and>
      (\<forall>j < length bm. bm ! j \<longleftrightarrow> gtt_sa_bitmap gtt0 ! j \<or> (\<exists>ob \<in> set obs. j \<in> chunks_of ob))"
    "ob \<in> set obs \<Longrightarrow> mo_range_start ob \<le> mo_range_end ob \<and> mo_range_end ob < unat (gtt_sa_num_of_chunks gtt0) \<and>
        (\<forall>j \<in> chunks_of ob. \<not> gtt_sa_bitmap gtt0 ! j)"
    "a \<in> set obs \<Longrightarrow> b \<in> set obs \<Longrightarrow> a \<noteq> b \<Longrightarrow> chunks_of a \<inter> chunks_of b = {}"
  using assms unfolding taken_def by blast+

lemma taken_start: "gtt_ok gtt \<Longrightarrow> taken gtt [] gtt"
  by (auto simp: taken_def intro!: exI [of _ "gtt_sa_bitmap gtt"])

lemma taken_none: "taken gtt0 [] gtt \<Longrightarrow> gtt = gtt0"
proof -
  assume "taken gtt0 [] gtt"
  then obtain bm where bm: "gtt = gtt0\<lparr>gtt_sa_bitmap := bm\<rparr>" "length bm = length (gtt_sa_bitmap gtt0)" "\<forall>j < length bm. bm ! j \<longleftrightarrow> gtt_sa_bitmap gtt0 ! j"
    using takenD(3) by fastforce
  then have "bm = gtt_sa_bitmap gtt0" by (intro nth_equalityI) simp_all
  then show "gtt = gtt0" using bm(1) by simp
qed

lemma taken_ok: "taken gtt0 obs gtt \<Longrightarrow> gtt_ok gtt"
  by (auto simp: taken_def gtt_ok_def)

text \<open>As long as there is a run of enough free chunks, an allocation is defined.\<close>

lemma run_allocates:
  assumes ok: "gtt_ok gtt" and run: "free_run gtt s (chunks_needed gtt sz)"
  shows "kfd_gtt_sa_allocate kmalloc_ok sz gtt \<noteq> None"
proof (cases "sz = 0 \<or> sz > gtt_sa_num_of_chunks gtt * gtt_sa_chunk_size gtt \<or> \<not> kmalloc_ok")
  case True
  then show ?thesis by (auto simp: kfd_gtt_sa_allocate_def)
next
  case False
  have "unat (gtt_sa_num_of_chunks gtt * gtt_sa_chunk_size gtt) = unat (gtt_sa_num_of_chunks gtt) * unat (gtt_sa_chunk_size gtt)"
    using ok by (intro unat_mult_small) (simp add: gtt_ok_def)
  then have sz: "0 < sz" "unat sz \<le> unat (gtt_sa_num_of_chunks gtt) * unat (gtt_sa_chunk_size gtt)"
    using False by (auto simp: word_less_nat_alt word_neq_0_conv)
  have "\<exists>s. free_run gtt s (chunks_needed gtt sz)" using run by blast
  from allocate_cases [OF ok sz, unfolded if_P [OF this]] show ?thesis using False by auto
qed

text \<open>\<open>k\<close> chunks at the end of the buffer are free: there is room for objects that need no more than \<open>k\<close> together.\<close>

definition room :: "nat \<Rightarrow> kfd_gtt \<Rightarrow> bool" where
  "room k gtt \<longleftrightarrow> free_run gtt (unat (gtt_sa_num_of_chunks gtt) - k) k"

lemma room_less: "room k gtt \<Longrightarrow> k' \<le> k \<Longrightarrow> room k' gtt"
  by (auto simp: room_def free_run_def)

lemma room_allocate:
  assumes ok: "gtt_ok gtt" and r: "room k gtt" "chunks_needed gtt sz \<le> k"
  shows "kfd_gtt_sa_allocate kmalloc_ok sz gtt \<noteq> None"
    and "kfd_gtt_sa_allocate kmalloc_ok sz gtt = Some (r, gtt', ob) \<Longrightarrow> room (k - chunks_needed gtt sz) gtt'"
proof -
  let ?n = "unat (gtt_sa_num_of_chunks gtt)" and ?c = "chunks_needed gtt sz" and ?run = "kfd_gtt_sa_allocate kmalloc_ok sz gtt"
  have k: "k \<le> ?n" using r(1) by (simp add: room_def free_run_def)
  have "?run \<noteq> None \<and> (\<forall>r gtt' ob. ?run = Some (r, gtt', ob) \<longrightarrow> room (k - ?c) gtt')"
  proof (cases "sz = 0 \<or> sz > gtt_sa_num_of_chunks gtt * gtt_sa_chunk_size gtt \<or> \<not> kmalloc_ok")
    case True
    then show ?thesis using room_less [OF r(1), of "k - ?c"] by (auto simp: kfd_gtt_sa_allocate_def)
  next
    case False
    have "unat (gtt_sa_num_of_chunks gtt * gtt_sa_chunk_size gtt) = ?n * unat (gtt_sa_chunk_size gtt)"
      using ok by (intro unat_mult_small) (simp add: gtt_ok_def)
    then have sz: "0 < sz" "unat sz \<le> ?n * unat (gtt_sa_chunk_size gtt)" using False by (auto simp: word_less_nat_alt word_neq_0_conv)
    have at: "free_run gtt (?n - k) ?c" using r k by (auto simp: room_def free_run_def)
    then have ex: "\<exists>s. free_run gtt s ?c" by blast
    from allocate_cases [OF ok sz, unfolded if_P [OF ex]] obtain bm s e where a: "kfd_gtt_sa_allocate True sz gtt = Some (0, gtt\<lparr>gtt_sa_bitmap := bm\<rparr>, Some (gtt_mem_obj gtt s e))"
      "Suc e = s + ?c" "\<forall>s' < s. \<not> free_run gtt s' ?c" "length bm = length (gtt_sa_bitmap gtt)" "\<forall>j < length bm. bm ! j = (s \<le> j \<and> j \<le> e \<or> gtt_sa_bitmap gtt ! j)" by blast
    have "s \<le> ?n - k" using a(3) at by (meson not_le_imp_less)
    then have e: "e < ?n - (k - ?c)" using a(2) r(2) k by linarith
    have "?n \<le> length bm" using ok a(4) by (simp add: gtt_ok_def)
    then have "room (k - ?c) (gtt\<lparr>gtt_sa_bitmap := bm\<rparr>)" using r(1) k e a(5) by (auto simp: room_def free_run_def)
    then show ?thesis using a(1) False by simp
  qed
  then show "?run \<noteq> None" "?run = Some (r, gtt', ob) \<Longrightarrow> room (k - ?c) gtt'" by blast+
qed

lemma taken_allocate:
  assumes "taken gtt0 obs gtt" "kfd_gtt_sa_allocate kmalloc_ok sz gtt = Some (r, gtt', ob)"
  shows "ob = None \<and> gtt' = gtt \<or> (\<exists>b. ob = Some b \<and> taken gtt0 (b # obs) gtt')"
proof -
  have ok: "gtt_ok gtt" using assms(1) by (rule taken_ok)
  from allocate_result [OF ok assms(2)] consider "ob = None" "gtt' = gtt" | (new) bm s e where "ob = Some (gtt_mem_obj gtt s e)"
    "gtt' = gtt\<lparr>gtt_sa_bitmap := bm\<rparr>" "s \<le> e" "e < unat (gtt_sa_num_of_chunks gtt)"
    "\<forall>j. s \<le> j \<and> j \<le> e \<longrightarrow> \<not> gtt_sa_bitmap gtt ! j" "length bm = length (gtt_sa_bitmap gtt)"
    "\<forall>j < length bm. bm ! j = (s \<le> j \<and> j \<le> e \<or> gtt_sa_bitmap gtt ! j)" by blast
  then show ?thesis
  proof cases
    case new
    note d = takenD [OF assms(1)]
    obtain b0 where b: "gtt = gtt0\<lparr>gtt_sa_bitmap := b0\<rparr>" "length b0 = length (gtt_sa_bitmap gtt0)"
      "\<forall>j < length b0. b0 ! j \<longleftrightarrow> gtt_sa_bitmap gtt0 ! j \<or> (\<exists>ob \<in> set obs. j \<in> chunks_of ob)" using d(3) by blast
    note ok0 = d(1,2) and obs = d(4,5)
    let ?ob = "gtt_mem_obj gtt s e"
    have c: "chunks_of ?ob = {s .. e}" "mo_range_start ?ob = s" "mo_range_end ?ob = e" by (simp_all add: chunks_of_def gtt_mem_obj_def)
    have e: "e < length b0" using ok new(4) b(1) by (simp add: gtt_ok_def)
    have dis: "chunks_of ?ob \<inter> chunks_of b = {}" if "b \<in> set obs" for b
      using new(5) b e that unfolding c by (auto simp: disjoint_iff)
    have fresh: "?ob \<notin> set obs" using dis [of ?ob] new(3) c by auto
    have free: "\<not> gtt_sa_bitmap gtt0 ! j" if "j \<in> chunks_of ?ob" for j
    proof -
      have "j < length b0" "\<not> b0 ! j" using new(5) b(1) e that unfolding c by auto
      then show ?thesis using b(3) by blast
    qed
    have "taken gtt0 (?ob # obs) gtt'"
    proof (rule takenI [OF ok0(1)])
      show "gtt' = gtt0\<lparr>gtt_sa_bitmap := bm\<rparr>" "length bm = length (gtt_sa_bitmap gtt0)" using new(2,6) b(1,2) by simp_all
      show "bm ! j \<longleftrightarrow> gtt_sa_bitmap gtt0 ! j \<or> (\<exists>ob \<in> set (?ob # obs). j \<in> chunks_of ob)" if "j < length bm" for j
      proof -
        have "bm ! j \<longleftrightarrow> j \<in> chunks_of ?ob \<or> b0 ! j" using new(7) b(1) that c(1) by simp
        then show ?thesis using b(3) that new(6) b(1) by auto
      qed
      show "chunks_of x \<inter> chunks_of y = {}" if "x \<in> set (?ob # obs)" "y \<in> set (?ob # obs)" "x \<noteq> y" for x y
        using that dis obs(2) [of x y] by (metis Int_commute set_ConsD)
      show "mo_range_start x \<le> mo_range_end x \<and> mo_range_end x < unat (gtt_sa_num_of_chunks gtt0) \<and>
          (\<forall>j \<in> chunks_of x. \<not> gtt_sa_bitmap gtt0 ! j)" if "x \<in> set (?ob # obs)" for x
        using that obs(1) [of x] free new(3,4) c(2,3) b(1) by auto
    qed (use ok0(2) fresh in simp)
    then show ?thesis using new(1) by blast
  qed blast
qed

lemma taken_free:
  assumes "taken gtt0 obs gtt" "ob \<in> set obs"
  shows "\<exists>gtt'. kfd_gtt_sa_free (Some ob) gtt = Some (0, gtt') \<and> taken gtt0 (remove1 ob obs) gtt'"
proof -
  note d = takenD [OF assms(1)]
  obtain b0 where b: "gtt = gtt0\<lparr>gtt_sa_bitmap := b0\<rparr>" "length b0 = length (gtt_sa_bitmap gtt0)"
      "\<forall>j < length b0. b0 ! j \<longleftrightarrow> gtt_sa_bitmap gtt0 ! j \<or> (\<exists>ob \<in> set obs. j \<in> chunks_of ob)" using d(3) by blast
  note ok0 = d(1,2) and obs = d(4,5)
  have "Suc (mo_range_end ob) \<le> length b0" using ok0(1) obs(1) [OF assms(2)] b(2) by (simp add: gtt_ok_def)
  from mark_chunks_ok [OF this, of False "mo_range_start ob"] obtain bm where
    bm: "mark_chunks False [mo_range_start ob ..< Suc (mo_range_end ob)] b0 = Some bm" "length bm = length b0"
      "\<forall>j < length b0. bm ! j = (if mo_range_start ob \<le> j \<and> j < Suc (mo_range_end ob) then False else b0 ! j)" by blast
  have free: "kfd_gtt_sa_free (Some ob) gtt = Some (0, gtt\<lparr>gtt_sa_bitmap := bm\<rparr>)"
    using bm(1) b(1) by (simp add: kfd_gtt_sa_free_def del: upt_Suc)
  have rest: "set (remove1 ob obs) = set obs - {ob}" using ok0(2) by simp
  have "taken gtt0 (remove1 ob obs) (gtt\<lparr>gtt_sa_bitmap := bm\<rparr>)"
  proof (rule takenI [OF ok0(1)])
    show "gtt\<lparr>gtt_sa_bitmap := bm\<rparr> = gtt0\<lparr>gtt_sa_bitmap := bm\<rparr>" "length bm = length (gtt_sa_bitmap gtt0)" using b(1,2) bm(2) by simp_all
    show "bm ! j \<longleftrightarrow> gtt_sa_bitmap gtt0 ! j \<or> (\<exists>b \<in> set (remove1 ob obs). j \<in> chunks_of b)" if "j < length bm" for j
    proof -
      have "bm ! j \<longleftrightarrow> j \<notin> chunks_of ob \<and> b0 ! j" using bm(2,3) that by (auto simp: chunks_of_def)
      moreover have "j \<notin> chunks_of ob" if "b \<in> set obs - {ob}" "j \<in> chunks_of b" for b
        using obs(2) [OF assms(2), of b] that by auto
      moreover have "j \<notin> chunks_of ob" if "gtt_sa_bitmap gtt0 ! j" using obs(1) [OF assms(2)] that by auto
      ultimately show ?thesis using b(3) bm(2) that unfolding rest by auto
    qed
  qed (use ok0(2) obs rest in auto)
  then show ?thesis using free by blast
qed

text \<open>
  An allocation on the way: it finds no room, which is undefined behaviour; or it fails cleanly; or it takes
  one more object, and the rest of the room remains.
\<close>

lemma allocate_on_the_way:
  assumes t: "taken gtt obs g"
  obtains (fault) "kfd_gtt_sa_allocate ok sz g = None" "\<And>k. chunks_needed gtt sz \<le> k \<Longrightarrow> \<not> room k g"
  | (clean) r where "kfd_gtt_sa_allocate ok sz g = Some (r, g, None)" "sz \<noteq> 0 \<Longrightarrow> \<not> sz > gtt_sa_num_of_chunks gtt * gtt_sa_chunk_size gtt \<Longrightarrow> \<not> ok"
  | (new) r g' ob where "kfd_gtt_sa_allocate ok sz g = Some (r, g', Some ob)" "taken gtt (ob # obs) g'" "ok"
      "\<not> sz > gtt_sa_num_of_chunks gtt * gtt_sa_chunk_size gtt" "Suc (mo_range_end ob) = mo_range_start ob + chunks_needed gtt sz"
      "\<And>k. room (k + chunks_needed gtt sz) g \<Longrightarrow> room k g'"
proof -
  have g: "gtt_sa_num_of_chunks g = gtt_sa_num_of_chunks gtt" "gtt_sa_chunk_size g = gtt_sa_chunk_size gtt" "gtt_ok g"
    using takenD(3) [OF t] taken_ok [OF t] by auto
  then have c: "chunks_needed g sz = chunks_needed gtt sz" by (simp add: chunks_needed_def)
  consider "kfd_gtt_sa_allocate ok sz g = None" | (none) r g' where "kfd_gtt_sa_allocate ok sz g = Some (r, g', None)"
    | (some) r g' ob where "kfd_gtt_sa_allocate ok sz g = Some (r, g', Some ob)" by (cases "kfd_gtt_sa_allocate ok sz g") (auto, metis option.exhaust)
  then show thesis
  proof cases
    case 1
    have "\<not> room k g" if "chunks_needed gtt sz \<le> k" for k using room_allocate(1) [OF g(3), of k sz ok] c 1 that by auto
    then show ?thesis by (rule fault [OF 1])
  next
    case none
    then have "g' = g" using taken_allocate [OF t none] by simp
    moreover have "\<not> ok" if "sz \<noteq> 0" "\<not> sz > gtt_sa_num_of_chunks gtt * gtt_sa_chunk_size gtt"
      using none that g by (auto simp: kfd_gtt_sa_allocate_def split: option.splits bind_splits)
    ultimately show ?thesis using none clean by simp
  next
    case some
    have "ok" "\<not> sz > gtt_sa_num_of_chunks gtt * gtt_sa_chunk_size gtt" using some g by (auto simp: kfd_gtt_sa_allocate_def split: if_splits)
    moreover have "taken gtt (ob # obs) g'" using taken_allocate [OF t some] by simp
    moreover have "Suc (mo_range_end ob) = mo_range_start ob + chunks_needed gtt sz" using allocate_result [OF g(3) some] c by (auto simp: gtt_mem_obj_def)
    moreover have "room k g'" if "room (k + chunks_needed gtt sz) g" for k using room_allocate(2) [OF g(3) that _ some] c by simp
    ultimately show ?thesis using some new by blast
  qed
qed

end
