(* ===== verification/Kfd_Kq.thy ===== *)
theory Kfd_Kq
  imports Kfd_Mqd Kfd_Ids Kfd_Gtt_Use
begin

text \<open>
  The queues of the compute driver itself, \<open>kfd_kernel_queue.c\<close> with the parts of both chip generations: a
  ring of words through which the driver sends packets to the scheduler of the hardware, and its set-up
  from chunks of the graphics aperture and a kernel doorbell.
\<close>

section \<open>State\<close>

text \<open>
  \<open>struct kernel_queue\<close> with the properties and the descriptor of its \<open>queue\<close>. \<open>kq_ring\<close>, \<open>kq_rptr\<close> and
  \<open>kq_wptr\<close> are the contents of the memory at \<open>pq_kernel_addr\<close>, \<open>rptr_kernel\<close> and \<open>wptr_kernel\<close>, and
  \<open>kq_doorbell\<close> is the value last written to the doorbell.
\<close>

record kernel_queue =
  kq_properties :: queue_properties
  kq_mqd :: "mqd \<times> kfd_mem_obj"
  pending_wptr :: u32
  nop_packet :: u32
  pq_mem :: kfd_mem_obj
  eop_mem :: "kfd_mem_obj option"
  rptr_mem :: kfd_mem_obj
  wptr_mem :: kfd_mem_obj
  fence_mem :: "kfd_mem_obj option"
  kq_ring :: "u32 list"
  kq_rptr :: u32
  kq_wptr :: u32
  kq_doorbell :: "u32 option"

section \<open>The ring\<close>

text \<open>The loop of \<open>acquire_packet_buffer\<close> that fills the ring with no-operations up to its end.\<close>

function fill_nops :: "u32 \<Rightarrow> u64 \<Rightarrow> u32 \<Rightarrow> u32 list \<Rightarrow> (u32 \<times> u32 list) option" where
  "fill_nops nop queue_size_dwords wptr ring =
     (if wptr = 0 then Some (wptr, ring)
      else if queue_size_dwords = 0 then None
      else
        (case update_opt ring (unat wptr) nop of
           None \<Rightarrow> None
         | Some ring \<Rightarrow> fill_nops nop queue_size_dwords (ucast ((ucast (wptr + 1) :: u64) mod queue_size_dwords)) ring))"
  by pat_completeness auto
termination
proof (relation "measure (\<lambda>(nop, n, wptr, ring). if wptr = 0 then 0 else if unat wptr < unat n then Suc (unat n - unat wptr) else Suc (Suc (unat n)))", goal_cases)
  case (2 nop n wptr ring ring')
  let ?w = "unat (wptr + 1) mod unat n"
  have lt: "unat (wptr + 1) < 2 ^ 32" using unsigned_less [of "wptr + 1"] by simp
  with mod_less_eq_dividend have w: "?w < 2 ^ 32" by (rule le_less_trans)
  have eq: "unat (ucast ((ucast (wptr + 1) :: u64) mod n) :: u32) = ?w"
    using lt w by (simp only: unat_ucast unat_mod unsigned_ucast_eq take_bit_eq_mod) simp
  have n: "0 < unat n" using 2 by (simp add: unat_gt_0)
  consider "?w = 0" | "?w \<noteq> 0" "unat (wptr + 1) = Suc (unat wptr)" by (metis add.commute mod_0 unat_0 unatSuc)
  then show ?case
  proof cases
    case 1
    then show ?thesis using 2 eq by (simp add: word_unat_eq_iff)
  next
    case 2
    have "?w < unat n" using n by simp
    moreover have "?w = Suc (unat wptr)" if "unat wptr < unat n"
    proof -
      have "Suc (unat wptr) \<noteq> unat n" using 2 by auto
      then show ?thesis using that 2(2) by simp
    qed
    ultimately show ?thesis using 2 \<open>wptr \<noteq> 0\<close> eq by (auto simp: word_unat_eq_iff)
  qed
qed simp

declare fill_nops.simps [simp del]

definition acquire_packet_buffer :: "u64 \<Rightarrow> kernel_queue \<Rightarrow> (int \<times> u32 option \<times> kernel_queue) option" where
  "acquire_packet_buffer packet_size_in_dwords kq =
     (let rptr = kq_rptr kq; wptr = kq_wptr kq; queue_size_dwords = queue_size (kq_properties kq) div 4
      in if queue_size_dwords = 0 then None
         else
           (let available_size = (ucast (rptr - 1 - wptr) + queue_size_dwords) mod queue_size_dwords
            in if packet_size_in_dwords \<ge> queue_size_dwords \<or> packet_size_in_dwords \<ge> available_size then Some (- 12, None, kq)
               else do {
                 (wptr, ring) \<leftarrow>
                   (if ucast wptr + packet_size_in_dwords \<ge> queue_size_dwords
                    then fill_nops (nop_packet kq) queue_size_dwords wptr (kq_ring kq)
                    else Some (wptr, kq_ring kq));
                 Some (0, Some wptr, kq\<lparr>kq_ring := ring, pending_wptr := ucast (ucast wptr + packet_size_in_dwords)\<rparr>)
               }))"

text \<open>\<open>submit_packet\<close>, with \<open>write_kernel_doorbell\<close>.\<close>

definition submit_packet :: "kernel_queue \<Rightarrow> kernel_queue" where
  "submit_packet kq = kq\<lparr>kq_wptr := pending_wptr kq,
     kq_doorbell := (if doorbell_ptr (kq_properties kq) = 0 then kq_doorbell kq else Some (pending_wptr kq))\<rparr>"

text \<open>The word that the processor finds at an address is an argument: \<open>write_ptr\<close> is the address for the GPU.\<close>

definition rollback_packet :: "(u64 \<Rightarrow> u32 option) \<Rightarrow> kernel_queue \<Rightarrow> kernel_queue option" where
  "rollback_packet load kq = do { w \<leftarrow> load (write_ptr (kq_properties kq)); Some (kq\<lparr>pending_wptr := w\<rparr>) }"

section \<open>Set-up\<close>

text \<open>
  What the kernel answers: whether there is a manager for the descriptor, and memory for the objects of the
  chunks and for the queue. \<open>prop\<close> and \<open>nop\<close> are what the uninitialised variables of \<open>initialize\<close> contain.
\<close>

record kq_env =
  mqd_manager_ok :: bool
  kmalloc_pq :: bool
  kmalloc_eop :: bool
  kmalloc_rptr :: bool
  kmalloc_wptr :: bool
  kzalloc_queue :: bool
  kmalloc_mqd :: bool
  kmalloc_fence :: bool

type_synonym kq_result = "kernel_queue option \<times> kfd_gtt \<times> kfd_doorbells"

text \<open>The labels of the error path of \<open>initialize\<close>, the last one first.\<close>

definition err_pq_allocate_vidmem :: "u64 \<Rightarrow> kfd_gtt \<Rightarrow> kfd_doorbells \<Rightarrow> kq_result option" where
  "err_pq_allocate_vidmem db_ptr gtt db = do { db \<leftarrow> kfd_release_kernel_doorbell db_ptr db; Some (None, gtt, db) }"

definition err_eop_allocate_vidmem :: "kfd_mem_obj \<Rightarrow> u64 \<Rightarrow> kfd_gtt \<Rightarrow> kfd_doorbells \<Rightarrow> kq_result option" where
  "err_eop_allocate_vidmem pq db_ptr gtt db = do { (_, gtt) \<leftarrow> kfd_gtt_sa_free (Some pq) gtt; err_pq_allocate_vidmem db_ptr gtt db }"

definition err_rptr_allocate_vidmem :: "kfd_mem_obj option \<Rightarrow> kfd_mem_obj \<Rightarrow> u64 \<Rightarrow> kfd_gtt \<Rightarrow> kfd_doorbells \<Rightarrow> kq_result option" where
  "err_rptr_allocate_vidmem eop pq db_ptr gtt db = do { (_, gtt) \<leftarrow> kfd_gtt_sa_free eop gtt; err_eop_allocate_vidmem pq db_ptr gtt db }"

definition err_wptr_allocate_vidmem ::
  "kfd_mem_obj \<Rightarrow> kfd_mem_obj option \<Rightarrow> kfd_mem_obj \<Rightarrow> u64 \<Rightarrow> kfd_gtt \<Rightarrow> kfd_doorbells \<Rightarrow> kq_result option" where
  "err_wptr_allocate_vidmem rptr eop pq db_ptr gtt db =
     do { (_, gtt) \<leftarrow> kfd_gtt_sa_free (Some rptr) gtt; err_rptr_allocate_vidmem eop pq db_ptr gtt db }"

definition err_init_queue ::
  "kfd_mem_obj \<Rightarrow> kfd_mem_obj \<Rightarrow> kfd_mem_obj option \<Rightarrow> kfd_mem_obj \<Rightarrow> u64 \<Rightarrow> kfd_gtt \<Rightarrow> kfd_doorbells \<Rightarrow> kq_result option" where
  "err_init_queue wptr rptr eop pq db_ptr gtt db =
     do { (_, gtt) \<leftarrow> kfd_gtt_sa_free (Some wptr) gtt; err_wptr_allocate_vidmem rptr eop pq db_ptr gtt db }"

text \<open>\<open>initialize_cik\<close> does nothing, \<open>initialize_vi\<close> allocates a page; the result tells whether it succeeds.\<close>

definition initialize_asic :: "asic_family \<Rightarrow> bool \<Rightarrow> kfd_gtt \<Rightarrow> (bool \<times> kfd_gtt \<times> kfd_mem_obj option) option" where
  "initialize_asic family kmalloc_ok gtt =
     (case family of
        Chip_kaveri \<Rightarrow> Some (True, gtt, None)
      | Chip_carrizo \<Rightarrow> do { (r, gtt, ob) \<leftarrow> kfd_gtt_sa_allocate kmalloc_ok 4096 gtt; Some (ob \<noteq> None, gtt, ob) })"

definition kq_nop :: "u32 \<Rightarrow> u32" where
  "kq_nop nop = (nop AND 0xFF) OR push_bit 8 0x10 OR (nop AND 0x3FFF0000) OR push_bit 30 3 OR push_bit 16 (push_bit 15 1 - 1)"

definition kq_prop ::
  "queue_properties \<Rightarrow> kfd_queue_type \<Rightarrow> u32 \<Rightarrow> u64 \<times> u32 \<Rightarrow> kfd_mem_obj \<Rightarrow> kfd_mem_obj option \<Rightarrow> kfd_mem_obj \<Rightarrow> kfd_mem_obj \<Rightarrow> queue_properties" where
  "kq_prop prop type sz db pq eop rptr wptr = prop\<lparr>doorbell_ptr := fst db, doorbell_off := snd db, queue_size := ucast sz, priority := 1,
     queue_percent := 100, qp_type := type, qp_vmid := 0, queue_address := mo_gpu_addr pq, read_ptr := mo_gpu_addr rptr,
     write_ptr := mo_gpu_addr wptr, eop_ring_buffer_address := (case eop of None \<Rightarrow> 0 | Some e \<Rightarrow> mo_gpu_addr e),
     eop_ring_buffer_size := 4096\<rparr>"

text \<open>The end of \<open>initialize\<close>: the queue, its descriptor and, for the debug queue, a fence.\<close>

definition initialize_queue ::
  "asic_family \<Rightarrow> kq_env \<Rightarrow> kfd_queue_type \<Rightarrow> u32 \<Rightarrow> queue_properties \<Rightarrow> u32 \<Rightarrow> u64 \<times> u32 \<Rightarrow>
   kfd_mem_obj \<Rightarrow> kfd_mem_obj option \<Rightarrow> kfd_mem_obj \<Rightarrow> kfd_mem_obj \<Rightarrow> kfd_gtt \<Rightarrow> kfd_doorbells \<Rightarrow> kq_result option" where
  "initialize_queue family env type sz prop nop dbell pq eop rptr wptr gtt db =
     (if \<not> kzalloc_queue env then err_init_queue wptr rptr eop pq (fst dbell) gtt db
      else do {
        (r, gtt, m, q) \<leftarrow> init_mqd family Mqd_hiq (kmalloc_mqd env) gtt (kq_prop prop type sz dbell pq eop rptr wptr);
        case m of
          None \<Rightarrow> err_init_queue wptr rptr eop pq (fst dbell) gtt db
        | Some m \<Rightarrow>
            let kq = \<lparr>kq_properties = q, kq_mqd = m, pending_wptr = 0, nop_packet = kq_nop nop, pq_mem = pq, eop_mem = eop,
                  rptr_mem = rptr, wptr_mem = wptr, fence_mem = None, kq_ring = replicate (unat sz div 4) 0,
                  kq_rptr = 0, kq_wptr = 0, kq_doorbell = None\<rparr>
            in if type = Type_hiq then Some (Some kq, gtt, db)
               else do {
                 (r, gtt, fence) \<leftarrow> kfd_gtt_sa_allocate (kmalloc_fence env) 4 gtt;
                 case fence of
                   None \<Rightarrow> err_init_queue wptr rptr eop pq (fst dbell) gtt db
                 | Some f \<Rightarrow> Some (Some (kq\<lparr>fence_mem := Some f\<rparr>), gtt, db)
               }
      })"

text \<open>The part before it: the memory of the two pointers.\<close>

definition initialize_pointers ::
  "asic_family \<Rightarrow> kq_env \<Rightarrow> kfd_queue_type \<Rightarrow> u32 \<Rightarrow> queue_properties \<Rightarrow> u32 \<Rightarrow> u64 \<times> u32 \<Rightarrow>
   kfd_mem_obj \<Rightarrow> kfd_mem_obj option \<Rightarrow> kfd_gtt \<Rightarrow> kfd_doorbells \<Rightarrow> kq_result option" where
  "initialize_pointers family env type sz prop nop dbell pq eop gtt db = do {
     (r, gtt, rptr) \<leftarrow> kfd_gtt_sa_allocate (kmalloc_rptr env) 4 gtt;
     case rptr of
       None \<Rightarrow> err_rptr_allocate_vidmem eop pq (fst dbell) gtt db
     | Some rptr \<Rightarrow> do {
         (r, gtt, wptr) \<leftarrow> kfd_gtt_sa_allocate (kmalloc_wptr env) 4 gtt;
         case wptr of
           None \<Rightarrow> err_wptr_allocate_vidmem rptr eop pq (fst dbell) gtt db
         | Some wptr \<Rightarrow> initialize_queue family env type sz prop nop dbell pq eop rptr wptr gtt db
       }
   }"

text \<open>
  \<open>initialize\<close> of \<open>kfd_kernel_queue.c\<close>; the value None of the queue is the result \<open>false\<close>. (The load of the
  descriptor of the interface queue to its place in the hardware is a call of the graphics driver, whose
  result is not tested.)
\<close>

definition kq_initialize ::
  "asic_family \<Rightarrow> kq_env \<Rightarrow> kfd_queue_type \<Rightarrow> u32 \<Rightarrow> queue_properties \<Rightarrow> u32 \<Rightarrow> kfd_gtt \<Rightarrow> kfd_doorbells \<Rightarrow> kq_result option" where
  "kq_initialize family env type sz prop nop gtt db =
     (if type \<noteq> Type_diq \<and> type \<noteq> Type_hiq then None
      else if \<not> mqd_manager_ok env then Some (None, gtt, db)
      else do {
        (dbell, db) \<leftarrow> kfd_get_kernel_doorbell db;
        case dbell of
          None \<Rightarrow> Some (None, gtt, db)
        | Some dbell \<Rightarrow> do {
            (r, gtt, pq) \<leftarrow> kfd_gtt_sa_allocate (kmalloc_pq env) sz gtt;
            case pq of
              None \<Rightarrow> err_pq_allocate_vidmem (fst dbell) gtt db
            | Some pq \<Rightarrow> do {
                (ok, gtt, eop) \<leftarrow> initialize_asic family (kmalloc_eop env) gtt;
                if \<not> ok then err_eop_allocate_vidmem pq (fst dbell) gtt db
                else initialize_pointers family env type sz prop nop dbell pq eop gtt db
              }
          }
      })"

definition kq_uninitialize :: "asic_family \<Rightarrow> kernel_queue \<Rightarrow> kfd_gtt \<Rightarrow> kfd_doorbells \<Rightarrow> (kfd_gtt \<times> kfd_doorbells) option" where
  "kq_uninitialize family kq gtt db = do {
     (_, gtt) \<leftarrow> (if qp_type (kq_properties kq) = Type_diq then kfd_gtt_sa_free (fence_mem kq) gtt else Some (0, gtt));
     gtt \<leftarrow> uninit_mqd (snd (kq_mqd kq)) gtt;
     (_, gtt) \<leftarrow> kfd_gtt_sa_free (Some (rptr_mem kq)) gtt;
     (_, gtt) \<leftarrow> kfd_gtt_sa_free (Some (wptr_mem kq)) gtt;
     (_, gtt) \<leftarrow> (case family of Chip_kaveri \<Rightarrow> Some (0, gtt) | Chip_carrizo \<Rightarrow> kfd_gtt_sa_free (eop_mem kq) gtt);
     (_, gtt) \<leftarrow> kfd_gtt_sa_free (Some (pq_mem kq)) gtt;
     db \<leftarrow> kfd_release_kernel_doorbell (doorbell_ptr (kq_properties kq)) db;
     Some (gtt, db)
   }"

definition kernel_queue_init :: "asic_family \<Rightarrow> bool \<Rightarrow> kq_env \<Rightarrow> kfd_queue_type \<Rightarrow> queue_properties \<Rightarrow> u32 \<Rightarrow> kfd_gtt \<Rightarrow> kfd_doorbells \<Rightarrow> kq_result option" where
  "kernel_queue_init family kzalloc_ok env type prop nop gtt db =
     (if \<not> kzalloc_ok then Some (None, gtt, db) else kq_initialize family env type 2048 prop nop gtt db)"

section \<open>The ring is a queue\<close>

text \<open>The words between the pointers, in the order in which the hardware reads them, and a packet written by a client.\<close>

definition kq_contents :: "kernel_queue \<Rightarrow> u32 list" where
  "kq_contents kq = (let r = unat (kq_rptr kq); w = unat (kq_wptr kq)
     in if r \<le> w then take (w - r) (drop r (kq_ring kq)) else drop r (kq_ring kq) @ take w (kq_ring kq))"

definition write_packet :: "u32 \<Rightarrow> u32 list \<Rightarrow> kernel_queue \<Rightarrow> kernel_queue" where
  "write_packet p ds kq = kq\<lparr>kq_ring := take (unat p) (kq_ring kq) @ ds @ drop (unat p + length ds) (kq_ring kq)\<rparr>"

text \<open>The size is a number of words that divides \<open>2^32\<close>, as \<open>KFD_KERNEL_QUEUE_SIZE\<close> does.\<close>

definition kq_ok :: "kernel_queue \<Rightarrow> bool" where
  "kq_ok kq \<longleftrightarrow> (let n = length (kq_ring kq) in unat (queue_size (kq_properties kq) div 4) = n \<and> n dvd 2 ^ 32 \<and> n < 2 ^ 32 \<and>
     unat (kq_rptr kq) < n \<and> unat (kq_wptr kq) < n)"

lemma next_index:
  fixes wptr :: u32 and qs :: u64
  assumes "unat wptr < unat qs" "unat qs < 2 ^ 32"
  shows "unat (ucast ((ucast (wptr + 1) :: u64) mod qs) :: u32) = (if Suc (unat wptr) = unat qs then 0 else Suc (unat wptr))"
proof -
  have s: "Suc (unat wptr) < 2 ^ 32" using assms by simp
  then have u: "unat (wptr + 1) = Suc (unat wptr)" by (simp add: unat_word_ariths)
  have "unat (ucast ((ucast (wptr + 1) :: u64) mod qs) :: u32) = Suc (unat wptr) mod unat qs mod 2 ^ 32"
    using s by (simp only: unat_ucast unat_mod unsigned_ucast_eq take_bit_eq_mod u) simp
  also have "Suc (unat wptr) mod unat qs mod 2 ^ 32 = Suc (unat wptr) mod unat qs"
    using s by (intro mod_less le_less_trans [OF mod_less_eq_dividend])
  also have "\<dots> = (if Suc (unat wptr) = unat qs then 0 else Suc (unat wptr))" using assms(1) by auto
  finally show ?thesis .
qed

lemma fill_nops_all:
  assumes "unat qs = length ring" "unat qs < 2 ^ 32" "0 < unat wptr" "unat wptr < length ring"
  shows "fill_nops nop qs wptr ring = Some (0, take (unat wptr) ring @ replicate (length ring - unat wptr) nop)"
  using assms
proof (induction "length ring - unat wptr" arbitrary: wptr ring)
  case (Suc m)
  let ?w = "unat wptr" and ?next = "ucast ((ucast (wptr + 1) :: u64) mod qs) :: u32"
  have ne: "wptr \<noteq> 0" "qs \<noteq> 0" using Suc by auto
  have nx: "unat ?next = (if Suc ?w = unat qs then 0 else Suc ?w)" using Suc by (intro next_index) simp_all
  have step: "fill_nops nop qs wptr ring = fill_nops nop qs ?next (ring[?w := nop])"
    using ne Suc by (subst fill_nops.simps) (simp add: update_opt_def)
  show ?case
  proof (cases "Suc ?w = unat qs")
    case True
    then have "?next = 0" using nx by (simp add: word_unat_eq_iff)
    moreover have "length ring - ?w = 1" using True Suc.prems by simp
    ultimately show ?thesis using Suc.prems True by (subst step) (simp add: fill_nops.simps [of _ _ 0] upd_conv_take_nth_drop)
  next
    case False
    then have "fill_nops nop qs ?next (ring[?w := nop]) =
        Some (0, take (Suc ?w) (ring[?w := nop]) @ replicate (length ring - Suc ?w) nop)"
      using Suc.hyps(1) [of "ring[?w := nop]" ?next] Suc.hyps(2) Suc.prems nx by simp
    moreover have "take (Suc ?w) (ring[?w := nop]) = take ?w ring @ [nop]" using Suc.prems by (simp add: take_Suc_conv_app_nth)
    moreover have "length ring - ?w = Suc (length ring - Suc ?w)" using Suc.prems by simp
    ultimately show ?thesis using step by simp
  qed
qed simp

lemma available_words:
  fixes r w :: u32 and qs :: u64
  assumes "unat r < unat qs" "unat w < unat qs" "unat qs dvd 2 ^ 32" "unat qs < 2 ^ 32"
  shows "unat ((ucast (r - 1 - w) + qs) mod qs) = (if unat w < unat r then unat r - 1 - unat w else unat r + unat qs - 1 - unat w)"
proof -
  let ?x = "unat (r - 1 - w)" and ?n = "unat qs"
  have "?x < 2 ^ 32" using unsigned_less [of "r - 1 - w"] by simp
  then have sum: "unat ((ucast (r - 1 - w) + qs) mod qs) = (?x + ?n) mod ?n"
    using assms(4) by (simp only: unat_mod unat_word_ariths unsigned_ucast_eq take_bit_eq_mod) simp
  show ?thesis
  proof (cases "unat w < unat r")
    case True
    then have "1 \<le> r" by (simp add: word_le_nat_alt)
    then have r: "unat (r - 1) = unat r - 1" by (simp add: unat_sub)
    then have "w \<le> r - 1" using True by (simp add: word_le_nat_alt)
    then have "?x = unat r - 1 - unat w" using r by (simp add: unat_sub)
    then show ?thesis using True assms(1) unfolding sum mod_add_self2 by simp
  next
    case False
    define d where "d = unat w + 1 - unat r"
    have d: "0 < d" "d \<le> ?n" "unat w + 1 = unat r + d" using False assms(2) by (auto simp: d_def)
    then have ud: "unat (of_nat d :: u32) = d" using assms(4) by (intro unat_of_nat_small) simp
    have "(of_nat (unat w + 1) :: u32) = of_nat (unat r + d)" by (simp only: d(3))
    then have "w + 1 = r + of_nat d" by (simp add: add.commute)
    then have "r - 1 - w = - of_nat d" by (simp add: algebra_simps)
    moreover have "unat (- of_nat d :: u32) = 2 ^ 32 - d"
    proof -
      have "(of_nat d :: u32) \<noteq> 0" using ud d(1) by auto
      then show ?thesis using ud by (subst unat_uminus_word) simp_all
    qed
    ultimately have x: "?x = 2 ^ 32 - d" by simp
    obtain k where k: "(2 :: nat) ^ 32 = ?n * k" using assms(3) by (elim dvdE)
    have "?x + ?n = ?n * k + (?n - d)" using x k d(2) assms(4) by simp
    then have "(?x + ?n) mod ?n = (?n - d) mod ?n" by simp
    then show ?thesis using sum False d assms(1) by (simp add: d_def)
  qed
qed

lemma acquire_packet:
  assumes "kq_ok kq" "acquire_packet_buffer len kq = Some (r, Some p, kq')"
  shows "let n = length (kq_ring kq); rd = unat (kq_rptr kq); w = unat (kq_wptr kq)
    in r = 0 \<and> unat len < (if w < rd then rd - 1 - w else rd + n - 1 - w) \<and>
       (if w + unat len < n then kq' = kq\<lparr>pending_wptr := of_nat (w + unat len)\<rparr> \<and> p = kq_wptr kq
        else p = 0 \<and> unat len < n \<and> rd \<le> w \<and> 0 < w \<and>
          kq' = kq\<lparr>kq_ring := take w (kq_ring kq) @ replicate (n - w) (nop_packet kq), pending_wptr := of_nat (unat len)\<rparr>)"
proof -
  define n where "n = length (kq_ring kq)"
  define qs where "qs = queue_size (kq_properties kq) div 4"
  let ?r = "unat (kq_rptr kq)" and ?w = "unat (kq_wptr kq)" and ?l = "unat len"
  have ok: "unat qs = n" "n dvd 2 ^ 32" "n < 2 ^ 32" "?r < n" "?w < n" using assms(1) by (simp_all add: kq_ok_def n_def qs_def Let_def)
  have qs0: "qs \<noteq> 0" using ok by auto
  let ?av = "(ucast (kq_rptr kq - 1 - kq_wptr kq) + qs) mod qs"
  have av: "unat ?av = (if ?w < ?r then ?r - 1 - ?w else ?r + n - 1 - ?w)"
    using available_words [of "kq_rptr kq" qs "kq_wptr kq"] ok by simp
  from assms(2) qs0 have fits: "len < qs" "len < ?av"
    by (auto simp: acquire_packet_buffer_def Let_def qs_def [symmetric] not_le split: if_splits)
  then have l: "?l < n" "?l < (if ?w < ?r then ?r - 1 - ?w else ?r + n - 1 - ?w)" using ok av by (simp_all add: word_less_nat_alt)
  have sum: "unat (ucast (kq_wptr kq) + len :: u64) = ?w + ?l"
    using ok l(1) by (simp add: unat_word_ariths unsigned_ucast_eq take_bit_eq_mod)
  then have wrap: "(ucast (kq_wptr kq) + len \<ge> qs) = (\<not> ?w + ?l < n)" using ok(1) by (simp add: word_le_nat_alt not_less)
  have pend: "(ucast (x :: u64) :: u32) = of_nat (unat x)" for x by (simp add: word_unat_eq_iff unat_ucast unat_of_nat take_bit_eq_mod)
  show ?thesis
  proof (cases "?w + ?l < n")
    case True
    then have "r = 0 \<and> p = kq_wptr kq \<and> kq' = kq\<lparr>pending_wptr := of_nat (?w + ?l)\<rparr>"
      using assms(2) fits qs0 wrap pend [of "ucast (kq_wptr kq) + len"] sum
      by (auto simp: acquire_packet_buffer_def Let_def qs_def [symmetric] not_le split: if_splits)
    then show ?thesis using True l(2) by (simp add: Let_def n_def [symmetric])
  next
    case False
    then have rw: "?r \<le> ?w" "0 < ?w" using l ok by (auto split: if_splits)
    have fill: "fill_nops (nop_packet kq) qs (kq_wptr kq) (kq_ring kq) = Some (0, take ?w (kq_ring kq) @ replicate (n - ?w) (nop_packet kq))"
      using fill_nops_all [of qs "kq_ring kq" "kq_wptr kq"] ok rw by (simp add: n_def)
    have "r = 0 \<and> p = 0 \<and> kq' = kq\<lparr>kq_ring := take ?w (kq_ring kq) @ replicate (n - ?w) (nop_packet kq), pending_wptr := of_nat ?l\<rparr>"
      using assms(2) fits qs0 wrap fill False pend [of len]
      by (auto simp: acquire_packet_buffer_def Let_def qs_def [symmetric] not_le split: if_splits)
    then show ?thesis using False l rw by (simp add: Let_def n_def [symmetric])
  qed
qed

text \<open>A ring of eight words.\<close>

definition kq_demo :: "u32 \<Rightarrow> u32 \<Rightarrow> kernel_queue" where
  "kq_demo rptr wptr =
     (let ob = \<lparr>mo_range_start = 0, mo_range_end = 0, mo_gpu_addr = 0, mo_cpu_ptr = 0\<rparr>
      in \<lparr>kq_properties = example_queue\<lparr>queue_size := 32\<rparr>, kq_mqd = (Compute_mqd zero_mqd, ob), pending_wptr = 0, nop_packet = kq_nop 0,
           pq_mem = ob, eop_mem = None, rptr_mem = ob, wptr_mem = ob, fence_mem = None, kq_ring = [0, 1, 2, 3, 4, 5, 6, 7],
           kq_rptr = rptr, kq_wptr = wptr, kq_doorbell = None\<rparr>)"

lemma kq_demo_ok: "rptr < 8 \<Longrightarrow> wptr < 8 \<Longrightarrow> kq_ok (kq_demo rptr wptr)"
proof -
  have "length (kq_ring (kq_demo rptr wptr)) = 8" by (simp add: kq_demo_def Let_def)
  moreover have "unat (queue_size (kq_properties (kq_demo rptr wptr)) div 4) = 8" "kq_rptr (kq_demo rptr wptr) = rptr"
    "kq_wptr (kq_demo rptr wptr) = wptr" by (simp_all add: kq_demo_def Let_def)
  ultimately show "rptr < 8 \<Longrightarrow> wptr < 8 \<Longrightarrow> kq_ok (kq_demo rptr wptr)" by (simp add: kq_ok_def word_less_nat_alt)
qed

section \<open>Set-up and error paths\<close>

lemma doorbell_back:
  assumes "kernel_doorbell_ok db" "bits_set (doorbell_available_index db) \<noteq> {..< 1024}"
  shows "\<exists>dbell db'. kfd_get_kernel_doorbell db = Some (Some dbell, db') \<and> kfd_release_kernel_doorbell (fst dbell) db' = Some db"
proof -
  from kernel_doorbell_cases [OF assms(1), unfolded if_not_P [OF assms(2)]] obtain inx where
    i: "inx < 1024" "inx \<notin> bits_set (doorbell_available_index db)" and
    g: "kfd_get_kernel_doorbell db = Some (Some (doorbell_kernel_ptr db + 4 * of_nat inx, ucast (1024 + of_nat inx :: u64)),
        db\<lparr>doorbell_available_index := (doorbell_available_index db)[inx := True]\<rparr>)" by blast
  let ?db = "db\<lparr>doorbell_available_index := (doorbell_available_index db)[inx := True]\<rparr>"
  have "kernel_doorbell_ok ?db" using assms(1) by (simp add: kernel_doorbell_ok_def)
  from kernel_doorbell_release [OF this i(1)] have
    "kfd_release_kernel_doorbell (doorbell_kernel_ptr db + 4 * of_nat inx) ?db = Some (?db\<lparr>doorbell_available_index := (doorbell_available_index db)[inx := False]\<rparr>)"
    by (simp add: kernel_doorbell_put_def)
  moreover have "(doorbell_available_index db)[inx := False] = doorbell_available_index db"
    using i assms(1) by (simp add: bits_set_def kernel_doorbell_ok_def list_update_same_conv)
  ultimately show ?thesis using g by auto
qed

text \<open>Every label, and \<open>uninitialize\<close>, gives back the objects that it is for, one after the other.\<close>

fun free_all :: "kfd_mem_obj list \<Rightarrow> kfd_gtt \<Rightarrow> kfd_gtt option" where
  "free_all [] gtt = Some gtt"
| "free_all (ob # obs) gtt = do { (_, gtt) \<leftarrow> kfd_gtt_sa_free (Some ob) gtt; free_all obs gtt }"

lemma free_all_taken:
  "taken gtt obs g \<Longrightarrow> set xs \<subseteq> set obs \<Longrightarrow> distinct xs \<Longrightarrow>
   \<exists>g'. free_all xs g = Some g' \<and> taken gtt (filter (\<lambda>ob. ob \<notin> set xs) obs) g'"
proof (induction xs arbitrary: obs g)
  case (Cons x xs)
  obtain g' where g': "kfd_gtt_sa_free (Some x) g = Some (0, g')" "taken gtt (remove1 x obs) g'"
    using taken_free [OF Cons.prems(1)] Cons.prems(2) by auto
  have d: "distinct obs" using Cons.prems(1) by (rule takenD)
  have "set xs \<subseteq> set (remove1 x obs)" using Cons.prems d by auto
  from Cons.IH [OF g'(2) this] Cons.prems(3) obtain g'' where
    "free_all xs g' = Some g''" "taken gtt (filter (\<lambda>ob. ob \<notin> set xs) (remove1 x obs)) g''" by auto
  moreover have "filter (\<lambda>ob. ob \<notin> set xs) (remove1 x obs) = filter (\<lambda>ob. ob \<notin> set (x # xs)) obs"
    using d by (auto simp: distinct_remove1_removeAll removeAll_filter_not_eq intro!: filter_cong)
  ultimately show ?case using g'(1) by auto
qed simp

lemma free_all_back:
  assumes "taken gtt obs g" "set xs = set obs" "distinct xs"
  shows "free_all xs g = Some gtt"
proof -
  obtain g' where "free_all xs g = Some g'" "taken gtt (filter (\<lambda>ob. ob \<notin> set xs) obs) g'"
    using free_all_taken [OF assms(1) _ assms(3)] assms(2) by auto
  moreover have "filter (\<lambda>ob. ob \<notin> set xs) obs = []" by (simp add: assms(2))
  ultimately show ?thesis using taken_none by simp
qed

abbreviation objs :: "kfd_mem_obj option \<Rightarrow> kfd_mem_obj list" where
  "objs ob \<equiv> (case ob of None \<Rightarrow> [] | Some ob \<Rightarrow> [ob])"

lemma error_labels:
  "err_eop_allocate_vidmem pq ptr gtt db = do { gtt \<leftarrow> free_all [pq] gtt; err_pq_allocate_vidmem ptr gtt db }"
  "err_rptr_allocate_vidmem eop pq ptr gtt db = do { gtt \<leftarrow> free_all (objs eop @ [pq]) gtt; err_pq_allocate_vidmem ptr gtt db }"
  "err_wptr_allocate_vidmem rptr eop pq ptr gtt db = do { gtt \<leftarrow> free_all (rptr # objs eop @ [pq]) gtt; err_pq_allocate_vidmem ptr gtt db }"
  "err_init_queue wptr rptr eop pq ptr gtt db = do { gtt \<leftarrow> free_all (wptr # rptr # objs eop @ [pq]) gtt; err_pq_allocate_vidmem ptr gtt db }"
  by (simp_all add: err_eop_allocate_vidmem_def err_rptr_allocate_vidmem_def err_wptr_allocate_vidmem_def err_init_queue_def
      kfd_gtt_sa_free_def split: option.split bind_split)

lemma uninitialize_frees:
  assumes "family = Chip_kaveri \<Longrightarrow> eop_mem kq = None" "qp_type (kq_properties kq) \<noteq> Type_diq \<Longrightarrow> fence_mem kq = None"
  shows "kq_uninitialize family kq gtt db = do {
    gtt \<leftarrow> free_all (objs (fence_mem kq) @ [snd (kq_mqd kq), rptr_mem kq, wptr_mem kq] @ objs (eop_mem kq) @ [pq_mem kq]) gtt;
    db \<leftarrow> kfd_release_kernel_doorbell (doorbell_ptr (kq_properties kq)) db;
    Some (gtt, db) }"
  using assms
  by (cases "fence_mem kq"; cases "eop_mem kq"; cases family; cases "qp_type (kq_properties kq) = Type_diq")
    (simp_all add: kq_uninitialize_def uninit_mqd_def kfd_gtt_sa_free_def split: bind_split)

lemma uninitialize_back:
  assumes "family = Chip_kaveri \<Longrightarrow> eop_mem kq = None" "qp_type (kq_properties kq) \<noteq> Type_diq \<Longrightarrow> fence_mem kq = None"
    "free_all (objs (fence_mem kq) @ [snd (kq_mqd kq), rptr_mem kq, wptr_mem kq] @ objs (eop_mem kq) @ [pq_mem kq]) g = Some gtt"
    "kfd_release_kernel_doorbell (doorbell_ptr (kq_properties kq)) db' = Some db"
  shows "kq_uninitialize family kq g db' = Some (gtt, db)"
  by (subst uninitialize_frees) (use assms(1,2) in \<open>blast, blast, simp only: assms(3,4) bind.bind_lunit\<close>)

text \<open>
  What the set-up leaves behind: a queue that can be taken down again, or nothing; or, for a debug queue
  whose fence is not allocated, the memory of the descriptor.
\<close>

definition leaked :: "asic_family \<Rightarrow> kq_env \<Rightarrow> kfd_queue_type \<Rightarrow> kfd_gtt \<Rightarrow> kfd_gtt \<Rightarrow> bool" where
  "leaked family env type gtt gtt' \<longleftrightarrow> type = Type_diq \<and> \<not> kmalloc_fence env \<and>
     mqd_manager_ok env \<and> kmalloc_pq env \<and> (family = Chip_carrizo \<longrightarrow> kmalloc_eop env) \<and> kmalloc_rptr env \<and> kmalloc_wptr env \<and> kzalloc_queue env \<and> kmalloc_mqd env \<and>
     (\<exists>ob. taken gtt [ob] gtt' \<and> Suc (mo_range_end ob) = mo_range_start ob + chunks_needed gtt (mqd_size family Mqd_hiq))"

definition restored :: "asic_family \<Rightarrow> kq_env \<Rightarrow> kfd_queue_type \<Rightarrow> bool \<Rightarrow> kfd_gtt \<Rightarrow> kfd_doorbells \<Rightarrow> kq_result option \<Rightarrow> bool" where
  "restored family env type fault gtt db r \<longleftrightarrow>
     (case r of
        None \<Rightarrow> fault
      | Some (Some kq, gtt', db') \<Rightarrow> kq_uninitialize family kq gtt' db' = Some (gtt, db)
      | Some (None, gtt', db') \<Rightarrow> db' = db \<and> (gtt' = gtt \<or> leaked family env type gtt gtt'))"

lemma restoredI:
  "r = Some (Some kq, gtt', db') \<Longrightarrow> kq_uninitialize family kq gtt' db' = Some (gtt, db) \<Longrightarrow> restored family env type fault gtt db r"
  "r = Some (None, gtt, db) \<Longrightarrow> restored family env type fault gtt db r"
  "r = None \<Longrightarrow> fault \<Longrightarrow> restored family env type fault gtt db r"
  by (auto simp: restored_def)

lemma restored_mono: "restored family env type fault gtt db r \<Longrightarrow> (fault \<Longrightarrow> fault') \<Longrightarrow> restored family env type fault' gtt db r"
  by (auto simp: restored_def split: option.splits)

lemma labels_back:
  assumes "kfd_release_kernel_doorbell ptr db' = Some db"
  shows "err_pq_allocate_vidmem ptr gtt db' = Some (None, gtt, db)"
    and "taken gtt [pq] g \<Longrightarrow> err_eop_allocate_vidmem pq ptr g db' = Some (None, gtt, db)"
    and "taken gtt (objs eop @ [pq]) g \<Longrightarrow> err_rptr_allocate_vidmem eop pq ptr g db' = Some (None, gtt, db)"
    and "taken gtt (rptr # objs eop @ [pq]) g \<Longrightarrow> err_wptr_allocate_vidmem rptr eop pq ptr g db' = Some (None, gtt, db)"
    and "taken gtt (wptr # rptr # objs eop @ [pq]) g \<Longrightarrow> err_init_queue wptr rptr eop pq ptr g db' = Some (None, gtt, db)"
proof -
  have e: "err_pq_allocate_vidmem ptr g db' = Some (None, g, db)" for g using assms by (simp add: err_pq_allocate_vidmem_def)
  show "err_pq_allocate_vidmem ptr gtt db' = Some (None, gtt, db)" by (rule e)
  have f: "free_all obs g = Some gtt" if "taken gtt obs g" for obs g using free_all_back [OF that refl takenD(2) [OF that]] .
  show "taken gtt [pq] g \<Longrightarrow> err_eop_allocate_vidmem pq ptr g db' = Some (None, gtt, db)"
    "taken gtt (objs eop @ [pq]) g \<Longrightarrow> err_rptr_allocate_vidmem eop pq ptr g db' = Some (None, gtt, db)"
    "taken gtt (rptr # objs eop @ [pq]) g \<Longrightarrow> err_wptr_allocate_vidmem rptr eop pq ptr g db' = Some (None, gtt, db)"
    "taken gtt (wptr # rptr # objs eop @ [pq]) g \<Longrightarrow> err_init_queue wptr rptr eop pq ptr g db' = Some (None, gtt, db)"
    unfolding error_labels by (drule f, simp only: bind.bind_lunit e)+
qed

text \<open>A debug queue without its fence.\<close>

lemma fence_leak:
  assumes "kfd_release_kernel_doorbell ptr db' = Some db" "taken gtt (ob # wptr # rptr # objs eop @ [pq]) g"
  shows "\<exists>g'. err_init_queue wptr rptr eop pq ptr g db' = Some (None, g', db) \<and> taken gtt [ob] g'"
proof -
  let ?obs = "wptr # rptr # objs eop @ [pq]"
  have d: "distinct (ob # ?obs)" using assms(2) by (rule takenD)
  obtain g' where g': "free_all ?obs g = Some g'" "taken gtt (filter (\<lambda>x. x \<notin> set ?obs) (ob # ?obs)) g'"
    using free_all_taken [OF assms(2), of ?obs] d by auto
  moreover have "filter (\<lambda>x. x \<notin> set ?obs) (ob # ?obs) = [ob]" using d by (auto simp: filter_empty_conv)
  ultimately have "taken gtt [ob] g'" by simp
  then show ?thesis unfolding error_labels g'(1) using assms(1) by (simp add: err_pq_allocate_vidmem_def)
qed

text \<open>The chunks that the objects of a queue need, from the last step of the set-up to the first.\<close>

definition queue_chunks :: "asic_family \<Rightarrow> kfd_gtt \<Rightarrow> nat" where
  "queue_chunks family gtt = chunks_needed gtt 4 + chunks_needed gtt (mqd_size family Mqd_hiq)"

definition pointer_chunks :: "asic_family \<Rightarrow> kfd_gtt \<Rightarrow> nat" where
  "pointer_chunks family gtt = queue_chunks family gtt + chunks_needed gtt 4 + chunks_needed gtt 4"

definition kq_chunks :: "asic_family \<Rightarrow> u32 \<Rightarrow> kfd_gtt \<Rightarrow> nat" where
  "kq_chunks family sz gtt = pointer_chunks family gtt + (if family = Chip_carrizo then chunks_needed gtt 4096 else 0) + chunks_needed gtt sz"

lemma init_mqd_taken:
  assumes t: "taken gtt obs g"
  obtains (fault) "init_mqd family Mqd_hiq ok g q = None" "\<And>k. chunks_needed gtt (mqd_size family Mqd_hiq) \<le> k \<Longrightarrow> \<not> room k g"
  | (clean) "init_mqd family Mqd_hiq ok g q = Some (- 12, g, None, q)"
  | (new) g' m ob b where "init_mqd family Mqd_hiq ok g q = Some (0, g', Some (m, ob), q\<lparr>is_active := b\<rparr>)" "taken gtt (ob # obs) g'" "ok"
      "Suc (mo_range_end ob) = mo_range_start ob + chunks_needed gtt (mqd_size family Mqd_hiq)"
      "\<And>k. room (k + chunks_needed gtt (mqd_size family Mqd_hiq)) g \<Longrightarrow> room k g'"
proof (cases rule: allocate_on_the_way [OF t, of ok "mqd_size family Mqd_hiq"])
  case 1
  then show ?thesis using fault by (simp add: init_mqd_def)
next
  case (2 r)
  then have "init_mqd family Mqd_hiq ok g q = Some (- 12, g, None, q)" using init_mqd_result [of Mqd_hiq family ok g r g None q] by simp
  then show ?thesis by (rule clean)
next
  case (3 r g' ob)
  then obtain m b where "init_mqd family Mqd_hiq ok g q = Some (0, g', Some (m, ob), q\<lparr>is_active := b\<rparr>)"
    using init_mqd_result [of Mqd_hiq family ok g r g' "Some ob" q] by auto
  then show ?thesis using 3(2,3,5,6) by (rule new)
qed

lemma initialize_queue_restored:
  assumes rel: "kfd_release_kernel_doorbell (fst dbell) db' = Some db" and t: "taken gtt (wptr # rptr # objs eop @ [pq]) g"
    and kind: "type \<in> {Type_diq, Type_hiq}" and eop: "family = Chip_kaveri \<longrightarrow> eop = None"
    and four: "\<not> 4 > gtt_sa_num_of_chunks gtt * gtt_sa_chunk_size gtt"
    and fl: "mqd_manager_ok env" "kmalloc_pq env" "family = Chip_carrizo \<longrightarrow> kmalloc_eop env" "kmalloc_rptr env" "kmalloc_wptr env"
  shows "restored family env type (\<not> room (queue_chunks family gtt) g) gtt db (initialize_queue family env type sz prop nop dbell pq eop rptr wptr g db')"
proof (cases "kzalloc_queue env")
  case False
  then show ?thesis using labels_back(5) [OF rel t] by (intro restoredI(2)) (simp add: initialize_queue_def)
next
  case k: True
  let ?obs = "wptr # rptr # objs eop @ [pq]" and ?q = "kq_prop prop type sz dbell pq eop rptr wptr"
  show ?thesis
  proof (cases rule: init_mqd_taken [OF t, of family "kmalloc_mqd env" ?q])
    case 1
    then show ?thesis using k 1(2) [of "queue_chunks family gtt"] by (intro restoredI(3)) (simp_all add: initialize_queue_def queue_chunks_def)
  next
    case 2
    then show ?thesis using k labels_back(5) [OF rel t] by (intro restoredI(2)) (simp add: initialize_queue_def)
  next
    case (3 g1 m ob b)
    have p: "doorbell_ptr ?q = fst dbell" "qp_type ?q = type" by (simp_all add: kq_prop_def)
    have d: "distinct (ob # ?obs)" using 3(2) by (rule takenD)
    show ?thesis
    proof (cases "type = Type_hiq")
      case True
      have "free_all ([ob, rptr, wptr] @ objs eop @ [pq]) g1 = Some gtt" by (rule free_all_back [OF 3(2)]) (use d in auto)
      then show ?thesis using True k 3(1) p rel eop
        by (intro restoredI(1) uninitialize_back) (auto simp: initialize_queue_def Let_def)
    next
      case False
      with kind have diq: "type = Type_diq" by simp
      show ?thesis
      proof (cases rule: allocate_on_the_way [OF 3(2), of "kmalloc_fence env" 4])
        case 1
        then have "\<not> room (queue_chunks family gtt) g" using 3(5) [of "chunks_needed gtt 4"] 1(2) [of "chunks_needed gtt 4"] by (auto simp: queue_chunks_def)
        then show ?thesis using 1(1) diq k 3(1) by (intro restoredI(3)) (simp_all add: initialize_queue_def Let_def)
      next
        case (2 r)
        obtain g' where g': "err_init_queue wptr rptr eop pq (fst dbell) g1 db' = Some (None, g', db)" "taken gtt [ob] g'" using fence_leak [OF rel 3(2)] by blast
        then have "leaked family env type gtt g'" using 2(2) diq k 3(3,4) four fl by (auto simp: leaked_def)
        then show ?thesis using 2(1) diq k 3(1) g'(1) by (simp add: restored_def initialize_queue_def Let_def)
      next
        case (3 r g2 f)
        have "free_all ([f, ob, rptr, wptr] @ objs eop @ [pq]) g2 = Some gtt"
          by (rule free_all_back [OF 3(2)]) (use takenD(2) [OF 3(2)] in auto)
        then show ?thesis using diq 3(1) k \<open>init_mqd family _ _ g _ = _\<close> p rel eop
          by (intro restoredI(1) uninitialize_back) (auto simp: initialize_queue_def Let_def)
      qed
    qed
  qed
qed

lemma initialize_pointers_restored:
  assumes rel: "kfd_release_kernel_doorbell (fst dbell) db' = Some db" and t: "taken gtt (objs eop @ [pq]) g"
    and kind: "type \<in> {Type_diq, Type_hiq}" and eop: "family = Chip_kaveri \<longrightarrow> eop = None"
    and fl: "mqd_manager_ok env" "kmalloc_pq env" "family = Chip_carrizo \<longrightarrow> kmalloc_eop env"
  shows "restored family env type (\<not> room (pointer_chunks family gtt) g) gtt db (initialize_pointers family env type sz prop nop dbell pq eop g db')"
proof (cases rule: allocate_on_the_way [OF t, of "kmalloc_rptr env" 4])
  case 1
  then show ?thesis using 1(2) [of "pointer_chunks family gtt"] by (intro restoredI(3)) (simp_all add: initialize_pointers_def pointer_chunks_def)
next
  case (2 r)
  then show ?thesis using labels_back(3) [OF rel t] by (intro restoredI(2)) (simp add: initialize_pointers_def)
next
  case (3 r g1 rptr)
  note r1 = 3(1) and room1 = 3(6)
  show ?thesis
  proof (cases rule: allocate_on_the_way [OF 3(2), of "kmalloc_wptr env" 4])
    case 1
    then show ?thesis using r1 room1 [of "queue_chunks family gtt + chunks_needed gtt 4"] 1(2) [of "queue_chunks family gtt + chunks_needed gtt 4"]
      by (intro restoredI(3)) (auto simp: initialize_pointers_def pointer_chunks_def)
  next
    case (2 r)
    then show ?thesis using r1 labels_back(4) [OF rel \<open>taken gtt (rptr # _) g1\<close>] by (intro restoredI(2)) (simp add: initialize_pointers_def)
  next
    case w: (3 r g2 wptr)
    from initialize_queue_restored [OF rel w(2) kind eop w(4) fl 3(3) w(3)]
    have "restored family env type (\<not> room (pointer_chunks family gtt) g) gtt db (initialize_queue family env type sz prop nop dbell pq eop rptr wptr g2 db')"
      by (rule restored_mono) (use room1 [of "queue_chunks family gtt + chunks_needed gtt 4"] w(6) [of "queue_chunks family gtt"] in \<open>auto simp: pointer_chunks_def\<close>)
    then show ?thesis using r1 w(1) by (simp add: initialize_pointers_def)
  qed
qed

lemma kq_initialize_restored:
  assumes ok: "gtt_ok gtt" and db: "kernel_doorbell_ok db" "bits_set (doorbell_available_index db) \<noteq> {..< 1024}" and kind: "type \<in> {Type_diq, Type_hiq}"
  shows "restored family env type (\<not> room (kq_chunks family sz gtt) gtt) gtt db (kq_initialize family env type sz prop nop gtt db)"
proof -
  obtain dbell db' where d: "kfd_get_kernel_doorbell db = Some (Some dbell, db')" "kfd_release_kernel_doorbell (fst dbell) db' = Some db"
    using doorbell_back [OF db] by blast
  show ?thesis
  proof (cases "mqd_manager_ok env")
    case False
    then show ?thesis using kind by (intro restoredI(2)) (auto simp: kq_initialize_def)
  next
    case m: True
    show ?thesis
    proof (cases rule: allocate_on_the_way [OF taken_start [OF ok], of "kmalloc_pq env" sz])
      case 1
      then show ?thesis using m kind d(1) 1(2) [of "kq_chunks family sz gtt"] by (intro restoredI(3)) (auto simp: kq_initialize_def kq_chunks_def)
    next
      case (2 r)
      then show ?thesis using m kind d(1) labels_back(1) [OF d(2)] by (intro restoredI(2)) (auto simp: kq_initialize_def)
    next
      case (3 r g1 pq)
      note r1 = 3(1) and room1 = 3(6)
      show ?thesis
      proof (cases family)
        case Chip_kaveri
        have "restored family env type (\<not> room (kq_chunks family sz gtt) gtt) gtt db (initialize_pointers family env type sz prop nop dbell pq None g1 db')"
          by (rule restored_mono [OF initialize_pointers_restored [OF d(2) _ kind]])
            (use 3(2,3) m Chip_kaveri room1 [of "pointer_chunks family gtt"] in \<open>auto simp: kq_chunks_def\<close>)
        then show ?thesis using m kind d(1) r1 Chip_kaveri by (auto simp: kq_initialize_def initialize_asic_def)
      next
        case Chip_carrizo
        show ?thesis
        proof (cases rule: allocate_on_the_way [OF 3(2), of "kmalloc_eop env" 4096])
          case 1
          then show ?thesis using m kind d(1) r1 Chip_carrizo room1 [of "pointer_chunks family gtt + chunks_needed gtt 4096"] 1(2) [of "pointer_chunks family gtt + chunks_needed gtt 4096"]
            by (intro restoredI(3)) (auto simp: kq_initialize_def initialize_asic_def kq_chunks_def)
        next
          case (2 r)
          then show ?thesis using m kind d(1) r1 Chip_carrizo labels_back(2) [OF d(2) \<open>taken gtt [pq] g1\<close>] by (intro restoredI(2)) (auto simp: kq_initialize_def initialize_asic_def)
        next
          case e: (3 r g2 eop)
          have "restored family env type (\<not> room (kq_chunks family sz gtt) gtt) gtt db (initialize_pointers family env type sz prop nop dbell pq (Some eop) g2 db')"
            by (rule restored_mono [OF initialize_pointers_restored [OF d(2) _ kind]])
              (use e(2,3) 3(3) m Chip_carrizo room1 [of "pointer_chunks family gtt + chunks_needed gtt 4096"] e(6) [of "pointer_chunks family gtt"] in \<open>auto simp: kq_chunks_def\<close>)
          then show ?thesis using m kind d(1) r1 e(1) Chip_carrizo by (auto simp: kq_initialize_def initialize_asic_def)
        qed
      qed
    qed
  qed
qed

section \<open>Properties\<close>

text \<open>
  (C13) A packet of the driver is appended to the ring: when \<open>acquire_packet_buffer\<close> has returned a place, and
  the packet either fits before the end of the ring or is shorter than the part that has been read at its
  beginning, then after writing it there and \<open>submit_packet\<close> the hardware will read all that it had not
  read before, unchanged, then no-operations, then the packet.
\<close>

theorem kq_packet_appended:
  assumes "kq_ok kq" "acquire_packet_buffer len kq = Some (r, Some p, kq')" "length ds = unat len"
    and "unat (kq_wptr kq) + unat len < length (kq_ring kq) \<or> unat len < unat (kq_rptr kq)"
  defines "kq'' \<equiv> submit_packet (write_packet p ds kq')"
  shows "kq_ok kq'' \<and> (\<exists>k. kq_contents kq'' = kq_contents kq @ replicate k (nop_packet kq) @ ds)"
proof -
  let ?n = "length (kq_ring kq)" and ?r = "unat (kq_rptr kq)" and ?w = "unat (kq_wptr kq)" and ?l = "unat len"
  have ok: "?n < 2 ^ 32" "?r < ?n" "?w < ?n" using assms(1) by (simp_all add: kq_ok_def Let_def)
  note a = acquire_packet [OF assms(1,2), unfolded Let_def]
  have u: "unat (of_nat x :: u32) = x" if "x < ?n" for x using that ok(1) by (intro unat_of_nat_small) simp
  show ?thesis
  proof (cases "?w + ?l < ?n")
    case True
    then have e: "kq' = kq\<lparr>pending_wptr := of_nat (?w + ?l)\<rparr>" "p = kq_wptr kq" "?w < ?r \<Longrightarrow> ?w + ?l < ?r"
      using a by auto
    have ring: "kq_ring kq'' = take ?w (kq_ring kq) @ ds @ drop (?w + ?l) (kq_ring kq)" "kq_rptr kq'' = kq_rptr kq"
        "unat (kq_wptr kq'') = ?w + ?l" "queue_size (kq_properties kq'') = queue_size (kq_properties kq)"
      using e u [OF True] by (simp_all add: kq''_def submit_packet_def write_packet_def assms(3))
    have "kq_ok kq''" using assms(1) True ring by (simp add: kq_ok_def Let_def assms(3))
    moreover have "kq_contents kq'' = kq_contents kq @ ds"
    proof (cases "?w < ?r")
      case True
      then have "\<not> ?r \<le> ?w" "\<not> ?r \<le> ?w + ?l" using e(3) by simp_all
      then show ?thesis using e(3) [OF True] ok by (simp add: kq_contents_def Let_def ring assms(3))
    qed (use ok \<open>?w + ?l < ?n\<close> in \<open>simp add: kq_contents_def Let_def ring assms(3) drop_take\<close>)
    ultimately show ?thesis by (intro conjI exI [of _ 0]) simp_all
  next
    case False
    then have e: "kq' = kq\<lparr>kq_ring := take ?w (kq_ring kq) @ replicate (?n - ?w) (nop_packet kq), pending_wptr := of_nat ?l\<rparr>"
        "p = 0" "?l < ?n" "?r \<le> ?w" "?l < ?r"
      using a assms(4) by (auto split: if_splits)
    have ring: "kq_ring kq'' = ds @ drop ?l (take ?w (kq_ring kq) @ replicate (?n - ?w) (nop_packet kq))" "kq_rptr kq'' = kq_rptr kq"
        "unat (kq_wptr kq'') = ?l" "queue_size (kq_properties kq'') = queue_size (kq_properties kq)"
      using e u [OF e(3)] by (simp_all add: kq''_def submit_packet_def write_packet_def assms(3))
    have "kq_ok kq''" using assms(1) e ring by (simp add: kq_ok_def Let_def assms(3))
    moreover have "kq_contents kq'' = kq_contents kq @ replicate (?n - ?w) (nop_packet kq) @ ds"
      using e ok by (simp add: kq_contents_def Let_def ring assms(3) drop_take)
    ultimately show ?thesis by blast
  qed
qed

theorem kq_packet_appended_witness:
  "\<exists>kq k. acquire_packet_buffer 2 (kq_demo 4 7) = Some (0, Some 0, kq) \<and>
     kq_contents (submit_packet (write_packet 0 [8, 9] kq)) = [4, 5, 6] @ replicate k (kq_nop 0) @ [8, 9]"
proof -
  obtain kq where a: "acquire_packet_buffer 2 (kq_demo 4 7) = Some (0, Some 0, kq)"
    by (simp add: acquire_packet_buffer_def kq_demo_def Let_def fill_nops.simps update_opt_def)
  moreover have "kq_contents (kq_demo 4 7) = [4, 5, 6]" "nop_packet (kq_demo 4 7) = kq_nop 0" by (simp_all add: kq_contents_def kq_demo_def Let_def)
  moreover have "unat (kq_rptr (kq_demo 4 7)) = 4" by (simp add: kq_demo_def Let_def)
  ultimately show ?thesis using kq_packet_appended [OF kq_demo_ok a, of "[8, 9]"] by auto
qed

text \<open>
  (C29) The place that \<open>acquire_packet_buffer\<close> returns may hold words that the hardware has not read. When a
  packet does not fit before the end of the ring, the free words are counted as if they were in one piece:
  the part at the end is filled with no-operations and the packet is placed at the beginning, up to or over
  the read pointer. Everything that was waiting, and the beginning of the packet, is lost.
\<close>

theorem kq_wrap_overwrites:
  assumes "kq_ok kq" "acquire_packet_buffer len kq = Some (r, Some p, kq')" "length ds = unat len"
    and "unat (kq_wptr kq) + unat len \<ge> length (kq_ring kq)" "unat (kq_rptr kq) \<le> unat len"
  shows "r = 0 \<and> p = 0 \<and> kq_contents (submit_packet (write_packet p ds kq')) = drop (unat (kq_rptr kq)) ds"
proof -
  let ?n = "length (kq_ring kq)" and ?w = "unat (kq_wptr kq)" and ?l = "unat len"
  have ok: "?n < 2 ^ 32" using assms(1) by (simp add: kq_ok_def Let_def)
  have e: "kq' = kq\<lparr>kq_ring := take ?w (kq_ring kq) @ replicate (?n - ?w) (nop_packet kq), pending_wptr := of_nat ?l\<rparr>" "r = 0" "p = 0" "?l < ?n"
    using acquire_packet [OF assms(1,2)] assms(4) by (auto simp: Let_def)
  then have "unat (of_nat ?l :: u32) = ?l" using ok by (intro unat_of_nat_small) simp
  then show ?thesis using e assms(3,5) by (simp add: kq_contents_def submit_packet_def write_packet_def Let_def)
qed

theorem kq_wrap_overwrites_witness:
  "\<exists>kq. kq_contents (kq_demo 2 6) = [2, 3, 4, 5] \<and> acquire_packet_buffer 2 (kq_demo 2 6) = Some (0, Some 0, kq) \<and>
     kq_contents (submit_packet (write_packet 0 [8, 9] kq)) = []"
proof -
  obtain kq where a: "acquire_packet_buffer 2 (kq_demo 2 6) = Some (0, Some 0, kq)"
    by (simp add: acquire_packet_buffer_def kq_demo_def Let_def fill_nops.simps update_opt_def)
  moreover have "unat (kq_rptr (kq_demo 2 6)) = 2" "unat (kq_wptr (kq_demo 2 6)) = 6" "length (kq_ring (kq_demo 2 6)) = 8"
    "kq_contents (kq_demo 2 6) = [2, 3, 4, 5]" by (simp_all add: kq_demo_def kq_contents_def Let_def)
  ultimately show ?thesis using kq_wrap_overwrites [OF kq_demo_ok a, of "[8, 9]"] by simp
qed

text \<open>
  (C14) Setting up a queue of the driver is all or nothing, with one exception. When \<open>initialize\<close> succeeds,
  \<open>uninitialize\<close> brings the chunk allocator and the doorbells back to what they were. When it reports a
  failure, at whichever of its steps, they are unchanged; except that when only the last allocation of a
  debug queue fails, that of its fence, the memory of the descriptor is not given back. As long as a kernel
  doorbell is free, and the buffer has room for the objects of the queue, \<open>initialize\<close> does not fault;
  without room the chunk allocator has undefined behaviour.
\<close>

theorem kq_initialize_restores:
  assumes "gtt_ok gtt" "kernel_doorbell_ok db" "bits_set (doorbell_available_index db) \<noteq> {..< 1024}" "type \<in> {Type_diq, Type_hiq}"
  shows "(room (kq_chunks family sz gtt) gtt \<longrightarrow> kq_initialize family env type sz p nop gtt db \<noteq> None) \<and>
    (\<forall>kq gtt' db'. kq_initialize family env type sz p nop gtt db = Some (Some kq, gtt', db') \<longrightarrow>
       kq_uninitialize family kq gtt' db' = Some (gtt, db)) \<and>
    (\<forall>gtt' db'. kq_initialize family env type sz p nop gtt db = Some (None, gtt', db') \<longrightarrow>
       db' = db \<and> (gtt' = gtt \<or> leaked family env type gtt gtt'))"
  using kq_initialize_restored [OF assms, of family env sz p nop]
  by (cases "kq_initialize family env type sz p nop gtt db") (auto simp: restored_def)

definition kq_env_demo :: kq_env where
  "kq_env_demo = \<lparr>mqd_manager_ok = True, kmalloc_pq = True, kmalloc_eop = True, kmalloc_rptr = True, kmalloc_wptr = True,
     kzalloc_queue = True, kmalloc_mqd = True, kmalloc_fence = True\<rparr>"

lemma kq_demo_runs:
  "map_option (\<lambda>(kq, gtt, db). kq \<noteq> None) (kq_initialize Chip_kaveri kq_env_demo Type_hiq 2048 example_queue 0 (gs_kfd gdemo0) db_demo) = Some True"
  "map_option (\<lambda>(kq, gtt, db). (kq = None, gtt = gs_kfd gdemo0)) (kq_initialize Chip_kaveri (kq_env_demo\<lparr>kmalloc_fence := False\<rparr>) Type_diq 2048 example_queue 0 (gs_kfd gdemo0) db_demo) =
    Some (True, False)"
  by code_simp+

theorem kq_initialize_restores_witness:
  "(\<exists>kq gtt' db'. kq_initialize Chip_kaveri kq_env_demo Type_hiq 2048 example_queue 0 (gs_kfd gdemo0) db_demo = Some (Some kq, gtt', db') \<and>
      kq_uninitialize Chip_kaveri kq gtt' db' = Some (gs_kfd gdemo0, db_demo)) \<and>
    (\<exists>gtt'. kq_initialize Chip_kaveri (kq_env_demo\<lparr>kmalloc_fence := False\<rparr>) Type_diq 2048 example_queue 0 (gs_kfd gdemo0) db_demo = Some (None, gtt', db_demo) \<and>
      leaked Chip_kaveri (kq_env_demo\<lparr>kmalloc_fence := False\<rparr>) Type_diq (gs_kfd gdemo0) gtt')"
proof -
  have g: "gtt_ok (gs_kfd gdemo0)" by (simp add: gtt_ok_def gdemo0_def)
  have d: "kernel_doorbell_ok db_demo" and "bits_set (doorbell_available_index db_demo) = {}" by (simp_all add: kernel_doorbell_ok_def db_demo_def)
  then have e: "bits_set (doorbell_available_index db_demo) \<noteq> {..< 1024}" using lessThan_iff [of 0 "1024 :: nat"] zero_less_numeral by blast
  obtain kq g1 db1 where r1: "kq_initialize Chip_kaveri kq_env_demo Type_hiq 2048 example_queue 0 (gs_kfd gdemo0) db_demo = Some (Some kq, g1, db1)"
    using kq_demo_runs(1) by auto
  obtain g2 db2 where r2: "kq_initialize Chip_kaveri (kq_env_demo\<lparr>kmalloc_fence := False\<rparr>) Type_diq 2048 example_queue 0 (gs_kfd gdemo0) db_demo = Some (None, g2, db2)"
    and g2: "g2 \<noteq> gs_kfd gdemo0" using kq_demo_runs(2) by auto
  have "kq_uninitialize Chip_kaveri kq g1 db1 = Some (gs_kfd gdemo0, db_demo)" using kq_initialize_restores [OF g d e] r1 by blast
  moreover have "db2 = db_demo \<and> (g2 = gs_kfd gdemo0 \<or> leaked Chip_kaveri (kq_env_demo\<lparr>kmalloc_fence := False\<rparr>) Type_diq (gs_kfd gdemo0) g2)"
    using kq_initialize_restores [OF g d e] r2 by blast
  ultimately show ?thesis using r1 r2 g2 by blast
qed

end
