(* ===== verification/Kfd_Dqm.thy ===== *)
theory Kfd_Dqm
  imports Kfd_Mqd Kfd_Gtt_Use
begin

text \<open>
  The queue manager of a device, \<open>kfd_device_queue_manager.c\<close>: it gives user queues their place in the
  hardware. Without the hardware scheduler (\<open>nocpsch\<close>) a process gets a VMID with its first queue, a compute
  queue a slot of a pipe, an SDMA queue a slot of an engine; with it (\<open>cpsch\<close>) the queues are on a run list
  that is sent to the hardware. One device is modelled, with all its processes and their queues.
\<close>

section \<open>State\<close>

text \<open>
  Processes and queues are named by numbers. A queue keeps its descriptor and the memory of it together.
  \<open>pasid_mapping\<close> and \<open>sh_mem\<close> are the registers that \<open>set_pasid_vmid_mapping\<close> and
  \<open>program_sh_mem_settings\<close> of the graphics driver write for a VMID, \<open>hpd\<close> those of \<open>init_pipeline\<close> for a
  pipe. \<open>sdma_turn\<close> is the static variable of \<open>select_sdma_engine_id\<close>.
\<close>

datatype sched_policy = Policy_hws | Policy_hws_no_oversubscription | Policy_no_hws

record queue =
  properties :: queue_properties
  q_mqd :: "(mqd \<times> kfd_mem_obj) option"
  q_pipe :: nat
  q_slot :: nat
  q_sdma_id :: nat
  q_process :: nat

record device_queue_manager =
  family :: asic_family
  sched_policy :: sched_policy
  compute_pipe_count :: nat
  first_compute_pipe :: nat
  max_num_of_queues_per_device :: u32
  dqm_gtt :: kfd_gtt
  mqds :: "kfd_mqd_type list"
  dqm_processes :: "nat list"
  processes_count :: u32
  queue_count :: u32
  sdma_queue_count :: u32
  total_queue_count :: u32
  next_pipe_to_allocate :: nat
  allocated_queues :: "u32 list"
  sdma_bitmap :: u32
  vmid_bitmap :: u32
  pipelines_addr :: u64
  pipeline_mem :: "kfd_mem_obj option"
  active_runlist :: bool
  sdma_turn :: nat
  proc_pasid :: "nat \<Rightarrow> u32"
  proc_32bit :: "nat \<Rightarrow> bool"
  qpds :: "nat \<Rightarrow> kfd_process_device"
  queues :: "nat \<Rightarrow> queue"
  pasid_mapping :: "u32 \<Rightarrow> u32"
  sh_mem :: "u32 \<Rightarrow> u32 \<times> u32 \<times> u32 \<times> u32"
  hpd :: "nat \<Rightarrow> u64 option"

text \<open>
  What the kernel, the graphics driver and the packets to the hardware scheduler answer to one call of the
  manager: whether there is memory for a manager of descriptors, for the object of a descriptor and for a
  node of the list of processes; the results of loading and destroying a hardware queue; the results of
  unmapping the queues, of waiting for that, and of sending the run list.
\<close>

record dqm_env =
  kzalloc_mm :: bool
  kmalloc_obj :: bool
  kzalloc_node :: bool
  hqd_load :: int
  hqd_destroy :: int
  unmap_queue :: int
  fence_wait :: int
  send_runlist :: int

definition set_qpd :: "nat \<Rightarrow> (kfd_process_device \<Rightarrow> kfd_process_device) \<Rightarrow> device_queue_manager \<Rightarrow> device_queue_manager" where
  "set_qpd p f dqm = dqm\<lparr>qpds := (qpds dqm)(p := f (qpds dqm p))\<rparr>"

definition set_queue :: "nat \<Rightarrow> (queue \<Rightarrow> queue) \<Rightarrow> device_queue_manager \<Rightarrow> device_queue_manager" where
  "set_queue n f dqm = dqm\<lparr>queues := (queues dqm)(n := f (queues dqm n))\<rparr>"

definition set_prop :: "(queue_properties \<Rightarrow> queue_properties) \<Rightarrow> queue \<Rightarrow> queue" where
  "set_prop f q = q\<lparr>properties := f (properties q)\<rparr>"

text \<open>\<open>find_first_bit\<close> of the kernel, on the first bits of a word.\<close>

definition find_first_bit :: "u32 \<Rightarrow> nat \<Rightarrow> nat" where
  "find_first_bit w n = (case find (bit w) [0 ..< n] of None \<Rightarrow> n | Some i \<Rightarrow> i)"

section \<open>Managers of descriptors and registers\<close>

definition get_mqd_type_from_queue_type :: "kfd_queue_type \<Rightarrow> kfd_mqd_type" where
  "get_mqd_type_from_queue_type type = (if type = Type_sdma then Mqd_sdma else Mqd_cp)"

definition get_mqd_manager_nocpsch :: "bool \<Rightarrow> kfd_mqd_type \<Rightarrow> device_queue_manager \<Rightarrow> bool \<times> device_queue_manager" where
  "get_mqd_manager_nocpsch kzalloc_ok type dqm =
     (if type \<in> set (mqds dqm) then (True, dqm)
      else if kzalloc_ok then (True, dqm\<lparr>mqds := type # mqds dqm\<rparr>)
      else (False, dqm))"

definition program_sh_mem_settings :: "nat \<Rightarrow> device_queue_manager \<Rightarrow> device_queue_manager" where
  "program_sh_mem_settings p dqm =
     (let qpd = qpds dqm p
      in dqm\<lparr>sh_mem := (sh_mem dqm)(qpd_vmid qpd := (sh_mem_config qpd, sh_mem_ape1_base qpd, sh_mem_ape1_limit qpd, sh_mem_bases qpd))\<rparr>)"

definition set_pasid_vmid_mapping :: "u32 \<Rightarrow> u32 \<Rightarrow> device_queue_manager \<Rightarrow> device_queue_manager" where
  "set_pasid_vmid_mapping pasid vmid dqm =
     dqm\<lparr>pasid_mapping := (pasid_mapping dqm)(vmid := if pasid = 0 then 0 else pasid OR push_bit 31 1)\<rparr>"

section \<open>VMIDs, pipes and SDMA engines\<close>

definition allocate_vmid :: "nat \<Rightarrow> nat \<Rightarrow> device_queue_manager \<Rightarrow> int \<times> device_queue_manager" where
  "allocate_vmid p q dqm =
     (if vmid_bitmap dqm = 0 then (- 12, dqm)
      else
        (let b = find_first_bit (vmid_bitmap dqm) 8;
             dqm = dqm\<lparr>vmid_bitmap := unset_bit b (vmid_bitmap dqm)\<rparr>;
             allocated_vmid = of_nat (b + 8);
             dqm = set_qpd p (\<lambda>qpd. qpd\<lparr>qpd_vmid := allocated_vmid\<rparr>) dqm;
             dqm = set_queue q (set_prop (\<lambda>pr. pr\<lparr>qp_vmid := allocated_vmid\<rparr>)) dqm;
             dqm = set_pasid_vmid_mapping (proc_pasid dqm (q_process (queues dqm q))) allocated_vmid dqm
         in (0, program_sh_mem_settings p dqm)))"

definition deallocate_vmid :: "nat \<Rightarrow> nat \<Rightarrow> device_queue_manager \<Rightarrow> device_queue_manager" where
  "deallocate_vmid p q dqm =
     (let vmid = qpd_vmid (qpds dqm p);
          dqm = set_pasid_vmid_mapping 0 vmid dqm;
          dqm = dqm\<lparr>vmid_bitmap := Bit_Operations.set_bit (unat (vmid - 8)) (vmid_bitmap dqm)\<rparr>;
          dqm = set_qpd p (\<lambda>qpd. qpd\<lparr>qpd_vmid := 0\<rparr>) dqm
      in set_queue q (set_prop (\<lambda>pr. pr\<lparr>qp_vmid := 0\<rparr>)) dqm)"

text \<open>The loop of \<open>allocate_hqd\<close> over the pipes: the pipe where it ends, if one has a free queue.\<close>

fun find_pipe :: "device_queue_manager \<Rightarrow> nat \<Rightarrow> nat \<Rightarrow> nat option option" where
  "find_pipe dqm pipe 0 = Some None"
| "find_pipe dqm pipe (Suc i) = do {
     w \<leftarrow> nth_opt (allocated_queues dqm) pipe;
     if w \<noteq> 0 then Some (Some pipe) else find_pipe dqm ((pipe + 1) mod compute_pipe_count dqm) i
   }"

definition allocate_hqd :: "nat \<Rightarrow> device_queue_manager \<Rightarrow> (int \<times> device_queue_manager) option" where
  "allocate_hqd q dqm = do {
     found \<leftarrow> find_pipe dqm (next_pipe_to_allocate dqm) (compute_pipe_count dqm);
     case found of
       None \<Rightarrow> Some (- 16, dqm)
     | Some pipe \<Rightarrow> do {
         w \<leftarrow> nth_opt (allocated_queues dqm) pipe;
         let b = find_first_bit w 8;
         aq \<leftarrow> update_opt (allocated_queues dqm) pipe (unset_bit b w);
         let dqm = dqm\<lparr>allocated_queues := aq, next_pipe_to_allocate := (pipe + 1) mod compute_pipe_count dqm\<rparr>;
         Some (0, set_queue q (\<lambda>q. q\<lparr>q_pipe := pipe, q_slot := b\<rparr>) dqm)
       }
   }"

definition deallocate_hqd :: "nat \<Rightarrow> device_queue_manager \<Rightarrow> device_queue_manager option" where
  "deallocate_hqd q dqm = do {
     w \<leftarrow> nth_opt (allocated_queues dqm) (q_pipe (queues dqm q));
     aq \<leftarrow> update_opt (allocated_queues dqm) (q_pipe (queues dqm q)) (Bit_Operations.set_bit (q_slot (queues dqm q)) w);
     Some (dqm\<lparr>allocated_queues := aq\<rparr>)
   }"

definition allocate_sdma_queue :: "nat \<Rightarrow> device_queue_manager \<Rightarrow> int \<times> device_queue_manager" where
  "allocate_sdma_queue q dqm =
     (if sdma_bitmap dqm = 0 then (- 12, dqm)
      else
        (let b = find_first_bit (sdma_bitmap dqm) 4
         in (0, set_queue q (\<lambda>q. q\<lparr>q_sdma_id := b\<rparr>) (dqm\<lparr>sdma_bitmap := unset_bit b (sdma_bitmap dqm)\<rparr>))))"

definition deallocate_sdma_queue :: "nat \<Rightarrow> device_queue_manager \<Rightarrow> device_queue_manager" where
  "deallocate_sdma_queue n dqm = (if n \<ge> 4 then dqm else dqm\<lparr>sdma_bitmap := Bit_Operations.set_bit n (sdma_bitmap dqm)\<rparr>)"

section \<open>Queues without the hardware scheduler\<close>

text \<open>
  \<open>init_mqd\<close> of the manager for a type, on the queue: the result, with the descriptor in the queue after
  success. \<open>free_mqd\<close> is \<open>uninit_mqd\<close>; a call with no descriptor is a \<open>BUG\<close>.
\<close>

definition queue_init_mqd :: "bool \<Rightarrow> kfd_mqd_type \<Rightarrow> nat \<Rightarrow> device_queue_manager \<Rightarrow> (int \<times> device_queue_manager) option" where
  "queue_init_mqd kmalloc_ok type q dqm = do {
     (r, gtt, m, pr) \<leftarrow> init_mqd (family dqm) type kmalloc_ok (dqm_gtt dqm) (properties (queues dqm q));
     case m of
       None \<Rightarrow> Some (r, dqm\<lparr>dqm_gtt := gtt\<rparr>)
     | Some m \<Rightarrow> Some (r, set_queue q (\<lambda>q. q\<lparr>properties := pr, q_mqd := Some m\<rparr>) (dqm\<lparr>dqm_gtt := gtt\<rparr>))
   }"

definition free_mqd :: "nat \<Rightarrow> device_queue_manager \<Rightarrow> device_queue_manager option" where
  "free_mqd q dqm = do {
     (_, ob) \<leftarrow> q_mqd (queues dqm q);
     gtt \<leftarrow> uninit_mqd ob (dqm_gtt dqm);
     Some (dqm\<lparr>dqm_gtt := gtt\<rparr>)
   }"

definition create_compute_queue_nocpsch :: "dqm_env \<Rightarrow> nat \<Rightarrow> device_queue_manager \<Rightarrow> (int \<times> device_queue_manager) option" where
  "create_compute_queue_nocpsch env q dqm =
     (let (ok, dqm) = get_mqd_manager_nocpsch (kzalloc_mm env) Mqd_compute dqm
      in if \<not> ok then Some (- 12, dqm)
         else do {
           (r, dqm) \<leftarrow> allocate_hqd q dqm;
           if r \<noteq> 0 then Some (r, dqm)
           else do {
             (r, dqm) \<leftarrow> queue_init_mqd (kmalloc_obj env) Mqd_compute q dqm;
             if r \<noteq> 0 then do { dqm \<leftarrow> deallocate_hqd q dqm; Some (r, dqm) }
             else if hqd_load env \<noteq> 0 then do { dqm \<leftarrow> deallocate_hqd q dqm; dqm \<leftarrow> free_mqd q dqm; Some (hqd_load env, dqm) }
             else Some (0, dqm)
           }
         })"

definition create_sdma_queue_nocpsch :: "dqm_env \<Rightarrow> nat \<Rightarrow> nat \<Rightarrow> device_queue_manager \<Rightarrow> (int \<times> device_queue_manager) option" where
  "create_sdma_queue_nocpsch env p q dqm =
     (let (ok, dqm) = get_mqd_manager_nocpsch (kzalloc_mm env) Mqd_sdma dqm
      in if \<not> ok then Some (- 12, dqm)
         else
           (let (r, dqm) = allocate_sdma_queue q dqm
            in if r \<noteq> 0 then Some (r, dqm)
               else
                 (let sdma_id = q_sdma_id (queues dqm q);
                      dqm = set_queue q (set_prop (\<lambda>pr. pr\<lparr>sdma_queue_id := of_nat (sdma_id mod 2), sdma_engine_id := of_nat (sdma_id div 2),
                        sdma_vm_addr := init_sdma_vm (proc_32bit dqm (q_process (queues dqm q))) (qpds dqm p)\<rparr>)) dqm
                  in do {
                    (r, dqm) \<leftarrow> queue_init_mqd (kmalloc_obj env) Mqd_sdma q dqm;
                    if r \<noteq> 0 then Some (r, deallocate_sdma_queue sdma_id dqm)
                    else if hqd_load env \<noteq> 0 then do { dqm \<leftarrow> free_mqd q (deallocate_sdma_queue sdma_id dqm); Some (hqd_load env, dqm) }
                    else Some (0, dqm)
                  })))"

text \<open>
  \<open>create_queue_nocpsch\<close>; for a queue of another type the result is an uninitialised variable. The type and
  the activity of the queue decide on the counters.
\<close>

definition queue_type_ops :: "dqm_env \<Rightarrow> nat \<Rightarrow> nat \<Rightarrow> device_queue_manager \<Rightarrow> (int \<times> device_queue_manager) option" where
  "queue_type_ops env p q dqm =
     (case qp_type (properties (queues dqm q)) of
        Type_compute \<Rightarrow> create_compute_queue_nocpsch env q dqm
      | Type_sdma \<Rightarrow> create_sdma_queue_nocpsch env p q dqm
      | _ \<Rightarrow> None)"

definition count_queue :: "nat \<Rightarrow> nat \<Rightarrow> device_queue_manager \<Rightarrow> device_queue_manager" where
  "count_queue p q dqm =
     (let dqm = set_qpd p (\<lambda>qpd. qpd\<lparr>queues_list := q # queues_list qpd\<rparr>) dqm;
          dqm = (if is_active (properties (queues dqm q)) then dqm\<lparr>queue_count := queue_count dqm + 1\<rparr> else dqm);
          dqm = (if qp_type (properties (queues dqm q)) = Type_sdma then dqm\<lparr>sdma_queue_count := sdma_queue_count dqm + 1\<rparr> else dqm)
      in dqm\<lparr>total_queue_count := total_queue_count dqm + 1\<rparr>)"

definition create_queue_nocpsch :: "dqm_env \<Rightarrow> nat \<Rightarrow> nat \<Rightarrow> device_queue_manager \<Rightarrow> (int \<times> device_queue_manager) option" where
  "create_queue_nocpsch env p q dqm =
     (if total_queue_count dqm \<ge> max_num_of_queues_per_device dqm then Some (- 1, dqm)
      else
        (let (r, dqm) = (if queues_list (qpds dqm p) = [] then allocate_vmid p q dqm else (0, dqm))
         in if r \<noteq> 0 then Some (r, dqm)
            else do {
              let dqm = set_queue q (set_prop (\<lambda>pr. pr\<lparr>qp_vmid := qpd_vmid (qpds dqm p)\<rparr>)) dqm;
              (r, dqm) \<leftarrow> queue_type_ops env p q dqm;
              if r \<noteq> 0 then Some (r, if queues_list (qpds dqm p) = [] then deallocate_vmid p q dqm else dqm)
              else Some (0, count_queue p q dqm)
            }))"

text \<open>\<open>destroy_queue_nocpsch\<close>: first the place of the queue is given back, then the hardware queue is destroyed.\<close>

definition release_slot :: "dqm_env \<Rightarrow> nat \<Rightarrow> device_queue_manager \<Rightarrow> (int \<times> device_queue_manager) option" where
  "release_slot env q dqm =
     (case qp_type (properties (queues dqm q)) of
        Type_compute \<Rightarrow>
          (let (ok, dqm) = get_mqd_manager_nocpsch (kzalloc_mm env) Mqd_compute dqm
           in if \<not> ok then Some (- 12, dqm) else do { dqm \<leftarrow> deallocate_hqd q dqm; Some (0, dqm) })
      | Type_sdma \<Rightarrow>
          (let (ok, dqm) = get_mqd_manager_nocpsch (kzalloc_mm env) Mqd_sdma dqm
           in if \<not> ok then Some (- 12, dqm)
              else Some (0, deallocate_sdma_queue (q_sdma_id (queues dqm q)) (dqm\<lparr>sdma_queue_count := sdma_queue_count dqm - 1\<rparr>)))
      | _ \<Rightarrow> Some (- 22, dqm))"

definition destroy_queue_nocpsch :: "dqm_env \<Rightarrow> nat \<Rightarrow> nat \<Rightarrow> device_queue_manager \<Rightarrow> (int \<times> device_queue_manager) option" where
  "destroy_queue_nocpsch env p q dqm =
     (if q_mqd (queues dqm q) = None then None
      else do {
        (r, dqm) \<leftarrow> release_slot env q dqm;
        if r \<noteq> 0 then Some (r, dqm)
        else if hqd_destroy env \<noteq> 0 then Some (hqd_destroy env, dqm)
        else do {
          dqm \<leftarrow> free_mqd q dqm;
          let dqm = set_qpd p (\<lambda>qpd. qpd\<lparr>queues_list := remove1 q (queues_list qpd)\<rparr>) dqm;
          let dqm = (if queues_list (qpds dqm p) = [] then deallocate_vmid p q dqm else dqm);
          let dqm = (if is_active (properties (queues dqm q)) then dqm\<lparr>queue_count := queue_count dqm - 1\<rparr> else dqm);
          Some (0, dqm\<lparr>total_queue_count := total_queue_count dqm - 1\<rparr>)
        }
      })"

section \<open>Processes and memory policy\<close>

definition register_process_asic :: "nat \<Rightarrow> device_queue_manager \<Rightarrow> device_queue_manager option" where
  "register_process_asic p dqm = do {
     qpd \<leftarrow> (case family dqm of Chip_kaveri \<Rightarrow> register_process_cik | Chip_carrizo \<Rightarrow> register_process_vi) (proc_32bit dqm p) (qpds dqm p);
     Some (set_qpd p (\<lambda>_. qpd) dqm)
   }"

definition register_process_nocpsch :: "dqm_env \<Rightarrow> nat \<Rightarrow> device_queue_manager \<Rightarrow> (int \<times> device_queue_manager) option" where
  "register_process_nocpsch env p dqm =
     (if \<not> kzalloc_node env then Some (- 12, dqm)
      else do {
        dqm \<leftarrow> register_process_asic p (dqm\<lparr>dqm_processes := p # dqm_processes dqm\<rparr>);
        Some (0, dqm\<lparr>processes_count := processes_count dqm + 1\<rparr>)
      })"

definition unregister_process_nocpsch :: "nat \<Rightarrow> device_queue_manager \<Rightarrow> int \<times> device_queue_manager" where
  "unregister_process_nocpsch p dqm =
     (if p \<in> set (dqm_processes dqm)
      then (0, dqm\<lparr>dqm_processes := remove1 p (dqm_processes dqm), processes_count := processes_count dqm - 1\<rparr>)
      else (1, dqm))"

text \<open>\<open>set_cache_memory_policy\<close>: whether the policy is accepted.\<close>

definition set_cache_memory_policy ::
  "nat \<Rightarrow> cache_policy \<Rightarrow> cache_policy \<Rightarrow> u64 \<Rightarrow> u64 \<Rightarrow> device_queue_manager \<Rightarrow> bool \<times> device_queue_manager" where
  "set_cache_memory_policy p default_policy alternate_policy base sz dqm =
     (case ape1_policy (family dqm) default_policy alternate_policy base sz (qpds dqm p) of
        None \<Rightarrow> (False, dqm)
      | Some qpd \<Rightarrow>
          (let dqm = set_qpd p (\<lambda>_. qpd) dqm
           in (True, if sched_policy dqm = Policy_no_hws \<and> qpd_vmid qpd \<noteq> 0 then program_sh_mem_settings p dqm else dqm)))"

section \<open>Start and end\<close>

text \<open>The loop of \<open>init_pipelines\<close> over the pipes, from number \<open>i\<close>.\<close>

fun init_pipes :: "nat \<Rightarrow> nat \<Rightarrow> nat \<Rightarrow> device_queue_manager \<Rightarrow> device_queue_manager" where
  "init_pipes 0 i first_pipe dqm = dqm"
| "init_pipes (Suc n) i first_pipe dqm =
     init_pipes n (Suc i) first_pipe (dqm\<lparr>hpd := (hpd dqm)(i + first_pipe \<mapsto> pipelines_addr dqm + of_nat i * 2048)\<rparr>)"

definition init_pipelines :: "dqm_env \<Rightarrow> nat \<Rightarrow> nat \<Rightarrow> device_queue_manager \<Rightarrow> (int \<times> device_queue_manager) option" where
  "init_pipelines env pipes_num first_pipe dqm = do {
     (r, gtt, ob) \<leftarrow> kfd_gtt_sa_allocate (kmalloc_obj env) (2048 * of_nat pipes_num) (dqm_gtt dqm);
     case ob of
       None \<Rightarrow> Some (- 12, dqm\<lparr>dqm_gtt := gtt\<rparr>)
     | Some ob \<Rightarrow> do {
         let (ok, dqm) = get_mqd_manager_nocpsch (kzalloc_mm env) Mqd_compute
           (dqm\<lparr>dqm_gtt := gtt, pipeline_mem := Some ob, pipelines_addr := mo_gpu_addr ob\<rparr>);
         if \<not> ok then do { (_, gtt) \<leftarrow> kfd_gtt_sa_free (Some ob) (dqm_gtt dqm); Some (- 12, dqm\<lparr>dqm_gtt := gtt\<rparr>) }
         else Some (0, init_pipes pipes_num 0 first_pipe dqm)
       }
   }"

text \<open>\<open>initialize_nocpsch\<close>; the result of \<open>init_scheduler\<close>, which is that of \<open>init_pipelines\<close>, is not tested.\<close>

definition initialize_nocpsch :: "bool \<Rightarrow> dqm_env \<Rightarrow> device_queue_manager \<Rightarrow> (int \<times> device_queue_manager) option" where
  "initialize_nocpsch kcalloc_ok env dqm =
     (let dqm = dqm\<lparr>dqm_processes := [], queue_count := 0, next_pipe_to_allocate := 0, sdma_queue_count := 0\<rparr>
      in if \<not> kcalloc_ok then Some (- 12, dqm)
         else do {
           let dqm = dqm\<lparr>allocated_queues := replicate (compute_pipe_count dqm) (push_bit 8 1 - 1),
             vmid_bitmap := push_bit 8 1 - 1, sdma_bitmap := push_bit 4 1 - 1\<rparr>;
           (_, dqm) \<leftarrow> init_pipelines env (compute_pipe_count dqm) (first_compute_pipe dqm) dqm;
           Some (0, dqm)
         })"

definition uninitialize_nocpsch :: "device_queue_manager \<Rightarrow> device_queue_manager option" where
  "uninitialize_nocpsch dqm =
     (if queue_count dqm > 0 \<or> processes_count dqm > 0 then None
      else do {
        (_, gtt) \<leftarrow> kfd_gtt_sa_free (pipeline_mem dqm) (dqm_gtt dqm);
        Some (dqm\<lparr>allocated_queues := [], mqds := [], dqm_gtt := gtt\<rparr>)
      })"

section \<open>The run list of the hardware scheduler\<close>

text \<open>
  \<open>destroy_queues_cpsch\<close> takes the queues off the hardware; when it does not answer in time, the wave fronts
  of the current process \<open>cur\<close> are to be reset. \<open>execute_queues_cpsch\<close> sends the run list again.
\<close>

definition destroy_queues_cpsch :: "dqm_env \<Rightarrow> nat \<Rightarrow> device_queue_manager \<Rightarrow> int \<times> device_queue_manager" where
  "destroy_queues_cpsch env cur dqm =
     (if \<not> active_runlist dqm then (0, dqm)
      else if unmap_queue env \<noteq> 0 then (unmap_queue env, dqm)
      else if fence_wait env \<noteq> 0 then (fence_wait env, set_qpd cur (\<lambda>pdd. pdd\<lparr>reset_wavefronts := True\<rparr>) dqm)
      else (0, dqm\<lparr>active_runlist := False\<rparr>))"

definition execute_queues_cpsch :: "dqm_env \<Rightarrow> nat \<Rightarrow> device_queue_manager \<Rightarrow> int \<times> device_queue_manager" where
  "execute_queues_cpsch env cur dqm =
     (let (r, dqm) = destroy_queues_cpsch env cur dqm
      in if r \<noteq> 0 then (r, dqm)
         else if queue_count dqm = 0 \<or> processes_count dqm = 0 then (0, dqm)
         else if active_runlist dqm then (0, dqm)
         else if send_runlist env \<noteq> 0 then (send_runlist env, dqm)
         else (0, dqm\<lparr>active_runlist := True\<rparr>))"

definition initialize_cpsch :: "dqm_env \<Rightarrow> device_queue_manager \<Rightarrow> (int \<times> device_queue_manager) option" where
  "initialize_cpsch env dqm =
     (let dqm = dqm\<lparr>dqm_processes := [], queue_count := 0, processes_count := 0, sdma_queue_count := 0, active_runlist := False\<rparr>
      in case family dqm of
           Chip_kaveri \<Rightarrow> init_pipelines env (compute_pipe_count dqm) (first_compute_pipe dqm) dqm
         | Chip_carrizo \<Rightarrow> Some (0, dqm))"

definition select_sdma_engine_id :: "nat \<Rightarrow> device_queue_manager \<Rightarrow> device_queue_manager" where
  "select_sdma_engine_id q dqm = set_queue q (\<lambda>q. q\<lparr>q_sdma_id := sdma_turn dqm\<rparr>) (dqm\<lparr>sdma_turn := (sdma_turn dqm + 1) mod 2\<rparr>)"

definition create_queue_cpsch :: "dqm_env \<Rightarrow> nat \<Rightarrow> nat \<Rightarrow> nat \<Rightarrow> device_queue_manager \<Rightarrow> (int \<times> device_queue_manager) option" where
  "create_queue_cpsch env cur p q dqm =
     (let dqm = set_queue q (set_prop (\<lambda>pr. pr\<lparr>qp_vmid := 0\<rparr>)) dqm
      in if total_queue_count dqm \<ge> max_num_of_queues_per_device dqm then Some (- 1, dqm)
         else
           (let type = qp_type (properties (queues dqm q));
                dqm = (if type = Type_sdma then select_sdma_engine_id q dqm else dqm);
                (ok, dqm) = get_mqd_manager_nocpsch (kzalloc_mm env) (get_mqd_type_from_queue_type type) dqm
            in if \<not> ok then Some (- 12, dqm)
               else do {
                 let dqm = set_queue q (set_prop (\<lambda>pr. pr\<lparr>sdma_vm_addr := init_sdma_vm (proc_32bit dqm (q_process (queues dqm q))) (qpds dqm p)\<rparr>)) dqm;
                 (r, dqm) \<leftarrow> queue_init_mqd (kmalloc_obj env) (get_mqd_type_from_queue_type type) q dqm;
                 if r \<noteq> 0 then Some (r, dqm)
                 else do {
                   let dqm = set_qpd p (\<lambda>qpd. qpd\<lparr>queues_list := q # queues_list qpd\<rparr>) dqm;
                   let (r, dqm) = (if is_active (properties (queues dqm q))
                     then execute_queues_cpsch env cur (dqm\<lparr>queue_count := queue_count dqm + 1\<rparr>) else (0, dqm));
                   let dqm = (if type = Type_sdma then dqm\<lparr>sdma_queue_count := sdma_queue_count dqm + 1\<rparr> else dqm);
                   Some (r, dqm\<lparr>total_queue_count := total_queue_count dqm + 1\<rparr>)
                 }
               }))"

definition destroy_queue_cpsch :: "dqm_env \<Rightarrow> nat \<Rightarrow> nat \<Rightarrow> nat \<Rightarrow> device_queue_manager \<Rightarrow> (int \<times> device_queue_manager) option" where
  "destroy_queue_cpsch env cur p q dqm =
     (if is_debug (qpds dqm p) then Some (- 16, dqm)
      else
        (let type = qp_type (properties (queues dqm q));
             (ok, dqm) = get_mqd_manager_nocpsch (kzalloc_mm env) (get_mqd_type_from_queue_type type) dqm
         in if \<not> ok then Some (- 12, dqm)
            else do {
              let dqm = (if type = Type_sdma then dqm\<lparr>sdma_queue_count := sdma_queue_count dqm - 1\<rparr> else dqm);
              let dqm = set_qpd p (\<lambda>qpd. qpd\<lparr>queues_list := remove1 q (queues_list qpd)\<rparr>) dqm;
              let dqm = (if is_active (properties (queues dqm q)) then dqm\<lparr>queue_count := queue_count dqm - 1\<rparr> else dqm);
              let (_, dqm) = execute_queues_cpsch env cur dqm;
              dqm \<leftarrow> free_mqd q dqm;
              Some (0, dqm\<lparr>total_queue_count := total_queue_count dqm - 1\<rparr>)
            }))"

text \<open>The queue of the debugger; its object is in the model of the queues of the driver.\<close>

definition create_kernel_queue_cpsch :: "dqm_env \<Rightarrow> nat \<Rightarrow> nat \<Rightarrow> nat \<Rightarrow> device_queue_manager \<Rightarrow> int \<times> device_queue_manager" where
  "create_kernel_queue_cpsch env cur p kq dqm =
     (if total_queue_count dqm \<ge> max_num_of_queues_per_device dqm then (- 1, dqm)
      else
        (let dqm = dqm\<lparr>total_queue_count := total_queue_count dqm + 1\<rparr>;
             dqm = set_qpd p (\<lambda>qpd. qpd\<lparr>priv_queue_list := kq # priv_queue_list qpd, is_debug := True\<rparr>) (dqm\<lparr>queue_count := queue_count dqm + 1\<rparr>)
         in (0, snd (execute_queues_cpsch env cur dqm))))"

definition destroy_kernel_queue_cpsch :: "dqm_env \<Rightarrow> dqm_env \<Rightarrow> nat \<Rightarrow> nat \<Rightarrow> nat \<Rightarrow> device_queue_manager \<Rightarrow> device_queue_manager" where
  "destroy_kernel_queue_cpsch env env' cur p kq dqm =
     (let (_, dqm) = destroy_queues_cpsch env cur dqm;
          dqm = set_qpd p (\<lambda>qpd. qpd\<lparr>priv_queue_list := remove1 kq (priv_queue_list qpd), is_debug := False\<rparr>) (dqm\<lparr>queue_count := queue_count dqm - 1\<rparr>);
          (_, dqm) = execute_queues_cpsch env' cur dqm
      in dqm\<lparr>total_queue_count := total_queue_count dqm - 1\<rparr>)"

section \<open>Updates\<close>

text \<open>\<open>update_queue\<close>, for both: a queue whose descriptor is missing is a \<open>BUG\<close>.\<close>

definition update_queue :: "dqm_env \<Rightarrow> nat \<Rightarrow> nat \<Rightarrow> device_queue_manager \<Rightarrow> (int \<times> device_queue_manager) option" where
  "update_queue env cur q dqm =
     (let type = get_mqd_type_from_queue_type (qp_type (properties (queues dqm q)));
          (ok, dqm) = get_mqd_manager_nocpsch (kzalloc_mm env) type dqm
      in case q_mqd (queues dqm q) of
           None \<Rightarrow> None
         | Some (m, ob) \<Rightarrow>
             if \<not> ok then Some (- 12, dqm)
             else do {
               let prev_active = is_active (properties (queues dqm q));
               (m, pr) \<leftarrow> update_mqd (family dqm) type (properties (queues dqm q)) m;
               let dqm = set_queue q (\<lambda>q. q\<lparr>properties := pr, q_mqd := Some (m, ob)\<rparr>) dqm;
               let dqm = (if is_active pr \<and> \<not> prev_active then dqm\<lparr>queue_count := queue_count dqm + 1\<rparr>
                 else if \<not> is_active pr \<and> prev_active then dqm\<lparr>queue_count := queue_count dqm - 1\<rparr> else dqm);
               Some (if sched_policy dqm \<noteq> Policy_no_hws then execute_queues_cpsch env cur dqm else (0, dqm))
             })"

end
