(* ===== verification/Kfd_Dqm_Inv.thy ===== *)
theory Kfd_Dqm_Inv
  imports Kfd_Dqm
begin

text \<open>
  What the queue manager of a device keeps when processes create, update and destroy queues without the
  hardware scheduler: every queue has a place of its own in the hardware, every process a VMID of its own,
  and the counters count. The last part is about the run list of the hardware scheduler.
\<close>

section \<open>Assigned numbers\<close>

text \<open>The members of \<open>A\<close> have the numbers \<open>f\<close>, each its own; \<open>F\<close> are the numbers below \<open>n\<close> that are free.\<close>

definition assigned :: "nat \<Rightarrow> nat set \<Rightarrow> 'a set \<Rightarrow> ('a \<Rightarrow> nat) \<Rightarrow> bool" where
  "assigned n F A f \<longleftrightarrow> inj_on f A \<and> f ` A \<union> F = {..< n} \<and> f ` A \<inter> F = {}"

lemma assigned_keep: "assigned n F A f \<Longrightarrow> (\<And>b. b \<in> A \<Longrightarrow> g b = f b) \<Longrightarrow> assigned n F A g"
  unfolding assigned_def by (metis (no_types, lifting) image_cong inj_on_cong)

lemma assigned_take:
  assumes "assigned n F A f" "i \<in> F" "a \<notin> A" "g a = i" "\<And>b. b \<in> A \<Longrightarrow> g b = f b"
  shows "assigned n (F - {i}) (insert a A) g"
proof -
  have g: "assigned n F A g" using assigned_keep [OF assms(1,5)] .
  then have "i \<notin> g ` A" using assms(2) by (auto simp: assigned_def)
  then show ?thesis using g assms(2,3,4) by (auto simp: assigned_def)
qed

lemma assigned_drop:
  assumes "assigned n F A f" "a \<in> A" "\<And>b. b \<in> A \<Longrightarrow> b \<noteq> a \<Longrightarrow> g b = f b"
  shows "assigned n (insert (f a) F) (A - {a}) g"
proof -
  have f: "inj_on f A" "f ` A \<union> F = {..< n}" "f ` A \<inter> F = {}" using assms(1) by (simp_all add: assigned_def)
  have img: "g ` (A - {a}) = f ` A - {f a}"
  proof -
    have "g ` (A - {a}) = f ` (A - {a})" using assms(3) by (intro image_cong) auto
    also have "\<dots> = f ` A - {f a}" using f(1) assms(2) by (subst inj_on_image_set_diff [of f A]) auto
    finally show ?thesis .
  qed
  have "inj_on f (A - {a})" using f(1) by (rule inj_on_subset) auto
  then have "inj_on g (A - {a})" using assms(3) by (subst inj_on_cong [of _ g f]) auto
  moreover have "f a \<in> f ` A" using assms(2) by simp
  ultimately show ?thesis unfolding assigned_def img using f(2,3) by blast
qed

section \<open>Masks of free numbers\<close>

definition free_bits :: "u32 \<Rightarrow> nat set" where
  "free_bits w = {i. bit w i}"

lemma find_first_bit_free:
  assumes "w \<noteq> 0" "free_bits w \<subseteq> {..< n}"
  shows "find_first_bit w n \<in> free_bits w"
proof -
  obtain i where "bit w i" using assms(1) by (metis bit_0_eq bit_eq_iff bot_apply bot_bool_def)
  then have "i \<in> set [0 ..< n]" using assms(2) by (auto simp: free_bits_def)
  then have "find (bit w) [0 ..< n] \<noteq> None" using \<open>bit w i\<close> by (auto simp: find_None_iff)
  then obtain j where "find (bit w) [0 ..< n] = Some j" by blast
  moreover from this have "bit w j" by (auto simp: find_Some_iff)
  ultimately show ?thesis by (simp add: find_first_bit_def free_bits_def)
qed

lemma free_bits_unset: "free_bits (unset_bit i w) = free_bits w - {i}"
  by (auto simp: free_bits_def bit_unset_bit_iff)

lemma free_bits_set: "i < 32 \<Longrightarrow> free_bits (Bit_Operations.set_bit i w) = insert i (free_bits w)"
  by (auto simp: free_bits_def bit_set_bit_iff)

lemma free_bits_empty: "free_bits w = {} \<longleftrightarrow> w = 0"
  by (auto simp: free_bits_def) (metis bit_0_eq bit_eq_iff bot_apply bot_bool_def)

lemma set_unset_bit: "i \<in> free_bits w \<Longrightarrow> Bit_Operations.set_bit i (unset_bit i w) = w"
  by (rule bit_word_eqI) (auto simp: free_bits_def bit_set_bit_iff bit_unset_bit_iff dest: bit_imp_le_length)

section \<open>The parts of the invariant\<close>

text \<open>The processes \<open>U\<close> have VMIDs, and the registers of a VMID are set up for its process.\<close>

definition sh_mem_settings :: "kfd_process_device \<Rightarrow> u32 \<times> u32 \<times> u32 \<times> u32" where
  "sh_mem_settings qpd = (sh_mem_config qpd, sh_mem_ape1_base qpd, sh_mem_ape1_limit qpd, sh_mem_bases qpd)"

definition vmid_inv :: "nat set \<Rightarrow> device_queue_manager \<Rightarrow> bool" where
  "vmid_inv U d \<longleftrightarrow> assigned 8 (free_bits (vmid_bitmap d)) U (\<lambda>p. unat (qpd_vmid (qpds d p) - 8)) \<and>
     (\<forall>p. p \<notin> U \<longrightarrow> qpd_vmid (qpds d p) = 0) \<and> (\<forall>p. proc_pasid d p \<noteq> 0) \<and>
     (\<forall>p \<in> U. pasid_mapping d (qpd_vmid (qpds d p)) = (proc_pasid d p OR push_bit 31 1) \<and>
        sh_mem d (qpd_vmid (qpds d p)) = sh_mem_settings (qpds d p))"

text \<open>The compute queues \<open>C\<close> have slots of the pipes, the SDMA queues \<open>S\<close> those of the engines.\<close>

definition hqd_free :: "u32 list \<Rightarrow> nat set" where
  "hqd_free aq = {8 * i + b | i b. i < length aq \<and> bit (aq ! i) b}"

definition hqd_slot :: "queue \<Rightarrow> nat" where
  "hqd_slot q = 8 * q_pipe q + q_slot q"

definition slots_inv :: "nat set \<Rightarrow> device_queue_manager \<Rightarrow> bool" where
  "slots_inv C d \<longleftrightarrow> length (allocated_queues d) = compute_pipe_count d \<and> (\<forall>w \<in> set (allocated_queues d). free_bits w \<subseteq> {..< 8}) \<and>
     (0 < compute_pipe_count d \<longrightarrow> next_pipe_to_allocate d < compute_pipe_count d) \<and>
     (\<forall>n \<in> C. q_slot (queues d n) < 8) \<and> assigned (8 * compute_pipe_count d) (hqd_free (allocated_queues d)) C (\<lambda>n. hqd_slot (queues d n))"

definition sdma_inv :: "nat set \<Rightarrow> device_queue_manager \<Rightarrow> bool" where
  "sdma_inv S d \<longleftrightarrow> assigned 4 (free_bits (sdma_bitmap d)) S (\<lambda>n. q_sdma_id (queues d n))"

text \<open>The queues \<open>M\<close> have descriptors, each in memory of its own.\<close>

definition mqd_obj :: "queue \<Rightarrow> kfd_mem_obj" where
  "mqd_obj q = snd (the (q_mqd q))"

definition mem_inv :: "nat set \<Rightarrow> device_queue_manager \<Rightarrow> bool" where
  "mem_inv M d \<longleftrightarrow> (\<forall>n \<in> M. q_mqd (queues d n) \<noteq> None) \<and> inj_on (\<lambda>n. mqd_obj (queues d n)) M \<and>
     (\<exists>L. gtt_inv \<lparr>gs_kfd = dqm_gtt d, gs_live = L\<rparr> \<and> (\<lambda>n. mqd_obj (queues d n)) ` M \<subseteq> set L)"

text \<open>What the steps of a creation leave alone: everything about the other queues, and the lists and counters.\<close>

definition frame :: "nat \<Rightarrow> device_queue_manager \<Rightarrow> device_queue_manager \<Rightarrow> bool" where
  "frame q d d' \<longleftrightarrow> (\<forall>p. queues_list (qpds d' p) = queues_list (qpds d p)) \<and> (\<forall>n. n \<noteq> q \<longrightarrow> queues d' n = queues d n) \<and>
     q_process (queues d' q) = q_process (queues d q) \<and> qp_type (properties (queues d' q)) = qp_type (properties (queues d q)) \<and>
     total_queue_count d' = total_queue_count d \<and> queue_count d' = queue_count d \<and> sdma_queue_count d' = sdma_queue_count d \<and>
     max_num_of_queues_per_device d' = max_num_of_queues_per_device d \<and> family d' = family d \<and> sched_policy d' = sched_policy d \<and>
     proc_pasid d' = proc_pasid d \<and> proc_32bit d' = proc_32bit d \<and> set (mqds d) \<subseteq> set (mqds d') \<and>
     dqm_processes d' = dqm_processes d \<and> processes_count d' = processes_count d \<and> compute_pipe_count d' = compute_pipe_count d"

lemma frame_refl [simp]: "frame q d d"
  by (simp add: frame_def)

lemma frame_trans [trans]: "frame q d d' \<Longrightarrow> frame q d' d'' \<Longrightarrow> frame q d d''"
  by (auto simp: frame_def)

definition parts :: "nat set \<Rightarrow> nat set \<Rightarrow> nat set \<Rightarrow> nat set \<Rightarrow> device_queue_manager \<Rightarrow> bool" where
  "parts U C S M d \<longleftrightarrow> vmid_inv U d \<and> slots_inv C d \<and> sdma_inv S d \<and> mem_inv M d"

lemmas parts_defs = parts_def vmid_inv_def slots_inv_def sdma_inv_def mem_inv_def
lemmas setters = set_queue_def set_qpd_def set_prop_def

text \<open>Each part depends on a few fields only.\<close>

lemma vmid_keep:
  assumes "vmid_inv U d" "vmid_bitmap d' = vmid_bitmap d" "proc_pasid d' = proc_pasid d" "pasid_mapping d' = pasid_mapping d" "sh_mem d' = sh_mem d"
    "\<And>p. qpd_vmid (qpds d' p) = qpd_vmid (qpds d p)" "\<And>p. sh_mem_settings (qpds d' p) = sh_mem_settings (qpds d p)"
  shows "vmid_inv U d'"
  using assms by (simp add: vmid_inv_def)

lemma slots_keep:
  assumes "slots_inv C d" "allocated_queues d' = allocated_queues d" "compute_pipe_count d' = compute_pipe_count d"
    "next_pipe_to_allocate d' = next_pipe_to_allocate d"
    "\<And>n. n \<in> C \<Longrightarrow> q_pipe (queues d' n) = q_pipe (queues d n) \<and> q_slot (queues d' n) = q_slot (queues d n)"
  shows "slots_inv C d'"
  using assms by (auto simp: slots_inv_def hqd_slot_def intro!: assigned_keep [where g = "\<lambda>n. 8 * q_pipe (queues d' n) + q_slot (queues d' n)"])

lemma sdma_keep:
  assumes "sdma_inv S d" "sdma_bitmap d' = sdma_bitmap d" "\<And>n. n \<in> S \<Longrightarrow> q_sdma_id (queues d' n) = q_sdma_id (queues d n)"
  shows "sdma_inv S d'"
  using assms by (auto simp: sdma_inv_def intro!: assigned_keep [where g = "\<lambda>n. q_sdma_id (queues d' n)"])

lemma mem_keep:
  assumes "mem_inv M d" "dqm_gtt d' = dqm_gtt d" "\<And>n. n \<in> M \<Longrightarrow> q_mqd (queues d' n) = q_mqd (queues d n)"
  shows "mem_inv M d'"
proof -
  have e: "mqd_obj (queues d' n) = mqd_obj (queues d n)" if "n \<in> M" for n using assms(3) [OF that] by (simp add: mqd_obj_def)
  have "inj_on (\<lambda>n. mqd_obj (queues d' n)) M = inj_on (\<lambda>n. mqd_obj (queues d n)) M" using e by (rule inj_on_cong)
  moreover have "(\<lambda>n. mqd_obj (queues d' n)) ` M = (\<lambda>n. mqd_obj (queues d n)) ` M" using e by (intro image_cong) simp_all
  ultimately show ?thesis using assms by (simp add: mem_inv_def)
qed

section \<open>VMIDs\<close>

lemma vmid_number: "i < 8 \<Longrightarrow> unat (of_nat (i + 8) - 8 :: u32) = i \<and> (of_nat (i + 8) :: u32) \<noteq> 0"
proof -
  assume i: "i < 8"
  have "unat (of_nat i :: u32) = i" using i by (intro unat_of_nat_small) simp
  moreover have "unat (of_nat (i + 8) :: u32) = i + 8" using i by (intro unat_of_nat_small) simp
  moreover have "(of_nat (i + 8) - 8 :: u32) = of_nat i" by simp
  ultimately show ?thesis by (metis add_is_0 unat_0 zero_neq_numeral)
qed

lemma allocate_vmid_parts:
  assumes "parts U C S M d" "p \<notin> U" "q_process (queues d q) = p" "allocate_vmid p q d = (r, d')"
  shows "if r = 0 then parts (insert p U) C S M d' \<and> frame q d d' \<and> dqm_gtt d' = dqm_gtt d \<and> (\<forall>x. x \<noteq> p \<longrightarrow> qpds d' x = qpds d x) else r = - 12 \<and> d' = d \<and> free_bits (vmid_bitmap d) = {}"
proof (cases "vmid_bitmap d = 0")
  case False
  define i where "i = find_first_bit (vmid_bitmap d) 8"
  let ?v = "of_nat (i + 8) :: u32"
  have v: "vmid_inv U d" using assms(1) by (simp add: parts_def)
  then have "free_bits (vmid_bitmap d) \<subseteq> {..< 8}" by (auto simp: vmid_inv_def assigned_def)
  then have i: "i \<in> free_bits (vmid_bitmap d)" "i < 8" using find_first_bit_free [OF False] by (auto simp: i_def)
  have d': "r = 0" "d' = d\<lparr>vmid_bitmap := unset_bit i (vmid_bitmap d), qpds := (qpds d)(p := (qpds d p)\<lparr>qpd_vmid := ?v\<rparr>),
      queues := (queues d)(q := set_prop (\<lambda>pr. pr\<lparr>qp_vmid := ?v\<rparr>) (queues d q)),
      pasid_mapping := (pasid_mapping d)(?v := proc_pasid d p OR push_bit 31 1),
      sh_mem := (sh_mem d)(?v := sh_mem_settings (qpds d p))\<rparr>"
    using assms(3,4) False v by (auto simp: allocate_vmid_def Let_def i_def [symmetric] set_qpd_def set_queue_def set_prop_def
        set_pasid_vmid_mapping_def program_sh_mem_settings_def sh_mem_settings_def vmid_inv_def)
  have other: "qpd_vmid (qpds d x) \<noteq> ?v" if "x \<in> U" for x
  proof
    assume "qpd_vmid (qpds d x) = ?v"
    then have "unat (qpd_vmid (qpds d x) - 8) = i" using vmid_number [OF i(2)] by simp
    then show False using v i(1) that by (auto simp: vmid_inv_def assigned_def)
  qed
  have "assigned 8 (free_bits (vmid_bitmap d) - {i}) (insert p U) (\<lambda>x. unat (qpd_vmid (qpds d' x) - 8))"
    using v assms(2) i(1) vmid_number [OF i(2)]
    by (intro assigned_take [where f = "\<lambda>x. unat (qpd_vmid (qpds d x) - 8)"]) (auto simp: vmid_inv_def d'(2))
  then have "vmid_inv (insert p U) d'"
    using v other assms(2) by (auto simp: vmid_inv_def d'(2) free_bits_unset sh_mem_settings_def)
  moreover have "slots_inv C d'" "sdma_inv S d'" "mem_inv M d'"
    using assms(1) by (auto simp: parts_def d'(2) set_prop_def elim!: slots_keep sdma_keep mem_keep)
  ultimately show ?thesis using d' by (auto simp: parts_def frame_def set_prop_def)
qed (use assms(4) in \<open>simp add: allocate_vmid_def free_bits_empty\<close>)

lemma deallocate_vmid_parts:
  assumes "parts U C S M d" "p \<in> U"
  shows "parts (U - {p}) C S M (deallocate_vmid p q d) \<and> frame q d (deallocate_vmid p q d) \<and>
    dqm_gtt (deallocate_vmid p q d) = dqm_gtt d \<and> (\<forall>x. x \<noteq> p \<longrightarrow> qpds (deallocate_vmid p q d) x = qpds d x) \<and>
    q_mqd (queues (deallocate_vmid p q d) q) = q_mqd (queues d q) \<and> is_active (properties (queues (deallocate_vmid p q d) q)) = is_active (properties (queues d q))"
proof -
  let ?v = "qpd_vmid (qpds d p)" and ?d = "deallocate_vmid p q d"
  have v: "vmid_inv U d" using assms(1) by (simp add: parts_def)
  have a: "assigned 8 (free_bits (vmid_bitmap d)) U (\<lambda>x. unat (qpd_vmid (qpds d x) - 8))" using v by (simp add: vmid_inv_def)
  then have lt: "unat (?v - 8) < 8" using assms(2) by (auto simp: assigned_def)
  have d': "?d = d\<lparr>pasid_mapping := (pasid_mapping d)(?v := 0), vmid_bitmap := Bit_Operations.set_bit (unat (?v - 8)) (vmid_bitmap d),
      qpds := (qpds d)(p := (qpds d p)\<lparr>qpd_vmid := 0\<rparr>), queues := (queues d)(q := set_prop (\<lambda>pr. pr\<lparr>qp_vmid := 0\<rparr>) (queues d q))\<rparr>"
    by (simp add: deallocate_vmid_def Let_def set_pasid_vmid_mapping_def set_qpd_def set_queue_def)
  have other: "qpd_vmid (qpds d x) \<noteq> ?v" if "x \<in> U" "x \<noteq> p" for x
    using a assms(2) that by (auto simp: assigned_def inj_on_def)
  have "assigned 8 (insert (unat (?v - 8)) (free_bits (vmid_bitmap d))) (U - {p}) (\<lambda>x. unat (qpd_vmid (qpds ?d x) - 8))"
    using a assms(2) by (intro assigned_drop) (auto simp: d')
  then have "vmid_inv (U - {p}) ?d"
    using v other lt by (auto simp: vmid_inv_def d' free_bits_set sh_mem_settings_def)
  moreover have "slots_inv C ?d" "sdma_inv S ?d" "mem_inv M ?d"
    using assms(1) by (auto simp: parts_def d' set_prop_def elim!: slots_keep sdma_keep mem_keep)
  ultimately show ?thesis by (auto simp: parts_def frame_def d' set_prop_def)
qed

section \<open>Slots of the pipes\<close>

lemma hqd_free_iff:
  assumes "\<forall>w \<in> set aq. free_bits w \<subseteq> {..< 8}"
  shows "x \<in> hqd_free aq \<longleftrightarrow> x div 8 < length aq \<and> x mod 8 \<in> free_bits (aq ! (x div 8))"
proof
  assume "x \<in> hqd_free aq"
  then obtain i b where x: "x = 8 * i + b" "i < length aq" "bit (aq ! i) b" by (auto simp: hqd_free_def)
  then have "b < 8" using assms by (auto simp: free_bits_def)
  then show "x div 8 < length aq \<and> x mod 8 \<in> free_bits (aq ! (x div 8))" using x by (simp add: free_bits_def)
next
  assume "x div 8 < length aq \<and> x mod 8 \<in> free_bits (aq ! (x div 8))"
  then show "x \<in> hqd_free aq" unfolding hqd_free_def free_bits_def
    by (intro CollectI exI [of _ "x div 8"] exI [of _ "x mod 8"]) simp
qed

lemma hqd_free_update:
  assumes "\<forall>w \<in> set aq. free_bits w \<subseteq> {..< 8}" "i < length aq" "free_bits w \<subseteq> {..< 8}"
  shows "x \<in> hqd_free (aq[i := w]) \<longleftrightarrow> (if x div 8 = i then x mod 8 \<in> free_bits w else x \<in> hqd_free aq)"
proof -
  have "\<forall>w \<in> set (aq[i := w]). free_bits w \<subseteq> {..< 8}" using assms set_update_subset_insert [of aq i w] by blast
  then show ?thesis using assms(1,2) by (auto simp: hqd_free_iff nth_list_update)
qed

lemma hqd_free_take:
  assumes "\<forall>w \<in> set aq. free_bits w \<subseteq> {..< 8}" "i < length aq" "b < 8"
  shows "hqd_free (aq[i := unset_bit b (aq ! i)]) = hqd_free aq - {8 * i + b}"
    and "hqd_free (aq[i := Bit_Operations.set_bit b (aq ! i)]) = insert (8 * i + b) (hqd_free aq)"
proof -
  have w: "free_bits (aq ! i) \<subseteq> {..< 8}" using assms by simp
  have pos: "x = 8 * i + b \<longleftrightarrow> x div 8 = i \<and> x mod 8 = b" for x using assms(3) by auto
  show "hqd_free (aq[i := unset_bit b (aq ! i)]) = hqd_free aq - {8 * i + b}"
  proof (rule set_eqI)
    have "free_bits (unset_bit b (aq ! i)) \<subseteq> {..< 8}" using w by (auto simp: free_bits_unset)
    from hqd_free_update [OF assms(1,2) this] show "x \<in> hqd_free (aq[i := unset_bit b (aq ! i)]) \<longleftrightarrow> x \<in> hqd_free aq - {8 * i + b}" for x
      unfolding Diff_iff singleton_iff pos using assms(2) by (auto simp: hqd_free_iff [OF assms(1)] free_bits_unset)
  qed
  show "hqd_free (aq[i := Bit_Operations.set_bit b (aq ! i)]) = insert (8 * i + b) (hqd_free aq)"
  proof (rule set_eqI)
    have "free_bits (Bit_Operations.set_bit b (aq ! i)) \<subseteq> {..< 8}" using w assms(3) by (simp add: free_bits_set)
    from hqd_free_update [OF assms(1,2) this] show "x \<in> hqd_free (aq[i := Bit_Operations.set_bit b (aq ! i)]) \<longleftrightarrow> x \<in> insert (8 * i + b) (hqd_free aq)" for x
      unfolding insert_iff pos using assms(2,3) by (auto simp: hqd_free_iff [OF assms(1)] free_bits_set)
  qed
qed

lemma find_pipe_cases:
  assumes "length (allocated_queues d) = compute_pipe_count d" "pipe < compute_pipe_count d"
  shows "(\<exists>i < compute_pipe_count d. find_pipe d pipe k = Some (Some i) \<and> allocated_queues d ! i \<noteq> 0) \<or>
    find_pipe d pipe k = Some None \<and> (\<forall>j < k. allocated_queues d ! ((pipe + j) mod compute_pipe_count d) = 0)"
  using assms(2)
proof (induction k arbitrary: pipe)
  case (Suc k)
  let ?n = "compute_pipe_count d" and ?next = "(pipe + 1) mod compute_pipe_count d"
  show ?case
  proof (cases "allocated_queues d ! pipe = 0")
    case True
    have nx: "?next < ?n" using Suc.prems by simp
    have "allocated_queues d ! ((pipe + j) mod ?n) = 0" if "\<forall>j < k. allocated_queues d ! ((?next + j) mod ?n) = 0" "j < Suc k" for j
      using that True Suc.prems by (cases j) (auto simp: mod_add_left_eq)
    then show ?thesis using Suc.IH [OF nx] True Suc.prems assms(1) by (auto simp: nth_opt_def)
  qed (use Suc.prems assms(1) in \<open>auto simp: nth_opt_def\<close>)
qed simp

lemma allocate_hqd_parts:
  assumes "parts U C S M d" "q \<notin> C"
  shows "\<exists>r d'. allocate_hqd q d = Some (r, d') \<and> frame q d d' \<and> properties (queues d' q) = properties (queues d q) \<and> qpds d' = qpds d \<and> dqm_gtt d' = dqm_gtt d \<and>
    (if r = 0 then parts U (insert q C) S M d' else r = - 16 \<and> d' = d \<and> hqd_free (allocated_queues d) = {})"
proof -
  let ?n = "compute_pipe_count d" and ?aq = "allocated_queues d" and ?np = "next_pipe_to_allocate d"
  have s: "length ?aq = ?n" "\<forall>w \<in> set ?aq. free_bits w \<subseteq> {..< 8}" "0 < ?n \<longrightarrow> ?np < ?n" "\<forall>n \<in> C. q_slot (queues d n) < 8"
    "assigned (8 * ?n) (hqd_free ?aq) C (\<lambda>n. hqd_slot (queues d n))" using assms(1) by (auto simp: parts_def slots_inv_def)
  consider (none) "find_pipe d ?np ?n = Some None" "hqd_free ?aq = {}"
    | (some) i where "i < ?n" "find_pipe d ?np ?n = Some (Some i)" "?aq ! i \<noteq> 0"
  proof (cases "?n = 0")
    case True
    then show ?thesis using none s(1) by (simp add: hqd_free_def)
  next
    case False
    then have np: "?np < ?n" using s(3) by simp
    show ?thesis
    proof (cases "\<exists>i < ?n. find_pipe d ?np ?n = Some (Some i) \<and> ?aq ! i \<noteq> 0")
      case False
      then have f: "find_pipe d ?np ?n = Some None" "\<forall>j < ?n. ?aq ! ((?np + j) mod ?n) = 0"
        using find_pipe_cases [OF s(1) np] by blast+
      have "?aq ! i = 0" if "i < ?n" for i
      proof -
        have "(?np + (i + ?n - ?np) mod ?n) mod ?n = i" using that np by (simp add: mod_add_right_eq)
        then show ?thesis using f(2) [rule_format, of "(i + ?n - ?np) mod ?n"] that by simp
      qed
      then show ?thesis using none f(1) s(1) by (auto simp: hqd_free_def)
    qed (use some in blast)
  qed
  then show ?thesis
  proof cases
    case none
    then show ?thesis by (simp add: allocate_hqd_def)
  next
    case (some i)
    define b where "b = find_first_bit (?aq ! i) 8"
    have "free_bits (?aq ! i) \<subseteq> {..< 8}" using s(1,2) some(1) by simp
    then have b: "b \<in> free_bits (?aq ! i)" "b < 8" using find_first_bit_free [OF some(3)] by (auto simp: b_def)
    let ?d = "d\<lparr>allocated_queues := ?aq[i := unset_bit b (?aq ! i)], next_pipe_to_allocate := (i + 1) mod ?n,
      queues := (queues d)(q := (queues d q)\<lparr>q_pipe := i, q_slot := b\<rparr>)\<rparr>"
    have run: "allocate_hqd q d = Some (0, ?d)"
      using some s(1) by (simp add: allocate_hqd_def nth_opt_def update_opt_def b_def Let_def set_queue_def)
    have free: "hqd_free (?aq[i := unset_bit b (?aq ! i)]) = hqd_free ?aq - {8 * i + b}"
      using hqd_free_take(1) [OF s(2) _ b(2)] some(1) s(1) by simp
    have "8 * i + b \<in> hqd_free ?aq" using b some(1) s(1) by (auto simp: hqd_free_def free_bits_def)
    then have "assigned (8 * ?n) (hqd_free ?aq - {8 * i + b}) (insert q C) (\<lambda>n. hqd_slot (queues ?d n))"
      using assms(2) by (intro assigned_take [OF s(5)]) (auto simp: hqd_slot_def)
    moreover have "\<forall>w \<in> set (?aq[i := unset_bit b (?aq ! i)]). free_bits w \<subseteq> {..< 8}"
      using s(2) set_update_subset_insert [of ?aq i "unset_bit b (?aq ! i)"] some(1) s(1) by (fastforce simp: free_bits_unset)
    ultimately have "slots_inv (insert q C) ?d" using s b(2) some(1) unfolding slots_inv_def by (simp add: free)
    moreover have "vmid_inv U ?d" "sdma_inv S ?d" "mem_inv M ?d"
      using assms(1) by (auto simp: parts_def elim!: vmid_keep sdma_keep mem_keep)
    ultimately show ?thesis using run by (auto simp: parts_def frame_def)
  qed
qed

lemma deallocate_hqd_parts:
  assumes "parts U C S M d" "q \<in> C"
  shows "\<exists>d'. deallocate_hqd q d = Some d' \<and> frame q d d' \<and> queues d' = queues d \<and> qpds d' = qpds d \<and> dqm_gtt d' = dqm_gtt d \<and> parts U (C - {q}) S M d'"
proof -
  let ?n = "compute_pipe_count d" and ?aq = "allocated_queues d" and ?i = "q_pipe (queues d q)" and ?b = "q_slot (queues d q)"
  have s: "length ?aq = ?n" "\<forall>w \<in> set ?aq. free_bits w \<subseteq> {..< 8}" "0 < ?n \<longrightarrow> next_pipe_to_allocate d < ?n" "\<forall>n \<in> C. q_slot (queues d n) < 8"
    "assigned (8 * ?n) (hqd_free ?aq) C (\<lambda>n. hqd_slot (queues d n))" using assms(1) by (auto simp: parts_def slots_inv_def)
  have b: "?b < 8" using s(4) assms(2) by simp
  have "hqd_slot (queues d q) < 8 * ?n" using s(5) assms(2) by (auto simp: assigned_def)
  then have i: "?i < ?n" by (simp add: hqd_slot_def)
  let ?d = "d\<lparr>allocated_queues := ?aq[?i := Bit_Operations.set_bit ?b (?aq ! ?i)]\<rparr>"
  have run: "deallocate_hqd q d = Some ?d" using i s(1) by (simp add: deallocate_hqd_def nth_opt_def update_opt_def)
  have free: "hqd_free (?aq[?i := Bit_Operations.set_bit ?b (?aq ! ?i)]) = insert (hqd_slot (queues d q)) (hqd_free ?aq)"
    using hqd_free_take(2) [OF s(2) _ b] i s(1) by (simp add: hqd_slot_def)
  have "assigned (8 * ?n) (insert (hqd_slot (queues d q)) (hqd_free ?aq)) (C - {q}) (\<lambda>n. hqd_slot (queues d n))"
    using assms(2) by (intro assigned_drop [OF s(5)]) auto
  moreover have "\<forall>w \<in> set (?aq[?i := Bit_Operations.set_bit ?b (?aq ! ?i)]). free_bits w \<subseteq> {..< 8}"
    using s(2) set_update_subset_insert [of ?aq ?i "Bit_Operations.set_bit ?b (?aq ! ?i)"] i s(1) b by (fastforce simp: free_bits_set)
  ultimately have "slots_inv (C - {q}) ?d" using s unfolding slots_inv_def by (simp add: free)
  moreover have "vmid_inv U ?d" "sdma_inv S ?d" "mem_inv M ?d"
    using assms(1) by (auto simp: parts_def elim!: vmid_keep sdma_keep mem_keep)
  ultimately show ?thesis using run by (auto simp: parts_def frame_def)
qed

section \<open>Slots of the SDMA engines\<close>

lemma allocate_sdma_parts:
  assumes "parts U C S M d" "q \<notin> S" "allocate_sdma_queue q d = (r, d')"
  shows "frame q d d' \<and> properties (queues d' q) = properties (queues d q) \<and> qpds d' = qpds d \<and> dqm_gtt d' = dqm_gtt d \<and>
    (if r = 0 then parts U C (insert q S) M d' \<and> q_sdma_id (queues d' q) < 4 else r = - 12 \<and> d' = d \<and> free_bits (sdma_bitmap d) = {})"
proof (cases "sdma_bitmap d = 0")
  case False
  define b where "b = find_first_bit (sdma_bitmap d) 4"
  have a: "assigned 4 (free_bits (sdma_bitmap d)) S (\<lambda>n. q_sdma_id (queues d n))" using assms(1) by (simp add: parts_def sdma_inv_def)
  then have "free_bits (sdma_bitmap d) \<subseteq> {..< 4}" by (auto simp: assigned_def)
  then have b: "b \<in> free_bits (sdma_bitmap d)" "b < 4" using find_first_bit_free [OF False] by (auto simp: b_def)
  have d': "r = 0" "d' = d\<lparr>sdma_bitmap := unset_bit b (sdma_bitmap d), queues := (queues d)(q := (queues d q)\<lparr>q_sdma_id := b\<rparr>)\<rparr>"
    using assms(3) False by (auto simp: allocate_sdma_queue_def Let_def b_def set_queue_def)
  have "assigned 4 (free_bits (sdma_bitmap d) - {b}) (insert q S) (\<lambda>n. q_sdma_id (queues d' n))"
    using assms(2) b(1) by (intro assigned_take [OF a]) (auto simp: d'(2))
  then have "sdma_inv (insert q S) d'" by (simp add: sdma_inv_def d'(2) free_bits_unset)
  moreover have "vmid_inv U d'" "slots_inv C d'" "mem_inv M d'"
    using assms(1) by (auto simp: parts_def d'(2) elim!: vmid_keep slots_keep mem_keep)
  ultimately show ?thesis using d' b(2) by (auto simp: parts_def frame_def)
qed (use assms(3) in \<open>simp add: allocate_sdma_queue_def free_bits_empty\<close>)

lemma deallocate_sdma_parts:
  assumes "parts U C S M d" "q \<in> S"
  shows "parts U C (S - {q}) M (deallocate_sdma_queue (q_sdma_id (queues d q)) d) \<and> frame q d (deallocate_sdma_queue (q_sdma_id (queues d q)) d) \<and>
    queues (deallocate_sdma_queue (q_sdma_id (queues d q)) d) = queues d \<and> qpds (deallocate_sdma_queue (q_sdma_id (queues d q)) d) = qpds d \<and>
    dqm_gtt (deallocate_sdma_queue (q_sdma_id (queues d q)) d) = dqm_gtt d"
proof -
  let ?b = "q_sdma_id (queues d q)" and ?d = "deallocate_sdma_queue (q_sdma_id (queues d q)) d"
  have a: "assigned 4 (free_bits (sdma_bitmap d)) S (\<lambda>n. q_sdma_id (queues d n))" using assms(1) by (simp add: parts_def sdma_inv_def)
  then have b: "?b < 4" using assms(2) by (auto simp: assigned_def)
  then have d': "?d = d\<lparr>sdma_bitmap := Bit_Operations.set_bit ?b (sdma_bitmap d)\<rparr>" by (simp add: deallocate_sdma_queue_def)
  have "assigned 4 (insert ?b (free_bits (sdma_bitmap d))) (S - {q}) (\<lambda>n. q_sdma_id (queues d n))"
    using assms(2) by (intro assigned_drop [OF a]) auto
  then have "sdma_inv (S - {q}) ?d" using b by (simp add: sdma_inv_def d' free_bits_set)
  moreover have "vmid_inv U ?d" "slots_inv C ?d" "mem_inv M ?d"
    using assms(1) by (auto simp: parts_def d' elim!: vmid_keep slots_keep mem_keep)
  ultimately show ?thesis by (auto simp: parts_def frame_def d')
qed

section \<open>Descriptors\<close>

lemma free_total:
  assumes "gtt_inv S" "ob \<in> set (gs_live S)"
  shows "\<exists>kfd. kfd_gtt_sa_free (Some ob) (gs_kfd S) = Some (0, kfd)"
proof -
  have "Suc (mo_range_end ob) \<le> length (gtt_sa_bitmap (gs_kfd S))" using assms by (fastforce simp: gtt_inv_def gtt_ok_def)
  from mark_chunks_ok [OF this, of False "mo_range_start ob"] show ?thesis by (auto simp: kfd_gtt_sa_free_def simp del: upt_Suc)
qed

lemma mem_invI:
  assumes "\<And>n. n \<in> M \<Longrightarrow> q_mqd (queues d n) \<noteq> None" "inj_on (\<lambda>n. mqd_obj (queues d n)) M"
    "gtt_inv \<lparr>gs_kfd = dqm_gtt d, gs_live = L\<rparr>" "(\<lambda>n. mqd_obj (queues d n)) ` M \<subseteq> set L"
  shows "mem_inv M d"
  using assms unfolding mem_inv_def by blast

lemma manager_parts:
  assumes "get_mqd_manager_nocpsch ok kind d = (b, d')"
  shows "frame q d d' \<and> (parts U C S M d \<longrightarrow> parts U C S M d') \<and> queues d' = queues d \<and> qpds d' = qpds d \<and> dqm_gtt d' = dqm_gtt d"
  using assms by (auto simp: get_mqd_manager_nocpsch_def parts_def frame_def split: if_splits elim!: vmid_keep slots_keep sdma_keep mem_keep)

text \<open>
  The buffer of the device has memory for a descriptor, or the allocation of the descriptor fails cleanly.
  Otherwise the chunk allocator, and with it the creation of the queue, has undefined behaviour.
\<close>

definition fits :: "bool \<Rightarrow> kfd_mqd_type \<Rightarrow> device_queue_manager \<Rightarrow> bool" where
  "fits ok kind d \<longleftrightarrow> kfd_gtt_sa_allocate ok (mqd_size (family d) kind) (dqm_gtt d) \<noteq> None"

lemma fits_frame: "frame q d d' \<Longrightarrow> dqm_gtt d' = dqm_gtt d \<Longrightarrow> fits ok kind d' \<longleftrightarrow> fits ok kind d"
  by (simp add: fits_def frame_def)

lemma unfit_init_mqd: "\<not> fits ok kind d \<Longrightarrow> queue_init_mqd ok kind q d = None"
  by (auto simp: fits_def queue_init_mqd_def init_mqd_def split: bind_splits)

lemma queue_init_mqd_parts:
  assumes "parts U C S M d" "q \<notin> M" "kind \<noteq> Mqd_sdma \<or> family d = Chip_kaveri" "fits ok kind d"
  shows "\<exists>r d'. queue_init_mqd ok kind q d = Some (r, d') \<and>
    (if r = 0 then parts U C S (insert q M) d' \<and> frame q d d' \<and> qpds d' = qpds d \<and> taken (dqm_gtt d) [mqd_obj (queues d' q)] (dqm_gtt d') \<and>
       q_sdma_id (queues d' q) = q_sdma_id (queues d q) \<and> qp_vmid (properties (queues d' q)) = qp_vmid (properties (queues d q))
     else r = - 12 \<and> d' = d)"
proof -
  let ?g = "dqm_gtt d" and ?f = "family d"
  obtain L where L: "gtt_inv \<lparr>gs_kfd = ?g, gs_live = L\<rparr>" "(\<lambda>n. mqd_obj (queues d n)) ` M \<subseteq> set L"
    and m: "\<forall>n \<in> M. q_mqd (queues d n) \<noteq> None" "inj_on (\<lambda>n. mqd_obj (queues d n)) M" using assms(1) by (auto simp: parts_def mem_inv_def)
  have ok: "gtt_ok ?g" using L(1) by (simp add: gtt_inv_def)
  obtain r g1 o1 where run1: "kfd_gtt_sa_allocate ok (mqd_size ?f kind) ?g = Some (r, g1, o1)" using assms(4) by (auto simp: fits_def)
  have "kfd_gtt_sa_allocate ok (mqd_size ?f kind) ?g = Some (r, ?g, None) \<or>
    (\<exists>g' ob. kfd_gtt_sa_allocate ok (mqd_size ?f kind) ?g = Some (r, g', Some ob) \<and> taken ?g [ob] g')"
    using taken_allocate [OF taken_start [OF ok] run1] run1 by auto
  then show ?thesis
  proof
    assume a: "kfd_gtt_sa_allocate ok (mqd_size ?f kind) ?g = Some (r, ?g, None)"
    then show ?thesis using init_mqd_result [OF assms(3) a, of "properties (queues d q)"] by (auto simp: queue_init_mqd_def)
  next
    assume "\<exists>g' ob. kfd_gtt_sa_allocate ok (mqd_size ?f kind) ?g = Some (r, g', Some ob) \<and> taken ?g [ob] g'"
    then obtain g' ob where a: "kfd_gtt_sa_allocate ok (mqd_size ?f kind) ?g = Some (r, g', Some ob)" "taken ?g [ob] g'" by blast
    obtain mq b where i: "init_mqd ?f kind ok ?g (properties (queues d q)) = Some (0, g', Some (mq, ob), (properties (queues d q))\<lparr>is_active := b\<rparr>)"
      using init_mqd_result [OF assms(3) a(1), of "properties (queues d q)"] by auto
    let ?d = "d\<lparr>dqm_gtt := g', queues := (queues d)(q := (queues d q)\<lparr>properties := (properties (queues d q))\<lparr>is_active := b\<rparr>, q_mqd := Some (mq, ob)\<rparr>)\<rparr>"
    have run: "queue_init_mqd ok kind q d = Some (0, ?d)" using i by (simp add: queue_init_mqd_def set_queue_def)
    have L': "gtt_inv \<lparr>gs_kfd = g', gs_live = ob # L\<rparr>" using allocate_inv [OF L(1), of ok "mqd_size ?f kind" r g' ob] a(1) by simp
    have "ob \<notin> set L" using L' by (simp add: gtt_inv_def)
    then have "ob \<notin> (\<lambda>n. mqd_obj (queues d n)) ` M" using L(2) by blast
    moreover have "mqd_obj (queues ?d n) = (if n = q then ob else mqd_obj (queues d n))" for n by (simp add: mqd_obj_def)
    ultimately have "inj_on (\<lambda>n. mqd_obj (queues ?d n)) (insert q M)" "(\<lambda>n. mqd_obj (queues ?d n)) ` insert q M \<subseteq> set (ob # L)"
      using m(2) L(2) assms(2) by (auto simp: inj_on_def image_iff)
    then have "mem_inv (insert q M) ?d" using m(1) L' by (intro mem_invI) auto
    moreover have "vmid_inv U ?d" "slots_inv C ?d" "sdma_inv S ?d"
      using assms(1) by (auto simp: parts_def elim!: vmid_keep slots_keep sdma_keep)
    ultimately show ?thesis using run a(2) by (auto simp: parts_def frame_def mqd_obj_def)
  qed
qed

lemma free_mqd_parts:
  assumes "parts U C S M d" "q \<in> M"
  shows "\<exists>g. free_mqd q d = Some (d\<lparr>dqm_gtt := g\<rparr>) \<and> kfd_gtt_sa_free (Some (mqd_obj (queues d q))) (dqm_gtt d) = Some (0, g) \<and>
    parts U C S (M - {q}) (d\<lparr>dqm_gtt := g\<rparr>) \<and> frame q d (d\<lparr>dqm_gtt := g\<rparr>)"
proof -
  obtain L where L: "gtt_inv \<lparr>gs_kfd = dqm_gtt d, gs_live = L\<rparr>" "(\<lambda>n. mqd_obj (queues d n)) ` M \<subseteq> set L"
    and m: "\<forall>n \<in> M. q_mqd (queues d n) \<noteq> None" "inj_on (\<lambda>n. mqd_obj (queues d n)) M" using assms(1) by (auto simp: parts_def mem_inv_def)
  let ?ob = "mqd_obj (queues d q)"
  have ob: "?ob \<in> set L" using L(2) assms(2) by blast
  obtain g where g: "kfd_gtt_sa_free (Some ?ob) (dqm_gtt d) = Some (0, g)" using free_total [OF L(1)] ob by auto
  obtain mq where "q_mqd (queues d q) = Some (mq, ?ob)" using m(1) assms(2) by (auto simp: mqd_obj_def)
  then have run: "free_mqd q d = Some (d\<lparr>dqm_gtt := g\<rparr>)" using g by (simp add: free_mqd_def uninit_mqd_def)
  have "gtt_inv \<lparr>gs_kfd = g, gs_live = remove1 ?ob L\<rparr>" using free_inv_gtt [OF L(1), of ?ob 0 g] ob g by simp
  moreover have "(\<lambda>n. mqd_obj (queues d n)) ` (M - {q}) \<subseteq> set (remove1 ?ob L)"
    using L m(2) assms(2) by (auto simp: gtt_inv_def inj_on_def)
  moreover have "inj_on (\<lambda>n. mqd_obj (queues d n)) (M - {q})" using m(2) by (rule inj_on_diff)
  ultimately have "mem_inv (M - {q}) (d\<lparr>dqm_gtt := g\<rparr>)" using m(1) by (intro mem_invI) auto
  moreover have "vmid_inv U (d\<lparr>dqm_gtt := g\<rparr>)" "slots_inv C (d\<lparr>dqm_gtt := g\<rparr>)" "sdma_inv S (d\<lparr>dqm_gtt := g\<rparr>)"
    using assms(1) by (auto simp: parts_def elim!: vmid_keep slots_keep sdma_keep)
  ultimately show ?thesis using run g by (auto simp: parts_def frame_def)
qed

section \<open>Creation of a queue\<close>

lemma taken_undone:
  assumes "taken g [ob] g'" "kfd_gtt_sa_free (Some ob) g' = Some (r, g'')"
  shows "g'' = g"
  using taken_free [OF assms(1), of ob] assms(2) taken_none by auto

lemma create_compute_parts:
  assumes "parts U C S M d" "q \<notin> C" "q \<notin> M"
  shows "create_compute_queue_nocpsch env q d = None \<and> \<not> fits (kmalloc_obj env) Mqd_compute d \<or>
    (\<exists>r d'. create_compute_queue_nocpsch env q d = Some (r, d') \<and> frame q d d' \<and> qpds d' = qpds d \<and>
    qp_vmid (properties (queues d' q)) = qp_vmid (properties (queues d q)) \<and>
    (if r = 0 then parts U (insert q C) S (insert q M) d' else parts U C S M d' \<and> dqm_gtt d' = dqm_gtt d))"
proof -
  obtain ok d1 where mm: "get_mqd_manager_nocpsch (kzalloc_mm env) Mqd_compute d = (ok, d1)" by fastforce
  have d1: "frame q d d1" "parts U C S M d1" "queues d1 = queues d" "qpds d1 = qpds d" "dqm_gtt d1 = dqm_gtt d"
    using manager_parts [OF mm] assms(1) by blast+
  obtain r2 d2 where a: "allocate_hqd q d1 = Some (r2, d2)" "frame q d1 d2" "properties (queues d2 q) = properties (queues d1 q)"
    "qpds d2 = qpds d1" "dqm_gtt d2 = dqm_gtt d1" "if r2 = 0 then parts U (insert q C) S M d2 else d2 = d1"
    using allocate_hqd_parts [OF d1(2) assms(2)] by (metis (full_types))
  note prev = a(2-5) d1
  have f2: "frame q d d2" using frame_trans [OF d1(1) a(2)] .
  show ?thesis
  proof (cases "ok \<and> r2 = 0")
    case False
    then show ?thesis using mm a d1 by (auto simp: create_compute_queue_nocpsch_def)
  next
    case True
    have same: "fits (kmalloc_obj env) Mqd_compute d2 \<longleftrightarrow> fits (kmalloc_obj env) Mqd_compute d" using fits_frame [OF f2] a(5) d1(5) by simp
    show ?thesis
    proof (cases "fits (kmalloc_obj env) Mqd_compute d")
      case False
      then show ?thesis using mm True a(1) unfit_init_mqd [of "kmalloc_obj env" Mqd_compute d2 q] same by (simp add: create_compute_queue_nocpsch_def)
    next
      case fit: True
      from True have p2: "parts U (insert q C) S M d2" using a(6) by simp
      obtain r3 d3 where i: "queue_init_mqd (kmalloc_obj env) Mqd_compute q d2 = Some (r3, d3)"
        "if r3 = 0 then parts U (insert q C) S (insert q M) d3 \<and> frame q d2 d3 \<and> qpds d3 = qpds d2 \<and> taken (dqm_gtt d2) [mqd_obj (queues d3 q)] (dqm_gtt d3) \<and>
          qp_vmid (properties (queues d3 q)) = qp_vmid (properties (queues d2 q)) else d3 = d2"
        using queue_init_mqd_parts [OF p2 assms(3), of Mqd_compute "kmalloc_obj env"] fit same by (auto split: if_splits)
      have C: "insert q C - {q} = C" "insert q M - {q} = M" using assms(2,3) by auto
      show ?thesis
      proof (cases "r3 = 0")
        case False
        then have d3: "d3 = d2" using i(2) by simp
        obtain d4 where d4: "deallocate_hqd q d2 = Some d4" "frame q d2 d4" "queues d4 = queues d2" "qpds d4 = qpds d2" "dqm_gtt d4 = dqm_gtt d2" "parts U C S M d4"
          using deallocate_hqd_parts [OF p2, of q] C(1) by auto
        then show ?thesis using mm True a(1) i(1) d3 False prev frame_trans [OF f2 d4(2)] by (simp add: create_compute_queue_nocpsch_def)
      next
        case r3: True
        then have d3: "parts U (insert q C) S (insert q M) d3" "frame q d2 d3" "qpds d3 = qpds d2" "taken (dqm_gtt d2) [mqd_obj (queues d3 q)] (dqm_gtt d3)"
          "qp_vmid (properties (queues d3 q)) = qp_vmid (properties (queues d2 q))" using i(2) by simp_all
        show ?thesis
        proof (cases "hqd_load env = 0")
          case load: True
          then show ?thesis using mm True a(1) i(1) r3 d3 prev frame_trans [OF f2 d3(2)] by (simp add: create_compute_queue_nocpsch_def)
        next
          case load: False
          obtain d4 where d4: "deallocate_hqd q d3 = Some d4" "frame q d3 d4" "queues d4 = queues d3" "qpds d4 = qpds d3" "dqm_gtt d4 = dqm_gtt d3" "parts U C S (insert q M) d4"
            using deallocate_hqd_parts [OF d3(1), of q] C(1) by auto
          obtain g where g: "free_mqd q d4 = Some (d4\<lparr>dqm_gtt := g\<rparr>)" "kfd_gtt_sa_free (Some (mqd_obj (queues d4 q))) (dqm_gtt d4) = Some (0, g)"
            "parts U C S M (d4\<lparr>dqm_gtt := g\<rparr>)" "frame q d4 (d4\<lparr>dqm_gtt := g\<rparr>)" using free_mqd_parts [OF d4(6), of q] C(2) by auto
          have "g = dqm_gtt d" using taken_undone [OF d3(4)] g(2) d4(3,5) prev by simp
          then show ?thesis using mm True a(1) i(1) r3 d3 load d4 g prev
              frame_trans [OF frame_trans [OF frame_trans [OF f2 d3(2)] d4(2)] g(4)] by (simp add: create_compute_queue_nocpsch_def)
        qed
      qed
    qed
  qed
qed

lemma prop_parts:
  assumes "parts U C S M d" "\<And>pr. qp_type (f pr) = qp_type pr"
  shows "parts U C S M (set_queue q (set_prop f) d) \<and> frame q d (set_queue q (set_prop f) d)"
  using assms by (auto simp: setters parts_def frame_def elim!: vmid_keep slots_keep sdma_keep mem_keep)

lemma create_sdma_parts:
  assumes "parts U C S M d" "q \<notin> S" "q \<notin> M" "family d = Chip_kaveri"
  shows "create_sdma_queue_nocpsch env p q d = None \<and> \<not> fits (kmalloc_obj env) Mqd_sdma d \<or>
    (\<exists>r d'. create_sdma_queue_nocpsch env p q d = Some (r, d') \<and> frame q d d' \<and> qpds d' = qpds d \<and>
    qp_vmid (properties (queues d' q)) = qp_vmid (properties (queues d q)) \<and>
    (if r = 0 then parts U C (insert q S) (insert q M) d' else parts U C S M d' \<and> dqm_gtt d' = dqm_gtt d))"
proof -
  obtain ok d1 where mm: "get_mqd_manager_nocpsch (kzalloc_mm env) Mqd_sdma d = (ok, d1)" by fastforce
  have d1: "frame q d d1" "parts U C S M d1" "queues d1 = queues d" "qpds d1 = qpds d" "dqm_gtt d1 = dqm_gtt d"
    using manager_parts [OF mm] assms(1) by blast+
  obtain r2 d2 where a: "allocate_sdma_queue q d1 = (r2, d2)" by fastforce
  have d2: "frame q d1 d2" "properties (queues d2 q) = properties (queues d1 q)" "qpds d2 = qpds d1" "dqm_gtt d2 = dqm_gtt d1"
    "if r2 = 0 then parts U C (insert q S) M d2 else d2 = d1" using allocate_sdma_parts [OF d1(2) assms(2) a] by (auto split: if_splits)
  show ?thesis
  proof (cases "ok \<and> r2 = 0")
    case False
    then show ?thesis using mm a d1 d2 by (auto simp: create_sdma_queue_nocpsch_def)
  next
    case True
    define f :: "queue_properties \<Rightarrow> queue_properties" where "f = (\<lambda>pr. pr\<lparr>sdma_queue_id := of_nat (q_sdma_id (queues d2 q) mod 2), sdma_engine_id := of_nat (q_sdma_id (queues d2 q) div 2),
      sdma_vm_addr := init_sdma_vm (proc_32bit d2 (q_process (queues d2 q))) (qpds d2 p)\<rparr>)"
    define e where "e = set_queue q (set_prop f) d2"
    have e: "parts U C (insert q S) M e" "frame q d2 e" "queues e q = set_prop f (queues d2 q)" "qpds e = qpds d2" "dqm_gtt e = dqm_gtt d2"
      using prop_parts [of U C "insert q S" M d2 f q] d2(5) True by (simp_all add: e_def f_def set_queue_def)
    have fe: "frame q d e" using frame_trans [OF frame_trans [OF d1(1) d2(1)] e(2)] .
    have id: "q_sdma_id (queues e q) = q_sdma_id (queues d2 q)" "qp_vmid (properties (queues e q)) = qp_vmid (properties (queues d q))"
      using e(3) d1(3) d2(2) by (simp_all add: set_prop_def f_def)
    have fam: "family e = Chip_kaveri" using fe assms(4) by (simp add: frame_def)
    have same: "fits (kmalloc_obj env) Mqd_sdma e \<longleftrightarrow> fits (kmalloc_obj env) Mqd_sdma d" using fits_frame [OF fe] e(5) d2(4) d1(5) by simp
    show ?thesis
    proof (cases "fits (kmalloc_obj env) Mqd_sdma d")
      case False
      then show ?thesis using mm a True unfit_init_mqd [of "kmalloc_obj env" Mqd_sdma e q] same by (simp add: create_sdma_queue_nocpsch_def e_def f_def Let_def)
    next
      case fit: True
      obtain r3 d3 where i: "queue_init_mqd (kmalloc_obj env) Mqd_sdma q e = Some (r3, d3)"
        "if r3 = 0 then parts U C (insert q S) (insert q M) d3 \<and> frame q e d3 \<and> qpds d3 = qpds e \<and> taken (dqm_gtt e) [mqd_obj (queues d3 q)] (dqm_gtt d3) \<and>
          q_sdma_id (queues d3 q) = q_sdma_id (queues e q) \<and> qp_vmid (properties (queues d3 q)) = qp_vmid (properties (queues e q)) else d3 = e"
        using queue_init_mqd_parts [OF e(1) assms(3), of Mqd_sdma "kmalloc_obj env"] fam fit same by (auto split: if_splits)
      have run: "create_sdma_queue_nocpsch env p q d =
        (if r3 \<noteq> 0 then Some (r3, deallocate_sdma_queue (q_sdma_id (queues d2 q)) d3)
         else if hqd_load env \<noteq> 0 then do { d' \<leftarrow> free_mqd q (deallocate_sdma_queue (q_sdma_id (queues d2 q)) d3); Some (hqd_load env, d') } else Some (0, d3))"
        using mm a True i(1) by (simp add: create_sdma_queue_nocpsch_def e_def f_def Let_def)
      have S: "insert q S - {q} = S" "insert q M - {q} = M" using assms(2,3) by auto
      show ?thesis
      proof (cases "r3 = 0")
        case False
        then show ?thesis using run i(2) deallocate_sdma_parts [OF e(1), of q] S(1) id e(4,5) d1 d2 frame_trans [OF fe] by simp
      next
        case r3: True
        then have d3: "parts U C (insert q S) (insert q M) d3" "frame q e d3" "qpds d3 = qpds e" "taken (dqm_gtt e) [mqd_obj (queues d3 q)] (dqm_gtt d3)"
          "q_sdma_id (queues d3 q) = q_sdma_id (queues d2 q)" "qp_vmid (properties (queues d3 q)) = qp_vmid (properties (queues d q))" using i(2) id by simp_all
        have f3: "frame q d d3" using frame_trans [OF fe d3(2)] .
        show ?thesis
        proof (cases "hqd_load env = 0")
          case True
          then show ?thesis using run r3 d3 f3 e(4) d1 d2 by simp
        next
          case False
          define d4 where "d4 = deallocate_sdma_queue (q_sdma_id (queues d2 q)) d3"
          have d4: "parts U C S (insert q M) d4" "frame q d3 d4" "queues d4 = queues d3" "qpds d4 = qpds d3" "dqm_gtt d4 = dqm_gtt d3"
            using deallocate_sdma_parts [OF d3(1), of q] S(1) d3(5) by (simp_all add: d4_def)
          obtain g where g: "free_mqd q d4 = Some (d4\<lparr>dqm_gtt := g\<rparr>)" "kfd_gtt_sa_free (Some (mqd_obj (queues d4 q))) (dqm_gtt d4) = Some (0, g)"
            "parts U C S M (d4\<lparr>dqm_gtt := g\<rparr>)" "frame q d4 (d4\<lparr>dqm_gtt := g\<rparr>)" using free_mqd_parts [OF d4(1), of q] S(2) by auto
          have "g = dqm_gtt d" using taken_undone [OF d3(4)] g(2) d4(3,5) e(5) d1 d2 by simp
          then show ?thesis using run r3 False g d3 d4 e(4) d1 d2 frame_trans [OF frame_trans [OF f3 d4(2)] g(4)] by (simp add: d4_def [symmetric])
        qed
      qed
    qed
  qed
qed

lemma type_ops_parts:
  assumes "parts U C S M d" "q \<notin> C" "q \<notin> S" "q \<notin> M"
    and kind: "qp_type (properties (queues d q)) = Type_compute \<or> qp_type (properties (queues d q)) = Type_sdma \<and> family d = Chip_kaveri"
  shows "queue_type_ops env p q d = None \<and> \<not> fits (kmalloc_obj env) (if qp_type (properties (queues d q)) = Type_compute then Mqd_compute else Mqd_sdma) d \<or>
    (\<exists>r d'. queue_type_ops env p q d = Some (r, d') \<and> frame q d d' \<and> qpds d' = qpds d \<and>
    qp_vmid (properties (queues d' q)) = qp_vmid (properties (queues d q)) \<and>
    (if r = 0 then parts U (if qp_type (properties (queues d q)) = Type_compute then insert q C else C)
       (if qp_type (properties (queues d q)) = Type_sdma then insert q S else S) (insert q M) d'
     else parts U C S M d' \<and> dqm_gtt d' = dqm_gtt d))"
proof (cases "qp_type (properties (queues d q)) = Type_compute")
  case True
  then show ?thesis using create_compute_parts [OF assms(1,2,4), of env] by (simp add: queue_type_ops_def)
next
  case False
  then show ?thesis using kind create_sdma_parts [OF assms(1,3,4), of env p] by (simp add: queue_type_ops_def)
qed

end
