(* ===== verification/Kfd_Queues.thy ===== *)
theory Kfd_Queues
  imports Kfd_Dqm_Inv Machine
begin

text \<open>
  The life of a device without the hardware scheduler: processes are registered, set their memory policy,
  and create, update and destroy queues, in any order and with every kind of failure of the kernel. The
  queue manager implements an assignment of places in the hardware to queues and of VMIDs to processes.
\<close>

section \<open>Invariant\<close>

definition listed :: "device_queue_manager \<Rightarrow> nat set" where
  "listed d = {n. \<exists>p. n \<in> set (queues_list (qpds d p))}"

definition of_type :: "kfd_queue_type \<Rightarrow> device_queue_manager \<Rightarrow> nat set" where
  "of_type t d = {n \<in> listed d. qp_type (properties (queues d n)) = t}"

definition active :: "device_queue_manager \<Rightarrow> nat set" where
  "active d = {n \<in> listed d. is_active (properties (queues d n))}"

definition busy :: "device_queue_manager \<Rightarrow> nat set" where
  "busy d = {p. queues_list (qpds d p) \<noteq> []}"

definition lists_ok :: "device_queue_manager \<Rightarrow> bool" where
  "lists_ok d \<longleftrightarrow> (\<forall>p. distinct (queues_list (qpds d p)) \<and> (\<forall>n \<in> set (queues_list (qpds d p)). q_process (queues d n) = p \<and>
     qp_vmid (properties (queues d n)) = qpd_vmid (qpds d p) \<and>
     (qp_type (properties (queues d n)) = Type_compute \<or> qp_type (properties (queues d n)) = Type_sdma \<and> family d = Chip_kaveri)))"

definition counts_ok :: "device_queue_manager \<Rightarrow> bool" where
  "counts_ok d \<longleftrightarrow> total_queue_count d = of_nat (card (listed d)) \<and> queue_count d = of_nat (card (active d)) \<and>
     sdma_queue_count d = of_nat (card (of_type Type_sdma d))"

definition dqm_parts :: "device_queue_manager \<Rightarrow> device_queue_manager \<Rightarrow> bool" where
  "dqm_parts d d' \<longleftrightarrow> parts (busy d) (of_type Type_compute d) (of_type Type_sdma d) (listed d) d'"

definition dqm_inv :: "device_queue_manager \<Rightarrow> bool" where
  "dqm_inv d \<longleftrightarrow> sched_policy d = Policy_no_hws \<and> lists_ok d \<and> counts_ok d \<and> dqm_parts d d"

lemmas listed_defs = listed_def of_type_def active_def busy_def

lemma lists_okD:
  assumes "lists_ok d" "n \<in> listed d"
  shows "n \<in> set (queues_list (qpds d (q_process (queues d n))))" "q_process (queues d n) \<in> busy d"
    "qp_vmid (properties (queues d n)) = qpd_vmid (qpds d (q_process (queues d n)))"
    "n \<in> of_type Type_compute d \<or> n \<in> of_type Type_sdma d \<and> family d = Chip_kaveri"
  using assms by (fastforce simp: lists_ok_def listed_defs)+

lemma listed_finite:
  assumes "lists_ok d" "dqm_parts d d'"
  shows "finite (listed d)"
proof -
  have "finite A" if "assigned n F A f" for n F and A :: "nat set" and f
    using that finite_subset [of "f ` A" "{..< n}"] by (auto simp: assigned_def intro: finite_imageD)
  then have "finite (of_type Type_compute d)" "finite (of_type Type_sdma d)" using assms(2) by (auto simp: dqm_parts_def parts_def slots_inv_def sdma_inv_def)
  moreover have "listed d \<subseteq> of_type Type_compute d \<union> of_type Type_sdma d" using lists_okD(4) [OF assms(1)] by blast
  ultimately show ?thesis by (meson finite_UnI finite_subset)
qed

section \<open>Creation\<close>

lemma frame_sets:
  assumes "frame q d d'" "q \<notin> listed d"
  shows "listed d' = listed d" "of_type t d' = of_type t d" "active d' = active d" "busy d' = busy d"
proof -
  have l: "queues_list (qpds d' p) = queues_list (qpds d p)" for p using assms(1) by (simp add: frame_def)
  have n: "queues d' n = queues d n" if "n \<in> listed d" for n using assms that by (metis frame_def)
  show "listed d' = listed d" "busy d' = busy d" by (simp_all add: listed_def busy_def l)
  then show "of_type t d' = of_type t d" "active d' = active d" using n by (auto simp: of_type_def active_def)
qed

lemma frame_lists:
  assumes "lists_ok d" "frame q d d'" "q \<notin> listed d" "\<forall>x \<in> busy d. qpds d' x = qpds d x"
  shows "lists_ok d'"
  unfolding lists_ok_def
proof (intro allI conjI ballI)
  fix p
  have l: "queues_list (qpds d' p) = queues_list (qpds d p)" and f: "family d' = family d" using assms(2) by (simp_all add: frame_def)
  show "distinct (queues_list (qpds d' p))" using assms(1) by (simp add: l lists_ok_def)
  fix n assume "n \<in> set (queues_list (qpds d' p))"
  then have n: "n \<in> set (queues_list (qpds d p))" by (simp add: l)
  then have "n \<in> listed d" "p \<in> busy d" by (auto simp: listed_defs)
  then have "queues d' n = queues d n" "qpds d' p = qpds d p" using assms(2-4) by (metis frame_def, blast)
  then show "q_process (queues d' n) = p" "qp_vmid (properties (queues d' n)) = qpd_vmid (qpds d' p)"
    "qp_type (properties (queues d' n)) = Type_compute \<or> qp_type (properties (queues d' n)) = Type_sdma \<and> family d' = Chip_kaveri"
    using assms(1) n f by (auto simp: lists_ok_def)
qed

lemma frame_inv:
  assumes "dqm_inv d" "frame q d d'" "q \<notin> listed d" "\<forall>x \<in> busy d. qpds d' x = qpds d x" "dqm_parts d d'"
  shows "dqm_inv d'"
  using assms frame_lists [OF _ assms(2-4)] by (simp add: dqm_inv_def counts_ok_def dqm_parts_def frame_sets [OF assms(2,3)]) (simp add: frame_def)

lemma count_queue_eq:
  "\<exists>b c. count_queue p q d = d\<lparr>qpds := (qpds d)(p := (qpds d p)\<lparr>queues_list := q # queues_list (qpds d p)\<rparr>),
     queue_count := b, sdma_queue_count := c, total_queue_count := total_queue_count d + 1\<rparr> \<and>
     b = queue_count d + of_bool (is_active (properties (queues d q))) \<and>
     c = sdma_queue_count d + of_bool (qp_type (properties (queues d q)) = Type_sdma)"
  by (simp add: count_queue_def set_qpd_def Let_def)

lemma count_inv:
  assumes inv: "dqm_inv d" and fr: "frame q d d'" "q \<notin> listed d" "\<forall>x \<in> busy d. qpds d' x = qpds d x"
    and q: "q_process (queues d q) = p" "qp_vmid (properties (queues d' q)) = qpd_vmid (qpds d' p)"
    and kind: "qp_type (properties (queues d q)) = Type_compute \<or> qp_type (properties (queues d q)) = Type_sdma \<and> family d = Chip_kaveri"
    and pt: "parts (insert p (busy d)) (if qp_type (properties (queues d q)) = Type_compute then insert q (of_type Type_compute d) else of_type Type_compute d)
      (if qp_type (properties (queues d q)) = Type_sdma then insert q (of_type Type_sdma d) else of_type Type_sdma d) (insert q (listed d)) d'"
  shows "dqm_inv (count_queue p q d')"
proof -
  obtain b c where e: "count_queue p q d' = d'\<lparr>qpds := (qpds d')(p := (qpds d' p)\<lparr>queues_list := q # queues_list (qpds d' p)\<rparr>),
      queue_count := b, sdma_queue_count := c, total_queue_count := total_queue_count d' + 1\<rparr>"
    "b = queue_count d' + of_bool (is_active (properties (queues d' q)))" "c = sdma_queue_count d' + of_bool (qp_type (properties (queues d' q)) = Type_sdma)"
    using count_queue_eq by blast
  let ?e = "count_queue p q d'"
  have ty: "qp_type (properties (queues d' q)) = qp_type (properties (queues d q))" "q_process (queues d' q) = p" "family d' = family d"
    using fr(1) q(1) by (simp_all add: frame_def)
  note sets = frame_sets [OF fr(1,2)]
  have l: "listed ?e = insert q (listed d)" unfolding sets(1) [symmetric] by (auto simp: listed_def e(1))
  then have a: "active ?e = (if is_active (properties (queues d' q)) then insert q (active d) else active d)"
    and t: "of_type t ?e = (if qp_type (properties (queues d q)) = t then insert q (of_type t d) else of_type t d)" for t
    unfolding sets(2,3) [symmetric] using fr(2) by (auto simp: active_def of_type_def e(1) sets(1) ty(1))
  have bs: "busy ?e = insert p (busy d)" unfolding sets(4) [symmetric] by (auto simp: busy_def e(1))
  have fin: "finite (listed d)" using inv listed_finite by (auto simp: dqm_inv_def)
  then have "finite (active d)" "finite (of_type Type_sdma d)" "q \<notin> active d" "q \<notin> of_type Type_sdma d" using fr(2) by (auto simp: active_def of_type_def)
  then have "counts_ok ?e" using inv fr(1,2) fin unfolding counts_ok_def l a t by (simp add: e dqm_inv_def counts_ok_def frame_def)
  moreover have "lists_ok ?e"
  proof -
    have ok: "lists_ok d'" using frame_lists [OF _ fr] inv by (simp add: dqm_inv_def)
    moreover have "q \<notin> set (queues_list (qpds d' p))" using fr(1,2) by (auto simp: listed_def frame_def)
    ultimately show ?thesis using q(2) ty kind unfolding lists_ok_def by (simp add: e(1))
  qed
  moreover have "dqm_parts ?e ?e"
  proof -
    have "vmid_inv U ?e" if "vmid_inv U d'" for U using that by (rule vmid_keep) (simp_all add: e(1) sh_mem_settings_def)
    moreover have "slots_inv C ?e" if "slots_inv C d'" for C using that by (rule slots_keep) (simp_all add: e(1))
    moreover have "sdma_inv S ?e" if "sdma_inv S d'" for S using that by (rule sdma_keep) (simp_all add: e(1))
    moreover have "mem_inv M ?e" if "mem_inv M d'" for M using that by (rule mem_keep) (simp_all add: e(1))
    ultimately show ?thesis using pt unfolding dqm_parts_def l t bs parts_def by blast
  qed
  moreover have "sched_policy ?e = Policy_no_hws" using inv fr(1) by (simp add: e(1) dqm_inv_def frame_def)
  ultimately show ?thesis by (simp add: dqm_inv_def)
qed

text \<open>What a failed creation leaves as it was.\<close>

definition unchanged :: "device_queue_manager \<Rightarrow> device_queue_manager \<Rightarrow> bool" where
  "unchanged d d' \<longleftrightarrow> vmid_bitmap d' = vmid_bitmap d \<and> allocated_queues d' = allocated_queues d \<and> sdma_bitmap d' = sdma_bitmap d \<and>
     dqm_gtt d' = dqm_gtt d \<and> (\<forall>p. queues_list (qpds d' p) = queues_list (qpds d p) \<and> qpd_vmid (qpds d' p) = qpd_vmid (qpds d p)) \<and>
     queue_count d' = queue_count d \<and> sdma_queue_count d' = sdma_queue_count d \<and> total_queue_count d' = total_queue_count d"

lemma assigned_determines:
  assumes "assigned n F A f" "assigned n F' A g" "\<And>a. a \<in> A \<Longrightarrow> g a = f a"
  shows "F' = F"
proof -
  have "g ` A = f ` A" using assms(3) by (intro image_cong) simp_all
  moreover have "F = {..< n} - f ` A" "F' = {..< n} - g ` A" using assms(1,2) by (auto simp: assigned_def)
  ultimately show ?thesis by simp
qed

lemma free_bits_inj: "free_bits w = free_bits v \<Longrightarrow> w = v"
  by (rule bit_word_eqI) (auto simp: free_bits_def set_eq_iff)

lemma hqd_free_inj:
  assumes "\<forall>w \<in> set aq. free_bits w \<subseteq> {..< 8}" "\<forall>w \<in> set bq. free_bits w \<subseteq> {..< 8}" "length aq = length bq" "hqd_free aq = hqd_free bq"
  shows "aq = bq"
proof (intro nth_equalityI free_bits_inj set_eqI)
  fix i b assume i: "i < length aq"
  have "b \<in> free_bits (aq ! i) \<longleftrightarrow> b \<in> free_bits (bq ! i)" if "b < 8"
    using assms(4) i assms(3) that hqd_free_iff [OF assms(1), of "8 * i + b"] hqd_free_iff [OF assms(2), of "8 * i + b"] by simp
  moreover have "b < 8" if "b \<in> free_bits (aq ! i) \<or> b \<in> free_bits (bq ! i)" using that assms(1-3) i by (metis lessThan_iff nth_mem subsetD)
  ultimately show "b \<in> free_bits (aq ! i) \<longleftrightarrow> b \<in> free_bits (bq ! i)" by blast
qed (use assms(3) in simp)

lemma parts_unchanged:
  assumes "dqm_inv d" "frame q d d'" "q \<notin> listed d" "\<forall>x \<in> busy d. qpds d' x = qpds d x" "dqm_parts d d'" "dqm_gtt d' = dqm_gtt d"
  shows "unchanged d d'"
proof -
  have n: "queues d' n = queues d n" if "n \<in> of_type t d" for n t using assms(2,3) that by (auto simp: frame_def of_type_def)
  note p = assms(1) [unfolded dqm_inv_def dqm_parts_def parts_def] assms(5) [unfolded dqm_parts_def parts_def]
  have "free_bits (vmid_bitmap d') = free_bits (vmid_bitmap d)" using p assms(4)
    by (intro assigned_determines [where f = "\<lambda>x. unat (qpd_vmid (qpds d x) - 8)" and g = "\<lambda>x. unat (qpd_vmid (qpds d' x) - 8)"]) (auto simp: vmid_inv_def)
  moreover have "free_bits (sdma_bitmap d') = free_bits (sdma_bitmap d)" using p n
    by (intro assigned_determines [where f = "\<lambda>x. q_sdma_id (queues d x)" and g = "\<lambda>x. q_sdma_id (queues d' x)"]) (auto simp: sdma_inv_def)
  moreover have c: "compute_pipe_count d' = compute_pipe_count d" using assms(2) by (simp add: frame_def)
  then have "hqd_free (allocated_queues d') = hqd_free (allocated_queues d)" using p n
    by (intro assigned_determines [where f = "\<lambda>x. hqd_slot (queues d x)" and g = "\<lambda>x. hqd_slot (queues d' x)"]) (auto simp: slots_inv_def)
  then have "allocated_queues d' = allocated_queues d" using p c by (intro hqd_free_inj) (simp_all add: slots_inv_def)
  moreover have "qpd_vmid (qpds d' x) = qpd_vmid (qpds d x)" for x using p assms(4) by (cases "x \<in> busy d") (simp_all add: vmid_inv_def)
  ultimately show ?thesis using assms(2,6) free_bits_inj by (simp add: unchanged_def frame_def)
qed

lemma first_vmid_parts:
  assumes inv: "dqm_inv d" and q: "q_process (queues d q) = p"
    and run: "(if queues_list (qpds d p) = [] then allocate_vmid p q d else (0, d)) = (r, d1)"
  shows "if r = 0 then parts (insert p (busy d)) (of_type Type_compute d) (of_type Type_sdma d) (listed d) d1 \<and> frame q d d1 \<and>
      dqm_gtt d1 = dqm_gtt d \<and> (\<forall>x \<in> busy d. qpds d1 x = qpds d x) else d1 = d"
proof (cases "queues_list (qpds d p) = []")
  case True
  then have "p \<notin> busy d" by (simp add: busy_def)
  then show ?thesis using allocate_vmid_parts [OF _ _ q, of "busy d" "of_type Type_compute d" "of_type Type_sdma d" "listed d" r d1] inv run True
    by (auto simp: dqm_inv_def dqm_parts_def split: if_splits)
next
  case False
  then have "insert p (busy d) = busy d" by (auto simp: busy_def)
  then show ?thesis using inv run False by (auto simp: dqm_inv_def dqm_parts_def)
qed

lemma undo_vmid_parts:
  assumes "parts (insert p (busy d)) (of_type Type_compute d) (of_type Type_sdma d) (listed d) d3" "frame q d d3" "\<forall>x \<in> busy d. qpds d3 x = qpds d x"
  defines "d4 \<equiv> if queues_list (qpds d p) = [] then deallocate_vmid p q d3 else d3"
  shows "dqm_parts d d4 \<and> frame q d d4 \<and> (\<forall>x \<in> busy d. qpds d4 x = qpds d x) \<and> dqm_gtt d4 = dqm_gtt d3"
proof (cases "queues_list (qpds d p) = []")
  case True
  then have "insert p (busy d) - {p} = busy d" "\<forall>x \<in> busy d. x \<noteq> p" by (auto simp: busy_def)
  then show ?thesis using deallocate_vmid_parts [OF assms(1), of p q] True assms(3) frame_trans [OF assms(2)] by (auto simp: d4_def dqm_parts_def)
next
  case False
  then have "insert p (busy d) = busy d" by (auto simp: busy_def)
  then show ?thesis using False assms by (simp add: dqm_parts_def)
qed

definition mqd_kind :: "kfd_queue_type \<Rightarrow> kfd_mqd_type" where
  "mqd_kind type = (if type = Type_compute then Mqd_compute else Mqd_sdma)"

lemma create_inv:
  assumes inv: "dqm_inv d" and q: "q \<notin> listed d" "q_process (queues d q) = p"
    and kind: "qp_type (properties (queues d q)) = Type_compute \<or> qp_type (properties (queues d q)) = Type_sdma \<and> family d = Chip_kaveri"
  shows "create_queue_nocpsch env p q d = None \<and> \<not> fits (kmalloc_obj env) (mqd_kind (qp_type (properties (queues d q)))) d \<or>
    (\<exists>r d'. create_queue_nocpsch env p q d = Some (r, d') \<and> dqm_inv d' \<and> (\<forall>n. n \<noteq> q \<longrightarrow> queues d' n = queues d n) \<and>
    (\<forall>x \<in> busy d. qpd_vmid (qpds d' x) = qpd_vmid (qpds d x)) \<and> compute_pipe_count d' = compute_pipe_count d \<and>
    (if r = 0 then \<forall>x. queues_list (qpds d' x) = (if x = p then q # queues_list (qpds d p) else queues_list (qpds d x)) else unchanged d d'))"
proof (cases "total_queue_count d \<ge> max_num_of_queues_per_device d")
  case True
  then show ?thesis using inv by (simp add: create_queue_nocpsch_def unchanged_def)
next
  case few: False
  obtain r1 d1 where v: "(if queues_list (qpds d p) = [] then allocate_vmid p q d else (0, d)) = (r1, d1)" by fastforce
  note first = first_vmid_parts [OF inv q(2) v]
  show ?thesis
  proof (cases "r1 = 0")
    case False
    then show ?thesis using few v first inv by (auto simp: create_queue_nocpsch_def unchanged_def)
  next
    case r1: True
    then have d1: "parts (insert p (busy d)) (of_type Type_compute d) (of_type Type_sdma d) (listed d) d1" "frame q d d1"
      "dqm_gtt d1 = dqm_gtt d" "\<forall>x \<in> busy d. qpds d1 x = qpds d x" using first by simp_all
    define d2 where "d2 = set_queue q (set_prop (\<lambda>pr. pr\<lparr>qp_vmid := qpd_vmid (qpds d1 p)\<rparr>)) d1"
    have d2: "parts (insert p (busy d)) (of_type Type_compute d) (of_type Type_sdma d) (listed d) d2" "frame q d1 d2" "dqm_gtt d2 = dqm_gtt d1" "qpds d2 = qpds d1"
      "qp_vmid (properties (queues d2 q)) = qpd_vmid (qpds d1 p)"
      using prop_parts [OF d1(1), of "\<lambda>pr. pr\<lparr>qp_vmid := qpd_vmid (qpds d1 p)\<rparr>" q] by (simp_all add: d2_def setters)
    have f2: "frame q d d2" using frame_trans [OF d1(2) d2(2)] .
    then have k2: "qp_type (properties (queues d2 q)) = qp_type (properties (queues d q))" "family d2 = family d" by (simp_all add: frame_def)
    let ?unfit = "\<not> fits (kmalloc_obj env) (mqd_kind (qp_type (properties (queues d q)))) d2"
    have unfit: "?unfit \<longleftrightarrow> \<not> fits (kmalloc_obj env) (mqd_kind (qp_type (properties (queues d q)))) d" using fits_frame [OF f2] d2(3) d1(3) by simp
    have "q \<notin> of_type t d" for t using q(1) by (simp add: of_type_def)
    then consider (fault) "queue_type_ops env p q d2 = None" ?unfit | (runs) r3 d3 where "queue_type_ops env p q d2 = Some (r3, d3)" "frame q d2 d3" "qpds d3 = qpds d2"
      "qp_vmid (properties (queues d3 q)) = qp_vmid (properties (queues d2 q))"
      "if r3 = 0 then parts (insert p (busy d)) (if qp_type (properties (queues d q)) = Type_compute then insert q (of_type Type_compute d) else of_type Type_compute d)
        (if qp_type (properties (queues d q)) = Type_sdma then insert q (of_type Type_sdma d) else of_type Type_sdma d) (insert q (listed d)) d3
       else parts (insert p (busy d)) (of_type Type_compute d) (of_type Type_sdma d) (listed d) d3 \<and> dqm_gtt d3 = dqm_gtt d2"
      using type_ops_parts [OF d2(1) _ _ q(1), of env p] kind unfolding k2 mqd_kind_def by metis
    then show ?thesis
    proof cases
      case fault
      then show ?thesis using few v r1 unfit by (simp add: create_queue_nocpsch_def d2_def)
    next
      case t: runs
      have f3: "frame q d d3" "\<forall>x \<in> busy d. qpds d3 x = qpds d x" using frame_trans [OF f2 t(2)] t(3) d2(4) d1(4) by simp_all
      then have l3: "queues_list (qpds d3 x) = queues_list (qpds d x)" "n \<noteq> q \<Longrightarrow> queues d3 n = queues d n" "compute_pipe_count d3 = compute_pipe_count d" for x n
        by (simp_all add: frame_def)
      have run: "create_queue_nocpsch env p q d =
        (if r3 \<noteq> 0 then Some (r3, if queues_list (qpds d3 p) = [] then deallocate_vmid p q d3 else d3) else Some (0, count_queue p q d3))"
        using few v r1 t(1) by (simp add: create_queue_nocpsch_def d2_def)
      show ?thesis
      proof (cases "r3 = 0")
        case True
        then have "dqm_inv (count_queue p q d3)" using count_inv [OF inv f3(1) q(1) f3(2) q(2) _ kind] t d2(4,5) by simp
        moreover obtain b c where "count_queue p q d3 = d3\<lparr>qpds := (qpds d3)(p := (qpds d3 p)\<lparr>queues_list := q # queues_list (qpds d3 p)\<rparr>),
          queue_count := b, sdma_queue_count := c, total_queue_count := total_queue_count d3 + 1\<rparr>" using count_queue_eq by blast
        ultimately show ?thesis using run True f3(2) l3 by simp
      next
        case r3: False
        define d4 where "d4 = (if queues_list (qpds d3 p) = [] then deallocate_vmid p q d3 else d3)"
        have d4: "dqm_parts d d4" "frame q d d4" "\<forall>x \<in> busy d. qpds d4 x = qpds d x" "dqm_gtt d4 = dqm_gtt d"
          using undo_vmid_parts [OF _ f3] r3 t(5) d1(3) d2(3) by (simp_all add: d4_def l3(1))
        have "dqm_inv d4" "unchanged d d4" using frame_inv [OF inv d4(2) q(1) d4(3,1)] parts_unchanged [OF inv d4(2) q(1) d4(3,1,4)] by simp_all
        then show ?thesis using run r3 d4(2,3) by (simp add: d4_def [symmetric] frame_def)
      qed
    qed
  qed
qed

section \<open>Destruction\<close>

lemma parts_sdma_count: "parts U C S M d \<Longrightarrow> parts U C S M (d\<lparr>sdma_queue_count := c\<rparr>)"
  by (auto simp: parts_def elim!: vmid_keep slots_keep sdma_keep mem_keep)

lemma release_parts:
  assumes pt: "parts U C S M d"
    and kind: "qp_type (properties (queues d q)) = Type_compute \<and> q \<in> C \<and> q \<notin> S \<or> qp_type (properties (queues d q)) = Type_sdma \<and> q \<in> S \<and> q \<notin> C"
  shows "\<exists>r d'. release_slot env q d = Some (r, d') \<and>
    (if r = 0 then parts U (C - {q}) (S - {q}) M d' \<and> queues d' = queues d \<and> qpds d' = qpds d \<and> dqm_gtt d' = dqm_gtt d \<and>
       frame q (d\<lparr>sdma_queue_count := sdma_queue_count d - of_bool (qp_type (properties (queues d q)) = Type_sdma)\<rparr>) d'
     else d' = d)"
  using kind
proof
  assume k: "qp_type (properties (queues d q)) = Type_compute \<and> q \<in> C \<and> q \<notin> S"
  obtain ok d1 where mm: "get_mqd_manager_nocpsch (kzalloc_mm env) Mqd_compute d = (ok, d1)" by fastforce
  have d1: "frame q d d1" "parts U C S M d1" "queues d1 = queues d" "qpds d1 = qpds d" "dqm_gtt d1 = dqm_gtt d"
    using manager_parts [OF mm] pt by blast+
  have "\<not> ok \<Longrightarrow> d1 = d" using mm by (auto simp: get_mqd_manager_nocpsch_def split: if_splits)
  moreover obtain d2 where "deallocate_hqd q d1 = Some d2" "frame q d1 d2" "queues d2 = queues d1" "qpds d2 = qpds d1" "dqm_gtt d2 = dqm_gtt d1" "parts U (C - {q}) S M d2"
    using deallocate_hqd_parts [OF d1(2), of q] k by blast
  ultimately show ?thesis using mm d1 k frame_trans [OF d1(1)] by (cases ok) (simp_all add: release_slot_def)
next
  assume k: "qp_type (properties (queues d q)) = Type_sdma \<and> q \<in> S \<and> q \<notin> C"
  obtain ok d1 where mm: "get_mqd_manager_nocpsch (kzalloc_mm env) Mqd_sdma d = (ok, d1)" by fastforce
  have d1: "frame q d d1" "parts U C S M d1" "queues d1 = queues d" "qpds d1 = qpds d" "dqm_gtt d1 = dqm_gtt d"
    using manager_parts [OF mm] pt by blast+
  let ?d1 = "d1\<lparr>sdma_queue_count := sdma_queue_count d1 - 1\<rparr>" and ?d = "d\<lparr>sdma_queue_count := sdma_queue_count d - 1\<rparr>"
  have no: "\<not> ok \<Longrightarrow> d1 = d" using mm by (auto simp: get_mqd_manager_nocpsch_def split: if_splits)
  have q1: "queues ?d1 = queues d" "qpds ?d1 = qpds d" "dqm_gtt ?d1 = dqm_gtt d" using d1 by simp_all
  define d2 where "d2 = deallocate_sdma_queue (q_sdma_id (queues d q)) ?d1"
  have d2: "parts U C (S - {q}) M d2" "frame q ?d1 d2" "queues d2 = queues d" "qpds d2 = qpds d" "dqm_gtt d2 = dqm_gtt d"
    using deallocate_sdma_parts [OF parts_sdma_count [OF d1(2)], of q "sdma_queue_count d1 - 1"] k unfolding d2_def q1 by simp_all
  have "frame q ?d ?d1" using d1(1) by (simp add: frame_def)
  from frame_trans [OF this d2(2)] have f: "frame q ?d d2" .
  have "release_slot env q d = (if ok then Some (0, d2) else Some (- 12, d1))" using mm d1(3) k by (simp add: release_slot_def d2_def)
  then show ?thesis using no d2 f k by (cases ok) simp_all
qed

lemma lists_owner: "lists_ok d \<Longrightarrow> n \<in> set (queues_list (qpds d p)) \<Longrightarrow> q_process (queues d n) = p"
  by (simp add: lists_ok_def)

lemma unlist_sets:
  assumes ok: "lists_ok d" and q: "q \<in> set (queues_list (qpds d p))"
    and e: "\<And>x. queues_list (qpds e x) = (if x = p then remove1 q (queues_list (qpds d p)) else queues_list (qpds d x))"
      "\<And>n. n \<noteq> q \<Longrightarrow> queues e n = queues d n"
  shows "listed e = listed d - {q}" "of_type t e = of_type t d - {q}" "active e = active d - {q}"
    "busy e = (if queues_list (qpds e p) = [] then busy d - {p} else busy d)"
proof -
  have "q \<notin> set (queues_list (qpds d x))" if "x \<noteq> p" for x using lists_owner [OF ok] q that by metis
  moreover have "distinct (queues_list (qpds d p))" using ok by (simp add: lists_ok_def)
  ultimately have m: "n \<in> set (queues_list (qpds e x)) \<longleftrightarrow> n \<in> set (queues_list (qpds d x)) \<and> n \<noteq> q" for n x
    by (cases "x = p") (auto simp: e(1))
  then show l: "listed e = listed d - {q}" by (auto simp: listed_def)
  show "of_type t e = of_type t d - {q}" "active e = active d - {q}" using e(2) by (auto simp: of_type_def active_def l)
  have "p \<in> busy d" using q by (auto simp: busy_def)
  moreover have "x \<in> busy e \<longleftrightarrow> x \<in> busy d" if "x \<noteq> p" for x using that by (simp add: busy_def e(1))
  moreover have "p \<in> busy e \<longleftrightarrow> queues_list (qpds e p) \<noteq> []" by (simp add: busy_def)
  ultimately show "busy e = (if queues_list (qpds e p) = [] then busy d - {p} else busy d)" by (intro set_eqI) (metis Diff_iff singletonD singletonI)
qed

lemma unlist_lists:
  assumes ok: "lists_ok d" and q: "q \<in> set (queues_list (qpds d p))"
    and e: "\<And>x. queues_list (qpds e x) = (if x = p then remove1 q (queues_list (qpds d p)) else queues_list (qpds d x))"
      "\<And>n. n \<noteq> q \<Longrightarrow> queues e n = queues d n" "\<And>x. queues_list (qpds e x) \<noteq> [] \<Longrightarrow> qpd_vmid (qpds e x) = qpd_vmid (qpds d x)" "family e = family d"
  shows "lists_ok e"
  unfolding lists_ok_def
proof (intro allI conjI ballI)
  fix x
  have d: "distinct (queues_list (qpds d x))" using ok by (simp add: lists_ok_def)
  then show "distinct (queues_list (qpds e x))" by (auto simp: e(1) intro: distinct_remove1)
  fix n assume n: "n \<in> set (queues_list (qpds e x))"
  have "q \<notin> set (queues_list (qpds d x))" if "x \<noteq> p" using lists_owner [OF ok] q that by metis
  then have "n \<noteq> q" "n \<in> set (queues_list (qpds d x))" using n d by (auto simp: e(1) split: if_splits)
  moreover have "qpd_vmid (qpds e x) = qpd_vmid (qpds d x)" using e(3) [of x] n by fastforce
  ultimately show "q_process (queues e n) = x" "qp_vmid (properties (queues e n)) = qpd_vmid (qpds e x)"
    "qp_type (properties (queues e n)) = Type_compute \<or> qp_type (properties (queues e n)) = Type_sdma \<and> family e = Chip_kaveri"
    using ok e(2,4) by (auto simp: lists_ok_def)
qed

lemma card_drop: "finite A \<Longrightarrow> (of_nat (card (A - {a})) :: 'b :: len word) = of_nat (card A) - of_bool (a \<in> A)"
  using card.remove [of A a] by (cases "a \<in> A") simp_all

lemma unlist_parts:
  fixes q n x :: nat
  assumes "parts U C S M d" "p \<in> U"
  defines "d3 \<equiv> set_qpd p (\<lambda>qpd. qpd\<lparr>queues_list := remove1 q (queues_list qpd)\<rparr>) d"
  defines "d4 \<equiv> if queues_list (qpds d3 p) = [] then deallocate_vmid p q d3 else d3"
  shows "parts (if queues_list (qpds d4 p) = [] then U - {p} else U) C S M d4"
    "queues_list (qpds d4 x) = (if x = p then remove1 q (queues_list (qpds d p)) else queues_list (qpds d x))"
    "n \<noteq> q \<Longrightarrow> queues d4 n = queues d n" "is_active (properties (queues d4 q)) = is_active (properties (queues d q))"
    "queues_list (qpds d4 x) \<noteq> [] \<Longrightarrow> qpd_vmid (qpds d4 x) = qpd_vmid (qpds d x)" "frame q d3 d4"
proof -
  have p3: "parts U C S M d3" using assms(1) by (auto simp: parts_def d3_def set_qpd_def sh_mem_settings_def elim!: vmid_keep slots_keep sdma_keep mem_keep)
  have l3: "queues_list (qpds d3 x) = (if x = p then remove1 q (queues_list (qpds d p)) else queues_list (qpds d x))" for x
    by (simp add: d3_def set_qpd_def)
  have q3: "queues d3 = queues d" "qpd_vmid (qpds d3 x) = qpd_vmid (qpds d x)" for x by (simp_all add: d3_def set_qpd_def)
  note v = deallocate_vmid_parts [OF p3 assms(2), of q]
  show f: "frame q d3 d4" using v by (simp add: d4_def)
  then have l4: "queues_list (qpds d4 x) = queues_list (qpds d3 x)" for x by (simp add: frame_def)
  show "queues_list (qpds d4 x) = (if x = p then remove1 q (queues_list (qpds d p)) else queues_list (qpds d x))" by (simp add: l4 l3)
  show "parts (if queues_list (qpds d4 p) = [] then U - {p} else U) C S M d4" using p3 v unfolding l4 by (simp add: d4_def)
  show "n \<noteq> q \<Longrightarrow> queues d4 n = queues d n" using f q3(1) by (simp add: frame_def)
  show "is_active (properties (queues d4 q)) = is_active (properties (queues d q))" using v q3(1) by (simp add: d4_def)
  show "qpd_vmid (qpds d4 x) = qpd_vmid (qpds d x)" if "queues_list (qpds d4 x) \<noteq> []"
  proof (cases "queues_list (qpds d3 p) = [] \<and> x = p")
    case True
    then show ?thesis using that l4 by simp
  next
    case False
    then have "qpds d4 x = qpds d3 x" using v by (auto simp: d4_def)
    then show ?thesis using q3(2) by simp
  qed
qed

lemma parts_counts: "parts U C S M d \<Longrightarrow> parts U C S M (d\<lparr>queue_count := a, total_queue_count := b\<rparr>)"
  by (auto simp: parts_def elim!: vmid_keep slots_keep sdma_keep mem_keep)

lemma unlist_inv:
  assumes inv: "dqm_inv d" and q: "q \<in> set (queues_list (qpds d p))"
    and e: "\<And>x. queues_list (qpds e x) = (if x = p then remove1 q (queues_list (qpds d p)) else queues_list (qpds d x))"
      "\<And>n. n \<noteq> q \<Longrightarrow> queues e n = queues d n" "\<And>x. queues_list (qpds e x) \<noteq> [] \<Longrightarrow> qpd_vmid (qpds e x) = qpd_vmid (qpds d x)" "family e = family d"
      "parts (if queues_list (qpds e p) = [] then busy d - {p} else busy d) (of_type Type_compute d - {q}) (of_type Type_sdma d - {q}) (listed d - {q}) e"
      "sched_policy e = sched_policy d" "total_queue_count e = total_queue_count d - 1"
      "queue_count e = queue_count d - of_bool (is_active (properties (queues d q)))"
      "sdma_queue_count e = sdma_queue_count d - of_bool (qp_type (properties (queues d q)) = Type_sdma)"
  shows "dqm_inv e"
proof -
  have ok: "lists_ok d" "counts_ok d" and fin: "finite (listed d)" using inv listed_finite by (auto simp: dqm_inv_def)
  have sets: "listed e = listed d - {q}" "of_type t e = of_type t d - {q}" "active e = active d - {q}"
    "busy e = (if queues_list (qpds e p) = [] then busy d - {p} else busy d)" for t
    using unlist_sets [OF ok(1) q, of e] e(1,2) by blast+
  have q': "q \<in> listed d" using q by (auto simp: listed_def)
  have mem: "q \<in> active d \<longleftrightarrow> is_active (properties (queues d q))" "q \<in> of_type Type_sdma d \<longleftrightarrow> qp_type (properties (queues d q)) = Type_sdma"
    using q' by (auto simp: active_def of_type_def)
  have fin': "finite (active d)" "finite (of_type Type_sdma d)" using fin by (auto simp: active_def of_type_def)
  have "counts_ok e" using ok(2) q' unfolding counts_ok_def sets e(7-9) card_drop [OF fin] card_drop [OF fin'(1)] card_drop [OF fin'(2)] mem by simp
  moreover have "dqm_parts e e" using e(5) by (simp add: dqm_parts_def sets)
  ultimately show ?thesis using unlist_lists [OF ok(1) q e(1-4)] inv e(6) by (simp add: dqm_inv_def)
qed

lemma destroy_inv:
  assumes inv: "dqm_inv d" and q: "q \<in> set (queues_list (qpds d p))" and "hqd_destroy env = 0"
  shows "\<exists>r d'. destroy_queue_nocpsch env p q d = Some (r, d') \<and>
    (if r = 0 then dqm_inv d' \<and> (\<forall>x. queues_list (qpds d' x) = (if x = p then remove1 q (queues_list (qpds d p)) else queues_list (qpds d x))) \<and>
       (\<forall>n. n \<noteq> q \<longrightarrow> queues d' n = queues d n) \<and> (\<forall>x \<in> busy d'. qpd_vmid (qpds d' x) = qpd_vmid (qpds d x)) \<and> compute_pipe_count d' = compute_pipe_count d
     else d' = d)"
proof -
  let ?U = "busy d" and ?C = "of_type Type_compute d" and ?S = "of_type Type_sdma d" and ?M = "listed d"
  have q': "q \<in> ?M" "p \<in> ?U" using q by (auto simp: listed_defs)
  have pt: "parts ?U ?C ?S ?M d" using inv by (simp add: dqm_inv_def dqm_parts_def)
  have "lists_ok d" using inv by (simp add: dqm_inv_def)
  from lists_okD(4) [OF this q'(1)] have kind: "qp_type (properties (queues d q)) = Type_compute \<and> q \<in> ?C \<and> q \<notin> ?S \<or> qp_type (properties (queues d q)) = Type_sdma \<and> q \<in> ?S \<and> q \<notin> ?C"
    by (auto simp: of_type_def)
  have m: "q_mqd (queues d q) \<noteq> None" using pt q'(1) by (simp add: parts_def mem_inv_def)
  obtain r d1 where d1: "release_slot env q d = Some (r, d1)"
    "if r = 0 then parts ?U (?C - {q}) (?S - {q}) ?M d1 \<and> queues d1 = queues d \<and> qpds d1 = qpds d \<and> dqm_gtt d1 = dqm_gtt d \<and>
       frame q (d\<lparr>sdma_queue_count := sdma_queue_count d - of_bool (qp_type (properties (queues d q)) = Type_sdma)\<rparr>) d1 else d1 = d"
    using release_parts [OF pt kind] by blast
  show ?thesis
  proof (cases "r = 0")
    case False
    then show ?thesis using d1 m by (simp add: destroy_queue_nocpsch_def)
  next
    case True
    then have p1: "parts ?U (?C - {q}) (?S - {q}) ?M d1" "queues d1 = queues d" "qpds d1 = qpds d"
      and f1: "frame q (d\<lparr>sdma_queue_count := sdma_queue_count d - of_bool (qp_type (properties (queues d q)) = Type_sdma)\<rparr>) d1" using d1(2) by simp_all
    obtain g where g: "free_mqd q d1 = Some (d1\<lparr>dqm_gtt := g\<rparr>)" "parts ?U (?C - {q}) (?S - {q}) (?M - {q}) (d1\<lparr>dqm_gtt := g\<rparr>)"
      using free_mqd_parts [OF p1(1) q'(1)] by blast
    define d3 where "d3 = set_qpd p (\<lambda>qpd. qpd\<lparr>queues_list := remove1 q (queues_list qpd)\<rparr>) (d1\<lparr>dqm_gtt := g\<rparr>)"
    define d4 where "d4 = (if queues_list (qpds d3 p) = [] then deallocate_vmid p q d3 else d3)"
    have eq: "queues (d1\<lparr>dqm_gtt := g\<rparr>) = queues d" "qpds (d1\<lparr>dqm_gtt := g\<rparr>) = qpds d" using p1(2,3) by simp_all
    have u: "parts (if queues_list (qpds d4 p) = [] then ?U - {p} else ?U) (?C - {q}) (?S - {q}) (?M - {q}) d4"
      "queues_list (qpds d4 x) = (if x = p then remove1 q (queues_list (qpds d p)) else queues_list (qpds d x))"
      "n \<noteq> q \<Longrightarrow> queues d4 n = queues d n" "is_active (properties (queues d4 q)) = is_active (properties (queues d q))"
      "queues_list (qpds d4 x) \<noteq> [] \<Longrightarrow> qpd_vmid (qpds d4 x) = qpd_vmid (qpds d x)" "frame q d3 d4" for x n
      using unlist_parts [OF g(2) q'(2), where q = q] unfolding d4_def d3_def eq by blast+
    define e where "e = d4\<lparr>queue_count := queue_count d4 - of_bool (is_active (properties (queues d4 q))), total_queue_count := total_queue_count d4 - 1\<rparr>"
    have run: "destroy_queue_nocpsch env p q d = Some (0, e)"
      using d1(1) True m g(1) assms(3) by (simp add: destroy_queue_nocpsch_def Let_def d3_def [symmetric] d4_def e_def)
    have c: "family e = family d" "sched_policy e = sched_policy d" "total_queue_count e = total_queue_count d - 1" "compute_pipe_count e = compute_pipe_count d"
      "queue_count e = queue_count d - of_bool (is_active (properties (queues d q)))"
      "sdma_queue_count e = sdma_queue_count d - of_bool (qp_type (properties (queues d q)) = Type_sdma)"
      using f1 u(4,6) p1(2) by (simp_all add: e_def frame_def d3_def set_qpd_def)
    have eqs: "qpds e = qpds d4" "queues e = queues d4" by (simp_all add: e_def)
    have "parts (if queues_list (qpds e p) = [] then ?U - {p} else ?U) (?C - {q}) (?S - {q}) (?M - {q}) e"
      unfolding eqs using parts_counts [OF u(1)] by (simp add: e_def)
    then have "dqm_inv e" by (intro unlist_inv [OF inv q]) (use u(2,3,5) eqs c in simp_all)
    moreover have "qpd_vmid (qpds e x) = qpd_vmid (qpds d x)" if "x \<in> busy e" for x using that u(5) [of x] by (simp add: busy_def e_def)
    ultimately show ?thesis using run u(2,3) c(4) by (simp add: e_def)
  qed
qed

section \<open>Updates, policies and registration\<close>

text \<open>An operation that leaves the lists, the places and the VMIDs alone.\<close>

definition same_places :: "device_queue_manager \<Rightarrow> device_queue_manager \<Rightarrow> bool" where
  "same_places d d' \<longleftrightarrow> (\<forall>p. queues_list (qpds d' p) = queues_list (qpds d p) \<and> qpd_vmid (qpds d' p) = qpd_vmid (qpds d p)) \<and>
     (\<forall>n. q_process (queues d' n) = q_process (queues d n) \<and> qp_type (properties (queues d' n)) = qp_type (properties (queues d n)) \<and>
        qp_vmid (properties (queues d' n)) = qp_vmid (properties (queues d n)) \<and> q_pipe (queues d' n) = q_pipe (queues d n) \<and>
        q_slot (queues d' n) = q_slot (queues d n) \<and> q_sdma_id (queues d' n) = q_sdma_id (queues d n) \<and>
        (q_mqd (queues d' n) = None \<longleftrightarrow> q_mqd (queues d n) = None) \<and> mqd_obj (queues d' n) = mqd_obj (queues d n)) \<and>
     family d' = family d \<and> sched_policy d' = sched_policy d \<and> dqm_gtt d' = dqm_gtt d \<and> proc_pasid d' = proc_pasid d \<and>
     vmid_bitmap d' = vmid_bitmap d \<and> allocated_queues d' = allocated_queues d \<and> sdma_bitmap d' = sdma_bitmap d \<and>
     compute_pipe_count d' = compute_pipe_count d \<and> next_pipe_to_allocate d' = next_pipe_to_allocate d \<and>
     total_queue_count d' = total_queue_count d \<and> sdma_queue_count d' = sdma_queue_count d \<and> pasid_mapping d' = pasid_mapping d"

lemma same_places_refl [simp]: "same_places d d"
  by (simp add: same_places_def)

lemma same_sets:
  assumes "same_places d d'"
  shows "listed d' = listed d" "of_type t d' = of_type t d" "busy d' = busy d"
  using assms by (simp_all add: same_places_def listed_def of_type_def busy_def)

lemma same_inv:
  assumes "dqm_inv d" "same_places d d'" "queue_count d' = of_nat (card (active d'))"
    "\<And>p. p \<in> busy d \<Longrightarrow> sh_mem d' (qpd_vmid (qpds d p)) = sh_mem_settings (qpds d' p)"
  shows "dqm_inv d'"
proof -
  note p = assms(1) [unfolded dqm_inv_def dqm_parts_def parts_def] and s = assms(2) [unfolded same_places_def]
  have "vmid_inv (busy d) d'" using p s assms(4) by (simp add: vmid_inv_def)
  moreover have "slots_inv (of_type Type_compute d) d'" using p s by (simp add: slots_inv_def hqd_slot_def)
  moreover have "sdma_inv (of_type Type_sdma d) d'" using p s by (simp add: sdma_inv_def)
  moreover have "mem_inv (listed d) d'" using p s by (simp add: mem_inv_def)
  moreover have "lists_ok d'" using p s by (simp add: lists_ok_def)
  moreover have "counts_ok d'" using p s assms(3) by (simp add: counts_ok_def same_sets [OF assms(2)])
  ultimately show ?thesis using p s by (simp add: dqm_inv_def dqm_parts_def parts_def same_sets [OF assms(2)])
qed

lemma update_mqd_properties:
  assumes "update_mqd f kind q m = Some (m', q')"
  obtains b where "q' = q\<lparr>is_active := b\<rparr>"
  using assms by (cases f; cases kind; cases m) (auto simp: update_mqd_def update_mqd_sdma_def update_mqd_hiq_cik_def update_mqd_hiq_vi_def
    update_mqd_cik_def update_mqd_vi_def update_mqd_vi_with_def Let_def)

lemma card_add: "finite A \<Longrightarrow> (of_nat (card (insert a A)) :: 'b :: len word) = of_nat (card A) + of_bool (a \<notin> A)"
  by (cases "a \<in> A") (simp_all add: insert_absorb)

lemma manager_eq: "get_mqd_manager_nocpsch ok kind d = (b, d') \<Longrightarrow> d' = d\<lparr>mqds := mqds d'\<rparr>"
  by (auto simp: get_mqd_manager_nocpsch_def split: if_splits)

text \<open>What the user may change of a queue, as \<open>pqm_update_queue\<close> does before \<open>update_queue\<close>.\<close>

definition set_user_properties :: "nat \<Rightarrow> queue_properties \<Rightarrow> device_queue_manager \<Rightarrow> device_queue_manager" where
  "set_user_properties q p dqm = set_queue q (set_prop (\<lambda>pr. pr\<lparr>queue_address := queue_address p, queue_size := queue_size p,
     queue_percent := queue_percent p, priority := priority p\<rparr>)) dqm"

lemma update_inv:
  assumes inv: "dqm_inv d" and q: "q \<in> listed d" and run: "update_queue env cur q (set_user_properties q p d) = Some (r, d')"
  shows "dqm_inv d' \<and> same_places d d'"
proof -
  let ?k = "get_mqd_type_from_queue_type (qp_type (properties (queues d q)))"
  define d0 where "d0 = set_user_properties q p d"
  have d0: "same_places d d0" "active d0 = active d" "queue_count d0 = queue_count d" "sh_mem d0 = sh_mem d" "qpds d0 = qpds d"
      "qp_type (properties (queues d0 q)) = qp_type (properties (queues d q))" "is_active (properties (queues d0 q)) = is_active (properties (queues d q))"
    by (auto simp: d0_def set_user_properties_def setters same_places_def active_def listed_def mqd_obj_def)
  obtain ok d1 where mm: "get_mqd_manager_nocpsch (kzalloc_mm env) ?k d0 = (ok, d1)" by fastforce
  obtain ms where d1: "d1 = d0\<lparr>mqds := ms\<rparr>" using manager_eq [OF mm] by blast
  have pol: "sched_policy d1 = Policy_no_hws" "family d1 = family d" "queues d1 = queues d0" using d1 inv d0(1) by (simp_all add: dqm_inv_def same_places_def)
  obtain m ob where m: "q_mqd (queues d0 q) = Some (m, ob)"
    using run mm pol(3) unfolding update_queue_def d0_def [symmetric] d0(6) by (auto simp: Let_def split: option.splits)
  let ?a = "is_active (properties (queues d q))"
  have mem: "q \<in> active d \<longleftrightarrow> ?a" using q by (simp add: active_def)
  have fin: "finite (active d)" using inv listed_finite by (auto simp: dqm_inv_def active_def)
  have cnt: "queue_count d = of_nat (card (active d))" using inv by (simp add: dqm_inv_def counts_ok_def)
  show ?thesis
  proof (cases ok)
    case False
    then have d': "d' = d0\<lparr>mqds := ms\<rparr>" using run mm pol m d1 unfolding update_queue_def d0_def [symmetric] d0(6) by simp
    then have s: "same_places d d'" "active d' = active d" "queue_count d' = queue_count d" "sh_mem d' = sh_mem d" "qpds d' = qpds d"
      using d0 by (simp_all add: same_places_def active_def listed_def)
    have "dqm_inv d'" using inv s by (intro same_inv [OF inv s(1)]) (simp_all add: cnt, simp add: dqm_inv_def dqm_parts_def parts_def vmid_inv_def)
    then show ?thesis using s(1) by simp
  next
    case True
    then obtain m' pr where u: "update_mqd (family d) ?k (properties (queues d0 q)) m = Some (m', pr)"
      using run mm pol m unfolding update_queue_def d0_def [symmetric] d0(6) by (auto simp: Let_def split: bind_splits)
    from update_mqd_properties [OF u] obtain b where b: "pr = (properties (queues d0 q))\<lparr>is_active := b\<rparr>" .
    have d': "d' = d0\<lparr>mqds := ms, queues := (queues d0)(q := (queues d0 q)\<lparr>properties := pr, q_mqd := Some (m', ob)\<rparr>),
        queue_count := queue_count d + of_bool (b \<and> \<not> ?a) - of_bool (\<not> b \<and> ?a)\<rparr>"
      using run mm pol m True u b d0(3,7) d1 unfolding update_queue_def d0_def [symmetric] d0(6) by (auto simp: set_queue_def)
    have "q_mqd (queues d q) = Some (m, ob)" using m by (simp add: d0_def set_user_properties_def setters)
    then have s: "same_places d d'" "sh_mem d' = sh_mem d" "qpds d' = qpds d" using d0(1,4,5) m unfolding d' b by (auto simp: same_places_def mqd_obj_def)
    have "active d' = (if b then insert q (active d) else active d - {q})"
      unfolding d0(2) [symmetric] using q same_sets(1) [OF s(1)] same_sets(1) [OF d0(1)] by (auto simp: active_def d' b)
    then have "queue_count d' = of_nat (card (active d'))" using mem cnt by (simp add: d' card_add [OF fin] card_drop [OF fin])
    then have "dqm_inv d'" using inv s(2,3) by (intro same_inv [OF inv s(1)]) (simp_all add: dqm_inv_def dqm_parts_def parts_def vmid_inv_def)
    then show ?thesis using s(1) by simp
  qed
qed

lemma vmid_range:
  assumes "vmid_inv U d" "p \<in> U"
  shows "8 \<le> unat (qpd_vmid (qpds d p))" "unat (qpd_vmid (qpds d p)) < 16" "qpd_vmid (qpds d p) \<noteq> 0"
proof -
  let ?v = "qpd_vmid (qpds d p)"
  have lt: "unat (?v - 8) < 8" using assms by (auto simp: vmid_inv_def assigned_def)
  have "?v = of_nat (unat (?v - 8) + 8)" by simp
  moreover have "unat (of_nat (unat (?v - 8) + 8) :: u32) = unat (?v - 8) + 8" using lt by (intro unat_of_nat_small) simp
  ultimately have v: "unat ?v = unat (?v - 8) + 8" by metis
  show "8 \<le> unat ?v" "unat ?v < 16" using v lt by simp_all
  then show "?v \<noteq> 0" by auto
qed

lemma vmid_inj: "vmid_inv U d \<Longrightarrow> p \<in> U \<Longrightarrow> x \<in> U \<Longrightarrow> qpd_vmid (qpds d x) = qpd_vmid (qpds d p) \<Longrightarrow> x = p"
  by (auto simp: vmid_inv_def assigned_def inj_on_def)

lemma ape1_policy_fields:
  "ape1_policy f dp ap base sz qpd = Some qpd' \<Longrightarrow> queues_list qpd' = queues_list qpd \<and> qpd_vmid qpd' = qpd_vmid qpd"
  by (auto simp: ape1_policy_def Let_def set_cache_memory_policy_cik_def set_cache_memory_policy_vi_def split: if_splits asic_family.splits)

lemma register_fields:
  "register_process_cik b qpd = Some qpd' \<Longrightarrow> queues_list qpd' = queues_list qpd \<and> qpd_vmid qpd' = qpd_vmid qpd"
  "register_process_vi b qpd = Some qpd' \<Longrightarrow> queues_list qpd' = queues_list qpd \<and> qpd_vmid qpd' = qpd_vmid qpd"
  by (auto simp: register_process_cik_def register_process_vi_def Let_def split: if_splits bind_splits)

lemma policy_inv:
  assumes inv: "dqm_inv d" and run: "set_cache_memory_policy p dp ap base sz d = (b, d')"
  shows "dqm_inv d' \<and> same_places d d'"
proof (cases "ape1_policy (family d) dp ap base sz (qpds d p)")
  case None
  then show ?thesis using inv run by (simp add: set_cache_memory_policy_def)
next
  case (Some qpd)
  have f: "queues_list qpd = queues_list (qpds d p)" "qpd_vmid qpd = qpd_vmid (qpds d p)" using ape1_policy_fields [OF Some] by simp_all
  have v: "vmid_inv (busy d) d" and n: "sched_policy d = Policy_no_hws" "queue_count d = of_nat (card (active d))"
    using inv by (simp_all add: dqm_inv_def dqm_parts_def parts_def counts_ok_def)
  have d': "d' = d\<lparr>qpds := (qpds d)(p := qpd), sh_mem := (if qpd_vmid qpd \<noteq> 0 then (sh_mem d)(qpd_vmid qpd := sh_mem_settings qpd) else sh_mem d)\<rparr>"
    using run Some n(1) by (auto simp: set_cache_memory_policy_def set_qpd_def program_sh_mem_settings_def sh_mem_settings_def Let_def)
  then have s: "same_places d d'" "queue_count d' = queue_count d" "active d' = active d" using f by (auto simp: same_places_def active_def listed_def)
  have "sh_mem d' (qpd_vmid (qpds d x)) = sh_mem_settings (qpds d' x)" if x: "x \<in> busy d" for x
  proof (cases "x = p")
    case True
    then show ?thesis using vmid_range(3) [OF v x] by (simp add: d' f)
  next
    case False
    then have "qpd_vmid (qpds d x) \<noteq> qpd_vmid qpd \<or> qpd_vmid qpd = 0" using vmid_inj [OF v _ x] v f(2) by (cases "p \<in> busy d") (auto simp: vmid_inv_def)
    moreover have "sh_mem d (qpd_vmid (qpds d x)) = sh_mem_settings (qpds d x)" using v x by (simp add: vmid_inv_def)
    ultimately show ?thesis using False by (auto simp: d')
  qed
  then show ?thesis using same_inv [OF inv s(1)] s n(2) by simp
qed

lemma register_inv:
  assumes inv: "dqm_inv d" and p: "queues_list (qpds d p) = []" and run: "register_process_nocpsch env p d = Some (r, d')"
  shows "dqm_inv d' \<and> same_places d d'"
proof (cases "kzalloc_node env")
  case False
  then show ?thesis using inv run by (simp add: register_process_nocpsch_def)
next
  case True
  then obtain qpd where q: "(case family d of Chip_kaveri \<Rightarrow> register_process_cik | Chip_carrizo \<Rightarrow> register_process_vi) (proc_32bit d p) (qpds d p) = Some qpd"
    "d' = d\<lparr>dqm_processes := p # dqm_processes d, qpds := (qpds d)(p := qpd), processes_count := processes_count d + 1\<rparr>"
    using run by (auto simp: register_process_nocpsch_def register_process_asic_def set_qpd_def split: bind_splits)
  have f: "queues_list qpd = queues_list (qpds d p)" "qpd_vmid qpd = qpd_vmid (qpds d p)"
    using q(1) register_fields [of "proc_32bit d p" "qpds d p" qpd] by (auto split: asic_family.splits)
  have s: "same_places d d'" "queue_count d' = queue_count d" "active d' = active d" using f by (auto simp: q(2) same_places_def active_def listed_def)
  have "sh_mem d' (qpd_vmid (qpds d x)) = sh_mem_settings (qpds d' x)" if "x \<in> busy d" for x
  proof -
    have "x \<noteq> p" using that p by (auto simp: busy_def)
    then show ?thesis using that inv by (simp add: q(2) dqm_inv_def dqm_parts_def parts_def vmid_inv_def)
  qed
  then show ?thesis using same_inv [OF inv s(1)] s inv by (simp add: dqm_inv_def counts_ok_def)
qed

lemma unregister_inv:
  assumes inv: "dqm_inv d" and run: "unregister_process_nocpsch p d = (r, d')"
  shows "dqm_inv d' \<and> same_places d d'"
proof -
  have s: "same_places d d'" "queue_count d' = queue_count d" "active d' = active d" "sh_mem d' = sh_mem d" "qpds d' = qpds d"
    using run by (auto simp: unregister_process_nocpsch_def same_places_def active_def listed_def split: if_splits)
  moreover have "queue_count d = of_nat (card (active d))" "\<And>x. x \<in> busy d \<Longrightarrow> sh_mem d (qpd_vmid (qpds d x)) = sh_mem_settings (qpds d x)"
    using inv by (simp_all add: dqm_inv_def counts_ok_def dqm_parts_def parts_def vmid_inv_def)
  ultimately show ?thesis using same_inv [OF inv s(1)] by simp
qed

section \<open>The abstract assignment\<close>

text \<open>
  The contract of the manager: processes have VMIDs and queues have places in the hardware, no two the same,
  and only queues of processes with a VMID have places.
\<close>

datatype place = Pipe_slot nat nat | Engine_slot nat

fun place_ok :: "nat \<Rightarrow> place \<Rightarrow> bool" where
  "place_ok n (Pipe_slot i j) \<longleftrightarrow> i < n \<and> j < 8"
| "place_ok n (Engine_slot i) \<longleftrightarrow> i < 4"

type_synonym assignment = "(nat \<rightharpoonup> nat) \<times> (nat \<rightharpoonup> nat \<times> place)"

inductive hw_step :: "nat \<Rightarrow> assignment \<Rightarrow> assignment \<Rightarrow> bool" for n where
  hw_bind: "v p = None \<Longrightarrow> 8 \<le> i \<Longrightarrow> i < 16 \<Longrightarrow> i \<notin> ran v \<Longrightarrow> hw_step n (v, m) (v(p \<mapsto> i), m)"
| hw_put: "m q = None \<Longrightarrow> v p \<noteq> None \<Longrightarrow> place_ok n x \<Longrightarrow> (\<And>q' p'. m q' \<noteq> Some (p', x)) \<Longrightarrow> hw_step n (v, m) (v, m(q \<mapsto> (p, x)))"
| hw_take: "hw_step n (v, m) (v, m(q := None))"
| hw_unbind: "(\<And>q x. m q \<noteq> Some (p, x)) \<Longrightarrow> hw_step n (v, m) (v(p := None), m)"

definition place_of :: "queue \<Rightarrow> place" where
  "place_of q = (if qp_type (properties q) = Type_sdma then Engine_slot (q_sdma_id q) else Pipe_slot (q_pipe q) (q_slot q))"

definition dqm_abs :: "device_queue_manager \<Rightarrow> assignment" where
  "dqm_abs d = (\<lambda>p. if p \<in> busy d then Some (unat (qpd_vmid (qpds d p))) else None,
     \<lambda>n. if n \<in> listed d then Some (q_process (queues d n), place_of (queues d n)) else None)"

lemma place_in:
  assumes inv: "dqm_inv d" and a: "a \<in> listed d"
  shows "place_ok (compute_pipe_count d) (place_of (queues d a))"
proof -
  have ok: "lists_ok d" and s: "slots_inv (of_type Type_compute d) d" "sdma_inv (of_type Type_sdma d) d" using inv by (simp_all add: dqm_inv_def dqm_parts_def parts_def)
  from lists_okD(4) [OF ok a] consider (c) "a \<in> of_type Type_compute d" | (s) "a \<in> of_type Type_sdma d" by blast
  then show ?thesis
  proof cases
    case c
    then have "hqd_slot (queues d a) < 8 * compute_pipe_count d" "q_slot (queues d a) < 8" using s(1) by (auto simp: slots_inv_def assigned_def)
    then show ?thesis using c by (simp add: place_of_def of_type_def hqd_slot_def)
  next
    case s
    then have "q_sdma_id (queues d a) < 4" using \<open>sdma_inv (of_type Type_sdma d) d\<close> by (auto simp: sdma_inv_def assigned_def)
    then show ?thesis using s by (simp add: place_of_def of_type_def)
  qed
qed

lemma place_inj:
  assumes inv: "dqm_inv d" and ab: "a \<in> listed d" "b \<in> listed d" "place_of (queues d a) = place_of (queues d b)"
  shows "a = b"
proof -
  have ok: "lists_ok d" and s: "inj_on (\<lambda>n. hqd_slot (queues d n)) (of_type Type_compute d)" "inj_on (\<lambda>n. q_sdma_id (queues d n)) (of_type Type_sdma d)"
    using inv by (simp_all add: dqm_inv_def dqm_parts_def parts_def slots_inv_def sdma_inv_def assigned_def)
  show ?thesis
  proof (cases "qp_type (properties (queues d a)) = Type_sdma")
    case True
    then have "a \<in> of_type Type_sdma d" "b \<in> of_type Type_sdma d" "q_sdma_id (queues d a) = q_sdma_id (queues d b)"
      using ab by (auto simp: place_of_def of_type_def split: if_splits)
    then show ?thesis using s(2) by (simp add: inj_on_def)
  next
    case False
    then have "a \<in> of_type Type_compute d" "b \<in> of_type Type_compute d" "hqd_slot (queues d a) = hqd_slot (queues d b)"
      using ab lists_okD(4) [OF ok ab(1)] lists_okD(4) [OF ok ab(2)] by (auto simp: place_of_def of_type_def hqd_slot_def split: if_splits)
    then show ?thesis using s(1) by (simp add: inj_on_def)
  qed
qed

lemma vmids:
  assumes "dqm_inv d" "p \<in> busy d"
  shows "8 \<le> unat (qpd_vmid (qpds d p))" "unat (qpd_vmid (qpds d p)) < 16"
    "x \<in> busy d \<Longrightarrow> unat (qpd_vmid (qpds d x)) = unat (qpd_vmid (qpds d p)) \<Longrightarrow> x = p"
proof -
  have v: "vmid_inv (busy d) d" using assms(1) by (simp add: dqm_inv_def dqm_parts_def parts_def)
  show "8 \<le> unat (qpd_vmid (qpds d p))" "unat (qpd_vmid (qpds d p)) < 16" using vmid_range [OF v assms(2)] by simp_all
  show "x = p" if "x \<in> busy d" "unat (qpd_vmid (qpds d x)) = unat (qpd_vmid (qpds d p))"
    using vmid_inj [OF v assms(2) that(1)] that(2) by (simp add: word_unat_eq_iff)
qed

lemma abs_same:
  assumes "same_places d d'"
  shows "dqm_abs d' = dqm_abs d"
proof -
  have "place_of (queues d' n) = place_of (queues d n)" "q_process (queues d' n) = q_process (queues d n)" "qpd_vmid (qpds d' p) = qpd_vmid (qpds d p)" for n p
    using assms by (simp_all add: place_of_def same_places_def)
  then show ?thesis by (auto simp: dqm_abs_def same_sets [OF assms] fun_eq_iff)
qed

lemma abs_create:
  assumes inv: "dqm_inv d'" and q: "q \<notin> listed d" "q_process (queues d' q) = p" and d: "\<And>n. n \<noteq> q \<Longrightarrow> queues d' n = queues d n"
    "\<And>x. x \<in> busy d \<Longrightarrow> qpd_vmid (qpds d' x) = qpd_vmid (qpds d x)"
    "\<And>x. queues_list (qpds d' x) = (if x = p then q # queues_list (qpds d p) else queues_list (qpds d x))"
  shows "(hw_step (compute_pipe_count d'))\<^sup>*\<^sup>* (dqm_abs d) (dqm_abs d')"
proof -
  let ?n = "compute_pipe_count d'" and ?v = "fst (dqm_abs d)" and ?m = "snd (dqm_abs d)" and ?v' = "fst (dqm_abs d')"
  let ?x = "place_of (queues d' q)"
  have "n \<in> set (queues_list (qpds d' x)) \<longleftrightarrow> n \<in> set (queues_list (qpds d x)) \<or> n = q \<and> x = p" for n x by (auto simp: d(3))
  then have l: "listed d' = insert q (listed d)" "busy d' = insert p (busy d)" using d(3) by (auto simp: listed_def busy_def)
  have m: "?m q = None" "snd (dqm_abs d') = ?m(q \<mapsto> (p, ?x))" using q d(1) by (auto simp: dqm_abs_def l fun_eq_iff)
  have free: "?m b \<noteq> Some (y, ?x)" for b y
  proof
    assume "?m b = Some (y, ?x)"
    then have b: "b \<in> listed d" "place_of (queues d b) = ?x" by (auto simp: dqm_abs_def split: if_splits)
    then have "b \<noteq> q" using q(1) by auto
    moreover have "place_of (queues d' b) = ?x" using d(1) [OF \<open>b \<noteq> q\<close>] b(2) by simp
    ultimately show False using place_inj [OF inv, of b q] b(1) l(1) by simp
  qed
  have "(hw_step ?n)\<^sup>*\<^sup>* (?v, ?m) (?v', ?m)"
  proof (cases "p \<in> busy d")
    case True
    then have "?v' = ?v" using d(2) by (auto simp: dqm_abs_def l fun_eq_iff)
    then show ?thesis by simp
  next
    case False
    let ?i = "unat (qpd_vmid (qpds d' p))"
    have "?v' = ?v(p \<mapsto> ?i)" "?v p = None" using False d(2) by (auto simp: dqm_abs_def l fun_eq_iff)
    moreover have "?i \<notin> ran ?v"
    proof
      assume "?i \<in> ran ?v"
      then obtain x where x: "x \<in> busy d" "unat (qpd_vmid (qpds d x)) = ?i" by (auto simp: dqm_abs_def ran_def split: if_splits)
      then show False using vmids(3) [OF inv, of p x] d(2) False l(2) by auto
    qed
    ultimately show ?thesis using hw_bind [of ?v p ?i ?n ?m] vmids(1,2) [OF inv, of p] l(2) by auto
  qed
  also have "hw_step ?n (?v', ?m) (?v', snd (dqm_abs d'))"
    unfolding m(2) using m(1) free place_in [OF inv, of q] l by (intro hw_put) (auto simp: dqm_abs_def)
  finally show ?thesis by simp
qed

lemma abs_destroy:
  assumes ok: "lists_ok d" and inv: "dqm_inv d'" and q: "q \<in> set (queues_list (qpds d p))" and d: "\<And>n. n \<noteq> q \<Longrightarrow> queues d' n = queues d n"
    "\<And>x. x \<in> busy d' \<Longrightarrow> qpd_vmid (qpds d' x) = qpd_vmid (qpds d x)"
    "\<And>x. queues_list (qpds d' x) = (if x = p then remove1 q (queues_list (qpds d p)) else queues_list (qpds d x))"
  shows "(hw_step n)\<^sup>*\<^sup>* (dqm_abs d) (dqm_abs d')"
proof -
  let ?v = "fst (dqm_abs d)" and ?m = "snd (dqm_abs d)" and ?m' = "snd (dqm_abs d')"
  have sets: "listed d' = listed d - {q}" "busy d' = (if queues_list (qpds d' p) = [] then busy d - {p} else busy d)"
    using unlist_sets [OF ok q, of d'] d by blast+
  have "hw_step n (?v, ?m) (?v, ?m(q := None))" by (rule hw_take)
  moreover have m: "?m(q := None) = ?m'" using d(1) by (auto simp: dqm_abs_def sets(1) fun_eq_iff)
  ultimately have step: "hw_step n (?v, ?m) (?v, ?m')" by simp
  show ?thesis
  proof (cases "queues_list (qpds d' p) = []")
    case True
    have "?m' b \<noteq> Some (p, x)" for b x
    proof
      assume "?m' b = Some (p, x)"
      then have b: "b \<in> listed d'" "q_process (queues d' b) = p" by (auto simp: dqm_abs_def split: if_splits)
      then show False using lists_okD(1) [of d' b] inv True by (simp add: dqm_inv_def)
    qed
    then have "hw_step n (?v, ?m') (?v(p := None), ?m')" by (rule hw_unbind)
    moreover have "?v(p := None) = fst (dqm_abs d')" using True d(2) by (auto simp: dqm_abs_def sets(2) fun_eq_iff)
    ultimately show ?thesis using step by (metis converse_rtranclp_into_rtranclp prod.collapse r_into_rtranclp)
  next
    case False
    then have "?v = fst (dqm_abs d')" using d(2) by (auto simp: dqm_abs_def sets(2) fun_eq_iff)
    then show ?thesis using step by (metis prod.collapse r_into_rtranclp)
  qed
qed

section \<open>The life of a device\<close>

text \<open>
  A new queue is not on a list; its object \<open>nq\<close> is what the process manager filled in. A chip of the
  newer generation has no manager for SDMA queues, and creating one faults. Hardware queues are assumed to
  be destroyed when asked to; a failure there is the subject of a theorem of its own.
\<close>

definition add_queue :: "nat \<Rightarrow> queue \<Rightarrow> device_queue_manager \<Rightarrow> device_queue_manager" where
  "add_queue q nq d = d\<lparr>queues := (queues d)(q := nq)\<rparr>"

inductive dqm_step :: "device_queue_manager \<Rightarrow> device_queue_manager \<Rightarrow> bool" where
  dqm_create: "q \<notin> listed d \<Longrightarrow> qp_type (properties nq) = Type_compute \<or> qp_type (properties nq) = Type_sdma \<and> family d = Chip_kaveri \<Longrightarrow>
    create_queue_nocpsch env (q_process nq) q (add_queue q nq d) = Some (r, d') \<Longrightarrow> dqm_step d d'"
| dqm_destroy: "q \<in> set (queues_list (qpds d p)) \<Longrightarrow> hqd_destroy env = 0 \<Longrightarrow> destroy_queue_nocpsch env p q d = Some (r, d') \<Longrightarrow> dqm_step d d'"
| dqm_update: "q \<in> listed d \<Longrightarrow> update_queue env cur q (set_user_properties q p d) = Some (r, d') \<Longrightarrow> dqm_step d d'"
| dqm_policy: "set_cache_memory_policy p dp ap base sz d = (b, d') \<Longrightarrow> dqm_step d d'"
| dqm_register: "queues_list (qpds d p) = [] \<Longrightarrow> register_process_nocpsch env p d = Some (r, d') \<Longrightarrow> dqm_step d d'"
| dqm_unregister: "unregister_process_nocpsch p d = (r, d') \<Longrightarrow> dqm_step d d'"

text \<open>The manager comes zeroed from the kernel, with no queues; the chunk allocator may be in use.\<close>

definition dqm_blank :: "device_queue_manager \<Rightarrow> bool" where
  "dqm_blank d \<longleftrightarrow> sched_policy d = Policy_no_hws \<and> total_queue_count d = 0 \<and> (\<forall>p. proc_pasid d p \<noteq> 0) \<and>
     (\<forall>p. queues_list (qpds d p) = [] \<and> qpd_vmid (qpds d p) = 0) \<and> (\<exists>L. gtt_inv \<lparr>gs_kfd = dqm_gtt d, gs_live = L\<rparr>)"

definition dqm_start :: "nat \<Rightarrow> device_queue_manager \<Rightarrow> bool" where
  "dqm_start n d \<longleftrightarrow> (\<exists>d0 env r. dqm_blank d0 \<and> compute_pipe_count d0 = n \<and> initialize_nocpsch True env d0 = Some (r, d))"

lemma add_queue_inv:
  assumes inv: "dqm_inv d" and q: "q \<notin> listed d"
  shows "dqm_inv (add_queue q nq d)" "listed (add_queue q nq d) = listed d" "busy (add_queue q nq d) = busy d" "dqm_abs (add_queue q nq d) = dqm_abs d"
proof -
  let ?d = "add_queue q nq d"
  have n: "queues ?d n = queues d n" if "n \<in> listed d" for n using that q by (auto simp: add_queue_def)
  have e: "qpds ?d = qpds d" by (simp add: add_queue_def)
  show l: "listed ?d = listed d" "busy ?d = busy d" by (simp_all add: listed_def busy_def e)
  have t: "of_type t ?d = of_type t d" "active ?d = active d" for t using n by (auto simp: of_type_def active_def l)
  show "dqm_abs ?d = dqm_abs d" using n by (auto simp: dqm_abs_def l e)
  note p = inv [unfolded dqm_inv_def dqm_parts_def parts_def]
  have "vmid_inv (busy d) ?d" using p by (auto simp: add_queue_def elim!: vmid_keep)
  moreover have "slots_inv (of_type Type_compute d) ?d" using p q by (auto simp: add_queue_def of_type_def elim!: slots_keep)
  moreover have "sdma_inv (of_type Type_sdma d) ?d" using p q by (auto simp: add_queue_def of_type_def elim!: sdma_keep)
  moreover have "mem_inv (listed d) ?d" using p q by (auto simp: add_queue_def elim!: mem_keep)
  moreover have "lists_ok ?d" unfolding lists_ok_def
  proof (intro allI conjI ballI)
    fix x show "distinct (queues_list (qpds ?d x))" using p by (simp add: e lists_ok_def)
    fix y assume y: "y \<in> set (queues_list (qpds ?d x))"
    then have "y \<in> listed d" by (auto simp: listed_def e)
    then show "q_process (queues ?d y) = x" "qp_vmid (properties (queues ?d y)) = qpd_vmid (qpds ?d x)"
      "qp_type (properties (queues ?d y)) = Type_compute \<or> qp_type (properties (queues ?d y)) = Type_sdma \<and> family ?d = Chip_kaveri"
      using p y n [of y] by (simp_all add: lists_ok_def e) (simp_all add: add_queue_def)
  qed
  moreover have "counts_ok ?d" using p unfolding counts_ok_def l t by (simp add: add_queue_def)
  ultimately show "dqm_inv ?d" using p by (simp add: dqm_inv_def dqm_parts_def parts_def l t) (simp add: add_queue_def)
qed

lemma abs_unchanged:
  assumes "unchanged d d'" "q \<notin> listed d" "\<And>n. n \<noteq> q \<Longrightarrow> queues d' n = queues d n"
  shows "dqm_abs d' = dqm_abs d"
proof -
  have "listed d' = listed d" "busy d' = busy d" using assms(1) by (simp_all add: listed_def busy_def unchanged_def)
  moreover have "queues d' n = queues d n" if "n \<in> listed d" for n using assms(2,3) that by metis
  moreover have "qpd_vmid (qpds d' p) = qpd_vmid (qpds d p)" for p using assms(1) by (simp add: unchanged_def)
  ultimately show ?thesis by (auto simp: dqm_abs_def fun_eq_iff)
qed

lemma create_step_ok:
  assumes inv: "dqm_inv d" and q: "q \<notin> listed d"
    and kind: "qp_type (properties (queues d q)) = Type_compute \<or> qp_type (properties (queues d q)) = Type_sdma \<and> family d = Chip_kaveri"
    and run: "create_queue_nocpsch env (q_process (queues d q)) q d = Some (r, d')"
  shows "dqm_inv d' \<and> compute_pipe_count d' = compute_pipe_count d \<and> (hw_step (compute_pipe_count d))\<^sup>*\<^sup>* (dqm_abs d) (dqm_abs d')"
proof -
  let ?p = "q_process (queues d q)"
  have c: "dqm_inv d'" "\<And>n. n \<noteq> q \<Longrightarrow> queues d' n = queues d n" "\<And>x. x \<in> busy d \<Longrightarrow> qpd_vmid (qpds d' x) = qpd_vmid (qpds d x)"
    "compute_pipe_count d' = compute_pipe_count d"
    "if r = 0 then \<forall>x. queues_list (qpds d' x) = (if x = ?p then q # queues_list (qpds d ?p) else queues_list (qpds d x)) else unchanged d d'"
    using create_inv [OF inv q refl kind, of env] run by auto
  show ?thesis
  proof (cases "r = 0")
    case True
    then have l: "queues_list (qpds d' x) = (if x = ?p then q # queues_list (qpds d ?p) else queues_list (qpds d x))" for x using c(5) by simp
    have "q_process (queues d' q) = ?p" using lists_owner [of d' q ?p] c(1) l [of ?p] by (simp add: dqm_inv_def)
    from abs_create [OF c(1) q this c(2,3) l] show ?thesis using c(1,4) by simp
  next
    case False
    then show ?thesis using c(1,4,5) abs_unchanged [OF _ q c(2)] by simp
  qed
qed

lemma dqm_step_ok:
  assumes "dqm_step d d'" "dqm_inv d"
  shows "dqm_inv d' \<and> compute_pipe_count d' = compute_pipe_count d \<and> (hw_step (compute_pipe_count d))\<^sup>*\<^sup>* (dqm_abs d) (dqm_abs d')"
  using assms
proof induction
  case (dqm_create q d nq env r d')
  have "compute_pipe_count (add_queue q nq d) = compute_pipe_count d" "queues (add_queue q nq d) q = nq" "family (add_queue q nq d) = family d" by (simp_all add: add_queue_def)
  then show ?case using create_step_ok [of "add_queue q nq d" q env r d'] add_queue_inv [OF dqm_create.prems dqm_create.hyps(1), of nq] dqm_create.hyps by simp
next
  case (dqm_destroy q d p env r d')
  then have "if r = 0 then dqm_inv d' \<and> (\<forall>x. queues_list (qpds d' x) = (if x = p then remove1 q (queues_list (qpds d p)) else queues_list (qpds d x))) \<and>
      (\<forall>n. n \<noteq> q \<longrightarrow> queues d' n = queues d n) \<and> (\<forall>x \<in> busy d'. qpd_vmid (qpds d' x) = qpd_vmid (qpds d x)) \<and> compute_pipe_count d' = compute_pipe_count d
      else d' = d" using destroy_inv [OF dqm_destroy.prems dqm_destroy.hyps(1,2)] by auto
  moreover have "lists_ok d" using dqm_destroy.prems by (simp add: dqm_inv_def)
  ultimately show ?case using abs_destroy [of d d' q p] dqm_destroy.hyps(1) dqm_destroy.prems by (cases "r = 0") simp_all
next
  case (dqm_update q d env cur p r d')
  then show ?case using update_inv [of d q env cur p r d'] abs_same [of d d'] by (simp add: same_places_def)
next
  case (dqm_policy p dp ap base sz d b d')
  then show ?case using policy_inv [of d p dp ap base sz b d'] abs_same [of d d'] by (simp add: same_places_def)
next
  case (dqm_register d p env r d')
  then show ?case using register_inv [of d p env r d'] abs_same [of d d'] by (simp add: same_places_def)
next
  case (dqm_unregister p d r d')
  then show ?case using unregister_inv [of d p r d'] abs_same [of d d'] by (simp add: same_places_def)
qed

lemma init_pipes_eq: "\<exists>h. init_pipes k i f d = d\<lparr>hpd := h\<rparr>"
proof (induction k arbitrary: i d)
  case 0
  show ?case by (intro exI [of _ "hpd d"]) simp
next
  case (Suc k)
  let ?d = "d\<lparr>hpd := (hpd d)(i + f \<mapsto> pipelines_addr d + of_nat i * 2048)\<rparr>"
  obtain h where "init_pipes k (Suc i) f ?d = ?d\<lparr>hpd := h\<rparr>" using Suc.IH by blast
  then show ?case by (intro exI [of _ h]) simp
qed

lemma init_pipelines_eq:
  assumes L: "gtt_inv \<lparr>gs_kfd = dqm_gtt d, gs_live = L\<rparr>" and run: "init_pipelines env k f d = Some (r, d')"
  shows "\<exists>g pm pa ms h L'. d' = d\<lparr>dqm_gtt := g, pipeline_mem := pm, pipelines_addr := pa, mqds := ms, hpd := h\<rparr> \<and> gtt_inv \<lparr>gs_kfd = g, gs_live = L'\<rparr>"
proof -
  let ?g = "dqm_gtt d"
  have ok: "gtt_ok ?g" using L by (simp add: gtt_inv_def)
  obtain r1 g1 o1 where run1: "kfd_gtt_sa_allocate (kmalloc_obj env) (2048 * of_nat k) ?g = Some (r1, g1, o1)"
    using run by (auto simp: init_pipelines_def split: bind_splits)
  have "kfd_gtt_sa_allocate (kmalloc_obj env) (2048 * of_nat k) ?g = Some (r1, ?g, None) \<or>
    (\<exists>g' ob. kfd_gtt_sa_allocate (kmalloc_obj env) (2048 * of_nat k) ?g = Some (r1, g', Some ob) \<and> taken ?g [ob] g')"
    using taken_allocate [OF taken_start [OF ok] run1] run1 by auto
  then show ?thesis
  proof
    assume "kfd_gtt_sa_allocate (kmalloc_obj env) (2048 * of_nat k) ?g = Some (r1, ?g, None)"
    then have "d' = d\<lparr>dqm_gtt := ?g, pipeline_mem := pipeline_mem d, pipelines_addr := pipelines_addr d, mqds := mqds d, hpd := hpd d\<rparr>"
      using run by (simp add: init_pipelines_def)
    then show ?thesis using L by blast
  next
    assume "\<exists>g' ob. kfd_gtt_sa_allocate (kmalloc_obj env) (2048 * of_nat k) ?g = Some (r1, g', Some ob) \<and> taken ?g [ob] g'"
    then obtain g' ob where a: "kfd_gtt_sa_allocate (kmalloc_obj env) (2048 * of_nat k) ?g = Some (r1, g', Some ob)" "taken ?g [ob] g'" by blast
    have L': "gtt_inv \<lparr>gs_kfd = g', gs_live = ob # L\<rparr>" using allocate_inv [OF L, of "kmalloc_obj env" "2048 * of_nat k" r1 g' ob] a(1) by simp
    let ?d1 = "d\<lparr>dqm_gtt := g', pipeline_mem := Some ob, pipelines_addr := mo_gpu_addr ob\<rparr>"
    obtain b d2 where mm: "get_mqd_manager_nocpsch (kzalloc_mm env) Mqd_compute ?d1 = (b, d2)" by fastforce
    obtain ms where d2: "d2 = ?d1\<lparr>mqds := ms\<rparr>" using manager_eq [OF mm] by blast
    show ?thesis
    proof (cases b)
      case True
      obtain h where h: "init_pipes k 0 f d2 = d2\<lparr>hpd := h\<rparr>" using init_pipes_eq by blast
      have "d' = d\<lparr>dqm_gtt := g', pipeline_mem := Some ob, pipelines_addr := mo_gpu_addr ob, mqds := ms, hpd := h\<rparr>"
        using run a(1) mm True h d2 by (simp add: init_pipelines_def)
      then show ?thesis using L' by blast
    next
      case False
      obtain g where g: "kfd_gtt_sa_free (Some ob) g' = Some (0, g)" "taken ?g [] g" using taken_free [OF a(2), of ob] by auto
      have "d' = d\<lparr>dqm_gtt := ?g, pipeline_mem := Some ob, pipelines_addr := mo_gpu_addr ob, mqds := ms, hpd := hpd d\<rparr>"
        using run a(1) mm False g(1) d2 taken_none [OF g(2)] by (auto simp: init_pipelines_def)
      then show ?thesis using L by blast
    qed
  qed
qed

lemma free_bits_mask: "k < 32 \<Longrightarrow> free_bits (push_bit k 1 - 1) = {..< k}"
proof -
  assume k: "k < 32"
  have "(push_bit k 1 - 1 :: u32) = mask k" by (simp add: mask_eq_exp_minus_1 push_bit_eq_mult)
  then show ?thesis using k by (auto simp: free_bits_def bit_mask_iff)
qed

lemma hqd_free_full:
  assumes "free_bits w = {..< 8}"
  shows "hqd_free (replicate n w) = {..< 8 * n}"
proof (rule set_eqI)
  fix x
  have "x \<in> hqd_free (replicate n w) \<longleftrightarrow> x div 8 < n \<and> x mod 8 \<in> free_bits (replicate n w ! (x div 8))"
    using hqd_free_iff [of "replicate n w" x] assms by simp
  also have "\<dots> \<longleftrightarrow> x div 8 < n" using assms by (cases "x div 8 < n") simp_all
  also have "\<dots> \<longleftrightarrow> x < 8 * n" by (simp add: div_less_iff_less_mult mult.commute)
  finally show "x \<in> hqd_free (replicate n w) \<longleftrightarrow> x \<in> {..< 8 * n}" by simp
qed

lemma start_inv:
  assumes "dqm_start n d"
  shows "dqm_inv d \<and> compute_pipe_count d = n \<and> dqm_abs d = (Map.empty, Map.empty)"
proof -
  obtain d0 env r where b: "dqm_blank d0" "compute_pipe_count d0 = n" and run: "initialize_nocpsch True env d0 = Some (r, d)"
    using assms by (auto simp: dqm_start_def)
  define d1 where "d1 = d0\<lparr>dqm_processes := [], queue_count := 0, next_pipe_to_allocate := 0, sdma_queue_count := 0,
    allocated_queues := replicate n (push_bit 8 1 - 1), vmid_bitmap := push_bit 8 1 - 1, sdma_bitmap := push_bit 4 1 - 1\<rparr>"
  obtain r' where p: "init_pipelines env n (first_compute_pipe d0) d1 = Some (r', d)"
    using run b(2) by (auto simp: initialize_nocpsch_def Let_def d1_def split: bind_splits)
  have g0: "dqm_gtt d1 = dqm_gtt d0" by (simp add: d1_def)
  obtain L where "gtt_inv \<lparr>gs_kfd = dqm_gtt d1, gs_live = L\<rparr>" using b(1) g0 by (auto simp: dqm_blank_def)
  from init_pipelines_eq [OF this p] obtain g pm pa ms h L' where d: "d = d1\<lparr>dqm_gtt := g, pipeline_mem := pm, pipelines_addr := pa, mqds := ms, hpd := h\<rparr>"
    "gtt_inv \<lparr>gs_kfd = g, gs_live = L'\<rparr>" by blast
  have e: "qpds d = qpds d0" "dqm_gtt d = g" "sched_policy d = sched_policy d0" "proc_pasid d = proc_pasid d0" "compute_pipe_count d = n"
    "allocated_queues d = replicate n (push_bit 8 1 - 1)" "vmid_bitmap d = push_bit 8 1 - 1" "sdma_bitmap d = push_bit 4 1 - 1"
    "next_pipe_to_allocate d = 0" "total_queue_count d = total_queue_count d0" "queue_count d = 0" "sdma_queue_count d = 0"
    using b(2) by (simp_all add: d(1) d1_def)
  have l: "listed d = {}" "busy d = {}" using b(1) by (simp_all add: listed_def busy_def e dqm_blank_def)
  then have t: "of_type t d = {}" "active d = {}" for t by (simp_all add: of_type_def active_def)
  have m: "free_bits (push_bit 8 1 - 1) = {..< 8}" "free_bits (push_bit 4 1 - 1) = {..< 4}" by (rule free_bits_mask; simp)+
  have "slots_inv {} d" unfolding slots_inv_def e assigned_def hqd_free_full [OF m(1)] by (simp add: m(1) del: push_bit_of_1)
  moreover have "vmid_inv {} d" using b(1) unfolding vmid_inv_def e m(1) by (simp add: assigned_def dqm_blank_def)
  moreover have "sdma_inv {} d" unfolding sdma_inv_def e m(2) by (simp add: assigned_def)
  moreover have "mem_inv {} d" using d(2) by (auto simp: mem_inv_def e)
  moreover have "lists_ok d" "sched_policy d = Policy_no_hws" using b(1) by (simp_all add: lists_ok_def e dqm_blank_def)
  moreover have "counts_ok d" using b(1) by (simp add: counts_ok_def l t e dqm_blank_def)
  ultimately show ?thesis using e(5) by (simp add: dqm_inv_def dqm_parts_def parts_def l t dqm_abs_def)
qed

interpretation dq: simulation "dqm_start n" dqm_step "\<lambda>d. dqm_inv d \<and> compute_pipe_count d = n" dqm_abs "hw_step n" for n
proof unfold_locales
  show "dqm_inv d \<and> compute_pipe_count d = n" if "dqm_start n d" for d using start_inv [OF that] by simp
  fix d d' assume "dqm_step d d'" "dqm_inv d \<and> compute_pipe_count d = n"
  then show "dqm_inv d' \<and> compute_pipe_count d' = n" "(hw_step n)\<^sup>*\<^sup>* (dqm_abs d) (dqm_abs d')" using dqm_step_ok [of d d'] by auto
qed

section \<open>A device with two queues\<close>

definition blank_demo :: device_queue_manager where
  "blank_demo = \<lparr>family = Chip_kaveri, sched_policy = Policy_no_hws, compute_pipe_count = 1, first_compute_pipe = 0, max_num_of_queues_per_device = 4096,
     dqm_gtt = gs_kfd gdemo0, mqds = [], dqm_processes = [], processes_count = 0, queue_count = 0, sdma_queue_count = 0, total_queue_count = 0,
     next_pipe_to_allocate = 0, allocated_queues = [], sdma_bitmap = 0, vmid_bitmap = 0, pipelines_addr = 0, pipeline_mem = None,
     active_runlist = False, sdma_turn = 0, proc_pasid = (\<lambda>p. 1), proc_32bit = (\<lambda>p. False), qpds = (\<lambda>p. kfd_create_process_device_data),
     queues = (\<lambda>n. \<lparr>properties = example_queue, q_mqd = None, q_pipe = 0, q_slot = 0, q_sdma_id = 0, q_process = 0\<rparr>),
     pasid_mapping = (\<lambda>v. 0), sh_mem = (\<lambda>v. (0, 0, 0, 0)), hpd = (\<lambda>i. None)\<rparr>"

definition env_demo :: dqm_env where
  "env_demo = \<lparr>kzalloc_mm = True, kmalloc_obj = True, kzalloc_node = True, hqd_load = 0, hqd_destroy = 0, unmap_queue = 0, fence_wait = 0, send_runlist = 0\<rparr>"

definition queue_demo :: "nat \<Rightarrow> queue" where
  "queue_demo p = \<lparr>properties = example_queue, q_mqd = None, q_pipe = 0, q_slot = 0, q_sdma_id = 0, q_process = p\<rparr>"

definition two_queues :: "device_queue_manager option" where
  "two_queues = do {
     (r, d) \<leftarrow> initialize_nocpsch True (env_demo\<lparr>kmalloc_obj := False\<rparr>) blank_demo;
     (r, d) \<leftarrow> create_queue_nocpsch env_demo 1 5 (add_queue 5 (queue_demo 1) d);
     (r, d) \<leftarrow> create_queue_nocpsch env_demo 2 6 (add_queue 6 (queue_demo 2) d);
     Some d
   }"

definition no_queues :: "device_queue_manager option" where
  "no_queues = map_option snd (initialize_nocpsch True (env_demo\<lparr>kmalloc_obj := False\<rparr>) blank_demo)"

lemma two_queues_lists: "map_option (\<lambda>d. (queues_list (qpds d 1), queues_list (qpds d 2))) two_queues = Some ([5], [6])"
  by code_simp

lemma blank_demo_ok: "dqm_blank blank_demo"
proof -
  have "gtt_inv \<lparr>gs_kfd = gs_kfd gdemo0, gs_live = []\<rparr>" using gtt_start_inv [OF gdemo_start] by (simp add: gdemo0_def)
  then show ?thesis by (auto simp: dqm_blank_def blank_demo_def kfd_create_process_device_data_def)
qed

lemma create_listed:
  assumes "dqm_inv d" "q \<notin> listed d" "qp_type (properties nq) = Type_compute"
    and "create_queue_nocpsch env (q_process nq) q (add_queue q nq d) = Some (r, d')"
  shows "listed d' \<subseteq> insert q (listed d)"
proof -
  let ?d = "add_queue q nq d"
  have inv: "dqm_inv ?d" "q \<notin> listed ?d" using add_queue_inv [OF assms(1,2)] assms(2) by simp_all
  have e: "q_process (queues ?d q) = q_process nq" "properties (queues ?d q) = properties nq" "qpds ?d = qpds d" by (simp_all add: add_queue_def)
  have c: "if r = 0 then \<forall>x. queues_list (qpds d' x) = (if x = q_process nq then q # queues_list (qpds d (q_process nq)) else queues_list (qpds d x)) else unchanged ?d d'"
    using create_inv [OF inv e(1), of env] assms(3,4) unfolding e by auto
  have "set (queues_list (qpds d' x)) \<subseteq> insert q (set (queues_list (qpds d x)))" for x
    using c e(3) by (cases "r = 0") (auto simp: unchanged_def)
  then show "listed d' \<subseteq> insert q (listed d)" by (auto simp: listed_def)
qed

lemma two_queues_reachable:
  obtains s d where "dqm_start 1 s" "dqm_step\<^sup>*\<^sup>* s d" "queues_list (qpds d 1) = [5]" "queues_list (qpds d 2) = [6]" "two_queues = Some d"
proof -
  obtain d3 where d3: "two_queues = Some d3" "queues_list (qpds d3 1) = [5]" "queues_list (qpds d3 2) = [6]" using two_queues_lists by auto
  then obtain r1 d1 r2 d2 r3 where run: "initialize_nocpsch True (env_demo\<lparr>kmalloc_obj := False\<rparr>) blank_demo = Some (r1, d1)"
    "create_queue_nocpsch env_demo 1 5 (add_queue 5 (queue_demo 1) d1) = Some (r2, d2)"
    "create_queue_nocpsch env_demo 2 6 (add_queue 6 (queue_demo 2) d2) = Some (r3, d3)" by (auto simp: two_queues_def split: bind_splits)
  have s: "dqm_start 1 d1" unfolding dqm_start_def using blank_demo_ok run(1) by (intro exI conjI) (assumption, simp add: blank_demo_def, assumption)
  note i1 = start_inv [OF s]
  have l1: "listed d1 = {}" using i1 by (auto simp: dqm_abs_def fun_eq_iff split: if_splits)
  have t: "qp_type (properties (queue_demo p)) = Type_compute" "q_process (queue_demo p) = p" for p by (simp_all add: queue_demo_def example_queue_def)
  have q1: "dqm_step d1 d2" using dqm_create [of 5 d1 "queue_demo 1" env_demo r2 d2] run(2) l1 t by simp
  have "listed d2 \<subseteq> {5}" using create_listed [of d1 5 "queue_demo 1" env_demo r2 d2] i1 l1 run(2) t by simp
  then have "6 \<notin> listed d2" by auto
  then have q2: "dqm_step d2 d3" using dqm_create [of 6 d2 "queue_demo 2" env_demo r3 d3] run(3) t by simp
  have "dqm_step\<^sup>*\<^sup>* d1 d3" using q1 q2 by (meson converse_rtranclp_into_rtranclp rtranclp.rtrancl_refl)
  then show thesis using s d3 that by blast
qed

section \<open>Properties\<close>



text \<open>
  The manager implements an assignment of VMIDs to processes and of places to queues, in which a VMID or a
  place is given out only while it is free, and a VMID is taken back only when no queue of the process has a
  place; and its three counters count the queues, the active ones and those of the SDMA engines.
\<close>

theorem dqm_refines_assignment:
  assumes "dqm_start n s" "dqm_step\<^sup>*\<^sup>* s d"
  shows "(hw_step n)\<^sup>*\<^sup>* (Map.empty, Map.empty) (dqm_abs d) \<and>
    total_queue_count d = of_nat (card {q. \<exists>p. q \<in> set (queues_list (qpds d p))}) \<and>
    queue_count d = of_nat (card {q. (\<exists>p. q \<in> set (queues_list (qpds d p))) \<and> is_active (properties (queues d q))}) \<and>
    sdma_queue_count d = of_nat (card {q. (\<exists>p. q \<in> set (queues_list (qpds d p))) \<and> qp_type (properties (queues d q)) = Type_sdma})"
proof -
  have "dqm_inv d" using dq.reachable_inv [OF assms] by simp
  moreover have "(hw_step n)\<^sup>*\<^sup>* (Map.empty, Map.empty) (dqm_abs d)" using dq.reachable_abs [OF assms] start_inv [OF assms(1)] by simp
  ultimately show ?thesis by (simp add: dqm_inv_def counts_ok_def listed_def active_def of_type_def)
qed

theorem dqm_refines_assignment_witness:
  "\<exists>d. two_queues = Some d \<and> (hw_step 1)\<^sup>*\<^sup>* (Map.empty, Map.empty) (dqm_abs d)"
proof -
  obtain s d where "dqm_start 1 s" "dqm_step\<^sup>*\<^sup>* s d" "two_queues = Some d" by (rule two_queues_reachable)
  then show ?thesis using dqm_refines_assignment by blast
qed

text \<open>
  Creating a queue is all or nothing. When it succeeds the queue is on the list of its process and no other
  list changes; when it fails, for want of a VMID, a place, memory or because the hardware does not load it,
  then the masks of free VMIDs and places, the chunk allocator, the lists, the VMIDs of all processes and
  the counters are what they were. On a reachable device whose buffer has a run of free chunks that holds
  the descriptor it does not fault; without one the chunk allocator has undefined behaviour.
\<close>

theorem dqm_create_all_or_nothing:
  assumes "dqm_start n s" "dqm_step\<^sup>*\<^sup>* s d" "q \<notin> listed d"
    and "qp_type (properties nq) = Type_compute \<or> qp_type (properties nq) = Type_sdma \<and> family d = Chip_kaveri"
  shows "((\<exists>i. free_run (dqm_gtt d) i (chunks_needed (dqm_gtt d) (mqd_size (family d) (mqd_kind (qp_type (properties nq)))))) \<longrightarrow>
      create_queue_nocpsch env (q_process nq) q (add_queue q nq d) \<noteq> None) \<and>
    (\<forall>r d'. create_queue_nocpsch env (q_process nq) q (add_queue q nq d) = Some (r, d') \<longrightarrow>
      (if r = 0 then \<forall>x. queues_list (qpds d' x) = (if x = q_process nq then q # queues_list (qpds d x) else queues_list (qpds d x)) else unchanged d d'))"
proof -
  let ?d = "add_queue q nq d"
  have inv: "dqm_inv ?d" "q \<notin> listed ?d" using add_queue_inv [of d q nq] dq.reachable_inv [OF assms(1,2)] assms(3) by simp_all
  have e: "q_process (queues ?d q) = q_process nq" "properties (queues ?d q) = properties nq" "family ?d = family d" "qpds ?d = qpds d" "dqm_gtt ?d = dqm_gtt d"
    by (simp_all add: add_queue_def)
  have u: "unchanged d d'" if "unchanged ?d d'" for d' using that by (simp add: unchanged_def add_queue_def)
  have "gtt_ok (dqm_gtt d)" using inv(1) e(5) by (auto simp: dqm_inv_def dqm_parts_def parts_def mem_inv_def gtt_inv_def)
  then have "fits (kmalloc_obj env) k ?d" if "free_run (dqm_gtt d) i (chunks_needed (dqm_gtt d) (mqd_size (family d) k))" for i k
    using run_allocates [OF _ that] e(3,5) by (simp add: fits_def del: not_None_eq)
  then show ?thesis using create_inv [OF inv, of "q_process nq" env] assms(4) u unfolding e by (elim disjE) (auto split: if_splits)
qed

lemma first_queue:
  "Option.bind no_queues (\<lambda>d. map_option fst (create_queue_nocpsch (env_demo\<lparr>hqd_load := - 5\<rparr>) 3 7 (add_queue 7 (queue_demo 3) d))) = Some (- 5)"
  "Option.bind no_queues (\<lambda>d. map_option fst (create_queue_nocpsch env_demo 3 7 (add_queue 7 (queue_demo 3) d))) = Some 0"
  by code_simp+

theorem dqm_create_all_or_nothing_witness:
  "\<exists>d d1 d2. no_queues = Some d \<and>
     create_queue_nocpsch (env_demo\<lparr>hqd_load := - 5\<rparr>) 3 7 (add_queue 7 (queue_demo 3) d) = Some (- 5, d1) \<and> unchanged d d1 \<and>
     create_queue_nocpsch env_demo 3 7 (add_queue 7 (queue_demo 3) d) = Some (0, d2) \<and> 7 \<in> set (queues_list (qpds d2 3))"
proof -
  obtain d where d: "no_queues = Some d" using first_queue(2) by (cases no_queues) auto
  then obtain r where "initialize_nocpsch True (env_demo\<lparr>kmalloc_obj := False\<rparr>) blank_demo = Some (r, d)" by (auto simp: no_queues_def)
  moreover have "compute_pipe_count blank_demo = 1" by (simp add: blank_demo_def)
  ultimately have s: "dqm_start 1 d" using blank_demo_ok unfolding dqm_start_def by blast
  have l: "7 \<notin> listed d" using start_inv [OF s] by (auto simp: dqm_abs_def fun_eq_iff split: if_splits)
  have t: "qp_type (properties (queue_demo 3)) = Type_compute" "q_process (queue_demo 3) = 3" by (simp_all add: queue_demo_def example_queue_def)
  obtain d1 d2 where r: "create_queue_nocpsch (env_demo\<lparr>hqd_load := - 5\<rparr>) 3 7 (add_queue 7 (queue_demo 3) d) = Some (- 5, d1)"
    "create_queue_nocpsch env_demo 3 7 (add_queue 7 (queue_demo 3) d) = Some (0, d2)" using first_queue unfolding d by auto
  note c = dqm_create_all_or_nothing [OF s rtranclp.rtrancl_refl l, of "queue_demo 3", unfolded t, THEN conjunct2, rule_format]
  have "unchanged d d1" using c [OF _ r(1)] by simp
  moreover have "7 \<in> set (queues_list (qpds d2 3))" using c [OF _ r(2)] by simp
  ultimately show ?thesis using d r by blast
qed

text \<open>
  A failure to destroy a hardware queue breaks this. \<open>destroy_queue_nocpsch\<close> gives the place of the queue
  back first; when the hardware queue then is not destroyed in time, the error is returned and the queue
  stays on its list, with its descriptor, but its place is marked free for the next queue.
\<close>

theorem dqm_failed_destroy_frees_slot:
  assumes "dqm_start n s" "dqm_step\<^sup>*\<^sup>* s d" "q \<in> set (queues_list (qpds d p))" "qp_type (properties (queues d q)) = Type_compute"
    and "hqd_destroy env \<noteq> 0" "Mqd_compute \<in> set (mqds d)"
  shows "\<exists>d'. destroy_queue_nocpsch env p q d = Some (hqd_destroy env, d') \<and> qpds d' = qpds d \<and> queues d' = queues d \<and>
    bit (allocated_queues d' ! q_pipe (queues d q)) (q_slot (queues d q))"
proof -
  have inv: "dqm_inv d" and n: "compute_pipe_count d = n" using dq.reachable_inv [OF assms(1,2)] by simp_all
  have q: "q \<in> listed d" "q \<in> of_type Type_compute d" using assms(3,4) by (auto simp: listed_def of_type_def)
  have p: "place_ok n (place_of (queues d q))" "length (allocated_queues d) = n" "q_mqd (queues d q) \<noteq> None"
    using place_in [OF inv q(1)] n inv q(1) by (simp_all add: dqm_inv_def dqm_parts_def parts_def slots_inv_def mem_inv_def)
  let ?i = "q_pipe (queues d q)" and ?b = "q_slot (queues d q)"
  have i: "?i < n" "?b < 8" using p(1) assms(4) by (simp_all add: place_of_def)
  let ?d = "d\<lparr>allocated_queues := (allocated_queues d)[?i := Bit_Operations.set_bit ?b (allocated_queues d ! ?i)]\<rparr>"
  have "destroy_queue_nocpsch env p q d = Some (hqd_destroy env, ?d)"
    using assms(4-6) p i by (simp add: destroy_queue_nocpsch_def release_slot_def get_mqd_manager_nocpsch_def deallocate_hqd_def nth_opt_def update_opt_def)
  then show ?thesis using i p(2) by (simp add: bit_set_bit_iff)
qed

theorem dqm_failed_destroy_frees_slot_witness:
  "\<exists>d d'. two_queues = Some d \<and> destroy_queue_nocpsch (env_demo\<lparr>hqd_destroy := - 62\<rparr>) 1 5 d = Some (- 62, d') \<and>
     queues_list (qpds d' 1) = [5] \<and> bit (allocated_queues d' ! q_pipe (queues d 5)) (q_slot (queues d 5))"
proof -
  obtain s d where d: "dqm_start 1 s" "dqm_step\<^sup>*\<^sup>* s d" "queues_list (qpds d 1) = [5]" "two_queues = Some d" by (rule two_queues_reachable)
  have "map_option (\<lambda>d. (qp_type (properties (queues d 5)), mqds d)) two_queues = Some (Type_compute, [Mqd_compute])" by code_simp
  then have "qp_type (properties (queues d 5)) = Type_compute" "Mqd_compute \<in> set (mqds d)" unfolding d(4) by simp_all
  then show ?thesis using dqm_failed_destroy_frees_slot [OF d(1,2), of 5 1 "env_demo\<lparr>hqd_destroy := - 62\<rparr>"] d(3,4) by auto
qed

end
