(* ===== verification/Spec2Isabelle.thy ===== *)
theory Spec2Isabelle
  imports Fixpt31_32 Fixpt32_32 Bw_Fixed Atom_Parse Sub_Alloc_Inv Sched_Inv Pll Fence_Inv Kfd_Irq Kfd_Ids Kfd_Mem Kfd_Mqd Kfd_Kq Kfd_Queues
begin

text \<open>
  Verification of parts of the AMD GPU kernel driver under \<open>src/amd\<close>: the driver \<open>amdgpu\<close>, its
  GPU scheduler, its display library \<open>dal\<close> and the compute driver \<open>amdkfd\<close>.

  \<^bold>\<open>The parts and how they interact.\<close> The driver hands the work of its clients to the hardware rings
  through one scheduler per ring (\<open>scheduler/gpu_scheduler.c\<close>, \<open>scheduler/sched_fence.c\<close>). The fences
  that tell the scheduler of the end of a job come from the sequence numbers that the ring writes back
  (\<open>amdgpu/amdgpu_fence.c\<close>). The
  command buffers it writes itself come from a sub-allocator (\<open>amdgpu/amdgpu_sa.c\<close>), which takes a
  piece back when the fence of the job that used it signals. Chip initialisation, clocks and display
  outputs run tables of the video BIOS in an interpreter (\<open>amdgpu/atom.c\<close>). The pixel clocks of the
  displays come from PLLs whose dividers \<open>amdgpu/amdgpu_pll.c\<close> computes. The display library does its
  colour, scaling and bandwidth computations in fixed point (\<open>dal/dc/basics/fixpt31_32.c\<close>,
  \<open>dal/dc/basics/fixpt32_32.c\<close>, \<open>dal/dc/calcs/bw_fixed.c\<close>). The compute driver gives user processes queues
  of their own: each process has a PASID, which selects its page of doorbells (\<open>amdkfd/kfd_pasid.c\<close>,
  \<open>amdkfd/kfd_doorbell.c\<close>), and apertures in its address space (\<open>amdkfd/kfd_flat_memory.c\<close>); each queue
  has a descriptor (\<open>amdkfd/kfd_mqd_manager_cik.c\<close>, \<open>amdkfd/kfd_mqd_manager_vi.c\<close>) in memory from a
  bitmap allocator (\<open>amdkfd/kfd_device.c\<close>); the device queue manager gives each process a VMID and each
  queue its place in the hardware (\<open>amdkfd/kfd_device_queue_manager.c\<close>); the driver itself sends packets to
  the hardware scheduler through rings (\<open>amdkfd/kfd_kernel_queue.c\<close>); the interrupts of the queues reach the work queue of the driver
  through a ring (\<open>amdkfd/kfd_interrupt.c\<close>).

  \<^bold>\<open>Conventions.\<close> C integers are words of their width (\<open>Prelude\<close>); casts, wrap-around and the signedness
  of comparisons are those of the code. Undefined behaviour and traps (division by zero, a shift by the
  width, an access outside an array, a NULL pointer, a release of memory that was not allocated) are \<open>None\<close> or \<open>Fault\<close>. Loops that C does not
  bound have fuel and return \<open>Timeout\<close> when it is used up. Definitions have the names of the C
  functions; a definition with another name is a part of the function that the manifest gives for it.
  What the sources do not contain, hardware registers, kernel services, the backend of the scheduler,
  the state of fences, is an argument.

  \<^bold>\<open>Shared theories.\<close>
  \<^item> \<open>Prelude\<close>: words as numbers, C division and shifts, array access, outcomes.
  \<^item> \<open>Machine\<close>: the locale \<open>simulation\<close>, for a step relation with an invariant and an abstract
    machine. The sub-allocator, the scheduler, the fence driver, and the chunk allocator, the interrupt ring
    and the queue manager of the compute driver are interpretations.
  \<^item> \<open>Bitmap\<close>: the bit searches of the kernel. \<open>Id_Pool\<close>: the locales \<open>id_pool\<close> and \<open>total_pool\<close>, for
    allocators of small numbers; PASIDs and kernel doorbells are interpretations, and every pool is a
    simulation of a set of numbers.
  \<^item> \<open>Fixed_Arith\<close>: the locales \<open>long_division\<close> and \<open>fixed_parts\<close>, for the shift-and-subtract
    division and the product of parts that all three fixed-point libraries use. \<open>Fixed_Order\<close>: the
    locale \<open>fixed_order\<close>, for their comparisons. Each library interprets them on its own functions.

  \<^bold>\<open>Fixed point.\<close> \<open>Fixpt31_32\<close>, \<open>Fixpt32_32\<close> and \<open>Bw_Fixed\<close> model every function of their C
  files. Shown: fractions and quotients are rounded to nearest; products are exact up to one unit;
  conversions to integers; that the power series of the exponential and the trigonometric functions have
  results, and where the exponential traps; enclosures of \<open>bw_floor2\<close> and \<open>bw_ceil2\<close>. The loops of these
  files are bounded by their counters, so the models are total functions; Newton's iteration for the
  logarithm is not and is a partial function.

  \<^bold>\<open>The interpreter.\<close> \<open>Atom_Operands\<close> models the contexts, the indirect register programs and the
  reading, skipping and writing of operands; \<open>Atom_Exec\<close> every opcode handler, the opcode table, the
  loop and the call of tables; \<open>Atom_Inv\<close> the shape of the contexts and the watchdog; \<open>Atom_Parse\<close>
  the parsing of the image, the index of register programs, ASIC initialisation and the scratch buffer.
  The callbacks of the card and the kernel's clock are records of functions. Shown: reading and skipping
  an operand agree on its length; what is written is read back; a table leaves the caller's context in
  shape; more fuel does not change a result; the watchdog ends a loop with one jump when the clock runs,
  and does not see a loop with two; what parsing accepts, and that the index of an image of at most 64
  kilobytes is right. Fuel counts opcodes and nested calls.

  \<^bold>\<open>The sub-allocator.\<close> \<open>Sub_Alloc\<close> models all operations on the lists of a manager; \<open>Sub_Alloc_Inv\<close>
  its life. The C lists are lists of pieces; the hole is a piece or the head. Each walk over the lists may
  see other fences signalled, and a blocked allocation finds the manager as other threads left it. Shown:
  reachable managers have disjoint pieces inside the buffer; the search of an allocation ends after at
  most two iterations per piece and two more, which is the fuel; a search takes no piece away that is in
  use; the piece it places is as asked for; the manager implements an allocator of intervals; once all
  fences have signalled an allocation succeeds in two iterations. Managers are assumed to have a size and
  an alignment whose sum fits in 32 bits, and requests an alignment other than zero: \<open>amdgpu_sa_bo_new\<close> lets
  zero pass, and the search then divides by it.

  \<^bold>\<open>The scheduler.\<close> \<open>Sched\<close> models run queues, entities, jobs, their two fences with the callbacks on
  them, the worker, the timers, reset and recovery. \<open>Sched_Inv\<close> lets all handlers interleave, between two
  resets of the hardware: a reset is not a step, and its effect on a reachable state is shown apart. Shown: the
  counter of the ring is the number of jobs in flight and within the limit; the jobs of an entity run in
  their order and once; the worker sleeps only when there is nothing to do; an entity that waits has its
  callback on the fence; a job is run only when its dependencies are satisfied; the round robin is fair;
  the mirror list holds the jobs in flight and its first job has a running timer; a recovery after a reset
  runs exactly the jobs of this list again; and that a reset faults on a job without a hardware fence.

  \<^bold>\<open>The PLL.\<close> \<open>Pll\<close> models \<open>amdgpu_pll.c\<close>. Shown: the clock of the dividers found is the closest
  of the allowed range, when the limits of the PLL are so moderate that no product overflows; reducing a ratio keeps it; the limits of the dividers, and that post dividers above 128 trap; the
  use mask and the lookups of a PLL to share agree.

  \<^bold>\<open>Fences.\<close> \<open>Fence_Drv\<close> models \<open>amdgpu_fence.c\<close>; \<open>Fence_Inv\<close> lets a GPU that writes sequence numbers, the
  emitting thread, and any number of interrupts and timers that process fences interleave. Shown: every
  fence signals once, after the GPU has passed it, and in the order of emission; processing signals exactly
  the fences the GPU has passed and never finds an empty slot; an emission waits for the fence that had its
  slot; after 2^32 emissions waiting for an empty ring may return early. The loop over the slots has fuel
  for one round of the array, which is enough because at most so many fences are outstanding.

  \<^bold>\<open>The compute driver.\<close> \<open>Kfd_Gtt\<close> models the chunk allocator: live ranges are disjoint, marked in the
  bitmap, first fit and the fewest chunks that hold the size asked for, when the number of chunks is a
  multiple of eight; otherwise the bitmap, whose size is rounded down, is left. An allocation that finds no
  run of free chunks releases a pointer that was not allocated, which is \<open>None\<close> here and in all that call
  it; \<open>Kfd_Gtt_Use\<close> has the facts for its users: objects taken in turn, their release in any order, and
  room for those to come. \<open>Kfd_Irq\<close> models the interrupt ring
  as two threads that share it without a lock: it is a queue, drops an interrupt only with 1023 entries
  waiting, loses no wake-up, and the loop of the work ends. \<open>Kfd_Ids\<close> models PASIDs and doorbells: numbers
  in use are distinct; doorbells of queues are inside the BAR and apart from those of other processes and
  of the kernel, unless the BAR has less than three pages. \<open>Kfd_Mem\<close> models apertures and shader memory
  registers: apertures do not overlap, and a memory policy is accepted exactly when the registers can
  express it. \<open>Kfd_Mqd\<close> models the descriptors of both chip generations: for every queue that the ioctl
  accepts they decode to the queue asked for, unless the ring has less than eight bytes. \<open>Kfd_Kq\<close> models the
  queues of the driver itself: the ring delivers the packets in order, unless one wraps over unread words;
  setting a queue up is undone by taking it down, and on failure by the error path, except for the fence of
  a debug queue. \<open>Kfd_Dqm\<close> models the device queue manager with and without the hardware scheduler;
  \<open>Kfd_Dqm_Inv\<close> the VMIDs, hardware queues, SDMA engines and descriptors of a device and what each operation
  does to them; \<open>Kfd_Queues\<close> the life of a device without the hardware scheduler: queues of different
  processes are isolated, the manager implements an assignment of places and VMIDs, creating a queue is all
  or nothing, and a queue whose destruction fails loses its place. SDMA queues of the newer chip are left
  out there, since their manager has no functions.

  \<^bold>\<open>Not modelled.\<close> The code that programs registers (engines, display blocks, power management), which
  has no meaning without a model of the hardware; memory management, which is built on kernel libraries
  that are not part of the sources; the process queue manager, the packets to the hardware
  scheduler, events and topology of the compute driver; command
  submission; reference counts, locks, parking of threads, debug output and trace points in the modelled
  files.
\<close>

end
